(* ===== verification/Prelude.thy ===== *)
theory Prelude
  imports Main "HOL-Library.Code_Target_Nat"
begin

text \<open>
  Shared vocabulary of the development.

  A JavaScript string is the list of its UTF-16 code units (\<open>jsstr\<close>), so that
  \<open>charCodeAt\<close>, \<open>slice\<close>, \<open>length\<close> and indexing count what the code counts.  Indexing past the
  end gives \<open>undefined\<close>, modelled by \<open>None\<close> (\<open>char_at\<close>).  The string functions below are
  the ones of the ECMAScript library that the modelled files use: \<open>indexOf\<close> and \<open>lastIndexOf\<close>
  of a single character, \<open>slice\<close>, \<open>split\<close> on one character, \<open>join\<close>, and \<open>toString\<close> and
  \<open>parseInt\<close> with a radix on non-negative integers.
\<close>

section \<open>Strings as lists of code units\<close>

type_synonym jsstr = "nat list"

text \<open>Literals: \<open>js ''file:''\<close> is the list of the code units of \<open>'file:'\<close>.\<close>

definition js :: "string \<Rightarrow> jsstr" where
  "js s = map of_char s"

lemma js_simps [simp]:
  "js [] = []"
  "js (c # cs) = of_char c # js cs"
  by (simp_all add: js_def)

lemma length_js [simp]: "length (js s) = length s"
  by (simp add: js_def)

definition char_at :: "'a list \<Rightarrow> nat \<Rightarrow> 'a option" where
  "char_at s i = (if i < length s then Some (s ! i) else None)"

lemma char_at_Nil [simp]: "char_at [] i = None"
  by (simp add: char_at_def)

lemma char_at_Cons [simp]:
  "char_at (x # xs) 0 = Some x"
  "char_at (x # xs) (Suc i) = char_at xs i"
  by (simp_all add: char_at_def)

lemma char_at_None_iff: "char_at s i = None \<longleftrightarrow> length s \<le> i"
  by (auto simp: char_at_def)

lemma char_at_SomeD: "char_at s i = Some c \<Longrightarrow> i < length s \<and> s ! i = c"
  by (auto simp: char_at_def split: if_splits)

lemma char_at_in_set: "char_at s i = Some c \<Longrightarrow> c \<in> set s"
  by (auto simp: char_at_def split: if_splits)

definition slice :: "'a list \<Rightarrow> nat \<Rightarrow> nat \<Rightarrow> 'a list" where
  "slice s a b = take (b - a) (drop a s)"

lemma slice_empty [simp]: "slice s a a = []"
  by (simp add: slice_def)

lemma slice_Suc:
  assumes "a \<le> b" and "b < length s"
  shows "slice s a (Suc b) = slice s a b @ [s ! b]"
  using assms by (simp add: slice_def Suc_diff_le take_Suc_conv_app_nth)

lemma length_slice: "length (slice s a b) = min (b - a) (length s - a)"
  by (simp add: slice_def min.commute)

lemma nat_int_Suc: "nat (int i + 1) = Suc i"
  by simp

section \<open>Searching\<close>

fun index_of :: "'a \<Rightarrow> 'a list \<Rightarrow> int" where
  "index_of c [] = -1"
| "index_of c (x # xs) =
     (if x = c then 0 else (let r = index_of c xs in if r = -1 then -1 else r + 1))"

definition last_index_of :: "'a \<Rightarrow> 'a list \<Rightarrow> int" where
  "last_index_of c s =
     (let r = index_of c (rev s) in if r = -1 then -1 else int (length s) - 1 - r)"

lemma index_of_range: "-1 \<le> index_of c s \<and> index_of c s < int (length s)"
  by (induction s) (auto simp: Let_def)

lemma index_of_absent: "index_of c s = -1 \<longleftrightarrow> c \<notin> set s"
proof (induction s)
  case (Cons x xs)
  then show ?case using index_of_range [of c xs] by (auto simp: Let_def)
qed simp

lemma index_of_append:
  "c \<notin> set xs \<Longrightarrow> index_of c (xs @ c # ys) = int (length xs)"
  by (induction xs) (auto simp: Let_def)

lemma last_index_of_absent: "c \<notin> set s \<Longrightarrow> last_index_of c s = -1"
  by (simp add: last_index_of_def index_of_absent)

lemma last_index_of_append:
  assumes "c \<notin> set ys"
  shows "last_index_of c (xs @ c # ys) = int (length xs)"
  using assms index_of_append [of c "rev ys" "rev xs"]
  by (simp add: last_index_of_def)

lemma last_index_of_cases:
  obtains (absent) "c \<notin> set s" "last_index_of c s = -1"
  | (last) xs ys where "s = xs @ c # ys" "c \<notin> set ys" "last_index_of c s = int (length xs)"
proof (cases "c \<in> set s")
  case True
  then obtain xs ys where "s = xs @ c # ys" "c \<notin> set ys" by (metis split_list_last)
  then show ?thesis using last last_index_of_append by metis
next
  case False
  then show ?thesis using absent last_index_of_absent by metis
qed

section \<open>Splitting and joining\<close>

fun split_on :: "('a \<Rightarrow> bool) \<Rightarrow> 'a list \<Rightarrow> 'a list list" where
  "split_on P [] = [[]]"
| "split_on P (x # xs) =
     (if P x then [] # split_on P xs
      else (case split_on P xs of [] \<Rightarrow> [[x]] | y # ys \<Rightarrow> (x # y) # ys))"

abbreviation js_split :: "'a \<Rightarrow> 'a list \<Rightarrow> 'a list list" where
  "js_split c \<equiv> split_on (\<lambda>x. x = c)"

fun js_join :: "'a list \<Rightarrow> 'a list list \<Rightarrow> 'a list" where
  "js_join sep [] = []"
| "js_join sep [x] = x"
| "js_join sep (x # y # zs) = x @ sep @ js_join sep (y # zs)"

lemma split_on_not_Nil [simp]: "split_on P xs \<noteq> []"
  by (induction xs) (auto split: list.splits)

lemma split_on_none: "\<forall>x \<in> set xs. \<not> P x \<Longrightarrow> split_on P xs = [xs]"
  by (induction xs) auto

lemma split_on_append:
  assumes "\<forall>x \<in> set xs. \<not> P x" and "P c"
  shows "split_on P (xs @ c # ys) = xs # split_on P ys"
  using assms(1) by (induction xs) (auto simp: assms(2))

lemma concat_split_on: "concat (split_on P xs) = filter (\<lambda>x. \<not> P x) xs"
  by (induction xs) (auto split: list.splits)

lemma split_on_segments:
  assumes "s \<in> set (split_on P xs)" and "x \<in> set s"
  shows "\<not> P x" and "x \<in> set xs"
proof -
  have "x \<in> set (concat (split_on P xs))" using assms by auto
  then show "\<not> P x" and "x \<in> set xs" by (simp_all add: concat_split_on)
qed

lemma js_join_Cons: "ys \<noteq> [] \<Longrightarrow> js_join sep (x # ys) = x @ sep @ js_join sep ys"
  by (cases ys) auto

lemma js_join_head:
  "js_join sep ((x @ y) # ys) = x @ js_join sep (y # ys)"
  "js_join sep ((c # y) # ys) = c # js_join sep (y # ys)"
  by (cases ys; simp)+

lemma js_join_snoc: "xs \<noteq> [] \<Longrightarrow> js_join sep (xs @ [y]) = js_join sep xs @ sep @ y"
proof (induction xs)
  case (Cons a xs)
  then show ?case by (cases xs) (auto simp: js_join_Cons)
qed simp

lemma js_split_join:
  assumes "ps \<noteq> []" and "\<forall>p \<in> set ps. c \<notin> set p"
  shows "js_split c (js_join [c] ps) = ps"
  using assms
proof (induction "[c]" ps rule: js_join.induct)
  case (2 x)
  then show ?case by (auto intro!: split_on_none)
next
  case (3 x y zs)
  have "js_split c (js_join [c] (x # y # zs)) = js_split c (x @ c # js_join [c] (y # zs))"
    by simp
  also have "\<dots> = x # js_split c (js_join [c] (y # zs))"
    using 3 by (intro split_on_append) auto
  finally show ?case using 3 by simp
qed simp

section \<open>Trimming and padding\<close>

text \<open>The white space and line terminators of ECMAScript, which \<open>trim\<close>, \<open>trimLeft\<close> and
  \<open>trimRight\<close> remove.\<close>

definition js_whitespace :: "nat \<Rightarrow> bool" where
  "js_whitespace c \<longleftrightarrow> (9 \<le> c \<and> c \<le> 13) \<or> c = 32 \<or> c = 160 \<or> c = 0x1680 \<or> (0x2000 \<le> c \<and> c \<le> 0x200a) \<or>
     c = 0x2028 \<or> c = 0x2029 \<or> c = 0x202f \<or> c = 0x205f \<or> c = 0x3000 \<or> c = 0xfeff"

definition trimLeft :: "jsstr \<Rightarrow> jsstr" where
  "trimLeft s = dropWhile js_whitespace s"

definition trimRight :: "jsstr \<Rightarrow> jsstr" where
  "trimRight s = rev (dropWhile js_whitespace (rev s))"

definition js_trim :: "jsstr \<Rightarrow> jsstr" where
  "js_trim s = trimRight (trimLeft s)"

definition padStart :: "nat \<Rightarrow> nat \<Rightarrow> jsstr \<Rightarrow> jsstr" where
  "padStart n c s = replicate (n - length s) c @ s"

definition padEnd :: "nat \<Rightarrow> nat \<Rightarrow> jsstr \<Rightarrow> jsstr" where
  "padEnd n c s = s @ replicate (n - length s) c"

lemma trimLeft_id: "s = [] \<or> \<not> js_whitespace (hd s) \<Longrightarrow> trimLeft s = s"
  by (cases s) (auto simp: trimLeft_def)

lemma trimRight_id: "s = [] \<or> \<not> js_whitespace (last s) \<Longrightarrow> trimRight s = s"
  by (cases s rule: rev_cases) (auto simp: trimRight_def)

section \<open>Lower case\<close>

text \<open>\<open>toLowerCase\<close> follows tables of Unicode; on ASCII text it is \<open>ascii_lower\<close>, which is all that the
  proofs use of it.\<close>

definition ascii_lower :: "jsstr \<Rightarrow> jsstr" where
  "ascii_lower s = map (\<lambda>c. if 65 \<le> c \<and> c \<le> 90 then c + 32 else c) s"

definition lower_law :: "(jsstr \<Rightarrow> jsstr) \<Rightarrow> bool" where
  "lower_law lower \<longleftrightarrow> (\<forall>s. (\<forall>c \<in> set s. c < 128) \<longrightarrow> lower s = ascii_lower s)"

lemma lower_law_ascii: "lower_law ascii_lower"
  by (simp add: lower_law_def)

section \<open>Numbers in a radix\<close>

definition digit_char :: "nat \<Rightarrow> nat" where
  "digit_char d = (if d < 10 then 48 + d else 87 + d)"

definition digit_val :: "nat \<Rightarrow> nat" where
  "digit_val c =
     (if 48 \<le> c \<and> c \<le> 57 then c - 48
      else if 97 \<le> c \<and> c \<le> 122 then c - 87
      else if 65 \<le> c \<and> c \<le> 90 then c - 55 else 0)"

text \<open>\<open>n.toString(b)\<close> and \<open>parseInt(s, b)\<close> on a string of digits of the radix.\<close>

function to_radix :: "nat \<Rightarrow> nat \<Rightarrow> jsstr" where
  "to_radix b n =
     (if n < b \<or> b < 2 then [digit_char n]
      else to_radix b (n div b) @ [digit_char (n mod b)])"
  by pat_completeness auto
termination
  by (relation "measure snd") auto

declare to_radix.simps [simp del]

definition parse_radix :: "nat \<Rightarrow> jsstr \<Rightarrow> nat" where
  "parse_radix b s = foldl (\<lambda>v c. v * b + digit_val c) 0 s"

lemma parse_radix_snoc [simp]: "parse_radix b (s @ [c]) = parse_radix b s * b + digit_val c"
  by (simp add: parse_radix_def)

lemma parse_radix_Nil [simp]: "parse_radix b [] = 0"
  by (simp add: parse_radix_def)

lemma digit_val_char: "d < 36 \<Longrightarrow> digit_val (digit_char d) = d"
  by (auto simp: digit_val_def digit_char_def)

lemma to_radix_not_Nil [simp]: "to_radix b n \<noteq> []"
  by (subst to_radix.simps) simp

lemma parse_to_radix:
  assumes "2 \<le> b" and "b \<le> 36"
  shows "parse_radix b (to_radix b n) = n"
proof (induction n rule: less_induct)
  case (less n)
  show ?case
  proof (cases "n < b")
    case True
    then show ?thesis using assms parse_radix_snoc [of b "[]"]
      by (simp add: to_radix.simps [of b n] digit_val_char)
  next
    case False
    have "n mod b < 36" using assms mod_less_divisor [of b n] by linarith
    with False assms less [of "n div b"] show ?thesis
      by (simp add: to_radix.simps [of b n] digit_val_char)
  qed
qed

lemma to_radix_digits:
  assumes "2 \<le> b" and "c \<in> set (to_radix b n)"
  shows "\<exists>d < b. c = digit_char d"
  using assms(2)
proof (induction n rule: less_induct)
  case (less n)
  show ?case
  proof (cases "n < b")
    case True
    then show ?thesis using less.prems by (auto simp: to_radix.simps [of b n])
  next
    case False
    then have "c = digit_char (n mod b) \<or> c \<in> set (to_radix b (n div b))"
      using less.prems assms(1) by (auto simp: to_radix.simps [of b n])
    moreover have "n mod b < b" "n div b < n" using assms(1) False by auto
    ultimately show ?thesis using less.IH by blast
  qed
qed

lemma digit_char_zero: "digit_char d = 48 \<longleftrightarrow> d = 0"
  by (auto simp: digit_char_def)

lemma to_radix_head:
  assumes "2 \<le> b" and "0 < n"
  shows "to_radix b n ! 0 \<noteq> 48"
  using assms(2)
proof (induction n rule: less_induct)
  case (less n)
  show ?case
  proof (cases "n < b")
    case True
    then show ?thesis using less.prems assms(1) by (simp add: to_radix.simps [of b n] digit_char_zero)
  next
    case False
    then have "0 < n div b" "n div b < n" using assms(1) less.prems by (auto simp: div_greater_zero_iff)
    then show ?thesis
      using less.IH [of "n div b"] False assms(1)
      by (simp add: to_radix.simps [of b n] nth_append)
  qed
qed

lemma length_to_radix:
  assumes "2 \<le> b" and "n < b ^ Suc k"
  shows "length (to_radix b n) \<le> Suc k"
  using assms(2)
proof (induction k arbitrary: n)
  case 0
  then show ?case by (simp add: to_radix.simps [of b n])
next
  case (Suc k)
  then have "n div b < b ^ Suc k" using assms(1) by (simp add: div_less_iff_less_mult mult.commute)
  from Suc.IH [OF this] show ?case by (simp add: to_radix.simps [of b n])
qed

lemma to_radix_long: "2 \<le> length (to_radix b n) \<Longrightarrow> b \<le> n \<and> 2 \<le> b"
  by (auto simp: to_radix.simps [of b n] split: if_splits)

text \<open>\<open>parseInt(s, 10)\<close>: leading white space, a sign, and the digits after it; \<open>None\<close> is \<open>NaN\<close>.  The
  engine's result is exact up to \<open>2 ^ 53\<close>.\<close>

definition is_digit :: "nat \<Rightarrow> bool" where
  "is_digit c \<longleftrightarrow> 48 \<le> c \<and> c \<le> 57"

definition parse_int10 :: "jsstr \<Rightarrow> int option" where
  "parse_int10 s =
     (let t = trimLeft s;
          neg = (t \<noteq> [] \<and> hd t = 45);
          u = (if t \<noteq> [] \<and> (hd t = 45 \<or> hd t = 43) then tl t else t);
          d = takeWhile is_digit u
      in if d = [] then None
         else Some (if neg then - int (parse_radix 10 d) else int (parse_radix 10 d)))"

lemma to_radix_10_digits: "c \<in> set (to_radix 10 n) \<Longrightarrow> is_digit c"
  using to_radix_digits [of 10 c n] by (auto simp: is_digit_def digit_char_def)

lemma parse_int10_to_radix: "parse_int10 (to_radix 10 n) = Some (int n)"
proof -
  have d: "is_digit (hd (to_radix 10 n))" using to_radix_10_digits hd_in_set to_radix_not_Nil by blast
  then have "\<not> js_whitespace (hd (to_radix 10 n))" by (auto simp: is_digit_def js_whitespace_def)
  moreover have "takeWhile is_digit (to_radix 10 n) = to_radix 10 n"
    using to_radix_10_digits by (simp add: takeWhile_eq_all_conv)
  moreover have "hd (to_radix 10 n) \<noteq> 45" "hd (to_radix 10 n) \<noteq> 43" using d by (auto simp: is_digit_def)
  ultimately show ?thesis 
    by (simp add: parse_int10_def Let_def trimLeft_id parse_to_radix del: takeWhile_eq_all_conv)
qed

section \<open>Results of code that may throw\<close>

text \<open>\<open>Overrun\<close> is a native memory access outside its buffer: not an exception but undefined
  behaviour, where the model stops.\<close>

datatype js_error = TypeError | URIError | RangeError | OtherError | Overrun

type_synonym 'a js_result = "js_error + 'a"

definition js_bind :: "'a js_result \<Rightarrow> ('a \<Rightarrow> 'b js_result) \<Rightarrow> 'b js_result" where
  "js_bind m f = (case m of Inl e \<Rightarrow> Inl e | Inr x \<Rightarrow> f x)"

lemma js_bind_simps [simp]: "js_bind (Inl e) f = Inl e" "js_bind (Inr x) f = f x"
  by (simp_all add: js_bind_def)

lemma js_bind_cong: "m = m' \<Longrightarrow> (\<And>x. m' = Inr x \<Longrightarrow> f x = f' x) \<Longrightarrow> js_bind m f = js_bind m' f'"
  by (cases m') auto

lemma js_bind_Inr: "js_bind m f = Inr y \<longleftrightarrow> (\<exists>x. m = Inr x \<and> f x = Inr y)"
  by (cases m) auto

text \<open>Code that may also not return: \<open>None\<close> stands for a recursion or a loop without end.\<close>

definition run_bind :: "'a js_result option \<Rightarrow> ('a \<Rightarrow> 'b js_result option) \<Rightarrow> 'b js_result option" where
  "run_bind m f = Option.bind m (\<lambda>r. case r of Inl e \<Rightarrow> Some (Inl e) | Inr x \<Rightarrow> f x)"

lemma run_bind_simps [simp]:
  "run_bind None f = None" "run_bind (Some (Inl e)) f = Some (Inl e)" "run_bind (Some (Inr x)) f = f x"
  by (simp_all add: run_bind_def)

lemma run_bind_mono [partial_function_mono]:
  assumes "monotone option.le_fun option_ord f" and "\<And>y. monotone option.le_fun option_ord (\<lambda>g. h y g)"
  shows "monotone option.le_fun option_ord (\<lambda>g. run_bind (f g) (\<lambda>y. h y g))"
proof -
  have "monotone option.le_fun option_ord (\<lambda>g. case y of Inl e \<Rightarrow> Some (Inl e) | Inr x \<Rightarrow> h x g)" for y
    using assms(2) by (cases y) (auto intro: monotoneI simp: flat_ord_def)
  then show ?thesis unfolding run_bind_def using assms(1) by (intro bind_mono)
qed

section \<open>Codecs\<close>

text \<open>An encoder and a partial decoder that reads back what the encoder wrote for valid values.\<close>

locale codec =
  fixes enc :: "'a \<Rightarrow> 'b" and dec :: "'b \<Rightarrow> 'a option" and valid :: "'a \<Rightarrow> bool"
  assumes dec_enc: "valid x \<Longrightarrow> dec (enc x) = Some x"
begin

lemma enc_inj: "valid x \<Longrightarrow> valid y \<Longrightarrow> enc x = enc y \<Longrightarrow> x = y"
  by (metis dec_enc option.inject)

lemma enc_inj_iff: "valid x \<Longrightarrow> valid y \<Longrightarrow> enc x = enc y \<longleftrightarrow> x = y"
  using enc_inj by auto

lemma dec_some: "valid x \<Longrightarrow> \<exists>y. dec (enc x) = Some y \<and> enc y = enc x"
  by (simp add: dec_enc)

end

section \<open>Keyed stores\<close>

text \<open>
  What code that keeps values under keys relies on: a lookup sees the last insertion and not a
  removed key.  \<open>ok\<close> is the invariant of the representation.
\<close>

locale keyed_store =
  fixes lookup :: "'s \<Rightarrow> 'k \<Rightarrow> 'v option" and insert :: "'k \<Rightarrow> 'v \<Rightarrow> 's \<Rightarrow> 's"
    and remove :: "'k \<Rightarrow> 's \<Rightarrow> 's" and ok :: "'s \<Rightarrow> bool"
  assumes lookup_insert: "ok s \<Longrightarrow> lookup (insert k v s) j = (if j = k then Some v else lookup s j)"
    and lookup_remove: "ok s \<Longrightarrow> lookup (remove k s) j = (if j = k then None else lookup s j)"
    and ok_insert: "ok s \<Longrightarrow> ok (insert k v s)"
    and ok_remove: "ok s \<Longrightarrow> ok (remove k s)"
begin

definition insert_all :: "('k \<times> 'v) list \<Rightarrow> 's \<Rightarrow> 's" where
  "insert_all kvs s = foldl (\<lambda>s (k, v). insert k v s) s kvs"

lemma insert_all_simps [simp]:
  "insert_all [] s = s" "insert_all ((k, v) # kvs) s = insert_all kvs (insert k v s)"
  by (simp_all add: insert_all_def)

lemma lookup_overwrite: "ok s \<Longrightarrow> lookup (insert k w (insert k v s)) j = lookup (insert k w s) j"
  by (simp add: lookup_insert ok_insert)

lemma lookup_insert_swap:
  "ok s \<Longrightarrow> k \<noteq> l \<Longrightarrow> lookup (insert k v (insert l w s)) j = lookup (insert l w (insert k v s)) j"
  by (simp add: lookup_insert ok_insert)

lemma lookup_remove_insert: "ok s \<Longrightarrow> lookup (remove k (insert k v s)) j = lookup (remove k s) j"
  by (simp add: lookup_insert lookup_remove ok_insert)

lemma ok_insert_all: "ok s \<Longrightarrow> ok (insert_all kvs s)"
  by (induction kvs arbitrary: s) (auto simp: ok_insert)

lemma lookup_insert_all:
  "ok s \<Longrightarrow> lookup (insert_all kvs s) j =
    (case map_of (rev kvs) j of None \<Rightarrow> lookup s j | Some v \<Rightarrow> Some v)"
proof (induction kvs arbitrary: s)
  case (Cons kv kvs)
  then show ?case
    by (cases kv) (auto simp: lookup_insert ok_insert map_add_def split: option.split)
qed simp

end

text \<open>The \<open>Map\<close> of JavaScript keeps its entries in the order of insertion; \<open>set\<close> on a present key
  keeps the entry's place.\<close>

type_synonym ('k, 'v) js_map = "('k \<times> 'v) list"

fun jsmap_set :: "'k \<Rightarrow> 'v \<Rightarrow> ('k, 'v) js_map \<Rightarrow> ('k, 'v) js_map" where
  "jsmap_set k v [] = [(k, v)]"
| "jsmap_set k v ((j, w) # m) = (if j = k then (k, v) # m else (j, w) # jsmap_set k v m)"

definition jsmap_get :: "('k, 'v) js_map \<Rightarrow> 'k \<Rightarrow> 'v option" where
  "jsmap_get m k = map_of m k"

definition jsmap_has :: "('k, 'v) js_map \<Rightarrow> 'k \<Rightarrow> bool" where
  "jsmap_has m k \<longleftrightarrow> jsmap_get m k \<noteq> None"

definition jsmap_delete :: "'k \<Rightarrow> ('k, 'v) js_map \<Rightarrow> ('k, 'v) js_map" where
  "jsmap_delete k m = filter (\<lambda>(j, w). j \<noteq> k) m"

abbreviation jsmap_ok :: "('k, 'v) js_map \<Rightarrow> bool" where
  "jsmap_ok m \<equiv> distinct (map fst m)"

lemma jsmap_get_set: "jsmap_get (jsmap_set k v m) j = (if j = k then Some v else jsmap_get m j)"
  by (induction m) (auto simp: jsmap_get_def)

lemma jsmap_get_delete: "jsmap_get (jsmap_delete k m) j = (if j = k then None else jsmap_get m j)"
  by (induction m) (auto simp: jsmap_get_def jsmap_delete_def)

lemma jsmap_set_keys: "fst ` set (jsmap_set k v m) = insert k (fst ` set m)"
  by (induction k v m rule: jsmap_set.induct) auto

lemma jsmap_ok_set: "jsmap_ok m \<Longrightarrow> jsmap_ok (jsmap_set k v m)"
  by (induction k v m rule: jsmap_set.induct) (auto simp: jsmap_set_keys)

lemma jsmap_ok_delete: "jsmap_ok m \<Longrightarrow> jsmap_ok (jsmap_delete k m)"
  by (simp add: jsmap_delete_def distinct_map_filter)

interpretation jsmap: keyed_store jsmap_get jsmap_set jsmap_delete jsmap_ok
  by unfold_locales (simp_all add: jsmap_get_set jsmap_get_delete jsmap_ok_set jsmap_ok_delete)

end
