(* ===== verification/Path.thy ===== *)
theory Path
  imports Prelude
begin

text \<open>
  The path module of the runtime, \<open>src/src/lib/path.js\<close>: \<open>baseName\<close>, \<open>fileName\<close>,
  \<open>extName\<close>, \<open>normalizeString\<close> (one pass over the characters with the four loop variables of
  the code), \<open>normalize\<close> and \<open>join\<close>.  The pass is proved equal to a specification that folds
  over the segments of the path (\<open>norm_segments\<close>), from which the properties of \<open>normalize\<close>
  and \<open>join\<close> follow.
\<close>

section \<open>The code\<close>

definition CHAR_FORWARD_SLASH :: nat where "CHAR_FORWARD_SLASH = 47"
definition CHAR_BACKWARD_SLASH :: nat where "CHAR_BACKWARD_SLASH = 92"
definition CHAR_DOT :: nat where "CHAR_DOT = 46"

lemmas path_chars [simp] = CHAR_FORWARD_SLASH_def CHAR_BACKWARD_SLASH_def CHAR_DOT_def

definition baseName :: "jsstr \<Rightarrow> jsstr" where
  "baseName path = slice path 0 (nat (last_index_of CHAR_FORWARD_SLASH path + 1))"

definition fileName :: "jsstr \<Rightarrow> jsstr" where
  "fileName path = slice path (nat (last_index_of CHAR_FORWARD_SLASH path + 1)) (length path)"

definition extName :: "jsstr \<Rightarrow> jsstr" where
  "extName path =
     (let pos = last_index_of CHAR_DOT path
      in if pos < 0 then [] else slice path (nat (pos + 1)) (length path))"

definition isPathSeparator :: "nat \<Rightarrow> bool" where
  "isPathSeparator code \<longleftrightarrow> code = CHAR_FORWARD_SLASH \<or> code = CHAR_BACKWARD_SLASH"

text \<open>The local variables of \<open>normalizeString\<close>.\<close>

record norm_vars =
  res :: jsstr
  lastSegmentLength :: int
  lastSlash :: int
  dots :: int

text \<open>
  The body of the loop for a separator at index \<open>i\<close>: the branches of the code in its order.
  \<open>allowAboveRoot\<close> and the one-character \<open>separator\<close> are the parameters of
  \<open>normalizeString\<close>.
\<close>

definition push_parent :: "bool \<Rightarrow> nat \<Rightarrow> norm_vars \<Rightarrow> norm_vars" where
  "push_parent allowAboveRoot separator v =
     (if allowAboveRoot
      then v\<lparr>res := (if 0 < length (res v) then res v @ [separator] @ [CHAR_DOT, CHAR_DOT]
                     else [CHAR_DOT, CHAR_DOT]),
             lastSegmentLength := 2\<rparr>
      else v)"

definition on_separator :: "jsstr \<Rightarrow> bool \<Rightarrow> nat \<Rightarrow> nat \<Rightarrow> norm_vars \<Rightarrow> norm_vars" where
  "on_separator path allowAboveRoot separator i v =
     (let done = (\<lambda>w. w\<lparr>lastSlash := int i, dots := 0\<rparr>)
      in if lastSlash v = int i - 1 \<or> dots v = 1 then done v
         else if dots v = 2 then
           (if length (res v) < 2 \<or> lastSegmentLength v \<noteq> 2 \<or>
               res v ! (length (res v) - 1) \<noteq> CHAR_DOT \<or>
               res v ! (length (res v) - 2) \<noteq> CHAR_DOT
            then if length (res v) > 2
                 then (let lastSlashIndex = last_index_of separator (res v)
                       in if lastSlashIndex = -1
                          then done (v\<lparr>res := [], lastSegmentLength := 0\<rparr>)
                          else (let r = slice (res v) 0 (nat lastSlashIndex)
                                in done (v\<lparr>res := r,
                                           lastSegmentLength :=
                                             int (length r) - 1 - last_index_of separator r\<rparr>)))
                 else if length (res v) \<noteq> 0
                 then done (v\<lparr>res := [], lastSegmentLength := 0\<rparr>)
                 else done (push_parent allowAboveRoot separator v)
            else done (push_parent allowAboveRoot separator v))
         else
           (let seg = slice path (nat (lastSlash v + 1)) i
            in done (v\<lparr>res := (if length (res v) > 0 then res v @ [separator] @ seg else seg),
                       lastSegmentLength := int i - lastSlash v - 1\<rparr>)))"

definition on_code :: "jsstr \<Rightarrow> bool \<Rightarrow> nat \<Rightarrow> nat \<Rightarrow> nat \<Rightarrow> norm_vars \<Rightarrow> norm_vars" where
  "on_code path allowAboveRoot separator i code v =
     (if isPathSeparator code then on_separator path allowAboveRoot separator i v
      else if code = CHAR_DOT \<and> dots v \<noteq> -1 then v\<lparr>dots := dots v + 1\<rparr>
      else v\<lparr>dots := -1\<rparr>)"

text \<open>
  The loop \<open>for (let i = 0; i <= path.length; ++i)\<close>.  \<open>code\<close> is the variable the iterations
  share: past the last character it still holds that character, and a trailing separator ends
  the loop, while any other end is treated as one more \<open>'/'\<close>.
\<close>

function norm_loop :: "jsstr \<Rightarrow> bool \<Rightarrow> nat \<Rightarrow> nat \<Rightarrow> nat \<Rightarrow> norm_vars \<Rightarrow> norm_vars" where
  "norm_loop path allowAboveRoot separator i code v =
     (if i < length path
      then norm_loop path allowAboveRoot separator (Suc i) (path ! i)
             (on_code path allowAboveRoot separator i (path ! i) v)
      else if length path < i \<or> isPathSeparator code then v
      else on_code path allowAboveRoot separator i CHAR_FORWARD_SLASH v)"
  by pat_completeness auto
termination
  by (relation "measure (\<lambda>(path, a, s, i, c, v). length path - i)") auto

declare norm_loop.simps [simp del]

definition normalizeString :: "jsstr \<Rightarrow> bool \<Rightarrow> nat \<Rightarrow> jsstr" where
  "normalizeString path allowAboveRoot separator =
     res (norm_loop path allowAboveRoot separator 0 0
            \<lparr>res = [], lastSegmentLength = 0, lastSlash = -1, dots = 0\<rparr>)"

definition normalize :: "jsstr \<Rightarrow> jsstr" where
  "normalize path =
     (if length path = 0 then [CHAR_DOT]
      else let isAbsolute = (path ! 0 = CHAR_FORWARD_SLASH);
               sep = (path ! (length path - 1) = CHAR_FORWARD_SLASH);
               p = normalizeString path (\<not> isAbsolute) CHAR_FORWARD_SLASH
           in if length p = 0
              then (if isAbsolute then [CHAR_FORWARD_SLASH]
                    else if sep then [CHAR_DOT, CHAR_FORWARD_SLASH] else [CHAR_DOT])
              else let p' = (if sep then p @ [CHAR_FORWARD_SLASH] else p)
                   in if isAbsolute then CHAR_FORWARD_SLASH # p' else p')"

text \<open>\<open>joined\<close> is \<open>undefined\<close> (\<open>None\<close>) until the first non-empty argument.\<close>

fun join_args :: "jsstr option \<Rightarrow> jsstr list \<Rightarrow> jsstr option" where
  "join_args joined [] = joined"
| "join_args joined (arg # args) =
     (if length arg > 0
      then join_args (case joined of None \<Rightarrow> Some arg
                      | Some j \<Rightarrow> Some (j @ [CHAR_FORWARD_SLASH] @ arg)) args
      else join_args joined args)"

definition join :: "jsstr list \<Rightarrow> jsstr" where
  "join args =
     (if length args = 0 then [CHAR_DOT]
      else if length args = 2 \<and> char_at (args ! 1) 0 = Some CHAR_FORWARD_SLASH
      then normalize (args ! 1)
      else case join_args None args of None \<Rightarrow> [CHAR_DOT] | Some joined \<Rightarrow> normalize joined)"

section \<open>The specification: a fold over segments\<close>

definition push_segment :: "bool \<Rightarrow> jsstr list \<Rightarrow> jsstr \<Rightarrow> jsstr list" where
  "push_segment allowAboveRoot acc s =
     (if s = [] \<or> s = [CHAR_DOT] then acc
      else if s = [CHAR_DOT, CHAR_DOT] then
        (if acc \<noteq> [] \<and> last acc \<noteq> [CHAR_DOT, CHAR_DOT] then butlast acc
         else if allowAboveRoot then acc @ [s] else acc)
      else acc @ [s])"

definition norm_segments :: "bool \<Rightarrow> jsstr \<Rightarrow> jsstr list" where
  "norm_segments allowAboveRoot path =
     foldl (push_segment allowAboveRoot) [] (split_on isPathSeparator path)"

section \<open>The pass computes the fold\<close>

definition good_segments :: "jsstr list \<Rightarrow> bool" where
  "good_segments acc \<longleftrightarrow> (\<forall>s \<in> set acc. s \<noteq> [] \<and> (\<forall>c \<in> set s. \<not> isPathSeparator c))"

lemma good_segments_simps [simp]:
  "good_segments []"
  "good_segments [s] \<longleftrightarrow> s \<noteq> [] \<and> (\<forall>c \<in> set s. \<not> isPathSeparator c)"
  "good_segments (acc @ [s]) \<longleftrightarrow>
     good_segments acc \<and> s \<noteq> [] \<and> (\<forall>c \<in> set s. \<not> isPathSeparator c)"
  by (auto simp: good_segments_def)

lemma good_segments_butlast: "good_segments acc \<Longrightarrow> good_segments (butlast acc)"
  by (auto simp: good_segments_def dest: in_set_butlastD)

lemma good_last_no_slash: "good_segments (acc @ [s]) \<Longrightarrow> 47 \<notin> set s"
  "\<forall>c \<in> set s. \<not> isPathSeparator c \<Longrightarrow> 47 \<notin> set s"
  by (auto simp: isPathSeparator_def)

lemma good_push_segment:
  assumes "good_segments acc" and "\<forall>c \<in> set s. \<not> isPathSeparator c"
  shows "good_segments (push_segment allow acc s)"
  using assms by (auto simp: push_segment_def good_segments_butlast)

abbreviation joined :: "jsstr list \<Rightarrow> jsstr" where
  "joined acc \<equiv> js_join [47] acc"

definition last_length :: "jsstr list \<Rightarrow> int" where
  "last_length acc = (if acc = [] then 0 else int (length (last acc)))"

lemma joined_snoc: "joined (acc @ [s]) = (if acc = [] then s else joined acc @ 47 # s)"
  by (simp add: js_join_snoc)

lemma joined_empty_iff: "good_segments acc \<Longrightarrow> joined acc = [] \<longleftrightarrow> acc = []"
  by (cases acc rule: rev_cases) (auto simp: joined_snoc)

lemma joined_last_length:
  assumes "good_segments acc"
  shows "int (length (joined acc)) - 1 - last_index_of 47 (joined acc) = last_length acc"
proof (cases acc rule: rev_cases)
  case Nil
  then show ?thesis by (simp add: last_index_of_def last_length_def)
next
  case (snoc bs s)
  with assms have "47 \<notin> set s" by (simp add: good_last_no_slash)
  with snoc show ?thesis
    by (auto simp: joined_snoc last_length_def last_index_of_absent last_index_of_append)
qed

lemma joined_long:
  assumes "good_segments (acc @ [s])" and "acc \<noteq> []"
  shows "2 < length (joined (acc @ [s]))"
proof -
  have "joined acc \<noteq> []" and "s \<noteq> []"
    using assms by (simp_all add: joined_empty_iff)
  then show ?thesis using assms(2) by (cases "joined acc"; cases s) (auto simp: joined_snoc)
qed

text \<open>The test of the code on \<open>res\<close> says that the last segment is not \<open>'..'\<close>.\<close>

lemma last_two_dots:
  assumes "good_segments acc"
  shows "(length (joined acc) < 2 \<or> last_length acc \<noteq> 2 \<or>
          joined acc ! (length (joined acc) - 1) \<noteq> 46 \<or>
          joined acc ! (length (joined acc) - 2) \<noteq> 46)
         \<longleftrightarrow> acc = [] \<or> last acc \<noteq> [46, 46]"
proof (cases acc rule: rev_cases)
  case (snoc bs s)
  show ?thesis
  proof (cases "length s = 2")
    case True
    then obtain a b where "s = [a, b]" by (auto simp: numeral_2_eq_2 length_Suc_conv)
    with snoc show ?thesis by (auto simp: joined_snoc last_length_def nth_append)
  next
    case False
    with snoc show ?thesis by (auto simp: last_length_def)
  qed
qed (simp add: last_length_def)

text \<open>Removing the last segment, as the code does it on the string.\<close>

definition pop_vars :: "norm_vars \<Rightarrow> norm_vars" where
  "pop_vars v =
     (if length (res v) > 2
      then (let k = last_index_of CHAR_FORWARD_SLASH (res v)
            in if k = -1 then v\<lparr>res := [], lastSegmentLength := 0\<rparr>
               else (let r = slice (res v) 0 (nat k)
                     in v\<lparr>res := r, lastSegmentLength :=
                            int (length r) - 1 - last_index_of CHAR_FORWARD_SLASH r\<rparr>))
      else v\<lparr>res := [], lastSegmentLength := 0\<rparr>)"

lemma pop_vars_joined:
  assumes good: "good_segments acc" and ne: "acc \<noteq> []" and res: "res v = joined acc"
  shows "pop_vars v = v\<lparr>res := joined (butlast acc), lastSegmentLength := last_length (butlast acc)\<rparr>"
proof -
  obtain bs s where acc: "acc = bs @ [s]" using ne by (cases acc rule: rev_cases) auto
  have s: "47 \<notin> set s" using good acc by (simp add: good_last_no_slash)
  show ?thesis
  proof (cases "bs = []")
    case True
    with acc res s show ?thesis
      by (auto simp: pop_vars_def last_index_of_absent last_length_def)
  next
    case False
    have long: "2 < length (res v)" using joined_long good acc False res by simp
    have res': "res v = joined bs @ 47 # s" using res acc False by (simp add: joined_snoc)
    have k: "last_index_of 47 (res v) = int (length (joined bs))"
      unfolding res' by (rule last_index_of_append [OF s])
    have r: "slice (res v) 0 (length (joined bs)) = joined bs"
      by (simp add: res' slice_def)
    have "good_segments bs" using good acc by simp
    then show ?thesis
      using long k r acc by (simp add: pop_vars_def joined_last_length Let_def)
  qed
qed

definition dots_of :: "jsstr \<Rightarrow> int" where
  "dots_of cur = (if \<forall>c \<in> set cur. c = 46 then int (length cur) else -1)"

lemma dots_of_iff:
  "dots_of cur = 1 \<longleftrightarrow> cur = [46]"
  "dots_of cur = 2 \<longleftrightarrow> cur = [46, 46]"
  by (auto simp: dots_of_def length_Suc_conv numeral_2_eq_2 split: if_splits)

text \<open>The loop variables \<open>v\<close> at index \<open>i\<close> stand for the segments \<open>acc\<close> and the open one \<open>cur\<close>.\<close>

definition norm_rel ::
  "jsstr \<Rightarrow> nat \<Rightarrow> norm_vars \<Rightarrow> jsstr list \<Rightarrow> jsstr \<Rightarrow> bool" where
  "norm_rel path i v acc cur \<longleftrightarrow>
     res v = joined acc \<and> lastSegmentLength v = last_length acc \<and> good_segments acc \<and>
     -1 \<le> lastSlash v \<and> lastSlash v < int i \<and> i \<le> length path \<and>
     cur = slice path (nat (lastSlash v + 1)) i \<and> dots v = dots_of cur \<and>
     (\<forall>c \<in> set cur. \<not> isPathSeparator c)"

lemma norm_rel_length_cur:
  "norm_rel path i v acc cur \<Longrightarrow> int (length cur) = int i - lastSlash v - 1"
  by (auto simp: norm_rel_def length_slice)

lemma dots_of_snoc:
  "dots_of (cur @ [c]) = (if c = 46 \<and> dots_of cur \<noteq> -1 then dots_of cur + 1 else -1)"
  by (auto simp: dots_of_def)

lemma norm_rel_char:
  assumes rel: "norm_rel path i v acc cur" and i: "i < length path"
    and c: "\<not> isPathSeparator (path ! i)"
  shows "norm_rel path (Suc i) (on_code path allow 47 i (path ! i) v) acc (cur @ [path ! i])"
proof -
  have "nat (lastSlash v + 1) \<le> i" using rel by (auto simp: norm_rel_def)
  from slice_Suc [OF this i] have "slice path (nat (lastSlash v + 1)) (Suc i) = cur @ [path ! i]"
    using rel by (simp add: norm_rel_def)
  moreover have "\<forall>c \<in> set cur. \<not> isPathSeparator c" "dots v = dots_of cur"
    using rel by (simp_all add: norm_rel_def)
  ultimately show ?thesis
    using rel i c by (simp add: norm_rel_def on_code_def dots_of_snoc)
qed

lemma on_separator_push:
  assumes rel: "norm_rel path i v acc cur"
  shows "on_separator path allow 47 i v =
     v\<lparr>res := joined (push_segment allow acc cur),
       lastSegmentLength := last_length (push_segment allow acc cur),
       lastSlash := int i, dots := 0\<rparr>"
proof -
  have res: "res v = joined acc" and lsl: "lastSegmentLength v = last_length acc"
    and good: "good_segments acc" and dots: "dots v = dots_of cur"
    and slice: "slice path (nat (lastSlash v + 1)) i = cur"
    using rel by (auto simp: norm_rel_def)
  have len: "int (length cur) = int i - lastSlash v - 1" by (rule norm_rel_length_cur [OF rel])
  have empty: "cur = [] \<longleftrightarrow> lastSlash v = int i - 1" using len by auto
  have zero: "length (res v) = 0 \<longleftrightarrow> acc = []" using good res by (simp add: joined_empty_iff)
  consider "cur = [] \<or> cur = [46]" | "cur = [46, 46]" | "cur \<noteq> []" "cur \<noteq> [46]" "cur \<noteq> [46, 46]"
    by blast
  then show ?thesis
  proof cases
    case 1
    then show ?thesis
      using empty dots res lsl by (auto simp: on_separator_def push_segment_def dots_of_iff)
  next
    case 2
    have test: "(length (res v) < 2 \<or> lastSegmentLength v \<noteq> 2 \<or>
        res v ! (length (res v) - 1) \<noteq> 46 \<or> res v ! (length (res v) - 2) \<noteq> 46)
        \<longleftrightarrow> acc = [] \<or> last acc \<noteq> [46, 46]"
      unfolding res lsl by (rule last_two_dots [OF good])
    have ne: "lastSlash v \<noteq> int i - 1" using 2 empty by auto
    show ?thesis
    proof (cases "acc \<noteq> [] \<and> last acc \<noteq> [46, 46]")
      case True
      have "on_separator path allow 47 i v = (pop_vars v)\<lparr>lastSlash := int i, dots := 0\<rparr>"
        using ne 2 dots test True zero
        by (auto simp: on_separator_def pop_vars_def dots_of_iff Let_def)
      then show ?thesis
        using pop_vars_joined [OF good _ res] True 2 by (simp add: push_segment_def)
    next
      case False
      have "on_separator path allow 47 i v =
          (push_parent allow 47 v)\<lparr>lastSlash := int i, dots := 0\<rparr>"
        using ne 2 dots test False zero
        by (auto simp: on_separator_def dots_of_iff Let_def)
      then show ?thesis
        using False 2 res lsl zero
        by (auto simp: push_parent_def push_segment_def joined_snoc last_length_def)
    qed
  next
    case 3
    then show ?thesis
      using empty dots res lsl slice zero len
      by (auto simp: on_separator_def push_segment_def dots_of_iff Let_def joined_snoc last_length_def)
  qed
qed

lemma norm_rel_separator:
  assumes rel: "norm_rel path i v acc cur" and i: "i < length path"
  shows "norm_rel path (Suc i) (on_separator path allow 47 i v) (push_segment allow acc cur) []"
  using rel i good_push_segment [of acc cur allow]
  by (auto simp: on_separator_push [OF rel] norm_rel_def dots_of_def nat_int_Suc)

lemma split_on_cur:
  assumes "\<forall>c \<in> set cur. \<not> P c"
  shows "split_on P (cur @ c # cs) =
     (if P c then cur # split_on P cs else split_on P ((cur @ [c]) @ cs))"
  using assms by (simp add: split_on_append)

lemma norm_loop_segments:
  assumes "norm_rel path i v acc cur" and "isPathSeparator code \<longrightarrow> cur = []"
  shows "res (norm_loop path allow 47 i code v) =
     joined (foldl (push_segment allow) acc (split_on isPathSeparator (cur @ drop i path)))"
  using assms
proof (induction "length path - i" arbitrary: i v acc cur code)
  case 0
  then have i: "i = length path" by (auto simp: norm_rel_def)
  have cur: "\<forall>c \<in> set cur. \<not> isPathSeparator c" using 0 by (simp add: norm_rel_def)
  show ?case
  proof (cases "isPathSeparator code")
    case True
    then show ?thesis
      using 0 i by (simp add: norm_loop.simps [of path] norm_rel_def push_segment_def)
  next
    case False
    then show ?thesis
      using i cur on_separator_push [OF 0(2)]
      by (simp add: norm_loop.simps [of path] on_code_def isPathSeparator_def split_on_none)
  qed
next
  case (Suc n)
  then have i: "i < length path" by simp
  have drop: "drop i path = path ! i # drop (Suc i) path" using i by (simp add: Cons_nth_drop_Suc)
  have cur: "\<forall>c \<in> set cur. \<not> isPathSeparator c" using Suc.prems by (simp add: norm_rel_def)
  have n: "n = length path - Suc i" using Suc.hyps i by simp
  show ?case
  proof (cases "isPathSeparator (path ! i)")
    case True
    have rel: "norm_rel path (Suc i) (on_code path allow 47 i (path ! i) v) (push_segment allow acc cur) []"
      using norm_rel_separator [OF Suc.prems(1) i] True by (simp add: on_code_def)
    show ?thesis
      using Suc.hyps(1) [OF n rel, of "path ! i"] i cur True
      by (simp add: norm_loop.simps [of path _ _ i] drop split_on_cur)
  next
    case False
    have rel: "norm_rel path (Suc i) (on_code path allow 47 i (path ! i) v) acc (cur @ [path ! i])"
      by (rule norm_rel_char [OF Suc.prems(1) i False])
    show ?thesis
      using Suc.hyps(1) [OF n rel, of "path ! i"] i False
      by (simp add: norm_loop.simps [of path _ _ i] drop)
  qed
qed

lemma norm_rel_start:
  "norm_rel path 0 \<lparr>res = [], lastSegmentLength = 0, lastSlash = -1, dots = 0\<rparr> [] []"
  by (simp add: norm_rel_def last_length_def dots_of_def)

lemma normalizeString_joined:
  "normalizeString path allow 47 = joined (norm_segments allow path)"
  using norm_loop_segments [OF norm_rel_start, of 0 path allow]
  by (simp add: normalizeString_def norm_segments_def isPathSeparator_def)

text \<open>C1: the single pass of \<open>normalizeString\<close>, with its four loop variables, computes the fold
  of the specification over the segments of the path, joined with \<open>'/'\<close>, for every path and
  both values of \<open>allowAboveRoot\<close>.\<close>

theorem normalizeString_spec:
  "normalizeString path allowAboveRoot CHAR_FORWARD_SLASH
     = js_join [CHAR_FORWARD_SLASH] (norm_segments allowAboveRoot path)"
  by (simp add: normalizeString_joined)

section \<open>What the segments of a normalised path look like\<close>

abbreviation dot :: jsstr where "dot \<equiv> [46]"
abbreviation dotdot :: jsstr where "dotdot \<equiv> [46, 46]"

text \<open>Parents only at the front, and only when the path may climb above its root.\<close>

definition clean_segments :: "bool \<Rightarrow> jsstr list \<Rightarrow> bool" where
  "clean_segments allow acc \<longleftrightarrow>
     good_segments acc \<and> dot \<notin> set acc \<and>
     (\<exists>k bs. acc = replicate k dotdot @ bs \<and> dotdot \<notin> set bs \<and> (k = 0 \<or> allow))"

lemma clean_segments_Nil [simp]: "clean_segments allow []"
  by (simp add: clean_segments_def)

lemma clean_push_segment:
  assumes clean: "clean_segments allow acc" and s: "\<forall>c \<in> set s. \<not> isPathSeparator c"
  shows "clean_segments allow (push_segment allow acc s)"
proof -
  obtain k bs where acc: "acc = replicate k dotdot @ bs" "dotdot \<notin> set bs" "k = 0 \<or> allow"
    and good: "good_segments acc" and nodot: "dot \<notin> set acc"
    using clean unfolding clean_segments_def by blast
  note g = good_push_segment [OF good s, of allow]
  consider (noop) "s = [] \<or> s = dot" | (up) "s = dotdot" | (other) "s \<noteq> []" "s \<noteq> dot" "s \<noteq> dotdot"
    by blast
  then show ?thesis
  proof cases
    case noop
    then show ?thesis using clean by (auto simp: push_segment_def)
  next
    case other
    then have "push_segment allow acc s = replicate k dotdot @ (bs @ [s])"
      using acc by (simp add: push_segment_def)
    moreover have "dotdot \<notin> set (bs @ [s])" "dot \<notin> set (replicate k dotdot @ (bs @ [s]))"
      using acc other nodot by auto
    ultimately show ?thesis using g acc(3) unfolding clean_segments_def by metis
  next
    case up
    show ?thesis
    proof (cases "bs = []")
      case True
      then have p: "push_segment allow acc s = (if allow then replicate (Suc k) dotdot else [])"
        using up acc by (cases k) (auto simp: push_segment_def replicate_append_same)
      then show ?thesis
      proof (cases allow)
        case True
        have "dot \<notin> set (replicate (Suc k) dotdot)" by auto
        moreover have "replicate (Suc k) dotdot = replicate (Suc k) dotdot @ []" by simp
        ultimately show ?thesis
          using p g True unfolding clean_segments_def by (metis empty_iff list.set(1))
      qed simp
    next
      case False
      then have "last bs \<noteq> dotdot" using acc(2) by (metis last_in_set)
      then have p: "push_segment allow acc s = replicate k dotdot @ butlast bs"
        using False up acc by (auto simp: push_segment_def butlast_append)
      have "dotdot \<notin> set (butlast bs)" "dot \<notin> set (replicate k dotdot @ butlast bs)"
        using acc nodot by (auto dest: in_set_butlastD)
      then show ?thesis using p g acc(3) unfolding clean_segments_def by metis
    qed
  qed
qed

lemma clean_foldl_push:
  assumes "clean_segments allow acc" and "\<forall>s \<in> set ss. \<forall>c \<in> set s. \<not> isPathSeparator c"
  shows "clean_segments allow (foldl (push_segment allow) acc ss)"
  using assms by (induction ss arbitrary: acc) (auto intro: clean_push_segment)

lemma clean_norm_segments: "clean_segments allow (norm_segments allow path)"
  unfolding norm_segments_def
  by (rule clean_foldl_push) (auto dest: split_on_segments)

lemma foldl_push_parents:
  "allow \<Longrightarrow> foldl (push_segment allow) (replicate j dotdot) (replicate k dotdot)
     = replicate (j + k) dotdot"
proof (induction k arbitrary: j)
  case (Suc k)
  have "push_segment allow (replicate j dotdot) dotdot = replicate (Suc j) dotdot"
    using Suc.prems by (cases j) (auto simp: push_segment_def replicate_append_same)
  then show ?case using Suc.IH [of "Suc j"] Suc.prems by simp
qed simp

lemma foldl_push_names:
  assumes "\<forall>s \<in> set bs. s \<noteq> [] \<and> s \<noteq> dot \<and> s \<noteq> dotdot"
  shows "foldl (push_segment allow) acc bs = acc @ bs"
  using assms by (induction bs arbitrary: acc) (auto simp: push_segment_def)

lemma foldl_push_clean:
  assumes "clean_segments allow acc"
  shows "foldl (push_segment allow) [] acc = acc"
proof -
  obtain k bs where acc: "acc = replicate k dotdot @ bs" "dotdot \<notin> set bs" "k = 0 \<or> allow"
    and "good_segments acc" "dot \<notin> set acc"
    using assms unfolding clean_segments_def by blast
  then have bs: "\<forall>s \<in> set bs. s \<noteq> [] \<and> s \<noteq> dot" by (auto simp: good_segments_def)
  have "foldl (push_segment allow) [] (replicate k dotdot) = replicate k dotdot"
    using acc(3) foldl_push_parents [of allow 0 k] by auto
  moreover have "\<forall>s \<in> set bs. s \<noteq> [] \<and> s \<noteq> dot \<and> s \<noteq> dotdot" using acc(2) bs by auto
  ultimately show ?thesis using acc(1) foldl_push_names by simp
qed

section \<open>The normal form\<close>

definition render :: "bool \<Rightarrow> bool \<Rightarrow> jsstr list \<Rightarrow> jsstr" where
  "render absolute trailing segs =
     (if segs = [] then (if absolute then [47] else if trailing then [46, 47] else [46])
      else (if absolute then [47] else []) @ joined segs @ (if trailing then [47] else []))"

lemma normalize_render:
  assumes "path \<noteq> []"
  shows "normalize path =
    render (path ! 0 = 47) (last path = 47) (norm_segments (path ! 0 \<noteq> 47) path)"
proof -
  have "good_segments (norm_segments (path ! 0 \<noteq> 47) path)"
    using clean_norm_segments by (auto simp: clean_segments_def)
  then show ?thesis
    using assms joined_empty_iff normalizeString_joined [of path "path ! 0 \<noteq> 47"]
    by (cases "path ! 0 = 47") (auto simp: normalize_def render_def last_conv_nth Let_def)
qed

lemma split_joined_slash:
  assumes "good_segments segs" and "segs \<noteq> []"
  shows "split_on isPathSeparator (joined segs @ 47 # ys) = segs @ split_on isPathSeparator ys"
  using assms
proof (induction segs)
  case (Cons s ss)
  then have s: "\<forall>c \<in> set s. \<not> isPathSeparator c" and "good_segments ss"
    by (auto simp: good_segments_def)
  moreover have "isPathSeparator 47" by (simp add: isPathSeparator_def)
  ultimately show ?case
    using Cons.IH by (cases "ss = []") (auto simp: js_join_Cons split_on_append)
qed simp

lemma split_joined:
  assumes "good_segments segs" and "segs \<noteq> []"
  shows "split_on isPathSeparator (joined segs) = segs"
proof (cases segs rule: rev_cases)
  case (snoc bs s)
  then have s: "\<forall>c \<in> set s. \<not> isPathSeparator c" and bs: "good_segments bs"
    using assms by simp_all
  show ?thesis
    using split_joined_slash [OF bs, of s] snoc s by (cases "bs = []") (auto simp: joined_snoc split_on_none)
qed (use assms in simp)

lemma joined_head:
  assumes "good_segments segs" and "segs \<noteq> []"
  shows "joined segs \<noteq> []" and "joined segs ! 0 \<noteq> 47" and "last (joined segs) \<noteq> 47"
proof -
  show ne: "joined segs \<noteq> []" using assms by (simp add: joined_empty_iff)
  obtain s ss where "segs = s # ss" using assms(2) by (cases segs) auto
  moreover obtain c s' where "s = c # s'" using assms(1) calculation
    by (cases s) (auto simp: good_segments_def)
  ultimately show "joined segs ! 0 \<noteq> 47"
    using assms(1) by (cases ss) (auto simp: good_segments_def isPathSeparator_def)
  obtain bs t where "segs = bs @ [t]" using assms(2) by (cases segs rule: rev_cases) auto
  moreover have "t \<noteq> []" "last t \<in> set t" "\<forall>c \<in> set t. c \<noteq> 47" using assms(1) calculation
    by (auto simp: isPathSeparator_def)
  ultimately show "last (joined segs) \<noteq> 47" by (auto simp: joined_snoc)
qed

lemma foldl_push_blank [simp]: "push_segment allow acc [] = acc"
  by (simp add: push_segment_def)

lemma render_fixed:
  assumes clean: "clean_segments (\<not> absolute) segs"
  shows "normalize (render absolute trailing segs) = render absolute trailing segs"
proof (cases "segs = []")
  case True
  then show ?thesis
    by (simp add: normalize_render render_def norm_segments_def isPathSeparator_def push_segment_def)
next
  case False
  let ?p = "render absolute trailing segs"
  have good: "good_segments segs" using clean by (simp add: clean_segments_def)
  note head = joined_head [OF good False]
  have p: "?p = (if absolute then [47] else []) @ joined segs @ (if trailing then [47] else [])"
    using False by (simp add: render_def)
  have ne: "?p \<noteq> []" and abs: "?p ! 0 = 47 \<longleftrightarrow> absolute" and tr: "last ?p = 47 \<longleftrightarrow> trailing"
    unfolding p using head by (auto simp: nth_append)
  have "split_on isPathSeparator (joined segs @ (if trailing then [47] else []))
      = segs @ (if trailing then [[]] else [])"
    using split_joined [OF good False] split_joined_slash [OF good False, of "[]"] by simp
  then have "split_on isPathSeparator ?p
      = (if absolute then [[]] else []) @ segs @ (if trailing then [[]] else [])"
    unfolding p by (simp add: isPathSeparator_def)
  then have "norm_segments (\<not> absolute) ?p = segs"
    using foldl_push_clean [OF clean] by (cases absolute) (auto simp: norm_segments_def)
  then show ?thesis using normalize_render [OF ne] abs tr by simp
qed

text \<open>\<open>normalize\<close> is idempotent on every string, relative or absolute, with or without a
  trailing slash, the empty path included.\<close>

theorem normalize_idempotent: "normalize (normalize path) = normalize path"
proof (cases "path = []")
  case True
  have "normalize [] = render False False []" by (simp add: normalize_def render_def)
  then show ?thesis using True render_fixed [of False "[]" False] by simp
next
  case False
  then show ?thesis using render_fixed clean_norm_segments by (simp add: normalize_render)
qed

lemma split_render_absolute:
  assumes "clean_segments False segs" and "s \<in> set (js_split 47 (render True trailing segs))"
  shows "s = [] \<or> s \<in> set segs"
proof (cases "segs = []")
  case False
  have good: "good_segments segs" using assms(1) by (simp add: clean_segments_def)
  have "\<forall>p \<in> set (segs @ [[]]). 47 \<notin> set p"
    using good by (auto simp: good_segments_def isPathSeparator_def)
  moreover have "joined segs @ [47] = joined (segs @ [[]])" using False by (simp add: joined_snoc)
  ultimately have "js_split 47 (joined segs @ [47]) = segs @ [[]]" "js_split 47 (joined segs) = segs"
    using False by (metis js_split_join append_is_Nil_conv not_Cons_self2, simp add: js_split_join)
  then show ?thesis using assms(2) False by (auto simp: render_def split: if_splits)
qed (use assms in \<open>auto simp: render_def\<close>)

lemma normalize_confined:
  assumes "char_at path 0 = Some CHAR_FORWARD_SLASH"
  shows "char_at (normalize path) 0 = Some CHAR_FORWARD_SLASH \<and>
    (\<forall>s \<in> set (js_split CHAR_FORWARD_SLASH (normalize path)). s \<noteq> dot \<and> s \<noteq> dotdot)"
proof -
  let ?segs = "norm_segments False path"
  have ne: "path \<noteq> []" and abs: "path ! 0 = 47" using assms by (auto simp: char_at_def split: if_splits)
  have n: "normalize path = render True (last path = 47) ?segs"
    using normalize_render [OF ne] abs by simp
  have clean: "clean_segments False ?segs" by (rule clean_norm_segments)
  then have "dot \<notin> set ?segs" "dotdot \<notin> set ?segs" by (auto simp: clean_segments_def)
  moreover have "char_at (normalize path) 0 = Some 47" unfolding n by (simp add: render_def)
  ultimately show ?thesis unfolding n using split_render_absolute [OF clean] by auto
qed

text \<open>C2: normalising an absolute path gives an absolute path none of whose segments is \<open>'.'\<close>
  or \<open>'..'\<close>: it never names a directory above the root.\<close>

theorem normalize_absolute_confined:
  assumes "char_at path 0 = Some CHAR_FORWARD_SLASH"
  shows "char_at (normalize path) 0 = Some CHAR_FORWARD_SLASH \<and>
    (\<forall>s \<in> set (js_split CHAR_FORWARD_SLASH (normalize path)). s \<noteq> [CHAR_DOT] \<and> s \<noteq> [CHAR_DOT, CHAR_DOT])"
  using normalize_confined [OF assms] by simp

theorem normalize_absolute_confined_witness:
  "char_at (js ''/a/../../etc'') 0 = Some CHAR_FORWARD_SLASH \<and>
   char_at (normalize (js ''/a/../../etc'')) 0 = Some CHAR_FORWARD_SLASH \<and>
   normalize (js ''/a/../../etc'') = js ''/etc''"
proof -
  have h: "char_at (js ''/a/../../etc'') 0 = Some CHAR_FORWARD_SLASH" by simp
  have "normalize (js ''/a/../../etc'') = js ''/etc''" by code_simp
  with h normalize_absolute_confined [OF h] show ?thesis by blast
qed

lemma join_args_Some:
  "join_args (Some j) args = Some (js_join [47] (j # filter (\<lambda>a. a \<noteq> []) args))"
  by (induction args arbitrary: j) (auto simp: js_join_head js_join_Cons)

lemma join_args_None:
  "join_args None args =
     (case filter (\<lambda>a. a \<noteq> []) args of [] \<Rightarrow> None | as \<Rightarrow> Some (js_join [47] as))"
  by (induction args) (auto simp: join_args_Some)

text \<open>C4: \<open>join\<close> resolves its arguments against a fixed root: when the first argument is
  absolute the result is absolute and confined, whatever the other arguments are.  This is what
  the module loader relies on when it joins the directory of a module with a required path.\<close>

theorem join_absolute_confined:
  assumes "char_at root 0 = Some CHAR_FORWARD_SLASH"
  shows "char_at (join (root # args)) 0 = Some CHAR_FORWARD_SLASH \<and>
    (\<forall>s \<in> set (js_split CHAR_FORWARD_SLASH (join (root # args))).
       s \<noteq> [CHAR_DOT] \<and> s \<noteq> [CHAR_DOT, CHAR_DOT])"
proof -
  have root: "root \<noteq> []" "root ! 0 = 47"
    using assms by (auto simp: char_at_def split: if_splits)
  have "\<exists>p. join (root # args) = normalize p \<and> char_at p 0 = Some CHAR_FORWARD_SLASH"
  proof (cases "length args = 1 \<and> char_at (hd args) 0 = Some 47")
    case True
    then show ?thesis by (cases args) (auto simp: join_def)
  next
    case False
    let ?j = "js_join [47] (root # filter (\<lambda>a. a \<noteq> []) args)"
    have "join (root # args) = normalize ?j"
      using False root(1) by (cases args) (auto simp: join_def join_args_Some js_join_head js_join_Cons)
    moreover have "char_at ?j 0 = Some 47"
      using root by (cases "filter (\<lambda>a. a \<noteq> []) args") (auto simp: char_at_def nth_append)
    ultimately show ?thesis by auto
  qed
  then show ?thesis using normalize_confined by (metis CHAR_DOT_def)
qed

theorem join_absolute_confined_witness:
  "char_at (js ''/srv/app'') 0 = Some CHAR_FORWARD_SLASH \<and>
   char_at (join [js ''/srv/app'', js ''../../../x'']) 0 = Some CHAR_FORWARD_SLASH \<and>
   join [js ''/srv/app'', js ''../../../x''] = js ''/x''"
proof -
  have h: "char_at (js ''/srv/app'') 0 = Some CHAR_FORWARD_SLASH" by simp
  have "join [js ''/srv/app'', js ''../../../x''] = js ''/x''" by code_simp
  with h join_absolute_confined [OF h, of "[js ''../../../x'']"] show ?thesis by blast
qed

text \<open>\<open>baseName\<close> and \<open>fileName\<close> cut a path at its last slash and lose nothing.\<close>

lemma baseName_fileName: "baseName path @ fileName path = path"
proof (cases rule: last_index_of_cases [of 47 path])
  case absent
  then show ?thesis by (simp add: baseName_def fileName_def slice_def)
next
  case (last xs ys)
  then show ?thesis by (simp add: baseName_def fileName_def slice_def nat_int_Suc)
qed

end
