(* ===== verification/Url_Sets.thy ===== *)
theory Url_Sets
  imports Prelude
begin

text \<open>
  The percent-encode sets of the URL parser, \<open>packages/zero/lib/whatwg/url/encode_sets.js\<close>:
  five tables of 32 bytes, one bit per code unit below 256, transcribed row by row, and the
  bit test that \<open>appendOrEscape\<close> of \<open>whatwg/url/parser.js\<close> does on them.  Theory
  \<open>Url_Sets_Standard\<close> proves each table to be the set of the URL standard.
\<close>

unbundle bit_operations_syntax

section \<open>The tables\<close>

definition USERINFO_ENCODE_SET :: "nat list" where
  "USERINFO_ENCODE_SET = [
     0x01 OR 0x02 OR 0x04 OR 0x08 OR 0x10 OR 0x20 OR 0x40 OR 0x80,
     0x01 OR 0x02 OR 0x04 OR 0x08 OR 0x10 OR 0x20 OR 0x40 OR 0x80,
     0x01 OR 0x02 OR 0x04 OR 0x08 OR 0x10 OR 0x20 OR 0x40 OR 0x80,
     0x01 OR 0x02 OR 0x04 OR 0x08 OR 0x10 OR 0x20 OR 0x40 OR 0x80,
     0x01 OR 0x00 OR 0x04 OR 0x08 OR 0x00 OR 0x00 OR 0x00 OR 0x00,
     0x00 OR 0x00 OR 0x00 OR 0x00 OR 0x00 OR 0x00 OR 0x00 OR 0x80,
     0x00 OR 0x00 OR 0x00 OR 0x00 OR 0x00 OR 0x00 OR 0x00 OR 0x00,
     0x00 OR 0x00 OR 0x04 OR 0x08 OR 0x10 OR 0x20 OR 0x40 OR 0x80,
     0x01 OR 0x00 OR 0x00 OR 0x00 OR 0x00 OR 0x00 OR 0x00 OR 0x00,
     0x00 OR 0x00 OR 0x00 OR 0x00 OR 0x00 OR 0x00 OR 0x00 OR 0x00,
     0x00 OR 0x00 OR 0x00 OR 0x00 OR 0x00 OR 0x00 OR 0x00 OR 0x00,
     0x00 OR 0x00 OR 0x00 OR 0x08 OR 0x10 OR 0x20 OR 0x40 OR 0x00,
     0x01 OR 0x00 OR 0x00 OR 0x00 OR 0x00 OR 0x00 OR 0x00 OR 0x00,
     0x00 OR 0x00 OR 0x00 OR 0x00 OR 0x00 OR 0x00 OR 0x00 OR 0x00,
     0x00 OR 0x00 OR 0x00 OR 0x00 OR 0x00 OR 0x00 OR 0x00 OR 0x00,
     0x00 OR 0x00 OR 0x00 OR 0x08 OR 0x10 OR 0x20 OR 0x00 OR 0x80,
     0x01 OR 0x02 OR 0x04 OR 0x08 OR 0x10 OR 0x20 OR 0x40 OR 0x80,
     0x01 OR 0x02 OR 0x04 OR 0x08 OR 0x10 OR 0x20 OR 0x40 OR 0x80,
     0x01 OR 0x02 OR 0x04 OR 0x08 OR 0x10 OR 0x20 OR 0x40 OR 0x80,
     0x01 OR 0x02 OR 0x04 OR 0x08 OR 0x10 OR 0x20 OR 0x40 OR 0x80,
     0x01 OR 0x02 OR 0x04 OR 0x08 OR 0x10 OR 0x20 OR 0x40 OR 0x80,
     0x01 OR 0x02 OR 0x04 OR 0x08 OR 0x10 OR 0x20 OR 0x40 OR 0x80,
     0x01 OR 0x02 OR 0x04 OR 0x08 OR 0x10 OR 0x20 OR 0x40 OR 0x80,
     0x01 OR 0x02 OR 0x04 OR 0x08 OR 0x10 OR 0x20 OR 0x40 OR 0x80,
     0x01 OR 0x02 OR 0x04 OR 0x08 OR 0x10 OR 0x20 OR 0x40 OR 0x80,
     0x01 OR 0x02 OR 0x04 OR 0x08 OR 0x10 OR 0x20 OR 0x40 OR 0x80,
     0x01 OR 0x02 OR 0x04 OR 0x08 OR 0x10 OR 0x20 OR 0x40 OR 0x80,
     0x01 OR 0x02 OR 0x04 OR 0x08 OR 0x10 OR 0x20 OR 0x40 OR 0x80,
     0x01 OR 0x02 OR 0x04 OR 0x08 OR 0x10 OR 0x20 OR 0x40 OR 0x80,
     0x01 OR 0x02 OR 0x04 OR 0x08 OR 0x10 OR 0x20 OR 0x40 OR 0x80,
     0x01 OR 0x02 OR 0x04 OR 0x08 OR 0x10 OR 0x20 OR 0x40 OR 0x80,
     0x01 OR 0x02 OR 0x04 OR 0x08 OR 0x10 OR 0x20 OR 0x40 OR 0x80]"

definition C0_CONTROL_ENCODE_SET :: "nat list" where
  "C0_CONTROL_ENCODE_SET = [
     0x01 OR 0x02 OR 0x04 OR 0x08 OR 0x10 OR 0x20 OR 0x40 OR 0x80,
     0x01 OR 0x02 OR 0x04 OR 0x08 OR 0x10 OR 0x20 OR 0x40 OR 0x80,
     0x01 OR 0x02 OR 0x04 OR 0x08 OR 0x10 OR 0x20 OR 0x40 OR 0x80,
     0x01 OR 0x02 OR 0x04 OR 0x08 OR 0x10 OR 0x20 OR 0x40 OR 0x80,
     0x00 OR 0x00 OR 0x00 OR 0x00 OR 0x00 OR 0x00 OR 0x00 OR 0x00,
     0x00 OR 0x00 OR 0x00 OR 0x00 OR 0x00 OR 0x00 OR 0x00 OR 0x00,
     0x00 OR 0x00 OR 0x00 OR 0x00 OR 0x00 OR 0x00 OR 0x00 OR 0x00,
     0x00 OR 0x00 OR 0x00 OR 0x00 OR 0x00 OR 0x00 OR 0x00 OR 0x00,
     0x00 OR 0x00 OR 0x00 OR 0x00 OR 0x00 OR 0x00 OR 0x00 OR 0x00,
     0x00 OR 0x00 OR 0x00 OR 0x00 OR 0x00 OR 0x00 OR 0x00 OR 0x00,
     0x00 OR 0x00 OR 0x00 OR 0x00 OR 0x00 OR 0x00 OR 0x00 OR 0x00,
     0x00 OR 0x00 OR 0x00 OR 0x00 OR 0x00 OR 0x00 OR 0x00 OR 0x00,
     0x00 OR 0x00 OR 0x00 OR 0x00 OR 0x00 OR 0x00 OR 0x00 OR 0x00,
     0x00 OR 0x00 OR 0x00 OR 0x00 OR 0x00 OR 0x00 OR 0x00 OR 0x00,
     0x00 OR 0x00 OR 0x00 OR 0x00 OR 0x00 OR 0x00 OR 0x00 OR 0x00,
     0x00 OR 0x00 OR 0x00 OR 0x00 OR 0x00 OR 0x00 OR 0x00 OR 0x80,
     0x01 OR 0x02 OR 0x04 OR 0x08 OR 0x10 OR 0x20 OR 0x40 OR 0x80,
     0x01 OR 0x02 OR 0x04 OR 0x08 OR 0x10 OR 0x20 OR 0x40 OR 0x80,
     0x01 OR 0x02 OR 0x04 OR 0x08 OR 0x10 OR 0x20 OR 0x40 OR 0x80,
     0x01 OR 0x02 OR 0x04 OR 0x08 OR 0x10 OR 0x20 OR 0x40 OR 0x80,
     0x01 OR 0x02 OR 0x04 OR 0x08 OR 0x10 OR 0x20 OR 0x40 OR 0x80,
     0x01 OR 0x02 OR 0x04 OR 0x08 OR 0x10 OR 0x20 OR 0x40 OR 0x80,
     0x01 OR 0x02 OR 0x04 OR 0x08 OR 0x10 OR 0x20 OR 0x40 OR 0x80,
     0x01 OR 0x02 OR 0x04 OR 0x08 OR 0x10 OR 0x20 OR 0x40 OR 0x80,
     0x01 OR 0x02 OR 0x04 OR 0x08 OR 0x10 OR 0x20 OR 0x40 OR 0x80,
     0x01 OR 0x02 OR 0x04 OR 0x08 OR 0x10 OR 0x20 OR 0x40 OR 0x80,
     0x01 OR 0x02 OR 0x04 OR 0x08 OR 0x10 OR 0x20 OR 0x40 OR 0x80,
     0x01 OR 0x02 OR 0x04 OR 0x08 OR 0x10 OR 0x20 OR 0x40 OR 0x80,
     0x01 OR 0x02 OR 0x04 OR 0x08 OR 0x10 OR 0x20 OR 0x40 OR 0x80,
     0x01 OR 0x02 OR 0x04 OR 0x08 OR 0x10 OR 0x20 OR 0x40 OR 0x80,
     0x01 OR 0x02 OR 0x04 OR 0x08 OR 0x10 OR 0x20 OR 0x40 OR 0x80,
     0x01 OR 0x02 OR 0x04 OR 0x08 OR 0x10 OR 0x20 OR 0x40 OR 0x80]"

definition FRAGMENT_ENCODE_SET :: "nat list" where
  "FRAGMENT_ENCODE_SET = [
     0x01 OR 0x02 OR 0x04 OR 0x08 OR 0x10 OR 0x20 OR 0x40 OR 0x80,
     0x01 OR 0x02 OR 0x04 OR 0x08 OR 0x10 OR 0x20 OR 0x40 OR 0x80,
     0x01 OR 0x02 OR 0x04 OR 0x08 OR 0x10 OR 0x20 OR 0x40 OR 0x80,
     0x01 OR 0x02 OR 0x04 OR 0x08 OR 0x10 OR 0x20 OR 0x40 OR 0x80,
     0x01 OR 0x00 OR 0x04 OR 0x00 OR 0x00 OR 0x00 OR 0x00 OR 0x00,
     0x00 OR 0x00 OR 0x00 OR 0x00 OR 0x00 OR 0x00 OR 0x00 OR 0x00,
     0x00 OR 0x00 OR 0x00 OR 0x00 OR 0x00 OR 0x00 OR 0x00 OR 0x00,
     0x00 OR 0x00 OR 0x00 OR 0x00 OR 0x10 OR 0x00 OR 0x40 OR 0x00,
     0x00 OR 0x00 OR 0x00 OR 0x00 OR 0x00 OR 0x00 OR 0x00 OR 0x00,
     0x00 OR 0x00 OR 0x00 OR 0x00 OR 0x00 OR 0x00 OR 0x00 OR 0x00,
     0x00 OR 0x00 OR 0x00 OR 0x00 OR 0x00 OR 0x00 OR 0x00 OR 0x00,
     0x00 OR 0x00 OR 0x00 OR 0x00 OR 0x00 OR 0x00 OR 0x00 OR 0x00,
     0x01 OR 0x00 OR 0x00 OR 0x00 OR 0x00 OR 0x00 OR 0x00 OR 0x00,
     0x00 OR 0x00 OR 0x00 OR 0x00 OR 0x00 OR 0x00 OR 0x00 OR 0x00,
     0x00 OR 0x00 OR 0x00 OR 0x00 OR 0x00 OR 0x00 OR 0x00 OR 0x00,
     0x00 OR 0x00 OR 0x00 OR 0x00 OR 0x00 OR 0x00 OR 0x00 OR 0x80,
     0x01 OR 0x02 OR 0x04 OR 0x08 OR 0x10 OR 0x20 OR 0x40 OR 0x80,
     0x01 OR 0x02 OR 0x04 OR 0x08 OR 0x10 OR 0x20 OR 0x40 OR 0x80,
     0x01 OR 0x02 OR 0x04 OR 0x08 OR 0x10 OR 0x20 OR 0x40 OR 0x80,
     0x01 OR 0x02 OR 0x04 OR 0x08 OR 0x10 OR 0x20 OR 0x40 OR 0x80,
     0x01 OR 0x02 OR 0x04 OR 0x08 OR 0x10 OR 0x20 OR 0x40 OR 0x80,
     0x01 OR 0x02 OR 0x04 OR 0x08 OR 0x10 OR 0x20 OR 0x40 OR 0x80,
     0x01 OR 0x02 OR 0x04 OR 0x08 OR 0x10 OR 0x20 OR 0x40 OR 0x80,
     0x01 OR 0x02 OR 0x04 OR 0x08 OR 0x10 OR 0x20 OR 0x40 OR 0x80,
     0x01 OR 0x02 OR 0x04 OR 0x08 OR 0x10 OR 0x20 OR 0x40 OR 0x80,
     0x01 OR 0x02 OR 0x04 OR 0x08 OR 0x10 OR 0x20 OR 0x40 OR 0x80,
     0x01 OR 0x02 OR 0x04 OR 0x08 OR 0x10 OR 0x20 OR 0x40 OR 0x80,
     0x01 OR 0x02 OR 0x04 OR 0x08 OR 0x10 OR 0x20 OR 0x40 OR 0x80,
     0x01 OR 0x02 OR 0x04 OR 0x08 OR 0x10 OR 0x20 OR 0x40 OR 0x80,
     0x01 OR 0x02 OR 0x04 OR 0x08 OR 0x10 OR 0x20 OR 0x40 OR 0x80,
     0x01 OR 0x02 OR 0x04 OR 0x08 OR 0x10 OR 0x20 OR 0x40 OR 0x80,
     0x01 OR 0x02 OR 0x04 OR 0x08 OR 0x10 OR 0x20 OR 0x40 OR 0x80]"

definition PATH_ENCODE_SET :: "nat list" where
  "PATH_ENCODE_SET = [
     0x01 OR 0x02 OR 0x04 OR 0x08 OR 0x10 OR 0x20 OR 0x40 OR 0x80,
     0x01 OR 0x02 OR 0x04 OR 0x08 OR 0x10 OR 0x20 OR 0x40 OR 0x80,
     0x01 OR 0x02 OR 0x04 OR 0x08 OR 0x10 OR 0x20 OR 0x40 OR 0x80,
     0x01 OR 0x02 OR 0x04 OR 0x08 OR 0x10 OR 0x20 OR 0x40 OR 0x80,
     0x01 OR 0x00 OR 0x04 OR 0x08 OR 0x00 OR 0x00 OR 0x00 OR 0x00,
     0x00 OR 0x00 OR 0x00 OR 0x00 OR 0x00 OR 0x00 OR 0x00 OR 0x00,
     0x00 OR 0x00 OR 0x00 OR 0x00 OR 0x00 OR 0x00 OR 0x00 OR 0x00,
     0x00 OR 0x00 OR 0x00 OR 0x00 OR 0x10 OR 0x00 OR 0x40 OR 0x80,
     0x00 OR 0x00 OR 0x00 OR 0x00 OR 0x00 OR 0x00 OR 0x00 OR 0x00,
     0x00 OR 0x00 OR 0x00 OR 0x00 OR 0x00 OR 0x00 OR 0x00 OR 0x00,
     0x00 OR 0x00 OR 0x00 OR 0x00 OR 0x00 OR 0x00 OR 0x00 OR 0x00,
     0x00 OR 0x00 OR 0x00 OR 0x00 OR 0x00 OR 0x00 OR 0x00 OR 0x00,
     0x01 OR 0x00 OR 0x00 OR 0x00 OR 0x00 OR 0x00 OR 0x00 OR 0x00,
     0x00 OR 0x00 OR 0x00 OR 0x00 OR 0x00 OR 0x00 OR 0x00 OR 0x00,
     0x00 OR 0x00 OR 0x00 OR 0x00 OR 0x00 OR 0x00 OR 0x00 OR 0x00,
     0x00 OR 0x00 OR 0x00 OR 0x08 OR 0x00 OR 0x20 OR 0x00 OR 0x80,
     0x01 OR 0x02 OR 0x04 OR 0x08 OR 0x10 OR 0x20 OR 0x40 OR 0x80,
     0x01 OR 0x02 OR 0x04 OR 0x08 OR 0x10 OR 0x20 OR 0x40 OR 0x80,
     0x01 OR 0x02 OR 0x04 OR 0x08 OR 0x10 OR 0x20 OR 0x40 OR 0x80,
     0x01 OR 0x02 OR 0x04 OR 0x08 OR 0x10 OR 0x20 OR 0x40 OR 0x80,
     0x01 OR 0x02 OR 0x04 OR 0x08 OR 0x10 OR 0x20 OR 0x40 OR 0x80,
     0x01 OR 0x02 OR 0x04 OR 0x08 OR 0x10 OR 0x20 OR 0x40 OR 0x80,
     0x01 OR 0x02 OR 0x04 OR 0x08 OR 0x10 OR 0x20 OR 0x40 OR 0x80,
     0x01 OR 0x02 OR 0x04 OR 0x08 OR 0x10 OR 0x20 OR 0x40 OR 0x80,
     0x01 OR 0x02 OR 0x04 OR 0x08 OR 0x10 OR 0x20 OR 0x40 OR 0x80,
     0x01 OR 0x02 OR 0x04 OR 0x08 OR 0x10 OR 0x20 OR 0x40 OR 0x80,
     0x01 OR 0x02 OR 0x04 OR 0x08 OR 0x10 OR 0x20 OR 0x40 OR 0x80,
     0x01 OR 0x02 OR 0x04 OR 0x08 OR 0x10 OR 0x20 OR 0x40 OR 0x80,
     0x01 OR 0x02 OR 0x04 OR 0x08 OR 0x10 OR 0x20 OR 0x40 OR 0x80,
     0x01 OR 0x02 OR 0x04 OR 0x08 OR 0x10 OR 0x20 OR 0x40 OR 0x80,
     0x01 OR 0x02 OR 0x04 OR 0x08 OR 0x10 OR 0x20 OR 0x40 OR 0x80,
     0x01 OR 0x02 OR 0x04 OR 0x08 OR 0x10 OR 0x20 OR 0x40 OR 0x80]"

definition QUERY_ENCODE_SET :: "nat list" where
  "QUERY_ENCODE_SET = [
     0x01 OR 0x02 OR 0x04 OR 0x08 OR 0x10 OR 0x20 OR 0x40 OR 0x80,
     0x01 OR 0x02 OR 0x04 OR 0x08 OR 0x10 OR 0x20 OR 0x40 OR 0x80,
     0x01 OR 0x02 OR 0x04 OR 0x08 OR 0x10 OR 0x20 OR 0x40 OR 0x80,
     0x01 OR 0x02 OR 0x04 OR 0x08 OR 0x10 OR 0x20 OR 0x40 OR 0x80,
     0x01 OR 0x00 OR 0x04 OR 0x08 OR 0x00 OR 0x00 OR 0x00 OR 0x00,
     0x00 OR 0x00 OR 0x00 OR 0x00 OR 0x00 OR 0x00 OR 0x00 OR 0x00,
     0x00 OR 0x00 OR 0x00 OR 0x00 OR 0x00 OR 0x00 OR 0x00 OR 0x00,
     0x00 OR 0x00 OR 0x00 OR 0x00 OR 0x10 OR 0x00 OR 0x40 OR 0x00,
     0x00 OR 0x00 OR 0x00 OR 0x00 OR 0x00 OR 0x00 OR 0x00 OR 0x00,
     0x00 OR 0x00 OR 0x00 OR 0x00 OR 0x00 OR 0x00 OR 0x00 OR 0x00,
     0x00 OR 0x00 OR 0x00 OR 0x00 OR 0x00 OR 0x00 OR 0x00 OR 0x00,
     0x00 OR 0x00 OR 0x00 OR 0x00 OR 0x00 OR 0x00 OR 0x00 OR 0x00,
     0x00 OR 0x00 OR 0x00 OR 0x00 OR 0x00 OR 0x00 OR 0x00 OR 0x00,
     0x00 OR 0x00 OR 0x00 OR 0x00 OR 0x00 OR 0x00 OR 0x00 OR 0x00,
     0x00 OR 0x00 OR 0x00 OR 0x00 OR 0x00 OR 0x00 OR 0x00 OR 0x00,
     0x00 OR 0x00 OR 0x00 OR 0x00 OR 0x00 OR 0x00 OR 0x00 OR 0x80,
     0x01 OR 0x02 OR 0x04 OR 0x08 OR 0x10 OR 0x20 OR 0x40 OR 0x80,
     0x01 OR 0x02 OR 0x04 OR 0x08 OR 0x10 OR 0x20 OR 0x40 OR 0x80,
     0x01 OR 0x02 OR 0x04 OR 0x08 OR 0x10 OR 0x20 OR 0x40 OR 0x80,
     0x01 OR 0x02 OR 0x04 OR 0x08 OR 0x10 OR 0x20 OR 0x40 OR 0x80,
     0x01 OR 0x02 OR 0x04 OR 0x08 OR 0x10 OR 0x20 OR 0x40 OR 0x80,
     0x01 OR 0x02 OR 0x04 OR 0x08 OR 0x10 OR 0x20 OR 0x40 OR 0x80,
     0x01 OR 0x02 OR 0x04 OR 0x08 OR 0x10 OR 0x20 OR 0x40 OR 0x80,
     0x01 OR 0x02 OR 0x04 OR 0x08 OR 0x10 OR 0x20 OR 0x40 OR 0x80,
     0x01 OR 0x02 OR 0x04 OR 0x08 OR 0x10 OR 0x20 OR 0x40 OR 0x80,
     0x01 OR 0x02 OR 0x04 OR 0x08 OR 0x10 OR 0x20 OR 0x40 OR 0x80,
     0x01 OR 0x02 OR 0x04 OR 0x08 OR 0x10 OR 0x20 OR 0x40 OR 0x80,
     0x01 OR 0x02 OR 0x04 OR 0x08 OR 0x10 OR 0x20 OR 0x40 OR 0x80,
     0x01 OR 0x02 OR 0x04 OR 0x08 OR 0x10 OR 0x20 OR 0x40 OR 0x80,
     0x01 OR 0x02 OR 0x04 OR 0x08 OR 0x10 OR 0x20 OR 0x40 OR 0x80,
     0x01 OR 0x02 OR 0x04 OR 0x08 OR 0x10 OR 0x20 OR 0x40 OR 0x80,
     0x01 OR 0x02 OR 0x04 OR 0x08 OR 0x10 OR 0x20 OR 0x40 OR 0x80]"

section \<open>The bit test\<close>

text \<open>
  \<open>encodeSet[cn >> 3] & (1 << (cn & 7))\<close>: past the 32 bytes the element is \<open>undefined\<close> and the
  conjunction is \<open>0\<close>.
\<close>

definition in_encode_set :: "nat list \<Rightarrow> nat \<Rightarrow> bool" where
  "in_encode_set encodeSet cn =
     (case char_at encodeSet (drop_bit 3 cn) of
        None \<Rightarrow> False
      | Some byte \<Rightarrow> byte AND push_bit (cn AND 7) 1 \<noteq> 0)"

text \<open>The tables with the disjunctions carried out, for evaluation.\<close>

lemma encode_set_bytes [code]:
  "USERINFO_ENCODE_SET =
     [255, 255, 255, 255, 13, 128, 0, 252, 1, 0, 0, 120, 1, 0, 0, 184, 255, 255, 255, 255, 255,
      255, 255, 255, 255, 255, 255, 255, 255, 255, 255, 255]"
  "C0_CONTROL_ENCODE_SET =
     [255, 255, 255, 255, 0, 0, 0, 0, 0, 0, 0, 0, 0, 0, 0, 128, 255, 255, 255, 255, 255, 255,
      255, 255, 255, 255, 255, 255, 255, 255, 255, 255]"
  "FRAGMENT_ENCODE_SET =
     [255, 255, 255, 255, 5, 0, 0, 80, 0, 0, 0, 0, 1, 0, 0, 128, 255, 255, 255, 255, 255, 255,
      255, 255, 255, 255, 255, 255, 255, 255, 255, 255]"
  "PATH_ENCODE_SET =
     [255, 255, 255, 255, 13, 0, 0, 208, 0, 0, 0, 0, 1, 0, 0, 168, 255, 255, 255, 255, 255,
      255, 255, 255, 255, 255, 255, 255, 255, 255, 255, 255]"
  "QUERY_ENCODE_SET =
     [255, 255, 255, 255, 13, 0, 0, 80, 0, 0, 0, 0, 0, 0, 0, 128, 255, 255, 255, 255, 255, 255,
      255, 255, 255, 255, 255, 255, 255, 255, 255, 255]"
  by (simp_all add: USERINFO_ENCODE_SET_def C0_CONTROL_ENCODE_SET_def FRAGMENT_ENCODE_SET_def PATH_ENCODE_SET_def QUERY_ENCODE_SET_def)

lemma nat_and_7: "(n::nat) AND 7 = n mod 8"
  using take_bit_eq_mask [of 3 n] by (simp add: take_bit_eq_mod mask_eq_exp_minus_1)

lemma nat_bit_test: "(0 < (b::nat) AND 2 ^ n) = odd (b div 2 ^ n)"
  using bit_iff_and_push_bit_not_eq_0 [of b n] by (simp add: bit_iff_odd)

lemma in_encode_set_code [code]:
  "in_encode_set encodeSet cn =
     (case char_at encodeSet (cn div 8) of None \<Rightarrow> False
      | Some byte \<Rightarrow> odd (byte div 2 ^ (cn mod 8)))"
  by (simp add: in_encode_set_def drop_bit_eq_div nat_and_7 nat_bit_test split: option.split)

end
