(* ===== verification/Url_Sets_Standard.thy ===== *)
theory Url_Sets_Standard
  imports Url_Sets
begin

text \<open>
  The five tables of \<open>packages/zero/lib/whatwg/url/encode_sets.js\<close> against the percent-encode
  sets of the URL standard, written as predicates on code units.
\<close>

section \<open>The tables are the sets of the URL standard\<close>

text \<open>
  The C0 control set (the controls and everything above \<open>'~'\<close>, as far as a table of 256 bits
  goes) with extra characters.
\<close>

definition standard_set :: "nat list \<Rightarrow> nat \<Rightarrow> bool" where
  "standard_set extra c \<longleftrightarrow> c < 256 \<and> (c \<le> 0x1F \<or> c > 0x7E \<or> c \<in> set extra)"

definition fragment_extra :: "nat list" where "fragment_extra = [0x20, 0x22, 0x3C, 0x3E, 0x60]"
definition query_extra :: "nat list" where "query_extra = [0x20, 0x22, 0x23, 0x3C, 0x3E]"
definition path_extra :: "nat list" where
  "path_extra = [0x20, 0x22, 0x23, 0x3C, 0x3E, 0x3F, 0x60, 0x7B, 0x7D]"
definition userinfo_extra :: "nat list" where
  "userinfo_extra = path_extra @ [0x2F, 0x3A, 0x3B, 0x3D, 0x40, 0x5B, 0x5C, 0x5D, 0x5E, 0x7C]"

lemma upto_255:
  "[0..<256] = [0, Suc 0, 2, 3, 4, 5, 6, 7, 8, 9, 10, 11, 12, 13, 14, 15, 16, 17, 18, 19, 20, 21, 22, 23,
    24, 25, 26, 27, 28, 29, 30, 31, 32, 33, 34, 35, 36, 37, 38, 39, 40, 41, 42, 43, 44, 45, 46,
    47, 48, 49, 50, 51, 52, 53, 54, 55, 56, 57, 58, 59, 60, 61, 62, 63, 64, 65, 66, 67, 68, 69,
    70, 71, 72, 73, 74, 75, 76, 77, 78, 79, 80, 81, 82, 83, 84, 85, 86, 87, 88, 89, 90, 91, 92,
    93, 94, 95, 96, 97, 98, 99, 100, 101, 102, 103, 104, 105, 106, 107, 108, 109, 110, 111,
    112, 113, 114, 115, 116, 117, 118, 119, 120, 121, 122, 123, 124, 125, 126, 127, 128, 129,
    130, 131, 132, 133, 134, 135, 136, 137, 138, 139, 140, 141, 142, 143, 144, 145, 146, 147,
    148, 149, 150, 151, 152, 153, 154, 155, 156, 157, 158, 159, 160, 161, 162, 163, 164, 165,
    166, 167, 168, 169, 170, 171, 172, 173, 174, 175, 176, 177, 178, 179, 180, 181, 182, 183,
    184, 185, 186, 187, 188, 189, 190, 191, 192, 193, 194, 195, 196, 197, 198, 199, 200, 201,
    202, 203, 204, 205, 206, 207, 208, 209, 210, 211, 212, 213, 214, 215, 216, 217, 218, 219,
    220, 221, 222, 223, 224, 225, 226, 227, 228, 229, 230, 231, 232, 233, 234, 235, 236, 237,
    238, 239, 240, 241, 242, 243, 244, 245, 246, 247, 248, 249, 250, 251, 252, 253, 254, 255]"
  by (simp add: upt_conv_Cons)

lemma encode_set_standardI:
  assumes "length S = 32"
    and "list_all (\<lambda>c. in_encode_set S c = standard_set extra c) [0..<256]"
  shows "in_encode_set S c = standard_set extra c"
proof (cases "c < 256")
  case True
  then show ?thesis using assms(2) by (simp add: list_all_iff)
next
  case False
  then have "32 \<le> c div 8" by simp
  then show ?thesis
    using assms(1) False by (simp add: in_encode_set_code char_at_def standard_set_def)
qed

lemma userinfo_set_standard: "in_encode_set USERINFO_ENCODE_SET c = standard_set userinfo_extra c"
proof (rule encode_set_standardI)
  show "list_all (\<lambda>c. in_encode_set USERINFO_ENCODE_SET c = standard_set userinfo_extra c) [0..<256]"
    unfolding upto_255 by code_simp
qed (simp add: encode_set_bytes)

lemma c0_control_set_standard: "in_encode_set C0_CONTROL_ENCODE_SET c = standard_set [] c"
proof (rule encode_set_standardI)
  show "list_all (\<lambda>c. in_encode_set C0_CONTROL_ENCODE_SET c = standard_set [] c) [0..<256]"
    unfolding upto_255 by code_simp
qed (simp add: encode_set_bytes)

lemma fragment_set_standard: "in_encode_set FRAGMENT_ENCODE_SET c = standard_set fragment_extra c"
proof (rule encode_set_standardI)
  show "list_all (\<lambda>c. in_encode_set FRAGMENT_ENCODE_SET c = standard_set fragment_extra c) [0..<256]"
    unfolding upto_255 by code_simp
qed (simp add: encode_set_bytes)

lemma path_set_standard: "in_encode_set PATH_ENCODE_SET c = standard_set path_extra c"
proof (rule encode_set_standardI)
  show "list_all (\<lambda>c. in_encode_set PATH_ENCODE_SET c = standard_set path_extra c) [0..<256]"
    unfolding upto_255 by code_simp
qed (simp add: encode_set_bytes)

lemma query_set_standard: "in_encode_set QUERY_ENCODE_SET c = standard_set query_extra c"
proof (rule encode_set_standardI)
  show "list_all (\<lambda>c. in_encode_set QUERY_ENCODE_SET c = standard_set query_extra c) [0..<256]"
    unfolding upto_255 by code_simp
qed (simp add: encode_set_bytes)

lemmas encode_sets_standard_each =
  userinfo_set_standard c0_control_set_standard fragment_set_standard path_set_standard
  query_set_standard

text \<open>C22: the five tables of percent-encode sets are, code unit by code unit, the userinfo, C0
  control, fragment, path and query sets of the URL standard below 256, and empty above.\<close>

theorem encode_sets_standard:
  "in_encode_set USERINFO_ENCODE_SET c = standard_set userinfo_extra c \<and>
   in_encode_set C0_CONTROL_ENCODE_SET c = standard_set [] c \<and>
   in_encode_set FRAGMENT_ENCODE_SET c = standard_set fragment_extra c \<and>
   in_encode_set PATH_ENCODE_SET c = standard_set path_extra c \<and>
   in_encode_set QUERY_ENCODE_SET c = standard_set query_extra c"
  by (simp add: encode_sets_standard_each)

end
