(* ===== verification/Url_Host.thy ===== *)
theory Url_Host
  imports Url_Sets
begin

text \<open>
  Hosts of URLs: the character classes, \<open>parseIPv6Host\<close>, \<open>parseIPv4Number\<close>, \<open>parseIPv4\<close>,
  \<open>parseOpaqueHost\<close> and \<open>parseHost\<close> of \<open>packages/zero/lib/whatwg/url/parser.js\<close>, and
  \<open>findLongestZeroSequence\<close> and \<open>serializeURLHost\<close> of \<open>packages/zero/lib/whatwg/url.js\<close>.

  The cursor \<open>pointer\<close> of \<open>parseIPv6Host\<close> is modelled by the suffix of the input it points to;
  \<open>pointer -= length\<close> is the suffix kept from before the digits.  Numbers are unbounded
  naturals: the code's doubles agree with them up to \<open>2^53\<close>, and larger values are only compared
  with bounds below that.
\<close>

section \<open>Character classes\<close>

text \<open>\<open>undefined\<close> is \<open>None\<close> and is in no class.\<close>

definition isASCIIAlpha :: "nat option \<Rightarrow> bool" where
  "isASCIIAlpha ch = (case ch of None \<Rightarrow> False
     | Some c \<Rightarrow> (65 \<le> c \<and> c \<le> 90) \<or> (97 \<le> c \<and> c \<le> 122))"

definition isASCIIDigit :: "nat option \<Rightarrow> bool" where
  "isASCIIDigit ch = (case ch of None \<Rightarrow> False | Some c \<Rightarrow> 48 \<le> c \<and> c \<le> 57)"

definition isASCIIAlphanumeric :: "nat option \<Rightarrow> bool" where
  "isASCIIAlphanumeric ch \<longleftrightarrow> isASCIIAlpha ch \<or> isASCIIDigit ch"

definition isASCIIHex :: "nat option \<Rightarrow> bool" where
  "isASCIIHex ch \<longleftrightarrow> isASCIIDigit ch \<or>
     (case ch of None \<Rightarrow> False | Some c \<Rightarrow> (65 \<le> c \<and> c \<le> 70) \<or> (97 \<le> c \<and> c \<le> 102))"

definition ASCIILowercase :: "nat \<Rightarrow> nat" where
  "ASCIILowercase c = (if 65 \<le> c \<and> c \<le> 90 then c + 32 else c)"

section \<open>IPv6\<close>

text \<open>\<open>while (length < 4 && isASCIIHex(input[pointer]))\<close>: value, length and what is left.\<close>

fun hex_run :: "nat \<Rightarrow> nat \<Rightarrow> jsstr \<Rightarrow> nat \<times> nat \<times> jsstr" where
  "hex_run value len [] = (value, len, [])"
| "hex_run value len (c # cs) =
     (if len < 4 \<and> isASCIIHex (Some c)
      then hex_run (value * 0x10 + digit_val c) (len + 1) cs
      else (value, len, c # cs))"

text \<open>\<open>while (isASCIIDigit(input[pointer]))\<close> over one decimal piece; \<open>None\<close> is \<open>return null\<close>.\<close>

fun ipv4_piece :: "nat option \<Rightarrow> jsstr \<Rightarrow> (nat option \<times> jsstr) option" where
  "ipv4_piece piece [] = Some (piece, [])"
| "ipv4_piece piece (c # cs) =
     (if isASCIIDigit (Some c) then
        (case (case piece of None \<Rightarrow> Some (digit_val c)
               | Some p \<Rightarrow> if p = 0 then None else Some (p * 10 + digit_val c)) of
           None \<Rightarrow> None
         | Some p' \<Rightarrow> if p' > 255 then None else ipv4_piece (Some p') cs)
      else Some (piece, c # cs))"

lemma ipv4_piece_shrinks: "ipv4_piece piece s = Some (p, r) \<Longrightarrow> length r \<le> length s"
  by (induction piece s rule: ipv4_piece.induct)
     (auto split: if_splits option.splits)

lemma ipv4_piece_digit_shrinks:
  assumes "isASCIIDigit (Some c)" and "ipv4_piece piece (c # cs) = Some (p, r)"
  shows "length r < length (c # cs)"
  using assms ipv4_piece_shrinks
  by (auto simp: Let_def less_Suc_eq_le split: if_splits option.splits)

text \<open>The dotted tail of an IPv6 address: \<open>while (input[pointer])\<close> with \<open>numbersSeen\<close>.\<close>

function ipv6_v4_tail ::
  "nat list \<Rightarrow> nat \<Rightarrow> nat \<Rightarrow> jsstr \<Rightarrow> (nat list \<times> nat) option" where
  "ipv6_v4_tail address pieceIndex numbersSeen rest =
     (case rest of
        [] \<Rightarrow> if numbersSeen \<noteq> 4 then None else Some (address, pieceIndex)
      | c # cs \<Rightarrow>
          (case (if numbersSeen > 0
                 then (if c = 46 \<and> numbersSeen < 4 then Some cs else None)
                 else Some rest) of
             None \<Rightarrow> None
           | Some r \<Rightarrow>
               if \<not> isASCIIDigit (char_at r 0) then None
               else (case ipv4_piece None r of
                       None \<Rightarrow> None
                     | Some (piece, r') \<Rightarrow>
                         ipv6_v4_tail
                           (address[pieceIndex :=
                              (address ! pieceIndex) * 0x100 + (case piece of None \<Rightarrow> 0 | Some p \<Rightarrow> p)])
                           (if numbersSeen + 1 = 2 \<or> numbersSeen + 1 = 4 then pieceIndex + 1
                            else pieceIndex)
                           (numbersSeen + 1) r')))"
  by pat_completeness auto
termination
proof (relation "measure (\<lambda>(address, pieceIndex, numbersSeen, rest). length rest)", goal_cases)
  case (2 address pieceIndex numbersSeen rest c cs r pr piece r')
  then obtain d ds where r: "r = d # ds" "isASCIIDigit (Some d)"
    by (cases r) (auto simp: isASCIIDigit_def)
  then have "length r' < length r" using ipv4_piece_digit_shrinks 2 by fastforce
  moreover have "length r \<le> length rest" using 2 by (auto split: if_splits)
  ultimately show ?case using 2 by simp
qed simp

declare ipv6_v4_tail.simps [simp del]

lemma hex_run_shrinks:
  "hex_run v0 l0 s = (v, l, r) \<Longrightarrow> length r + l = length s + l0"
  by (induction v0 l0 s arbitrary: v l r rule: hex_run.induct) (auto split: if_splits)

text \<open>The main loop; \<open>compress\<close> is \<open>null\<close> (\<open>None\<close>) until \<open>'::'\<close> is seen.\<close>

function parse6_loop ::
  "nat list \<Rightarrow> nat \<Rightarrow> nat option \<Rightarrow> jsstr \<Rightarrow> (nat list \<times> nat \<times> nat option) option" where
  "parse6_loop address pieceIndex compress rest =
     (case rest of
        [] \<Rightarrow> Some (address, pieceIndex, compress)
      | c # cs \<Rightarrow>
          if pieceIndex = 8 then None
          else if c = 58 then
            (if compress \<noteq> None then None
             else parse6_loop address (pieceIndex + 1) (Some (pieceIndex + 1)) cs)
          else
            (case hex_run 0 0 rest of (value, len, rest') \<Rightarrow>
               (case rest' of
                  [] \<Rightarrow> Some (address[pieceIndex := value], pieceIndex + 1, compress)
                | d # ds \<Rightarrow>
                    if d = 46 then
                      (if len = 0 then None
                       else if pieceIndex > 6 then None
                       else map_option (\<lambda>(a, p). (a, p, compress))
                              (ipv6_v4_tail address pieceIndex 0 rest))
                    else if d = 58 then
                      (if ds = [] then None
                       else parse6_loop (address[pieceIndex := value]) (pieceIndex + 1) compress ds)
                    else None)))"
  by pat_completeness auto
termination
  by (relation "measure (\<lambda>(address, pieceIndex, compress, rest). length rest)")
     (auto dest!: hex_run_shrinks [OF sym] simp del: hex_run.simps)

declare parse6_loop.simps [simp del]

text \<open>\<open>while (pieceIndex !== 0 && swaps > 0)\<close>: the pieces after \<open>'::'\<close> move to the end.\<close>

fun swap_pieces :: "nat list \<Rightarrow> nat \<Rightarrow> nat \<Rightarrow> nat \<Rightarrow> nat list" where
  "swap_pieces address pieceIndex compress 0 = address"
| "swap_pieces address pieceIndex compress (Suc swaps) =
     (if pieceIndex = 0 then address
      else swap_pieces
             (address[pieceIndex := address ! (compress + Suc swaps - 1),
                      compress + Suc swaps - 1 := address ! pieceIndex])
             (pieceIndex - 1) compress swaps)"

definition parseIPv6Host :: "jsstr \<Rightarrow> nat list option" where
  "parseIPv6Host input =
     (let start =
        (if char_at input 0 = Some 58
         then (if char_at input 1 \<noteq> Some 58 then None else Some (1, Some 1, drop 2 input))
         else Some (0, None, input))
      in case start of
           None \<Rightarrow> None
         | Some (p0, c0, rest) \<Rightarrow>
             (case parse6_loop [0, 0, 0, 0, 0, 0, 0, 0] p0 c0 rest of
                None \<Rightarrow> None
              | Some (address, pieceIndex, compress) \<Rightarrow>
                  (case compress of
                     Some c \<Rightarrow> Some (swap_pieces address 7 c (pieceIndex - c))
                   | None \<Rightarrow> if pieceIndex \<noteq> 8 then None else Some address)))"

section \<open>IPv4\<close>

definition parseIPv4Number :: "jsstr \<Rightarrow> nat option" where
  "parseIPv4Number input =
     (let (R, s) =
        (if length input \<ge> 2 \<and> input ! 0 = 48 \<and> (input ! 1 = 120 \<or> input ! 1 = 88)
         then (16, drop 2 input)
         else if length input \<ge> 2 \<and> input ! 0 = 48 then (8, drop 1 input)
         else (10, input))
      in if s = [] then Some 0
         else if R = 10 \<and> list_ex (\<lambda>c. \<not> (48 \<le> c \<and> c \<le> 57)) s then None
         else if R = 16 \<and> list_ex (\<lambda>c. \<not> isASCIIHex (Some c)) s then None
         else if R = 8 \<and> list_ex (\<lambda>c. \<not> (48 \<le> c \<and> c \<le> 55)) s then None
         else Some (parse_radix R s))"

text \<open>What \<open>parseIPv4\<close> returns: its input again, \<open>null\<close>, or a number.\<close>

datatype ipv4_result = IPv4Input jsstr | IPv4Null | IPv4Number nat

fun ipv4_numbers :: "jsstr list \<Rightarrow> nat list option" where
  "ipv4_numbers [] = Some []"
| "ipv4_numbers (part # parts) =
     (if part = [] then None
      else case parseIPv4Number part of
             None \<Rightarrow> None
           | Some n \<Rightarrow> map_option (\<lambda>ns. n # ns) (ipv4_numbers parts))"

fun ipv4_sum :: "nat \<Rightarrow> nat \<Rightarrow> nat list \<Rightarrow> nat" where
  "ipv4_sum ipv4 counter [] = ipv4"
| "ipv4_sum ipv4 counter (n # ns) = ipv4_sum (ipv4 + n * 256 ^ (3 - counter)) (counter + 1) ns"

definition parseIPv4 :: "jsstr \<Rightarrow> ipv4_result" where
  "parseIPv4 input =
     (let parts0 = js_split 46 input;
          parts = (if last parts0 = [] \<and> length parts0 > 1 then butlast parts0 else parts0)
      in if length parts > 4 then IPv4Input input
         else case ipv4_numbers parts of
                None \<Rightarrow> IPv4Input input
              | Some numbers \<Rightarrow>
                  if list_ex (\<lambda>n. n > 255) (butlast numbers) then IPv4Null
                  else if last numbers \<ge> 256 ^ (5 - length numbers) then IPv4Null
                  else IPv4Number (ipv4_sum (last numbers) 0 (butlast numbers)))"

section \<open>Opaque hosts\<close>

text \<open>
  \<open>toUpperCase\<close> on a one-character string is the parameter \<open>upper\<close>: its Unicode tables are data
  of the JavaScript engine, and one code unit can become several.  \<open>percentEncode\<close> calls
  \<open>c.toString(16)\<close> on a string, which ignores the radix and returns \<open>c\<close> itself, so the result is
  the upper-cased character after a \<open>'0'\<close> (or, when upper-casing lengthens it, after a \<open>'%'\<close>).
\<close>

definition percentEncode :: "(nat \<Rightarrow> jsstr) \<Rightarrow> nat \<Rightarrow> jsstr" where
  "percentEncode upper c =
     (let h = upper c in if length h = 1 then 48 # h else 37 # h)"

definition isC0ControlPercentEncode :: "nat \<Rightarrow> bool" where
  "isC0ControlPercentEncode c \<longleftrightarrow> c \<le> 0x1F \<or> c > 0x7E"

definition percentEncodeChar :: "(nat \<Rightarrow> jsstr) \<Rightarrow> nat \<Rightarrow> (nat \<Rightarrow> bool) \<Rightarrow> jsstr" where
  "percentEncodeChar upper c encodeSetPredicate =
     (if encodeSetPredicate c then percentEncode upper c else [c])"

definition containsForbiddenHostCodePoint :: "jsstr \<Rightarrow> bool" where
  "containsForbiddenHostCodePoint str \<longleftrightarrow>
     list_ex (\<lambda>c. c \<in> set [0x00, 0x09, 0x0A, 0x0D, 0x20, 35, 47, 58, 63, 64, 91, 92, 93]) str"

definition parseOpaqueHost :: "(nat \<Rightarrow> jsstr) \<Rightarrow> jsstr \<Rightarrow> jsstr option" where
  "parseOpaqueHost upper input =
     (if containsForbiddenHostCodePoint input then None
      else Some (concat (map (\<lambda>c. percentEncodeChar upper c isC0ControlPercentEncode) input)))"

text \<open>A host that is not \<open>null\<close>: a string, an IPv4 number or the pieces of an IPv6 address.\<close>

datatype host = HostString jsstr | HostNumber nat | HostPieces "nat list"

definition percentDecode :: "jsstr \<Rightarrow> jsstr" where "percentDecode str = str"
definition toASCII :: "jsstr \<Rightarrow> jsstr" where "toASCII str = str"

definition parseHost :: "(nat \<Rightarrow> jsstr) \<Rightarrow> jsstr \<Rightarrow> bool \<Rightarrow> host option" where
  "parseHost upper input special =
     (if length input = 0 then Some (HostString [])
      else if input ! 0 = 91 then
        (if input ! (length input - 1) \<noteq> 93 then None
         else map_option HostPieces (parseIPv6Host (slice input 1 (length input - 1))))
      else if \<not> special then map_option HostString (parseOpaqueHost upper input)
      else let asciiDomain = toASCII (percentDecode input)
           in if asciiDomain = [] then None
              else if containsForbiddenHostCodePoint asciiDomain then None
              else case parseIPv4 asciiDomain of
                     IPv4Number n \<Rightarrow> Some (HostNumber n)
                   | IPv4Null \<Rightarrow> None
                   | IPv4Input s \<Rightarrow> if s = [] then Some (HostString s) else Some (HostString asciiDomain))"

section \<open>Serialisation\<close>

record zero_vars =
  maxIdx :: "nat option"
  maxLen :: nat
  currStart :: "nat option"
  currLen :: nat

definition zero_step :: "nat \<Rightarrow> nat \<Rightarrow> zero_vars \<Rightarrow> zero_vars" where
  "zero_step i x v =
     (if x \<noteq> 0 then
        (let v' = (if currLen v > maxLen v
                   then v\<lparr>maxIdx := currStart v, maxLen := currLen v\<rparr> else v)
         in v'\<lparr>currStart := None, currLen := 0\<rparr>)
      else v\<lparr>currStart := (if currStart v = None then Some i else currStart v),
             currLen := currLen v + 1\<rparr>)"

fun zero_loop :: "nat \<Rightarrow> nat list \<Rightarrow> zero_vars \<Rightarrow> zero_vars" where
  "zero_loop i [] v = v"
| "zero_loop i (x # xs) v = zero_loop (i + 1) xs (zero_step i x v)"

text \<open>The index and the length of the longest run of more than one zero.\<close>

definition findLongestZeroSequence :: "nat list \<Rightarrow> nat option \<times> nat" where
  "findLongestZeroSequence arr =
     (let v = zero_loop 0 arr \<lparr>maxIdx = None, maxLen = 1, currStart = None, currLen = 0\<rparr>
      in if currLen v > maxLen v then (currStart v, currLen v) else (maxIdx v, maxLen v))"

fun serialize_ipv4 :: "nat \<Rightarrow> nat \<Rightarrow> jsstr \<Rightarrow> jsstr" where
  "serialize_ipv4 0 n out = out"
| "serialize_ipv4 (Suc k) n out =
     (let out' = to_radix 10 (n mod 256) @ out
      in serialize_ipv4 k (n div 256) (if k \<noteq> 0 then 46 # out' else out'))"

fun serialize_pieces :: "nat option \<Rightarrow> nat \<Rightarrow> bool \<Rightarrow> nat list \<Rightarrow> jsstr" where
  "serialize_pieces compress pieceIndex ignore0 [] = []"
| "serialize_pieces compress pieceIndex ignore0 (x # xs) =
     (if ignore0 \<and> x = 0 then serialize_pieces compress (pieceIndex + 1) True xs
      else if compress = Some pieceIndex
      then (if pieceIndex = 0 then [58, 58] else [58])
           @ serialize_pieces compress (pieceIndex + 1) True xs
      else to_radix 16 x @ (if pieceIndex \<noteq> 7 then [58] else [])
           @ serialize_pieces compress (pieceIndex + 1) False xs)"

definition serializeURLHost :: "host \<Rightarrow> jsstr" where
  "serializeURLHost host =
     (case host of
        HostNumber n \<Rightarrow> serialize_ipv4 4 n []
      | HostPieces ps \<Rightarrow>
          91 # serialize_pieces (fst (findLongestZeroSequence ps)) 0 False ps @ [93]
      | HostString s \<Rightarrow> s)"

section \<open>IPv6 addresses are eight 16-bit pieces\<close>

lemma digit_val_hex: "isASCIIHex (Some c) \<Longrightarrow> digit_val c < 16"
  by (auto simp: isASCIIHex_def isASCIIDigit_def digit_val_def)

lemma hex_run_bound:
  assumes "hex_run v0 l0 s = (v, l, r)" and "v0 < 16 ^ l0" and "l0 \<le> 4"
  shows "v < 65536"
  using assms
proof (induction v0 l0 s rule: hex_run.induct)
  case (1 v0 l0)
  then have "v0 < 16 ^ 4" using power_increasing [of l0 4 "16::nat"] by simp
  then show ?case using 1 by simp
next
  case (2 v0 l0 c cs)
  show ?case
  proof (cases "l0 < 4 \<and> isASCIIHex (Some c)")
    case True
    then have "v0 * 16 + digit_val c < 16 ^ (l0 + 1)"
      using digit_val_hex [of c] 2(3) by simp
    then show ?thesis using 2 True by simp
  next
    case False
    have "v0 < 16 ^ 4" using 2(3,4) power_increasing [of l0 4 "16::nat"] by simp
    then show ?thesis using 2 False by auto
  qed
qed

lemma ipv4_piece_bound:
  assumes "ipv4_piece p0 s = Some (p, r)" and "\<And>x. p0 = Some x \<Longrightarrow> x \<le> 255" and "p = Some y"
  shows "y \<le> 255"
  using assms
  by (induction p0 s rule: ipv4_piece.induct) (auto split: if_splits option.splits)

definition pieces_ok :: "nat list \<Rightarrow> bool" where
  "pieces_ok a \<longleftrightarrow> length a = 8 \<and> (\<forall>x \<in> set a. x < 65536)"

lemma pieces_ok_update: "pieces_ok a \<Longrightarrow> x < 65536 \<Longrightarrow> pieces_ok (a[i := x])"
  by (auto simp: pieces_ok_def dest!: set_update_subset_insert [THEN subsetD])

definition tail_inv :: "nat list \<Rightarrow> nat \<Rightarrow> nat \<Rightarrow> bool" where
  "tail_inv a p ns \<longleftrightarrow> pieces_ok a \<and> (\<forall>j. p < j \<and> j < 8 \<longrightarrow> a ! j = 0) \<and>
     (ns = 0 \<and> p \<le> 6 \<and> a ! p = 0 \<or> ns = 1 \<and> p \<le> 6 \<and> a ! p \<le> 255 \<or>
      ns = 2 \<and> p \<le> 7 \<and> a ! p = 0 \<or> ns = 3 \<and> p \<le> 7 \<and> a ! p \<le> 255 \<or> ns = 4 \<and> p \<le> 8)"

lemma tail_inv_step:
  assumes "tail_inv a p ns" and "ns < 4" and "q \<le> 255"
  shows "tail_inv (a[p := a ! p * 256 + q])
           (if ns + 1 = 2 \<or> ns + 1 = 4 then p + 1 else p) (ns + 1)"
proof -
  have ok: "pieces_ok a" and len: "length a = 8" and p: "p < 8" and "a ! p \<le> 255"
    using assms by (auto simp: tail_inv_def pieces_ok_def)
  then have "pieces_ok (a[p := a ! p * 256 + q])"
    using assms(3) by (intro pieces_ok_update) auto
  then show ?thesis
    using assms len p by (auto simp: tail_inv_def nth_list_update)
qed

lemma ipv6_v4_tail_inv:
  assumes "ipv6_v4_tail a p ns rest = Some (a', p')" and "tail_inv a p ns"
  shows "pieces_ok a' \<and> p' \<le> 8"
  using assms
proof (induction a p ns rest rule: ipv6_v4_tail.induct)
  case (1 a p ns rest)
  show ?case
  proof (cases rest)
    case Nil
    then show ?thesis using 1 by (auto simp: ipv6_v4_tail.simps [of a] tail_inv_def split: if_splits)
  next
    case (Cons c cs)
    then obtain r piece r' where
      r: "(if ns > 0 then (if c = 46 \<and> ns < 4 then Some cs else None) else Some rest) = Some r"
      and d: "isASCIIDigit (char_at r 0)" and piece: "ipv4_piece None r = Some (piece, r')"
      and rec: "ipv6_v4_tail (a[p := a ! p * 0x100 + (case piece of None \<Rightarrow> 0 | Some p \<Rightarrow> p)])
          (if ns + 1 = 2 \<or> ns + 1 = 4 then p + 1 else p) (ns + 1) r' = Some (a', p')"
      using 1(2) by (auto simp: ipv6_v4_tail.simps [of a] split: if_splits option.splits)
    have "ns < 4" using r by (auto split: if_splits)
    moreover have "(case piece of None \<Rightarrow> 0 | Some p \<Rightarrow> p) \<le> 255"
      using ipv4_piece_bound [OF piece] by (auto split: option.split)
    ultimately have "tail_inv (a[p := a ! p * 256 + (case piece of None \<Rightarrow> 0 | Some p \<Rightarrow> p)])
        (if ns + 1 = 2 \<or> ns + 1 = 4 then p + 1 else p) (ns + 1)"
      by (intro tail_inv_step [OF 1(3)])
    then show ?thesis using 1(1) [OF Cons r _ piece _ rec] d by simp
  qed
qed

definition loop_inv :: "nat list \<Rightarrow> nat \<Rightarrow> nat option \<Rightarrow> bool" where
  "loop_inv a p c \<longleftrightarrow> pieces_ok a \<and> (\<forall>j. p \<le> j \<and> j < 8 \<longrightarrow> a ! j = 0) \<and> p \<le> 8 \<and>
     (\<forall>k. c = Some k \<longrightarrow> k \<le> p \<and> 0 < k)"

lemma loop_inv_skip: "loop_inv a p None \<Longrightarrow> p \<noteq> 8 \<Longrightarrow> loop_inv a (p + 1) (Some (p + 1))"
  by (auto simp: loop_inv_def)

lemma loop_inv_piece:
  "loop_inv a p c \<Longrightarrow> p \<noteq> 8 \<Longrightarrow> x < 65536 \<Longrightarrow> loop_inv (a[p := x]) (p + 1) c"
  by (auto simp: loop_inv_def pieces_ok_update nth_list_update dest: le_SucI)

lemma parse6_loop_inv:
  assumes "parse6_loop a p c rest = Some (a', p', c')" and "loop_inv a p c"
  shows "pieces_ok a' \<and> p' \<le> 8 \<and> (\<forall>k. c' = Some k \<longrightarrow> 0 < k)"
  using assms
proof (induction a p c rest rule: parse6_loop.induct)
  case (1 a p c rest)
  show ?case
  proof (cases rest)
    case Nil
    then show ?thesis using 1 by (auto simp: parse6_loop.simps [of a] loop_inv_def)
  next
    case (Cons x xs)
    have p8: "p \<noteq> 8" using Cons 1(3) by (auto simp: parse6_loop.simps [of a])
    show ?thesis
    proof (cases "x = 58")
      case True
      then have c: "c = None" and rec: "parse6_loop a (p + 1) (Some (p + 1)) xs = Some (a', p', c')"
        using Cons p8 1(3) by (auto simp: parse6_loop.simps [of a] split: if_splits)
      show ?thesis using 1(1) [OF Cons p8 True _ rec] c 1(4) loop_inv_skip p8 by auto
    next
      case False
      obtain v l r where run: "hex_run 0 0 rest = (v, l, r)" by (cases "hex_run 0 0 rest") auto
      have v: "v < 65536" using hex_run_bound [OF run] by simp
      note inv = loop_inv_piece [OF 1(4) p8 v]
      consider "r = []" | ds where "r = 46 # ds" | ds where "r = 58 # ds" "ds \<noteq> []"
        using Cons p8 False run 1(3)
        by (auto simp: parse6_loop.simps [of a] split: list.splits if_splits)
      then show ?thesis
      proof cases
        case 1
        then show ?thesis using Cons p8 False run "1.prems" inv
          by (auto simp: parse6_loop.simps [of a] loop_inv_def)
      next
        case (2 ds)
        have inv: "tail_inv a p 0" using \<open>loop_inv a p c\<close> Cons p8 False run 2 "1.prems"(1)
          by (auto simp: parse6_loop.simps [of a] loop_inv_def tail_inv_def split: if_splits)
        then show ?thesis using Cons p8 False run 2 "1.prems" ipv6_v4_tail_inv [OF _ inv]
          by (auto simp: parse6_loop.simps [of a] loop_inv_def split: if_splits)
      next
        case (3 ds)
        then have rec: "parse6_loop (a[p := v]) (p + 1) c ds = Some (a', p', c')"
          using Cons p8 False run "1.prems"(1) by (simp add: parse6_loop.simps [of a])
        show ?thesis
          using "1.IH"(2) [OF Cons p8 False run [symmetric] _ 3(1) _ _ _ rec] 3(2) inv by simp
      qed
    qed
  qed
qed

lemma swap_pieces_ok:
  assumes "pieces_ok a" and "i \<le> 7" and "c + n \<le> 8" and "0 < c"
  shows "pieces_ok (swap_pieces a i c n)"
  using assms
proof (induction n arbitrary: a i)
  case (Suc n)
  let ?s = "c + Suc n - 1"
  have len: "length a = 8" and "?s < 8" "i < 8" using Suc.prems by (auto simp: pieces_ok_def)
  then have "a ! ?s < 65536" "a ! i < 65536" using Suc.prems(1) by (auto simp: pieces_ok_def)
  then have "pieces_ok (a[i := a ! ?s, ?s := a ! i])"
    using Suc.prems(1) by (simp add: pieces_ok_update)
  then show ?case using Suc by simp
qed simp

lemma eight_zeros: "[0, 0, 0, 0, 0, 0, 0, 0] = replicate 8 (0::nat)"
  by (simp add: eval_nat_numeral)

lemma loop_inv_start:
  "loop_inv [0, 0, 0, 0, 0, 0, 0, 0] 0 None"
  "loop_inv [0, 0, 0, 0, 0, 0, 0, 0] 1 (Some 1)"
  unfolding eight_zeros by (simp_all add: loop_inv_def pieces_ok_def)

lemma parseIPv6Host_ok:
  assumes "parseIPv6Host s = Some a"
  shows "pieces_ok a"
proof -
  obtain p0 c0 rest where st: "loop_inv [0, 0, 0, 0, 0, 0, 0, 0] p0 c0"
    and run: "(case parse6_loop [0, 0, 0, 0, 0, 0, 0, 0] p0 c0 rest of
                 None \<Rightarrow> None
               | Some (address, pieceIndex, compress) \<Rightarrow>
                   (case compress of
                      Some c \<Rightarrow> Some (swap_pieces address 7 c (pieceIndex - c))
                    | None \<Rightarrow> if pieceIndex \<noteq> 8 then None else Some address)) = Some a"
    using assms loop_inv_start unfolding parseIPv6Host_def Let_def
    by (auto split: if_splits simp del: One_nat_def)
  then obtain address p c where loop: "parse6_loop [0, 0, 0, 0, 0, 0, 0, 0] p0 c0 rest = Some (address, p, c)"
    by (auto split: option.splits)
  note inv = parse6_loop_inv [OF loop st]
  show ?thesis
  proof (cases c)
    case None
    then show ?thesis using run loop inv by (auto split: if_splits)
  next
    case (Some k)
    then have "a = swap_pieces address 7 k (p - k)" using run loop by simp
    moreover have "k + (p - k) \<le> 8 \<or> p - k = 0" using inv by auto
    ultimately show ?thesis using swap_pieces_ok [of address 7 k "p - k"] inv Some by auto
  qed
qed

section \<open>IPv4 numbers survive serialisation\<close>

lemma to_radix_10_no_dot: "46 \<notin> set (to_radix 10 n)"
  using to_radix_10_digits [of 46 n] by (auto simp: is_digit_def)

lemma parseIPv4Number_decimal: "parseIPv4Number (to_radix 10 n) = Some n"
proof -
  have head: "to_radix 10 n ! 0 \<noteq> 48" if "2 \<le> length (to_radix 10 n)"
    using to_radix_long [OF that] by (intro to_radix_head) auto
  have "\<not> list_ex (\<lambda>c. \<not> (48 \<le> c \<and> c \<le> 57)) (to_radix 10 n)"
    using to_radix_10_digits by (auto simp: list_ex_iff is_digit_def)
  then show ?thesis
    using head parse_to_radix [of 10 n] by (auto simp: parseIPv4Number_def)
qed

lemma serialize_ipv4_octets:
  "serialize_ipv4 4 n [] =
     js_join [46] (map (to_radix 10) [n div 256 div 256 div 256 mod 256, n div 256 div 256 mod 256,
                                      n div 256 mod 256, n mod 256])"
proof -
  have four: "(4::nat) = Suc (Suc (Suc (Suc 0)))" by simp
  show ?thesis unfolding four by simp
qed

lemma ipv4_numbers_decimal: "ipv4_numbers (map (to_radix 10) ns) = Some ns"
  by (induction ns) (auto simp: parseIPv4Number_decimal)

lemma parseIPv4_octets:
  assumes "a < 256" "b < 256" "c < 256" "d < 256"
  shows "parseIPv4 (js_join [46] (map (to_radix 10) [a, b, c, d]))
    = IPv4Number (d + a * 16777216 + b * 65536 + c * 256)"
proof -
  have split: "js_split 46 (js_join [46] (map (to_radix 10) [a, b, c, d])) = map (to_radix 10) [a, b, c, d]"
    by (rule js_split_join) (auto simp: to_radix_10_no_dot)
  have numbers: "ipv4_numbers (map (to_radix 10) [a, b, c, d]) = Some [a, b, c, d]"
    by (rule ipv4_numbers_decimal)
  show ?thesis
    unfolding parseIPv4_def split Let_def using assms numbers by simp
qed

lemma parseIPv4_serialize:
  assumes "n < 2 ^ 32"
  shows "parseIPv4 (serialize_ipv4 4 n []) = IPv4Number n"
proof -
  define a b c where "a = n div 256" and "b = a div 256" and "c = b div 256"
  have c: "c mod 256 = c" using assms by (simp add: a_def b_def c_def)
  have "n = a * 256 + n mod 256" "a = b * 256 + a mod 256" "b = c * 256 + b mod 256"
    by (simp_all add: a_def b_def c_def)
  with c have n: "n mod 256 + c mod 256 * 16777216 + b mod 256 * 65536 + a mod 256 * 256 = n"
    by linarith
  have "serialize_ipv4 4 n [] = js_join [46] (map (to_radix 10) [c mod 256, b mod 256, a mod 256, n mod 256])"
    unfolding serialize_ipv4_octets a_def b_def c_def ..
  then show ?thesis
    using parseIPv4_octets [of "c mod 256" "b mod 256" "a mod 256" "n mod 256"] n by simp
qed

lemma serialize_ipv4_chars: "c \<in> set (serialize_ipv4 4 n []) \<Longrightarrow> c = 46 \<or> 48 \<le> c \<and> c \<le> 57"
  unfolding serialize_ipv4_octets using to_radix_10_digits by (auto simp: is_digit_def)

lemma serialize_ipv4_not_Nil: "serialize_ipv4 4 n [] \<noteq> []"
  unfolding serialize_ipv4_octets by simp

lemma parseHost_ipv4:
  assumes "n < 2 ^ 32"
  shows "parseHost upper (serializeURLHost (HostNumber n)) True = Some (HostNumber n)"
proof -
  let ?s = "serialize_ipv4 4 n []"
  have "\<not> containsForbiddenHostCodePoint ?s"
    using serialize_ipv4_chars [of _ n] by (fastforce simp: containsForbiddenHostCodePoint_def list_ex_iff)
  moreover have "?s ! 0 \<noteq> 91"
    using serialize_ipv4_chars [of "?s ! 0" n] serialize_ipv4_not_Nil [of n] nth_mem [of 0 ?s]
    by auto
  ultimately show ?thesis
    using serialize_ipv4_not_Nil parseIPv4_serialize [OF assms]
    by (simp add: parseHost_def serializeURLHost_def toASCII_def percentDecode_def)
qed

section \<open>IPv6 pieces survive serialisation\<close>

subsection \<open>The longest run of zeros\<close>

definition zeros_at :: "nat list \<Rightarrow> nat \<Rightarrow> nat \<Rightarrow> bool" where
  "zeros_at arr k len \<longleftrightarrow> k + len \<le> length arr \<and> (\<forall>j. k \<le> j \<and> j < k + len \<longrightarrow> arr ! j = 0)"

definition zero_inv :: "nat list \<Rightarrow> nat \<Rightarrow> zero_vars \<Rightarrow> bool" where
  "zero_inv arr i v \<longleftrightarrow>
     1 \<le> maxLen v \<and> currLen v \<le> i \<and> i \<le> length arr \<and>
     (currLen v > 0 \<longrightarrow> currStart v = Some (i - currLen v) \<and> zeros_at arr (i - currLen v) (currLen v)) \<and>
     (currLen v = 0 \<longrightarrow> currStart v = None) \<and>
     (\<forall>k. maxIdx v = Some k \<longrightarrow>
        2 \<le> maxLen v \<and> zeros_at arr k (maxLen v) \<and> k + maxLen v < length arr \<and> arr ! (k + maxLen v) \<noteq> 0)"

lemma zero_inv_step:
  assumes inv: "zero_inv arr i v" and i: "i < length arr"
  shows "zero_inv arr (Suc i) (zero_step i (arr ! i) v)"
proof (cases "arr ! i = 0")
  case True
  show ?thesis
  proof (cases "currLen v = 0")
    case z: True
    then have "currStart v = None" using inv by (simp add: zero_inv_def)
    then show ?thesis using inv i True z
      by (auto simp: zero_inv_def zero_step_def zeros_at_def le_less_Suc_eq)
  next
    case False
    then have "zeros_at arr (i - currLen v) (currLen v)" "currStart v = Some (i - currLen v)"
      "currLen v \<le> i"
      using inv by (auto simp: zero_inv_def)
    then have "zeros_at arr (Suc i - Suc (currLen v)) (Suc (currLen v))"
      using True i by (auto simp: zeros_at_def less_Suc_eq)
    then show ?thesis using inv i True False
      by (auto simp: zero_inv_def zero_step_def)
  qed
next
  case False
  then show ?thesis using inv i by (auto simp: zero_inv_def zero_step_def)
qed

lemma zero_inv_loop:
  "zero_inv arr i v \<Longrightarrow> xs = drop i arr \<Longrightarrow> zero_inv arr (length arr) (zero_loop i xs v)"
proof (induction xs arbitrary: i v)
  case Nil
  then have "i = length arr" by (auto simp: zero_inv_def)
  then show ?case using Nil by simp
next
  case (Cons x xs)
  then have i: "i < length arr" by (metis drop_all list.distinct(1) not_le)
  then have "x = arr ! i" "xs = drop (Suc i) arr"
    using Cons.prems(2) Cons_nth_drop_Suc [OF i] by (metis list.inject)+
  then show ?case using Cons.IH [of "Suc i"] zero_inv_step [OF Cons.prems(1) i] by simp
qed

lemma findLongestZero:
  assumes "findLongestZeroSequence arr = (Some k, len)"
  shows "2 \<le> len \<and> zeros_at arr k len \<and> (k + len < length arr \<longrightarrow> arr ! (k + len) \<noteq> 0)"
proof -
  let ?v0 = "\<lparr>maxIdx = None, maxLen = 1, currStart = None, currLen = 0\<rparr>"
  have "zero_inv arr 0 ?v0" by (simp add: zero_inv_def)
  then have inv: "zero_inv arr (length arr) (zero_loop 0 arr ?v0)"
    by (rule zero_inv_loop) simp
  show ?thesis
    using assms inv by (auto simp: findLongestZeroSequence_def Let_def zero_inv_def split: if_splits)
qed

text \<open>So the address splits at the run.\<close>

lemma zeros_split:
  assumes "zeros_at arr k len"
  shows "arr = take k arr @ replicate len 0 @ drop (k + len) arr"
proof (rule nth_equalityI)
  show "length arr = length (take k arr @ replicate len 0 @ drop (k + len) arr)"
    using assms by (simp add: zeros_at_def)
next
  fix i assume "i < length arr"
  then show "arr ! i = (take k arr @ replicate len 0 @ drop (k + len) arr) ! i"
    using assms by (auto simp: zeros_at_def nth_append)
qed

subsection \<open>The text of an address\<close>

abbreviation hex :: "nat \<Rightarrow> jsstr" where
  "hex \<equiv> to_radix 16"

abbreviation colons :: "nat list \<Rightarrow> jsstr" where
  "colons ps \<equiv> js_join [58] (map hex ps)"

abbreviation each_colon :: "nat list \<Rightarrow> jsstr" where
  "each_colon ps \<equiv> concat (map (\<lambda>x. hex x @ [58]) ps)"

lemma serialize_plain:
  assumes "i + length xs = 8" and "xs \<noteq> []"
    and "\<And>j. i \<le> j \<Longrightarrow> j < 8 \<Longrightarrow> compress \<noteq> Some j"
  shows "serialize_pieces compress i False xs = colons xs"
  using assms
proof (induction xs arbitrary: i)
  case (Cons x xs)
  have "compress \<noteq> Some i" using Cons.prems(1) Cons.prems(3) [of i] by auto
  moreover have "xs = [] \<longleftrightarrow> i = 7" using Cons.prems(1) by auto
  moreover have "xs \<noteq> [] \<Longrightarrow> serialize_pieces compress (i + 1) False xs = colons xs"
    using Cons.prems by (intro Cons.IH) auto
  ultimately show ?case by (cases "xs = []") (auto simp: js_join_Cons)
qed simp

lemma serialize_before:
  assumes "i + length pre \<le> 7"
  shows "serialize_pieces (Some (i + length pre)) i False (pre @ rest) =
    each_colon pre @ serialize_pieces (Some (i + length pre)) (i + length pre) False rest"
  using assms
proof (induction pre arbitrary: i)
  case (Cons x pre)
  then show ?case using Cons.IH [of "Suc i"] by simp
qed simp

lemma serialize_zeros:
  assumes "i + m + length post = 8" and "k < i" and "post = [] \<or> hd post \<noteq> 0"
  shows "serialize_pieces (Some k) i True (replicate m 0 @ post) = colons post"
  using assms
proof (induction m arbitrary: i)
  case 0
  show ?case
  proof (cases post)
    case Nil
    then show ?thesis by simp
  next
    case (Cons x xs)
    then have "serialize_pieces (Some k) i True post = serialize_pieces (Some k) i False post"
      using 0 by simp
    then show ?thesis using 0 Cons serialize_plain [of i post "Some k"] by simp
  qed
next
  case (Suc m)
  then show ?case using Suc.IH [of "Suc i"] by simp
qed

lemma serialize_run:
  assumes "length pre + Suc m + length post = 8" and "post = [] \<or> hd post \<noteq> 0"
  shows "serialize_pieces (Some (length pre)) 0 False (pre @ replicate (Suc m) 0 @ post) =
    each_colon pre @ (if pre = [] then [58, 58] else [58]) @ colons post"
proof -
  have "serialize_pieces (Some (length pre)) 0 False (pre @ replicate (Suc m) 0 @ post) =
      each_colon pre @ serialize_pieces (Some (length pre)) (length pre) False (replicate (Suc m) 0 @ post)"
    using serialize_before [of 0 pre "replicate (Suc m) 0 @ post"] assms(1) by simp
  then show ?thesis
    using serialize_zeros [of "Suc (length pre)" m post "length pre"] assms by simp
qed

subsection \<open>Parsing it back\<close>

lemma hex_digits: "c \<in> set (hex n) \<Longrightarrow> isASCIIHex (Some c) \<and> c \<noteq> 58 \<and> c \<noteq> 46 \<and> c \<noteq> 91 \<and> c \<noteq> 93"
  using to_radix_digits [of 16 c n]
  by (auto simp: digit_char_def isASCIIHex_def isASCIIDigit_def split: if_splits)

lemma length_hex: "n < 65536 \<Longrightarrow> length (hex n) \<le> 4"
  using length_to_radix [of 16 n 3] by simp

lemma hex_run_digits:
  assumes "\<forall>c \<in> set h. isASCIIHex (Some c)" and "l0 + length h \<le> 4"
    and "rest = [] \<or> \<not> isASCIIHex (Some (hd rest))"
  shows "hex_run v0 l0 (h @ rest) = (foldl (\<lambda>v c. v * 16 + digit_val c) v0 h, l0 + length h, rest)"
  using assms
proof (induction h arbitrary: v0 l0)
  case Nil
  then show ?case by (cases rest) auto
qed simp

lemma hex_run_hex:
  assumes "n < 65536" and "rest = [] \<or> hd rest = 58"
  shows "hex_run 0 0 (hex n @ rest) = (n, length (hex n), rest)"
proof -
  have "rest = [] \<or> \<not> isASCIIHex (Some (hd rest))"
    using assms(2) by (auto simp: isASCIIHex_def isASCIIDigit_def)
  moreover have "foldl (\<lambda>v c. v * 16 + digit_val c) 0 (hex n) = n"
    using parse_to_radix [of 16 n] by (simp add: parse_radix_def)
  ultimately show ?thesis
    using hex_run_digits [of "hex n" 0 rest 0] length_hex [OF assms(1)] hex_digits by simp
qed

lemma hex_Cons: obtains c cs where "hex n = c # cs" "c \<noteq> 58" "c \<noteq> 91"
proof (cases "hex n")
  case (Cons c cs)
  then show ?thesis using hex_digits [of c n] that by simp
qed simp

lemma parse6_piece:
  assumes "x < 65536" and "p \<noteq> 8" and "ds \<noteq> []"
  shows "parse6_loop a p c (hex x @ 58 # ds) = parse6_loop (a[p := x]) (p + 1) c ds"
proof -
  obtain d ds' where "hex x = d # ds'" "d \<noteq> 58" by (rule hex_Cons)
  then show ?thesis
    using hex_run_hex [of x "58 # ds"] assms by (simp add: parse6_loop.simps [of a])
qed

lemma parse6_last:
  assumes "x < 65536" and "p \<noteq> 8"
  shows "parse6_loop a p c (hex x) = Some (a[p := x], p + 1, c)"
proof -
  obtain d ds' where "hex x = d # ds'" "d \<noteq> 58" by (rule hex_Cons)
  then show ?thesis
    using hex_run_hex [of x "[]"] assms by (simp add: parse6_loop.simps [of a])
qed

lemma parse6_skip: "p \<noteq> 8 \<Longrightarrow> parse6_loop a p None (58 # ds) = parse6_loop a (p + 1) (Some (p + 1)) ds"
  by (simp add: parse6_loop.simps [of a])

lemma colons_not_Nil: "ps \<noteq> [] \<Longrightarrow> colons ps \<noteq> []"
proof (cases ps)
  case (Cons x xs)
  then show ?thesis by (cases "xs = []") (auto simp: js_join_Cons)
qed simp

lemma parse6_colons:
  assumes "\<forall>x \<in> set ps. x < 65536" and "ps \<noteq> []"
    and "length ps \<le> length zs" and "length pre + length zs = 8"
  shows "parse6_loop (pre @ zs) (length pre) c (colons ps) =
    Some (pre @ ps @ drop (length ps) zs, length pre + length ps, c)"
  using assms
proof (induction ps arbitrary: pre zs)
  case (Cons x ps)
  then obtain z zs' where zs: "zs = z # zs'" by (cases zs) auto
  have p: "length pre \<noteq> 8" using Cons.prems zs by auto
  show ?case
  proof (cases "ps = []")
    case True
    then show ?thesis using Cons.prems zs p by (simp add: parse6_last)
  next
    case False
    have "parse6_loop (pre @ zs) (length pre) c (colons (x # ps)) =
        parse6_loop ((pre @ [x]) @ zs') (length (pre @ [x])) c (colons ps)"
      using Cons.prems zs p False colons_not_Nil [OF False] by (simp add: js_join_Cons parse6_piece)
    also have "\<dots> = Some ((pre @ [x]) @ ps @ drop (length ps) zs', length (pre @ [x]) + length ps, c)"
      using Cons.prems zs False by (intro Cons.IH) auto
    finally show ?thesis using zs by simp
  qed
qed simp

lemma parse6_each_colon:
  assumes "\<forall>x \<in> set ps. x < 65536" and "tail \<noteq> []"
    and "length ps < length zs" and "length pre + length zs = 8"
  shows "parse6_loop (pre @ zs) (length pre) c (each_colon ps @ tail) =
    parse6_loop (pre @ ps @ drop (length ps) zs) (length pre + length ps) c tail"
  using assms
proof (induction ps arbitrary: pre zs)
  case (Cons x ps)
  then obtain z zs' where zs: "zs = z # zs'" by (cases zs) auto
  have "parse6_loop (pre @ zs) (length pre) c (each_colon (x # ps) @ tail) =
      parse6_loop ((pre @ [x]) @ zs') (length (pre @ [x])) c (each_colon ps @ tail)"
    using Cons.prems zs by (simp add: parse6_piece)
  also have "\<dots> = parse6_loop ((pre @ [x]) @ ps @ drop (length ps) zs') (length (pre @ [x]) + length ps) c tail"
    using Cons.prems zs by (intro Cons.IH) auto
  finally show ?case using zs by simp
qed simp

lemma exchange:
  "(P @ x # Q @ y # R)[length (P @ x # Q) := x, length P := y] = P @ y # Q @ x # R"
proof -
  have "((P @ x # Q) @ y # R)[length (P @ x # Q) := x] = (P @ x # Q) @ x # R"
    by (rule list_update_length)
  then show ?thesis by simp
qed

text \<open>The exchange loop shifts the pieces after \<open>'::'\<close> to the end.\<close>

lemma swap_pieces_shift:
  assumes "1 \<le> z"
  shows "swap_pieces (pre @ 0 # post @ replicate z 0 @ suf) (length pre + length post + z)
      (length pre + 1) (length post) = pre @ 0 # replicate z 0 @ post @ suf"
proof (induction post arbitrary: suf rule: rev_induct)
  case (snoc x post)
  obtain z' where z: "z = Suc z'" using assms by (cases z) auto
  let ?A = "pre @ 0 # (post @ [x]) @ replicate z 0 @ suf"
  let ?i = "length pre + length (post @ [x]) + z"
  let ?s = "length pre + 1 + Suc (length post) - 1"
  have A: "?A = (pre @ 0 # post) @ x # replicate z' 0 @ 0 # suf"
    by (simp add: z replicate_append_same flip: replicate_Suc)
  have s: "?s = length (pre @ 0 # post)" by simp
  have i: "?i = length ((pre @ 0 # post) @ x # replicate z' 0)" using z by simp
  have "?A ! ?s = x" unfolding A s by (simp only: nth_append_length)
  moreover have "?A ! ?i = 0"
    unfolding A i by (metis append_Cons append_assoc nth_append_length)
  moreover have "?A[?i := x, ?s := 0] = pre @ 0 # post @ replicate z 0 @ (x # suf)"
    unfolding A i s exchange by (simp add: z replicate_app_Cons_same)
  ultimately have "swap_pieces ?A ?i (length pre + 1) (length (post @ [x])) =
      swap_pieces (pre @ 0 # post @ replicate z 0 @ (x # suf)) (length pre + length post + z)
        (length pre + 1) (length post)"
    by simp
  then show ?case using snoc.IH by simp
qed simp


lemma zeros_split_length:
  assumes "zeros_at arr k len" and "length arr = 8"
  shows "k + len \<le> 8"
  using assms by (auto simp: zeros_at_def)

text \<open>Without a run of zeros the text is the eight pieces joined by colons.\<close>

lemma parseIPv6_plain:
  assumes "pieces_ok ps" and "fst (findLongestZeroSequence ps) = None"
  shows "parseIPv6Host (serialize_pieces None 0 False ps) = Some ps"
proof -
  have len: "length ps = 8" and small: "\<forall>x \<in> set ps. x < 65536"
    using assms(1) by (auto simp: pieces_ok_def)
  then obtain x xs where ps: "ps = x # xs" "xs \<noteq> []" by (cases ps; cases "tl ps") auto
  have s: "serialize_pieces None 0 False ps = colons ps"
    using len ps by (intro serialize_plain) auto
  obtain c cs where "hex x = c # cs" "c \<noteq> 58" by (rule hex_Cons)
  then have "char_at (colons ps) 0 \<noteq> Some 58" using ps by (simp add: js_join_Cons)
  then show ?thesis
    using parse6_colons [of ps "[0,0,0,0,0,0,0,0]" "[]" None] len small ps(2)
    unfolding s parseIPv6Host_def Let_def by (cases "ps = []") simp_all
qed

text \<open>With a run the text is parsed to the pieces before and after it, then shifted.\<close>

lemma parse6_after_run:
  assumes "\<forall>x \<in> set post. x < 65536" and "length pre + Suc m + length post = 8"
  shows "parse6_loop (pre @ replicate (8 - length pre) 0) (length pre + 1) c (colons post) =
    Some (pre @ 0 # post @ replicate m 0, length pre + 1 + length post, c)"
proof (cases "post = []")
  case True
  then have "8 - length pre = Suc m" using assms(2) by simp
  then show ?thesis using True by (simp add: parse6_loop.simps)
next
  case False
  have r: "replicate (8 - length pre) 0 = 0 # replicate (m + length post) (0::nat)"
    using assms(2) by (simp flip: replicate_Suc)
  then show ?thesis
    using parse6_colons [of post "replicate (m + length post) 0" "pre @ [0]" c] assms False by simp
qed

lemma parseIPv6_run:
  assumes "pieces_ok ps" and ps: "ps = pre @ replicate (Suc (Suc m)) 0 @ post"
  shows "parseIPv6Host (each_colon pre @ (if pre = [] then [58, 58] else [58]) @ colons post) = Some ps"
proof -
  have len: "length pre + Suc (Suc m) + length post = 8"
    and small: "\<forall>x \<in> set pre. x < 65536" "\<forall>x \<in> set post. x < 65536"
    using assms by (auto simp: pieces_ok_def)
  let ?a = "pre @ 0 # post @ replicate (Suc m) 0"
  have swap: "swap_pieces ?a 7 (length pre + 1) (length post) = ps"
  proof -
    have "7 = length pre + length post + Suc m" using len by simp
    then show ?thesis using swap_pieces_shift [of "Suc m" pre post "[]"] ps by simp
  qed
  show ?thesis
  proof (cases "pre = []")
    case True
    have "parse6_loop [0,0,0,0,0,0,0,0] 1 (Some 1) (colons post) = Some (?a, 1 + length post, Some 1)"
      using parse6_after_run [of post "[]" "Suc m" "Some 1"] len small True
      unfolding eight_zeros by simp
    moreover have "each_colon pre @ (if pre = [] then [58, 58] else [58]) @ colons post = 58 # 58 # colons post"
      using True by simp
    ultimately show ?thesis
      using swap True unfolding parseIPv6Host_def Let_def by simp
  next
    case False
    then obtain x xs where pre: "pre = x # xs" by (cases pre) auto
    obtain c cs where "hex x = c # cs" "c \<noteq> 58" by (rule hex_Cons)
    then have c: "char_at (each_colon pre @ 58 # colons post) 0 \<noteq> Some 58" using pre by simp
    have "parse6_loop [0,0,0,0,0,0,0,0] 0 None (each_colon pre @ 58 # colons post) =
        parse6_loop (pre @ replicate (8 - length pre) 0) (length pre) None (58 # colons post)"
      using parse6_each_colon [of pre "58 # colons post" "replicate 8 0" "[]" None] small len
      unfolding eight_zeros by simp
    also have "\<dots> = Some (?a, length pre + 1 + length post, Some (length pre + 1))"
      using parse6_after_run [of post pre "Suc m" "Some (length pre + 1)"] small len
      by (simp add: parse6_skip)
    finally show ?thesis using False c swap unfolding parseIPv6Host_def Let_def by simp
  qed
qed

lemma parseIPv6_serialize:
  assumes "pieces_ok ps"
  shows "parseIPv6Host (serialize_pieces (fst (findLongestZeroSequence ps)) 0 False ps) = Some ps"
proof (cases "fst (findLongestZeroSequence ps)")
  case None
  then show ?thesis using parseIPv6_plain assms by simp
next
  case (Some k)
  then obtain len where run: "findLongestZeroSequence ps = (Some k, len)"
    by (cases "findLongestZeroSequence ps") auto
  note z = findLongestZero [OF run]
  then have l: "k + len \<le> length ps" by (simp add: zeros_at_def)
  obtain m where m: "len = Suc (Suc m)" using z by (metis Suc_le_D numeral_2_eq_2 Suc_le_mono)
  let ?pre = "take k ps" and ?post = "drop (k + len) ps"
  have ps: "ps = ?pre @ replicate (Suc (Suc m)) 0 @ ?post"
    using zeros_split z m by metis
  have k: "length ?pre = k" using l by simp
  have "?post = [] \<or> hd ?post \<noteq> 0" using z by (cases "k + len < length ps") (auto simp: hd_drop_conv_nth)
  moreover have "length ?pre + Suc (Suc m) + length ?post = 8"
    using assms l m by (simp add: pieces_ok_def)
  ultimately have "serialize_pieces (Some k) 0 False ps =
      each_colon ?pre @ (if ?pre = [] then [58, 58] else [58]) @ colons ?post"
    using serialize_run [of ?pre "Suc m" ?post] ps k by metis
  then show ?thesis using parseIPv6_run [OF assms ps] Some by simp
qed

lemma parseHost_pieces:
  assumes "pieces_ok ps"
  shows "parseHost upper (serializeURLHost (HostPieces ps)) special = Some (HostPieces ps)"
  using parseIPv6_serialize [OF assms]
  by (simp add: parseHost_def serializeURLHost_def slice_def nth_append)

section \<open>The host codec\<close>

lemma ipv4_numbers_length: "ipv4_numbers parts = Some ns \<Longrightarrow> length ns = length parts"
  by (induction parts arbitrary: ns) (auto split: if_splits option.splits)

lemma ipv4_sum_bound:
  assumes "0 < length ns" and "length ns \<le> 4"
    and "\<forall>n \<in> set (butlast ns). n \<le> 255" and "last ns < 256 ^ (5 - length ns)"
  shows "ipv4_sum (last ns) 0 (butlast ns) < 2 ^ 32"
proof -
  consider a where "ns = [a]" | a b where "ns = [a, b]" | a b c where "ns = [a, b, c]"
    | a b c d where "ns = [a, b, c, d]"
    using assms(1,2)
    by (cases ns; cases "tl ns"; cases "tl (tl ns)"; cases "tl (tl (tl ns))") auto
  then show ?thesis using assms(3,4) by cases auto
qed

lemma parseIPv4_bound:
  assumes "parseIPv4 s = IPv4Number n"
  shows "n < 2 ^ 32"
proof -
  define parts0 where "parts0 = js_split 46 s"
  define parts where "parts = (if last parts0 = [] \<and> length parts0 > 1 then butlast parts0 else parts0)"
  have eq: "parseIPv4 s = (if length parts > 4 then IPv4Input s
      else case ipv4_numbers parts of None \<Rightarrow> IPv4Input s
        | Some numbers \<Rightarrow>
            if list_ex (\<lambda>n. n > 255) (butlast numbers) then IPv4Null
            else if last numbers \<ge> 256 ^ (5 - length numbers) then IPv4Null
            else IPv4Number (ipv4_sum (last numbers) 0 (butlast numbers)))"
    unfolding parts_def parts0_def by (simp only: parseIPv4_def Let_def)
  have "parts0 \<noteq> []" by (simp add: parts0_def)
  then have parts: "0 < length parts" by (cases parts0; cases "tl parts0") (auto simp: parts_def)
  have len: "length parts \<le> 4" using assms by (auto simp: eq split: if_splits)
  obtain numbers where numbers: "ipv4_numbers parts = Some numbers"
    using assms by (auto simp: eq split: if_splits option.splits)
  have ok: "\<not> list_ex (\<lambda>n. n > 255) (butlast numbers)" "\<not> last numbers \<ge> 256 ^ (5 - length numbers)"
    and n: "n = ipv4_sum (last numbers) 0 (butlast numbers)"
    using assms len by (auto simp: eq numbers split: if_splits)
  then show ?thesis
    using ipv4_sum_bound [of numbers] ipv4_numbers_length [OF numbers] parts len
    by (simp add: list_ex_iff not_less not_le)
qed

text \<open>Which hosts the parser can produce, apart from the strings of non-special URLs.\<close>

definition host_ok :: "bool \<Rightarrow> host \<Rightarrow> bool" where
  "host_ok special h = (case h of
     HostNumber n \<Rightarrow> special \<and> n < 2 ^ 32
   | HostPieces ps \<Rightarrow> pieces_ok ps
   | HostString s \<Rightarrow> special \<longrightarrow> s = [] \<or>
       hd s \<noteq> 91 \<and> \<not> containsForbiddenHostCodePoint s \<and> parseIPv4 s = IPv4Input s)"

lemma parseIPv4_input: "parseIPv4 s = IPv4Input t \<Longrightarrow> t = s"
  by (auto simp: parseIPv4_def Let_def split: if_splits option.splits)

lemma parseHost_result:
  assumes "parseHost upper s special = Some h"
  shows "host_ok special h"
  using assms
  by (auto simp: parseHost_def host_ok_def Let_def toASCII_def percentDecode_def hd_conv_nth
      dest: parseIPv6Host_ok parseIPv4_bound parseIPv4_input
      split: if_splits option.splits ipv4_result.splits)

lemma parseHost_host_ok:
  assumes "host_ok special h" and "special \<or> (\<forall>s. h \<noteq> HostString s)"
  shows "parseHost upper (serializeURLHost h) special = Some h"
proof (cases h)
  case (HostString s)
  then show ?thesis using assms
    by (cases s) (auto simp: host_ok_def parseHost_def serializeURLHost_def toASCII_def percentDecode_def)
next
  case (HostNumber n)
  then show ?thesis using assms parseHost_ipv4 by (simp add: host_ok_def)
next
  case (HostPieces ps)
  then show ?thesis using assms parseHost_pieces by (simp add: host_ok_def)
qed

interpretation special_host: codec serializeURLHost "\<lambda>s. parseHost upper s True" "host_ok True"
  by unfold_locales (auto intro: parseHost_host_ok)

interpretation ipv6: codec "\<lambda>ps. serialize_pieces (fst (findLongestZeroSequence ps)) 0 False ps"
    parseIPv6Host pieces_ok
  by unfold_locales (rule parseIPv6_serialize)

text \<open>C6: Serialising a host of a special URL and parsing the text gives the host back: IPv4
  numbers below \<open>2^32\<close>, IPv6 addresses (with the longest run of zero pieces written \<open>::\<close>) and
  domain names that the parser accepts.  \<open>upper\<close> is the engine's upper-casing of one character.\<close>

theorem host_roundtrip:
  assumes "host_ok True h"
  shows "parseHost upper (serializeURLHost h) True = Some h"
  using assms by (rule special_host.dec_enc)

theorem host_roundtrip_witness:
  "parseHost (\<lambda>c. [c]) (serializeURLHost (HostPieces [0x2001, 0xdb8, 0, 0, 1, 0, 0, 0])) True
     = Some (HostPieces [0x2001, 0xdb8, 0, 0, 1, 0, 0, 0])
   \<and> serializeURLHost (HostPieces [0x2001, 0xdb8, 0, 0, 1, 0, 0, 0]) = js ''[2001:db8:0:0:1::]''"
  by (rule conjI, rule host_roundtrip, code_simp, code_simp)



end
