(* ===== verification/Url_Parser.thy ===== *)
theory Url_Parser
  imports Url_Host
begin

text \<open>
  \<open>basicURLParse\<close> of \<open>packages/zero/lib/whatwg/url/parser.js\<close>: the state machine of the URL
  standard.  One definition per \<open>case\<close> of the switch; \<open>advance\<close> is \<open>break\<close> (the index is
  incremented after the switch) and a bare \<open>Cont\<close> is \<open>continue\<close>.  The loop \<open>url_loop\<close> is total:
  its measure is the rank of the state, then the distance to the end of the input.
  A \<open>TypeError\<close> of the code (reading a property of \<open>undefined\<close>) is the outcome \<open>Throw\<close>.
\<close>

section \<open>Helpers of the parser\<close>

definition isWindowsDriveLetter :: "jsstr \<Rightarrow> bool" where
  "isWindowsDriveLetter str \<longleftrightarrow> isASCIIAlpha (char_at str 0) \<and>
     (char_at str 1 = Some 58 \<or> char_at str 1 = Some 124)"

definition isNormalizedWindowsDriveLetter :: "jsstr \<Rightarrow> bool" where
  "isNormalizedWindowsDriveLetter str \<longleftrightarrow> isASCIIAlpha (char_at str 0) \<and> char_at str 1 = Some 58"

definition startsWithWindowsDriveLetter :: "jsstr \<Rightarrow> bool" where
  "startsWithWindowsDriveLetter str \<longleftrightarrow> length str \<ge> 2 \<and> isWindowsDriveLetter str \<and>
     (length str = 2 \<or> char_at str 2 = Some 47 \<or> char_at str 2 = Some 92 \<or>
      char_at str 2 = Some 63 \<or> char_at str 2 = Some 35)"

text \<open>\<open>'%2e'\<close> in either case, from position \<open>i\<close>.\<close>

definition escaped_dot :: "jsstr \<Rightarrow> nat \<Rightarrow> bool" where
  "escaped_dot str i \<longleftrightarrow> str ! i = 37 \<and> str ! (i + 1) = 50 \<and> ASCIILowercase (str ! (i + 2)) = 101"

definition isSingleDotSegment :: "jsstr \<Rightarrow> bool" where
  "isSingleDotSegment str =
     (if length str = 1 then str = [46]
      else if length str = 3 then escaped_dot str 0
      else False)"

definition isDoubleDotSegment :: "jsstr \<Rightarrow> bool" where
  "isDoubleDotSegment str =
     (if length str = 2 then str = [46, 46]
      else if length str = 4 then
        (if str ! 0 \<noteq> 46 \<and> str ! 0 \<noteq> 37 then False
         else str ! 0 = 46 \<and> escaped_dot str 1 \<or> escaped_dot str 0 \<and> str ! 3 = 46)
      else if length str = 6 then escaped_dot str 0 \<and> escaped_dot str 3
      else False)"

text \<open>
  The table \<open>hex\<close>: entry \<open>i\<close> is \<open>'%'\<close> and two upper-case digits.  \<open>appendOrEscape\<close> reads it with
  the character \<open>ch\<close> itself as the key, so only a decimal digit finds an entry, and gives what it
  reads to \<open>String.fromCharCode\<close>: neither \<open>undefined\<close> nor a text that starts with \<open>'%'\<close> is a
  number, and \<open>NaN\<close> becomes the code unit 0.
\<close>

definition hex_digit_upper :: "nat \<Rightarrow> nat" where
  "hex_digit_upper d = (if d < 10 then 48 + d else 55 + d)"

definition hex_table :: "nat \<Rightarrow> jsstr" where
  "hex_table i = [37, hex_digit_upper (i div 16), hex_digit_upper (i mod 16)]"

definition hex_lookup :: "nat \<Rightarrow> jsstr option" where
  "hex_lookup ch = (if 48 \<le> ch \<and> ch \<le> 57 then Some (hex_table (ch - 48)) else None)"

definition fromCharCode :: "jsstr option \<Rightarrow> nat" where
  "fromCharCode arg =
     (case arg of None \<Rightarrow> 0
      | Some s \<Rightarrow> if s \<noteq> [] \<and> list_all (\<lambda>c. isASCIIDigit (Some c)) s
                  then parse_radix 10 s mod 65536 else 0)"

definition appendOrEscape :: "jsstr \<Rightarrow> nat \<Rightarrow> nat list \<Rightarrow> jsstr" where
  "appendOrEscape str ch encodeSet =
     (if in_encode_set encodeSet ch then str @ [fromCharCode (hex_lookup ch)] else str @ [ch])"

definition specials :: "jsstr \<Rightarrow> int option" where
  "specials scheme =
     (if scheme = js ''ftp:'' then Some 21
      else if scheme = js ''file:'' then Some (-1)
      else if scheme = js ''gopher:'' then Some 70
      else if scheme = js ''http:'' then Some 80
      else if scheme = js ''https:'' then Some 443
      else if scheme = js ''ws:'' then Some 80
      else if scheme = js ''wss:'' then Some 443
      else None)"

definition isSpecial :: "jsstr \<Rightarrow> bool" where
  "isSpecial scheme \<longleftrightarrow> specials scheme \<noteq> None"

definition normalizePort :: "jsstr \<Rightarrow> nat option \<Rightarrow> nat option" where
  "normalizePort scheme port =
     (case specials scheme of
        None \<Rightarrow> port
      | Some p \<Rightarrow> if p \<noteq> 0 \<and> (\<exists>q. port = Some q \<and> p = int q) then None else port)"

lemma normalizePort_code [code]:
  "normalizePort scheme port =
     (case specials scheme of
        None \<Rightarrow> port
      | Some p \<Rightarrow> (case port of None \<Rightarrow> None
                  | Some q \<Rightarrow> if p \<noteq> 0 \<and> p = int q then None else port))"
  by (simp add: normalizePort_def split: option.split)

section \<open>The URL record and the state of the machine\<close>

record url =
  scheme :: jsstr
  username :: jsstr
  password :: jsstr
  host :: "host option"
  port :: "nat option"
  path :: "jsstr list"
  query :: "jsstr option"
  fragment :: "jsstr option"
  hasUsername :: bool
  hasPassword :: bool
  failed :: bool
  invalid :: bool
  special :: bool
  cannotBeBase :: bool
  isDefaultSchemePort :: bool
  terminated :: bool

definition shortenURLPath :: "url \<Rightarrow> url" where
  "shortenURLPath u =
     (if path u = [] then u
      else if length (path u) = 1 \<and> scheme u = js ''file:'' \<and>
              isNormalizedWindowsDriveLetter (path u ! 0) then u
      else u\<lparr>path := butlast (path u)\<rparr>)"

datatype state =
    STATE_SCHEME_START | STATE_SCHEME | STATE_NO_SCHEME | STATE_SPECIAL_RELATIVE_OR_AUTHORITY
  | STATE_PATH_OR_AUTHORITY | STATE_RELATIVE | STATE_RELATIVE_SLASH
  | STATE_SPECIAL_AUTHORITY_SLASHES | STATE_SPECIAL_AUTHORITY_IGNORE_SLASHES | STATE_AUTHORITY
  | STATE_HOST | STATE_HOSTNAME | STATE_PORT | STATE_FILE | STATE_FILE_SLASH | STATE_FILE_HOST
  | STATE_PATH_START | STATE_PATH | STATE_CANNOT_BE_BASE | STATE_QUERY | STATE_FRAGMENT
  | STATE_OUT_OF_RANGE

text \<open>What does not change during a call, and the local variables.  \<open>STATE_UNKNOWN\<close> is \<open>None\<close>.\<close>

record parse_env =
  input :: jsstr
  base :: "url option"
  stateOverride :: "state option"
  upper :: "nat \<Rightarrow> jsstr"

record parser =
  url :: url
  state :: state
  atflag :: bool
  squareBracketFlag :: bool
  passwordTokenSeenFlag :: bool
  index :: int
  buffer :: jsstr

datatype outcome = Cont parser | Ret url | Throw

definition input_at :: "parse_env \<Rightarrow> int \<Rightarrow> nat option" where
  "input_at e i = (if i < 0 then None else char_at (input e) (nat i))"

definition hasStateOverride :: "parse_env \<Rightarrow> bool" where
  "hasStateOverride e \<longleftrightarrow> stateOverride e \<noteq> None"

definition advance :: "parser \<Rightarrow> outcome" where
  "advance c = Cont (c\<lparr>index := index c + 1\<rparr>)"

definition fail :: "parser \<Rightarrow> outcome" where
  "fail c = Ret ((url c)\<lparr>failed := True\<rparr>)"

definition terminate :: "parser \<Rightarrow> outcome" where
  "terminate c = Ret ((url c)\<lparr>terminated := True\<rparr>)"

definition base_is :: "parse_env \<Rightarrow> jsstr \<Rightarrow> bool" where
  "base_is e s = (case base e of None \<Rightarrow> False | Some b \<Rightarrow> scheme b = s)"

text \<open>\<open>'/'\<close>, \<open>'?'\<close>, \<open>'#'\<close>, the end, or a backslash in a special URL.\<close>

definition specialBackSlash :: "parse_env \<Rightarrow> parser \<Rightarrow> bool" where
  "specialBackSlash e c \<longleftrightarrow> special (url c) \<and> input_at e (index c) = Some 92"

definition ends_authority :: "parse_env \<Rightarrow> parser \<Rightarrow> bool" where
  "ends_authority e c \<longleftrightarrow> input_at e (index c) \<in> {None, Some 47, Some 63, Some 35} \<or> specialBackSlash e c"

section \<open>The states\<close>

subsection \<open>Scheme\<close>

definition step_SCHEME_START :: "parse_env \<Rightarrow> parser \<Rightarrow> outcome" where
  "step_SCHEME_START e c =
     (case input_at e (index c) of
        Some ch \<Rightarrow>
          if isASCIIAlpha (Some ch)
          then advance (c\<lparr>buffer := buffer c @ [ASCIILowercase ch], state := STATE_SCHEME\<rparr>)
          else if \<not> hasStateOverride e then Cont (c\<lparr>state := STATE_NO_SCHEME\<rparr>)
          else fail c
      | None \<Rightarrow>
          if \<not> hasStateOverride e then Cont (c\<lparr>state := STATE_NO_SCHEME\<rparr>) else fail c)"

text \<open>After the colon: the scheme is complete.\<close>

definition scheme_done :: "parse_env \<Rightarrow> parser \<Rightarrow> outcome" where
  "scheme_done e c =
     (if hasStateOverride e \<and> buffer c = [] then terminate c
      else let buf = buffer c @ [58];
               newIsSpecial = isSpecial buf;
               u = url c
      in if hasStateOverride e \<and>
            (special u \<noteq> newIsSpecial \<or>
             buf = js ''file:'' \<and> (hasUsername u \<or> hasPassword u \<or> port u \<noteq> None))
         then terminate c
         else let u' = u\<lparr>scheme := buf, port := normalizePort buf (port u), special := newIsSpecial\<rparr>;
                  c' = c\<lparr>url := u', buffer := []\<rparr>
              in if hasStateOverride e then Ret u'
                 else if buf = js ''file:'' then advance (c'\<lparr>state := STATE_FILE\<rparr>)
                 else if newIsSpecial \<and> base_is e buf
                 then advance (c'\<lparr>state := STATE_SPECIAL_RELATIVE_OR_AUTHORITY\<rparr>)
                 else if newIsSpecial then advance (c'\<lparr>state := STATE_SPECIAL_AUTHORITY_SLASHES\<rparr>)
                 else if input_at e (index c + 1) = Some 47
                 then advance (c'\<lparr>state := STATE_PATH_OR_AUTHORITY, index := index c + 1\<rparr>)
                 else advance (c'\<lparr>url := u'\<lparr>cannotBeBase := True, path := path u' @ [[]]\<rparr>,
                                  state := STATE_CANNOT_BE_BASE\<rparr>))"

definition step_SCHEME :: "parse_env \<Rightarrow> parser \<Rightarrow> outcome" where
  "step_SCHEME e c =
     (let ch = input_at e (index c)
      in if isASCIIAlphanumeric ch \<or> ch \<in> {Some 43, Some 45, Some 46}
         then advance (c\<lparr>buffer := buffer c @ [ASCIILowercase (the ch)]\<rparr>)
         else if ch = Some 58 \<or> hasStateOverride e \<and> ch = None then scheme_done e c
         else if \<not> hasStateOverride e
         then Cont (c\<lparr>buffer := [], state := STATE_NO_SCHEME, index := 0\<rparr>)
         else fail c)"

definition step_NO_SCHEME :: "parse_env \<Rightarrow> parser \<Rightarrow> outcome" where
  "step_NO_SCHEME e c =
     (let ch = input_at e (index c); u = url c
      in case base e of
           None \<Rightarrow> fail c
         | Some b \<Rightarrow>
             if cannotBeBase b \<and> ch \<noteq> Some 35 then fail c
             else if cannotBeBase b
             then advance (c\<lparr>url := u\<lparr>scheme := scheme b, path := path b, query := query b,
                                      fragment := Some [], cannotBeBase := True,
                                      special := isSpecial (scheme b)\<rparr>,
                             state := STATE_FRAGMENT\<rparr>)
             else if scheme b \<noteq> js ''file:'' then Cont (c\<lparr>state := STATE_RELATIVE\<rparr>)
             else Cont (c\<lparr>url := u\<lparr>scheme := js ''file:'', special := True\<rparr>, state := STATE_FILE\<rparr>))"

subsection \<open>Relative references and slashes\<close>

definition step_SPECIAL_RELATIVE_OR_AUTHORITY :: "parse_env \<Rightarrow> parser \<Rightarrow> outcome" where
  "step_SPECIAL_RELATIVE_OR_AUTHORITY e c =
     (if input_at e (index c) = Some 47 \<and> input_at e (index c + 1) = Some 47
      then advance (c\<lparr>state := STATE_SPECIAL_AUTHORITY_IGNORE_SLASHES, index := index c + 1\<rparr>)
      else Cont (c\<lparr>state := STATE_RELATIVE\<rparr>))"

definition step_PATH_OR_AUTHORITY :: "parse_env \<Rightarrow> parser \<Rightarrow> outcome" where
  "step_PATH_OR_AUTHORITY e c =
     (if input_at e (index c) = Some 47 then advance (c\<lparr>state := STATE_AUTHORITY\<rparr>)
      else advance (c\<lparr>state := STATE_PATH\<rparr>))"

definition copy_authority :: "url \<Rightarrow> url \<Rightarrow> url" where
  "copy_authority b u =
     u\<lparr>username := username b, password := password b, host := host b, port := port b\<rparr>"

definition step_RELATIVE :: "parse_env \<Rightarrow> parser \<Rightarrow> outcome" where
  "step_RELATIVE e c =
     (case base e of
        None \<Rightarrow> Throw
      | Some b \<Rightarrow>
          let ch = input_at e (index c);
              u = (url c)\<lparr>scheme := scheme b, special := isSpecial (scheme b)\<rparr>
          in if ch = None
             then advance (c\<lparr>url := (copy_authority b u)\<lparr>path := path b, query := query b\<rparr>\<rparr>)
             else if ch = Some 47 then advance (c\<lparr>url := u, state := STATE_RELATIVE_SLASH\<rparr>)
             else if ch = Some 63
             then advance (c\<lparr>url := (copy_authority b u)\<lparr>path := path b, query := Some []\<rparr>,
                             state := STATE_QUERY\<rparr>)
             else if ch = Some 35
             then advance (c\<lparr>url := (copy_authority b u)\<lparr>path := path b, query := query b,
                                                         fragment := Some []\<rparr>,
                             state := STATE_FRAGMENT\<rparr>)
             else if specialBackSlash e c
             then advance (c\<lparr>url := u, state := STATE_RELATIVE_SLASH\<rparr>)
             else Cont (c\<lparr>url := (copy_authority b u)\<lparr>path := butlast (path b)\<rparr>,
                          state := STATE_PATH\<rparr>))"

definition step_RELATIVE_SLASH :: "parse_env \<Rightarrow> parser \<Rightarrow> outcome" where
  "step_RELATIVE_SLASH e c =
     (let ch = input_at e (index c)
      in if isSpecial (scheme (url c)) \<and> (ch = Some 47 \<or> ch = Some 92)
         then advance (c\<lparr>state := STATE_SPECIAL_AUTHORITY_IGNORE_SLASHES\<rparr>)
         else if ch = Some 47 then advance (c\<lparr>state := STATE_AUTHORITY\<rparr>)
         else case base e of
                None \<Rightarrow> Throw
              | Some b \<Rightarrow> Cont (c\<lparr>url := copy_authority b (url c), state := STATE_PATH\<rparr>))"

definition step_SPECIAL_AUTHORITY_SLASHES :: "parse_env \<Rightarrow> parser \<Rightarrow> outcome" where
  "step_SPECIAL_AUTHORITY_SLASHES e c =
     (let c' = c\<lparr>state := STATE_SPECIAL_AUTHORITY_IGNORE_SLASHES\<rparr>
      in if input_at e (index c) = Some 47 \<and> input_at e (index c + 1) = Some 47
         then advance (c'\<lparr>index := index c + 1\<rparr>)
         else Cont c')"

definition step_SPECIAL_AUTHORITY_IGNORE_SLASHES :: "parse_env \<Rightarrow> parser \<Rightarrow> outcome" where
  "step_SPECIAL_AUTHORITY_IGNORE_SLASHES e c =
     (if input_at e (index c) \<noteq> Some 47 \<and> input_at e (index c) \<noteq> Some 92
      then Cont (c\<lparr>state := STATE_AUTHORITY\<rparr>)
      else advance c)"

subsection \<open>Authority\<close>

text \<open>The loop over the buffer at an \<open>'@'\<close>: user name up to the first colon, then the password.\<close>

fun userinfo_loop :: "jsstr \<Rightarrow> bool \<Rightarrow> url \<Rightarrow> bool \<times> url" where
  "userinfo_loop [] seen u = (seen, u)"
| "userinfo_loop (bch # bs) seen u =
     (if bch = 58 \<and> \<not> seen then userinfo_loop bs True u
      else if seen
      then userinfo_loop bs seen
             (u\<lparr>password := appendOrEscape (password u) bch USERINFO_ENCODE_SET\<rparr>)
      else userinfo_loop bs seen
             (u\<lparr>username := appendOrEscape (username u) bch USERINFO_ENCODE_SET\<rparr>))"

definition step_AUTHORITY :: "parse_env \<Rightarrow> parser \<Rightarrow> outcome" where
  "step_AUTHORITY e c =
     (let ch = input_at e (index c)
      in if ch = Some 64 then
           (let buf = (if atflag c then js ''%40'' @ buffer c else buffer c);
                (seen, u) = userinfo_loop buf (passwordTokenSeenFlag c) (url c)
            in advance (c\<lparr>url := u, passwordTokenSeenFlag := seen, atflag := True, buffer := []\<rparr>))
         else if ends_authority e c then
           (if atflag c \<and> buffer c = [] then fail c
            else advance (c\<lparr>index := index c - (int (length (buffer c)) + 1), buffer := [],
                            state := STATE_HOST\<rparr>))
         else advance (c\<lparr>buffer := buffer c @ [the ch]\<rparr>))"

definition step_HOST :: "parse_env \<Rightarrow> parser \<Rightarrow> outcome" where
  "step_HOST e c =
     (let ch = input_at e (index c); u = url c
      in if hasStateOverride e \<and> scheme u = js ''file:'' then Cont (c\<lparr>state := STATE_FILE_HOST\<rparr>)
         else if ch = Some 58 \<and> \<not> squareBracketFlag c then
           (if buffer c = [] then fail c
            else case parseHost (upper e) (buffer c) (special u) of
                   None \<Rightarrow> Ret (u\<lparr>host := None, failed := True\<rparr>)
                 | Some h \<Rightarrow>
                     if stateOverride e = Some STATE_HOSTNAME then Ret (u\<lparr>host := Some h\<rparr>)
                     else advance (c\<lparr>url := u\<lparr>host := Some h\<rparr>, buffer := [], state := STATE_PORT\<rparr>))
         else if ends_authority e c then
           (if special u \<and> buffer c = [] then fail c
            else if hasStateOverride e \<and> buffer c = [] \<and>
                    ((username u \<noteq> [] \<or> password u \<noteq> []) \<or> port u \<noteq> None)
            then terminate c
            else case parseHost (upper e) (buffer c) (special u) of
                   None \<Rightarrow> Ret (u\<lparr>host := None, failed := True\<rparr>)
                 | Some h \<Rightarrow>
                     if hasStateOverride e then Ret (u\<lparr>host := Some h\<rparr>)
                     else advance (c\<lparr>url := u\<lparr>host := Some h\<rparr>, buffer := [], index := index c - 1,
                                     state := STATE_PATH_START\<rparr>))
         else advance (c\<lparr>squareBracketFlag := (if ch = Some 91 then True
                                               else if ch = Some 93 then False
                                               else squareBracketFlag c),
                         buffer := buffer c @ [the ch]\<rparr>))"

definition step_PORT :: "parse_env \<Rightarrow> parser \<Rightarrow> outcome" where
  "step_PORT e c =
     (let ch = input_at e (index c); u = url c
      in if isASCIIDigit ch then advance (c\<lparr>buffer := buffer c @ [the ch]\<rparr>)
         else if hasStateOverride e \<or> ends_authority e c then
           (if buffer c \<noteq> [] then
              (let portNumber = parse_radix 10 (buffer c)
               in if portNumber > 0xffff
                  then Ret (if stateOverride e = Some STATE_HOST then u\<lparr>port := None\<rparr>
                            else u\<lparr>failed := True\<rparr>)
                  else let u' = u\<lparr>port := normalizePort (scheme u) (Some portNumber)\<rparr>;
                           u'' = (if port u' = None then u'\<lparr>isDefaultSchemePort := True\<rparr> else u')
                       in Cont (c\<lparr>url := u'', buffer := [], state := STATE_PATH_START\<rparr>))
            else if hasStateOverride e
            then (if stateOverride e = Some STATE_HOST then Ret (u\<lparr>port := None\<rparr>) else terminate c)
            else Cont (c\<lparr>state := STATE_PATH_START\<rparr>))
         else fail c)"

subsection \<open>File URLs\<close>

definition step_FILE :: "parse_env \<Rightarrow> parser \<Rightarrow> outcome" where
  "step_FILE e c =
     (let ch = input_at e (index c); u = (url c)\<lparr>scheme := js ''file:''\<rparr>
      in if ch = Some 47 \<or> ch = Some 92 then advance (c\<lparr>url := u, state := STATE_FILE_SLASH\<rparr>)
         else case base e of
                None \<Rightarrow> Cont (c\<lparr>url := u, state := STATE_PATH\<rparr>)
              | Some b \<Rightarrow>
                  if scheme b \<noteq> js ''file:'' then Cont (c\<lparr>url := u, state := STATE_PATH\<rparr>)
                  else if ch = None
                  then advance (c\<lparr>url := u\<lparr>host := host b, path := path b, query := query b\<rparr>\<rparr>)
                  else if ch = Some 63
                  then advance (c\<lparr>url := u\<lparr>host := host b, path := path b, query := Some []\<rparr>,
                                  state := STATE_QUERY\<rparr>)
                  else if ch = Some 35
                  then advance (c\<lparr>url := u\<lparr>host := host b, path := path b, query := query b,
                                          fragment := Some []\<rparr>,
                                  state := STATE_FRAGMENT\<rparr>)
                  else Cont (c\<lparr>url := (if \<not> startsWithWindowsDriveLetter (drop (nat (index c)) (input e))
                                      then shortenURLPath (u\<lparr>host := host b, path := path b\<rparr>)
                                      else u),
                               state := STATE_PATH\<rparr>))"

definition step_FILE_SLASH :: "parse_env \<Rightarrow> parser \<Rightarrow> outcome" where
  "step_FILE_SLASH e c =
     (let ch = input_at e (index c); u = url c
      in if ch = Some 47 \<or> ch = Some 92 then advance (c\<lparr>state := STATE_FILE_HOST\<rparr>)
         else case base e of
                None \<Rightarrow> Cont (c\<lparr>state := STATE_PATH\<rparr>)
              | Some b \<Rightarrow>
                  if scheme b = js ''file:'' \<and>
                     \<not> startsWithWindowsDriveLetter (drop (nat (index c)) (input e))
                  then (case path b of
                          [] \<Rightarrow> Throw
                        | seg # segs \<Rightarrow>
                            Cont (c\<lparr>url := (if isNormalizedWindowsDriveLetter seg
                                            then u\<lparr>path := path u @ [seg]\<rparr>
                                            else u\<lparr>host := host b\<rparr>),
                                    state := STATE_PATH\<rparr>))
                  else Cont (c\<lparr>state := STATE_PATH\<rparr>))"

definition step_FILE_HOST :: "parse_env \<Rightarrow> parser \<Rightarrow> outcome" where
  "step_FILE_HOST e c =
     (let ch = input_at e (index c); u = url c
      in if ch \<in> {None, Some 47, Some 92, Some 63, Some 35} then
           (if \<not> hasStateOverride e \<and> length (buffer c) = 2 \<and> isWindowsDriveLetter (buffer c)
            then Cont (c\<lparr>state := STATE_PATH\<rparr>)
            else if buffer c = [] then
              (let u' = u\<lparr>host := Some (HostString [])\<rparr>
               in if hasStateOverride e then Ret u'
                  else Cont (c\<lparr>url := u', state := STATE_PATH_START\<rparr>))
            else case parseHost (upper e) (buffer c) (special u) of
                   None \<Rightarrow> fail c
                 | Some h \<Rightarrow>
                     let u' = u\<lparr>host := Some (if h = HostString (js ''localhost'')
                                            then HostString [] else h)\<rparr>
                     in if hasStateOverride e then Ret u'
                        else Cont (c\<lparr>url := u', buffer := [], state := STATE_PATH_START\<rparr>))
         else advance (c\<lparr>buffer := buffer c @ [the ch]\<rparr>))"

subsection \<open>Path, query and fragment\<close>

definition step_PATH_START :: "parse_env \<Rightarrow> parser \<Rightarrow> outcome" where
  "step_PATH_START e c =
     (let ch = input_at e (index c); u = url c
      in if isSpecial (scheme u) then
           (if ch \<noteq> Some 47 \<and> ch \<noteq> Some 92 then Cont (c\<lparr>state := STATE_PATH\<rparr>)
            else advance (c\<lparr>state := STATE_PATH\<rparr>))
         else if \<not> hasStateOverride e \<and> ch = Some 63
         then advance (c\<lparr>url := u\<lparr>query := Some []\<rparr>, state := STATE_QUERY\<rparr>)
         else if \<not> hasStateOverride e \<and> ch = Some 35
         then advance (c\<lparr>url := u\<lparr>fragment := Some []\<rparr>, state := STATE_FRAGMENT\<rparr>)
         else if ch \<noteq> None then
           (if ch \<noteq> Some 47 then Cont (c\<lparr>state := STATE_PATH\<rparr>)
            else advance (c\<lparr>state := STATE_PATH\<rparr>))
         else advance c)"

definition host_truthy :: "host option \<Rightarrow> bool" where
  "host_truthy h = (case h of None \<Rightarrow> False | Some (HostString s) \<Rightarrow> s \<noteq> []
     | Some (HostNumber n) \<Rightarrow> n \<noteq> 0 | Some (HostPieces ps) \<Rightarrow> True)"

text \<open>A segment that is not a dot segment; a drive letter is normalised.\<close>

definition push_segment :: "jsstr \<Rightarrow> url \<Rightarrow> url" where
  "push_segment buf u =
     (if scheme u = js ''file:'' \<and> path u = [] \<and> length buf = 2 \<and> isWindowsDriveLetter buf
      then (if host_truthy (host u) then u\<lparr>host := Some (HostString [])\<rparr> else u)
             \<lparr>path := path u @ [[buf ! 0, 58]]\<rparr>
      else u\<lparr>path := path u @ [buf]\<rparr>)"

text \<open>\<open>slash\<close>: the segment ended in \<open>'/'\<close> (or a backslash of a special URL).\<close>

definition end_segment :: "bool \<Rightarrow> jsstr \<Rightarrow> url \<Rightarrow> url" where
  "end_segment slash buf u =
     (if isDoubleDotSegment buf then
        (let u' = shortenURLPath u in if \<not> slash then u'\<lparr>path := path u' @ [[]]\<rparr> else u')
      else if isSingleDotSegment buf \<and> \<not> slash then u\<lparr>path := path u @ [[]]\<rparr>
      else if \<not> isSingleDotSegment buf then push_segment buf u
      else u)"

fun drop_empty_segments :: "jsstr list \<Rightarrow> jsstr list" where
  "drop_empty_segments (a # b # p) = (if a = [] then drop_empty_segments (b # p) else a # b # p)"
| "drop_empty_segments p = p"

definition step_PATH :: "parse_env \<Rightarrow> parser \<Rightarrow> outcome" where
  "step_PATH e c =
     (let ch = input_at e (index c)
      in if ch = None \<or> ch = Some 47 \<or> specialBackSlash e c \<or>
            \<not> hasStateOverride e \<and> (ch = Some 63 \<or> ch = Some 35)
         then
           (let u = end_segment (ch = Some 47 \<or> specialBackSlash e c) (buffer c) (url c);
                u' = (if scheme u = js ''file:'' \<and> ch \<in> {None, Some 63, Some 35}
                      then u\<lparr>path := drop_empty_segments (path u)\<rparr> else u)
            in if ch = Some 63
               then advance (c\<lparr>url := u'\<lparr>query := Some []\<rparr>, buffer := [], state := STATE_QUERY\<rparr>)
               else if ch = Some 35
               then advance (c\<lparr>url := u'\<lparr>fragment := Some []\<rparr>, buffer := [], state := STATE_FRAGMENT\<rparr>)
               else advance (c\<lparr>url := u', buffer := []\<rparr>))
         else advance (c\<lparr>buffer := appendOrEscape (buffer c) (the ch) PATH_ENCODE_SET\<rparr>))"

definition step_CANNOT_BE_BASE :: "parse_env \<Rightarrow> parser \<Rightarrow> outcome" where
  "step_CANNOT_BE_BASE e c =
     (let ch = input_at e (index c); u = url c
      in if ch = Some 63 then advance (c\<lparr>state := STATE_QUERY\<rparr>)
         else if ch = Some 35 then advance (c\<lparr>state := STATE_FRAGMENT\<rparr>)
         else let p = (if path u = [] then [[]] else path u)
              in advance (c\<lparr>url := u\<lparr>path := (case ch of
                     None \<Rightarrow> p
                   | Some x \<Rightarrow> p[0 := appendOrEscape (p ! 0) x C0_CONTROL_ENCODE_SET])\<rparr>\<rparr>))"

definition step_QUERY :: "parse_env \<Rightarrow> parser \<Rightarrow> outcome" where
  "step_QUERY e c =
     (let ch = input_at e (index c); u = url c
      in if ch = None \<or> \<not> hasStateOverride e \<and> ch = Some 35
         then advance (c\<lparr>url := u\<lparr>query := Some (buffer c)\<rparr>, buffer := [],
                         state := (if ch = Some 35 then STATE_FRAGMENT else state c)\<rparr>)
         else advance (c\<lparr>buffer := appendOrEscape (buffer c) (the ch) QUERY_ENCODE_SET\<rparr>))"

text \<open>\<open>case 0\<close> compares a character with the number 0 and is never taken.\<close>

definition step_FRAGMENT :: "parse_env \<Rightarrow> parser \<Rightarrow> outcome" where
  "step_FRAGMENT e c =
     (case input_at e (index c) of
        None \<Rightarrow> advance (c\<lparr>url := (url c)\<lparr>fragment := Some (buffer c)\<rparr>\<rparr>)
      | Some ch \<Rightarrow> advance (c\<lparr>buffer := appendOrEscape (buffer c) ch FRAGMENT_ENCODE_SET\<rparr>))"

definition step :: "parse_env \<Rightarrow> parser \<Rightarrow> outcome" where
  "step e c = (case state c of
     STATE_SCHEME_START \<Rightarrow> step_SCHEME_START e c
   | STATE_SCHEME \<Rightarrow> step_SCHEME e c
   | STATE_NO_SCHEME \<Rightarrow> step_NO_SCHEME e c
   | STATE_SPECIAL_RELATIVE_OR_AUTHORITY \<Rightarrow> step_SPECIAL_RELATIVE_OR_AUTHORITY e c
   | STATE_PATH_OR_AUTHORITY \<Rightarrow> step_PATH_OR_AUTHORITY e c
   | STATE_RELATIVE \<Rightarrow> step_RELATIVE e c
   | STATE_RELATIVE_SLASH \<Rightarrow> step_RELATIVE_SLASH e c
   | STATE_SPECIAL_AUTHORITY_SLASHES \<Rightarrow> step_SPECIAL_AUTHORITY_SLASHES e c
   | STATE_SPECIAL_AUTHORITY_IGNORE_SLASHES \<Rightarrow> step_SPECIAL_AUTHORITY_IGNORE_SLASHES e c
   | STATE_AUTHORITY \<Rightarrow> step_AUTHORITY e c
   | STATE_HOST \<Rightarrow> step_HOST e c
   | STATE_HOSTNAME \<Rightarrow> step_HOST e c
   | STATE_PORT \<Rightarrow> step_PORT e c
   | STATE_FILE \<Rightarrow> step_FILE e c
   | STATE_FILE_SLASH \<Rightarrow> step_FILE_SLASH e c
   | STATE_FILE_HOST \<Rightarrow> step_FILE_HOST e c
   | STATE_PATH_START \<Rightarrow> step_PATH_START e c
   | STATE_PATH \<Rightarrow> step_PATH e c
   | STATE_CANNOT_BE_BASE \<Rightarrow> step_CANNOT_BE_BASE e c
   | STATE_QUERY \<Rightarrow> step_QUERY e c
   | STATE_FRAGMENT \<Rightarrow> step_FRAGMENT e c
   | STATE_OUT_OF_RANGE \<Rightarrow> advance (c\<lparr>url := (url c)\<lparr>invalid := True\<rparr>\<rparr>))"

section \<open>The loop and its termination\<close>

text \<open>A step keeps the state and moves the index forward, or enters a state of lower rank.\<close>

definition rank :: "state \<Rightarrow> nat" where
  "rank s = (case s of
     STATE_SCHEME_START \<Rightarrow> 20 | STATE_SCHEME \<Rightarrow> 19 | STATE_NO_SCHEME \<Rightarrow> 18
   | STATE_SPECIAL_RELATIVE_OR_AUTHORITY \<Rightarrow> 17 | STATE_PATH_OR_AUTHORITY \<Rightarrow> 17
   | STATE_SPECIAL_AUTHORITY_SLASHES \<Rightarrow> 17 | STATE_RELATIVE \<Rightarrow> 16 | STATE_RELATIVE_SLASH \<Rightarrow> 15
   | STATE_SPECIAL_AUTHORITY_IGNORE_SLASHES \<Rightarrow> 14 | STATE_AUTHORITY \<Rightarrow> 13
   | STATE_HOST \<Rightarrow> 12 | STATE_HOSTNAME \<Rightarrow> 12 | STATE_PORT \<Rightarrow> 11
   | STATE_FILE \<Rightarrow> 10 | STATE_FILE_SLASH \<Rightarrow> 9 | STATE_FILE_HOST \<Rightarrow> 8 | STATE_PATH_START \<Rightarrow> 7
   | STATE_PATH \<Rightarrow> 6 | STATE_CANNOT_BE_BASE \<Rightarrow> 5 | STATE_QUERY \<Rightarrow> 4 | STATE_FRAGMENT \<Rightarrow> 3
   | STATE_OUT_OF_RANGE \<Rightarrow> 2)"

lemmas step_defs = step_SCHEME_START_def scheme_done_def step_SCHEME_def step_NO_SCHEME_def
  step_SPECIAL_RELATIVE_OR_AUTHORITY_def step_PATH_OR_AUTHORITY_def step_RELATIVE_def
  step_RELATIVE_SLASH_def step_SPECIAL_AUTHORITY_SLASHES_def
  step_SPECIAL_AUTHORITY_IGNORE_SLASHES_def step_AUTHORITY_def step_HOST_def step_PORT_def
  step_FILE_def step_FILE_SLASH_def step_FILE_HOST_def step_PATH_START_def step_PATH_def
  step_CANNOT_BE_BASE_def step_QUERY_def step_FRAGMENT_def

lemma step_progress:
  assumes "step e c = Cont c'"
  shows "rank (state c') < rank (state c) \<or> state c' = state c \<and> index c < index c'"
  using assms
  by (cases "state c")
     (auto simp: step_def step_defs advance_def fail_def terminate_def Let_def rank_def
       split: if_splits option.splits prod.splits list.splits)

function url_loop :: "parse_env \<Rightarrow> parser \<Rightarrow> url option" where
  "url_loop e c =
     (if index c < int (length (input e)) + 1
      then (case step e c of
              Cont c' \<Rightarrow> url_loop e c'
            | Ret u \<Rightarrow> Some u
            | Throw \<Rightarrow> None)
      else Some (url c))"
  by pat_completeness auto
termination
proof (relation "inv_image (less_than <*lex*> less_than)
    (\<lambda>(e, c). (rank (state c), nat (int (length (input e)) + 1 - index c)))", goal_cases)
  case (2 e c c')
  then show ?case using step_progress [of e c c'] by auto
qed auto

declare url_loop.simps [simp del]

definition new_url :: url where
  "new_url = \<lparr>scheme = [], username = [], password = [], host = None, port = None, path = [],
     query = None, fragment = None, hasUsername = False, hasPassword = False, failed = False,
     invalid = False, special = False, cannotBeBase = False, isDefaultSchemePort = True,
     terminated = False\<rparr>"

definition strip_input :: "jsstr \<Rightarrow> jsstr" where
  "strip_input s =
     filter (\<lambda>c. c \<noteq> 0x09 \<and> c \<noteq> 0x0A \<and> c \<noteq> 0x0D)
       (rev (dropWhile (\<lambda>c. c \<le> 0x20) (rev (dropWhile (\<lambda>c. c \<le> 0x20) s))))"

text \<open>\<open>None\<close> is the \<open>TypeError\<close>.\<close>

definition basicURLParse ::
  "(nat \<Rightarrow> jsstr) \<Rightarrow> jsstr \<Rightarrow> url option \<Rightarrow> state option \<Rightarrow> url option" where
  "basicURLParse up s b override =
     url_loop \<lparr>input = strip_input s, base = b, stateOverride = override, upper = up\<rparr>
       \<lparr>url = new_url\<lparr>invalid := (override = Some STATE_OUT_OF_RANGE)\<rparr>,
        state = (case override of None \<Rightarrow> STATE_SCHEME_START | Some st \<Rightarrow> st),
        atflag = False, squareBracketFlag = False, passwordTokenSeenFlag = False,
        index = 0, buffer = []\<rparr>"

end
