(* ===== verification/Url_Invariant.thy ===== *)
theory Url_Invariant
  imports Url_Parser
begin

text \<open>
  What \<open>basicURLParse\<close> guarantees: an invariant of the URL record and of the machine's local
  variables, preserved by every state, and from it that the parser never throws, that its result
  is again a valid base, and that no result has a dot segment.
\<close>

section \<open>Well-formed URL records\<close>

text \<open>No character of the encode set other than the NUL that \<open>appendOrEscape\<close> writes.\<close>

definition clean :: "nat list \<Rightarrow> jsstr \<Rightarrow> bool" where
  "clean S s \<longleftrightarrow> list_all (\<lambda>c. c = 0 \<or> \<not> in_encode_set S c) s"

definition segment_chars :: "bool \<Rightarrow> jsstr \<Rightarrow> bool" where
  "segment_chars sp s \<longleftrightarrow> clean PATH_ENCODE_SET s \<and> 47 \<notin> set s \<and> (sp \<longrightarrow> 92 \<notin> set s)"

definition segment_ok :: "bool \<Rightarrow> jsstr \<Rightarrow> bool" where
  "segment_ok sp s \<longleftrightarrow> segment_chars sp s \<and> \<not> isSingleDotSegment s \<and> \<not> isDoubleDotSegment s"

definition path_ok :: "url \<Rightarrow> bool" where
  "path_ok u \<longleftrightarrow>
     (cannotBeBase u \<longrightarrow> length (path u) = 1 \<and> clean C0_CONTROL_ENCODE_SET (path u ! 0)) \<and>
     (\<not> cannotBeBase u \<longrightarrow> list_all (segment_ok (special u)) (path u))"

definition port_ok :: "url \<Rightarrow> bool" where
  "port_ok u =
     pred_option (\<lambda>p. p \<le> 65535 \<and> specials (scheme u) \<noteq> Some (int p)) (port u)"

definition url_inv :: "url \<Rightarrow> bool" where
  "url_inv u \<longleftrightarrow>
     isSpecial (scheme u) = special u \<and> port_ok u \<and> path_ok u \<and>
     pred_option (host_ok (special u)) (host u) \<and>
     clean USERINFO_ENCODE_SET (username u) \<and> clean USERINFO_ENCODE_SET (password u) \<and>
     pred_option (clean QUERY_ENCODE_SET) (query u) \<and>
     pred_option (clean FRAGMENT_ENCODE_SET) (fragment u) \<and>
     (cannotBeBase u \<longrightarrow> \<not> special u) \<and> isDefaultSchemePort u"

text \<open>A file URL has a path; without it a relative reference would read \<open>base.path[0]\<close> in vain.\<close>

definition file_path :: "url \<Rightarrow> bool" where
  "file_path u \<longleftrightarrow> (scheme u = js ''file:'' \<longrightarrow> path u \<noteq> [])"

definition valid_base :: "url \<Rightarrow> bool" where
  "valid_base u \<longleftrightarrow> url_inv u \<and> file_path u"

lemma fromCharCode_hex [simp]: "fromCharCode (hex_lookup ch) = 0"
  by (simp add: fromCharCode_def hex_lookup_def hex_table_def isASCIIDigit_def)

lemma clean_Nil [simp]: "clean S []"
  by (simp add: clean_def)

lemma clean_append [simp]: "clean S (s @ t) \<longleftrightarrow> clean S s \<and> clean S t"
  by (simp add: clean_def)

lemma clean_appendOrEscape [simp]: "clean S (appendOrEscape s ch S) = clean S s"
  by (auto simp: clean_def appendOrEscape_def)

lemma segment_chars_append:
  "segment_chars sp s \<Longrightarrow> ch \<noteq> 47 \<Longrightarrow> (sp \<Longrightarrow> ch \<noteq> 92) \<Longrightarrow>
    segment_chars sp (appendOrEscape s ch PATH_ENCODE_SET)"
  by (auto simp: segment_chars_def) (auto simp: appendOrEscape_def split: if_splits)

lemma segment_ok_Nil [simp]: "segment_ok sp []"
  by (simp add: segment_ok_def segment_chars_def isSingleDotSegment_def isDoubleDotSegment_def)

lemma segment_chars_Nil [simp]: "segment_chars sp []"
  by (simp add: segment_chars_def)

text \<open>A drive letter is no dot segment and has no character to escape.\<close>

lemma alpha_not_encoded: "isASCIIAlpha (Some c) \<Longrightarrow> \<not> in_encode_set PATH_ENCODE_SET c \<and> c \<noteq> 47 \<and> c \<noteq> 92"
proof -
  have "list_all (\<lambda>c. \<not> in_encode_set PATH_ENCODE_SET c \<and> c \<noteq> 47 \<and> c \<noteq> 92) ([65..<91] @ [97..<123])"
    by code_simp
  moreover assume "isASCIIAlpha (Some c)"
  then have "c \<in> set ([65..<91] @ [97..<123])"
    unfolding set_append set_upt Un_iff atLeastLessThan_iff by (auto simp: isASCIIAlpha_def)
  ultimately show ?thesis unfolding list_all_iff by blast
qed

lemma drive_not_encoded: "\<not> in_encode_set PATH_ENCODE_SET 58" "\<not> in_encode_set PATH_ENCODE_SET 124"
  by code_simp+

lemma drive_letter_cases:
  assumes "isWindowsDriveLetter s" and "length s = 2"
  obtains a b where "s = [a, b]" "isASCIIAlpha (Some a)" "b = 58 \<or> b = 124"
proof -
  from assms(2) obtain a b where "s = [a, b]" by (auto simp: length_Suc_conv eval_nat_numeral)
  then show ?thesis using that assms(1) by (auto simp: isWindowsDriveLetter_def)
qed

lemma drive_segment_chars: "isWindowsDriveLetter s \<Longrightarrow> length s = 2 \<Longrightarrow> segment_chars sp s"
  using alpha_not_encoded drive_not_encoded
  by (elim drive_letter_cases) (auto simp: segment_chars_def clean_def)

lemma drive_segment_ok: "isWindowsDriveLetter s \<Longrightarrow> length s = 2 \<Longrightarrow> segment_ok sp [s ! 0, 58]"
  using alpha_not_encoded drive_not_encoded
  by (elim drive_letter_cases)
     (auto simp: segment_ok_def segment_chars_def clean_def isSingleDotSegment_def isDoubleDotSegment_def)

lemma specials_file [simp]: "specials [102, 105, 108, 101, 58] = Some (-1)"
  by (simp add: specials_def)

lemma isSpecial_file [simp]: "isSpecial [102, 105, 108, 101, 58]"
  by (simp add: isSpecial_def)

lemma isSpecial_Nil [simp]: "\<not> isSpecial []"
  by (simp add: isSpecial_def specials_def)

lemma normalizePort_ok:
  assumes "\<And>p. q = Some p \<Longrightarrow> p \<le> 65535" and "normalizePort s q = Some r"
  shows "r \<le> 65535 \<and> specials s \<noteq> Some (int r)"
proof -
  have "specials s \<noteq> Some 0" by (simp add: specials_def)
  then show ?thesis using assms
    by (auto simp: normalizePort_def split: option.splits if_splits)
qed

lemma port_ok_normalized:
  "port u = normalizePort (scheme u) q \<Longrightarrow> (\<And>p. q = Some p \<Longrightarrow> p \<le> 65535) \<Longrightarrow> port_ok u"
  using normalizePort_ok [of q "scheme u"] by (cases "normalizePort (scheme u) q") (auto simp: port_ok_def)

section \<open>Paths\<close>

lemma list_all_butlast: "list_all P xs \<Longrightarrow> list_all P (butlast xs)"
  by (auto simp: list_all_iff dest: in_set_butlastD)

lemma shortenURLPath_fields [simp]:
  "scheme (shortenURLPath u) = scheme u" "special (shortenURLPath u) = special u"
  "cannotBeBase (shortenURLPath u) = cannotBeBase u" "host (shortenURLPath u) = host u"
  "port (shortenURLPath u) = port u" "username (shortenURLPath u) = username u"
  "password (shortenURLPath u) = password u" "query (shortenURLPath u) = query u"
  "fragment (shortenURLPath u) = fragment u"
  "isDefaultSchemePort (shortenURLPath u) = isDefaultSchemePort u"
  by (simp_all add: shortenURLPath_def)

lemma shortenURLPath_path:
  "list_all P (path u) \<Longrightarrow> list_all P (path (shortenURLPath u))"
  by (simp add: shortenURLPath_def list_all_butlast)

lemma push_segment_inv:
  assumes "url_inv u" and "\<not> cannotBeBase u" and "segment_ok (special u) buf"
  shows "url_inv (push_segment buf u) \<and> \<not> cannotBeBase (push_segment buf u) \<and>
    path (push_segment buf u) \<noteq> [] \<and> scheme (push_segment buf u) = scheme u"
  using assms drive_segment_ok [of buf "special u"]
  by (auto simp: push_segment_def url_inv_def path_ok_def port_ok_def host_ok_def
      split: option.splits host.splits)

lemma end_segment_inv:
  assumes "url_inv u" and "\<not> cannotBeBase u" and "segment_chars (special u) buf"
  shows "url_inv (end_segment slash buf u) \<and> \<not> cannotBeBase (end_segment slash buf u) \<and>
    (\<not> slash \<longrightarrow> path (end_segment slash buf u) \<noteq> []) \<and>
    scheme (end_segment slash buf u) = scheme u"
proof -
  have short: "url_inv (shortenURLPath u)"
    using assms(1,2) by (auto simp: url_inv_def path_ok_def port_ok_def shortenURLPath_path)
  have push: "url_inv (v\<lparr>path := path v @ [[]]\<rparr>)" if "url_inv v" "\<not> cannotBeBase v" for v
    using that by (simp add: url_inv_def path_ok_def port_ok_def)
  have "segment_ok (special u) buf" if "\<not> isDoubleDotSegment buf" "\<not> isSingleDotSegment buf"
    using that assms(3) by (simp add: segment_ok_def)
  then show ?thesis
    using assms(1,2) short push [OF short] push [of u] push_segment_inv [of u buf]
    by (auto simp: end_segment_def Let_def)
qed

lemma drop_empty_segments_all: "list_all P p \<Longrightarrow> list_all P (drop_empty_segments p)"
  by (induction p rule: drop_empty_segments.induct) auto

lemma drop_empty_segments_Nil [simp]: "drop_empty_segments p = [] \<longleftrightarrow> p = []"
  by (induction p rule: drop_empty_segments.induct) auto

lemma drop_empty_segments_inv:
  "url_inv u \<Longrightarrow> \<not> cannotBeBase u \<Longrightarrow> url_inv (u\<lparr>path := drop_empty_segments (path u)\<rparr>)"
  by (auto simp: url_inv_def path_ok_def port_ok_def drop_empty_segments_all)

lemma userinfo_loop_inv:
  assumes "userinfo_loop bs seen u = (seen', u')" and "url_inv u"
  shows "url_inv u' \<and> path u' = path u \<and> cannotBeBase u' = cannotBeBase u"
  using assms
proof (induction bs seen u rule: userinfo_loop.induct)
  case (2 bch bs seen u)
  then show ?case
    by (auto simp: url_inv_def path_ok_def port_ok_def split: if_splits)
qed simp

section \<open>The invariant of the machine\<close>

definition fresh :: "url \<Rightarrow> bool" where
  "fresh u \<longleftrightarrow> host u = None \<and> port u = None \<and> path u = [] \<and> \<not> cannotBeBase u"

definition relative_base :: "parse_env \<Rightarrow> bool" where
  "relative_base e = (case base e of None \<Rightarrow> False
     | Some b \<Rightarrow> \<not> cannotBeBase b \<and> scheme b \<noteq> js ''file:'')"

definition finished :: "parse_env \<Rightarrow> url \<Rightarrow> bool" where
  "finished e u \<longleftrightarrow> hasStateOverride e \<or> file_path u"

definition state_inv :: "parse_env \<Rightarrow> parser \<Rightarrow> bool" where
  "state_inv e c = (let u = url c; buf = buffer c in case state c of
     STATE_SCHEME_START \<Rightarrow> buf = [] \<and> fresh u
   | STATE_SCHEME \<Rightarrow> fresh u
   | STATE_NO_SCHEME \<Rightarrow> buf = [] \<and> fresh u
   | STATE_SPECIAL_RELATIVE_OR_AUTHORITY \<Rightarrow> buf = [] \<and> fresh u \<and> relative_base e
   | STATE_PATH_OR_AUTHORITY \<Rightarrow> buf = [] \<and> fresh u \<and> \<not> special u
   | STATE_RELATIVE \<Rightarrow> buf = [] \<and> fresh u \<and> relative_base e
   | STATE_RELATIVE_SLASH \<Rightarrow> buf = [] \<and> fresh u \<and> relative_base e \<and> base_is e (scheme u)
   | STATE_SPECIAL_AUTHORITY_SLASHES \<Rightarrow> buf = [] \<and> fresh u
   | STATE_SPECIAL_AUTHORITY_IGNORE_SLASHES \<Rightarrow> buf = [] \<and> fresh u
   | STATE_AUTHORITY \<Rightarrow> int (length buf) \<le> index c \<and> path u = [] \<and> \<not> cannotBeBase u
   | STATE_HOST \<Rightarrow> path u = [] \<and> \<not> cannotBeBase u
   | STATE_HOSTNAME \<Rightarrow> path u = [] \<and> \<not> cannotBeBase u
   | STATE_PORT \<Rightarrow> path u = [] \<and> \<not> cannotBeBase u
   | STATE_FILE \<Rightarrow> buf = [] \<and> fresh u \<and> scheme u = js ''file:''
   | STATE_FILE_SLASH \<Rightarrow> buf = [] \<and> fresh u \<and> scheme u = js ''file:''
   | STATE_FILE_HOST \<Rightarrow> path u = [] \<and> \<not> cannotBeBase u
   | STATE_PATH_START \<Rightarrow> buf = [] \<and> path u = [] \<and> \<not> cannotBeBase u
   | STATE_PATH \<Rightarrow> segment_chars (special u) buf \<and> \<not> cannotBeBase u
   | STATE_CANNOT_BE_BASE \<Rightarrow> buf = [] \<and> cannotBeBase u
   | STATE_QUERY \<Rightarrow> clean QUERY_ENCODE_SET buf \<and> finished e u
   | STATE_FRAGMENT \<Rightarrow> clean FRAGMENT_ENCODE_SET buf \<and> finished e u
   | STATE_OUT_OF_RANGE \<Rightarrow> hasStateOverride e)"

definition at_char :: "parse_env \<Rightarrow> parser \<Rightarrow> bool" where
  "at_char e c \<longleftrightarrow> 0 \<le> index c \<and> index c \<le> int (length (input e))"

definition parser_inv :: "parse_env \<Rightarrow> parser \<Rightarrow> bool" where
  "parser_inv e c \<longleftrightarrow> 0 \<le> index c \<and> url_inv (url c) \<and>
     (if index c \<le> int (length (input e)) then state_inv e c else finished e (url c))"

definition outcome_ok :: "parse_env \<Rightarrow> outcome \<Rightarrow> bool" where
  "outcome_ok e r = (case r of
     Cont c \<Rightarrow> parser_inv e c
   | Ret u \<Rightarrow> url_inv u \<and> (hasStateOverride e \<or> failed u)
   | Throw \<Rightarrow> False)"

definition env_ok :: "parse_env \<Rightarrow> bool" where
  "env_ok e = pred_option valid_base (base e)"

lemma input_at_None: "0 \<le> i \<Longrightarrow> input_at e i = None \<longleftrightarrow> int (length (input e)) \<le> i"
  by (auto simp: input_at_def char_at_None_iff)

lemma input_at_Some: "input_at e i = Some x \<Longrightarrow> 0 \<le> i \<and> i < int (length (input e))"
  by (auto simp: input_at_def split: if_splits dest!: char_at_SomeD)

section \<open>Every state preserves it\<close>

text \<open>The base, when a state reads it.\<close>

lemma env_base: "env_ok e \<Longrightarrow> base e = Some b \<Longrightarrow> valid_base b"
  by (simp add: env_ok_def)

lemmas inv_defs = outcome_ok_def parser_inv_def state_inv_def advance_def fail_def terminate_def Let_def

lemma url_inv_flags [simp]:
  "url_inv (u\<lparr>failed := x\<rparr>) = url_inv u" "url_inv (u\<lparr>terminated := x\<rparr>) = url_inv u"
  by (simp_all add: url_inv_def path_ok_def port_ok_def)

lemma url_inv_new_host:
  "url_inv u \<Longrightarrow> pred_option (host_ok (special u)) h \<Longrightarrow> url_inv (u\<lparr>host := h\<rparr>)"
  by (simp add: url_inv_def path_ok_def port_ok_def)

lemma url_inv_empty_query [simp]: "url_inv u \<Longrightarrow> clean QUERY_ENCODE_SET q \<Longrightarrow> url_inv (u\<lparr>query := Some q\<rparr>)"
  by (simp add: url_inv_def path_ok_def port_ok_def)

lemma url_inv_empty_fragment [simp]:
  "url_inv u \<Longrightarrow> clean FRAGMENT_ENCODE_SET f \<Longrightarrow> url_inv (u\<lparr>fragment := Some f\<rparr>)"
  by (simp add: url_inv_def path_ok_def port_ok_def)

lemma at_char_Some:
  "input_at e (index c) = Some x \<Longrightarrow> 0 \<le> index c \<and> index c + 1 \<le> int (length (input e))"
  using input_at_Some [of e "index c" x] by simp

lemma at_char_None:
  "at_char e c \<Longrightarrow> input_at e (index c) = None \<Longrightarrow> 0 \<le> index c \<and> index c = int (length (input e))"
  using input_at_None [of "index c" e] by (simp add: at_char_def)

lemmas url_defs = url_inv_def path_ok_def port_ok_def fresh_def

lemma SCHEME_START_inv:
  assumes "state c = STATE_SCHEME_START" "state_inv e c" "at_char e c" "url_inv (url c)"
  shows "outcome_ok e (step_SCHEME_START e c)"
proof (cases "input_at e (index c)")
  case None
  then show ?thesis using assms at_char_None [OF assms(3)]
    by (auto simp: inv_defs step_SCHEME_START_def)
next
  case (Some x)
  then show ?thesis using assms at_char_Some [OF Some]
    by (auto simp: inv_defs step_SCHEME_START_def)
qed

lemma normalizePort_None [simp]: "normalizePort s None = None"
  by (simp add: normalizePort_def split: option.split)

lemma url_inv_scheme:
  assumes "url_inv u" and "fresh u"
  shows "url_inv (u\<lparr>scheme := s, port := normalizePort s (port u), special := isSpecial s\<rparr>)"
proof -
  let ?v = "u\<lparr>scheme := s, port := normalizePort s (port u), special := isSpecial s\<rparr>"
  have "\<And>p. port u = Some p \<Longrightarrow> p \<le> 65535" using assms(1) by (auto simp: url_inv_def port_ok_def)
  then have "port_ok ?v" by (intro port_ok_normalized [of _ "port u"]) auto
  then show ?thesis using assms by (auto simp: url_inv_def path_ok_def fresh_def)
qed

lemma url_inv_opaque:
  "url_inv u \<Longrightarrow> fresh u \<Longrightarrow> \<not> special u \<Longrightarrow> url_inv (u\<lparr>cannotBeBase := True, path := [[]]\<rparr>)"
  by (simp add: url_inv_def path_ok_def port_ok_def fresh_def)

lemma scheme_done_inv:
  assumes "state c = STATE_SCHEME" "state_inv e c" "at_char e c" "url_inv (url c)"
    and "input_at e (index c) = Some 58 \<or> hasStateOverride e \<and> input_at e (index c) = None"
    and "env_ok e"
  shows "outcome_ok e (scheme_done e c)"
proof -
  let ?s = "buffer c @ [58]"
  let ?u = "(url c)\<lparr>scheme := ?s, port := normalizePort ?s (port (url c)), special := isSpecial ?s\<rparr>"
  have fresh: "fresh (url c)" using assms(1,2) by (simp add: state_inv_def)
  then have inv: "url_inv ?u" and fresh': "fresh ?u" using url_inv_scheme assms(4) by (auto simp: fresh_def)
  have opaque: "\<not> special ?u \<Longrightarrow> url_inv (?u\<lparr>cannotBeBase := True, path := [[]]\<rparr>)"
    by (rule url_inv_opaque [OF inv fresh'])
  have base: "relative_base e" if "isSpecial ?s" "base_is e ?s" "?s \<noteq> js ''file:''"
    using that assms(6) env_base [of e]
    by (auto simp: relative_base_def base_is_def valid_base_def url_inv_def split: option.splits)
  show ?thesis
  proof (cases "input_at e (index c)")
    case None
    then show ?thesis using assms inv by (auto simp: inv_defs scheme_done_def)
  next
    case (Some x)
    have next_char: "index c + 2 \<le> int (length (input e))" if "input_at e (index c + 1) = Some y" for y
      using input_at_Some [OF that] by simp
    show ?thesis using Some fresh fresh' inv opaque base at_char_Some [OF Some] next_char assms(4)
      by (auto simp: inv_defs scheme_done_def fresh_def)
  qed
qed

lemma SCHEME_inv:
  assumes "state c = STATE_SCHEME" "state_inv e c" "at_char e c" "url_inv (url c)" "env_ok e"
  shows "outcome_ok e (step_SCHEME e c)"
proof (cases "input_at e (index c)")
  case None
  then show ?thesis using assms scheme_done_inv [of c e]
    by (auto simp: inv_defs step_SCHEME_def isASCIIAlphanumeric_def isASCIIAlpha_def isASCIIDigit_def)
next
  case (Some x)
  then show ?thesis using assms scheme_done_inv [of c e] at_char_Some [OF Some]
    by (auto simp: inv_defs step_SCHEME_def simp del: One_nat_def)
qed

lemma url_inv_file:
  "url_inv u \<Longrightarrow> fresh u \<Longrightarrow> url_inv (u\<lparr>scheme := js ''file:'', special := True\<rparr>)"
  by (auto simp: url_inv_def path_ok_def port_ok_def fresh_def pred_option_def)

lemma NO_SCHEME_inv:
  assumes "state c = STATE_NO_SCHEME" "state_inv e c" "at_char e c" "url_inv (url c)" "env_ok e"
  shows "outcome_ok e (step_NO_SCHEME e c)"
proof (cases "base e")
  case None
  then show ?thesis using assms by (simp add: inv_defs step_NO_SCHEME_def)
next
  case (Some b)
  note b = env_base [OF assms(5) Some]
  have as_file: "url_inv ((url c)\<lparr>scheme := js ''file:'', special := True\<rparr>)"
    using assms(1,2,4) url_inv_file by (simp add: state_inv_def)
  show ?thesis
    using assms b Some as_file at_char_Some [of e c 35]
    by (auto simp: inv_defs step_NO_SCHEME_def relative_base_def at_char_def)
     (auto simp: url_defs valid_base_def finished_def file_path_def)
qed


lemma SPECIAL_RELATIVE_OR_AUTHORITY_inv:
  assumes "state c = STATE_SPECIAL_RELATIVE_OR_AUTHORITY" "state_inv e c" "at_char e c" "url_inv (url c)"
  shows "outcome_ok e (step_SPECIAL_RELATIVE_OR_AUTHORITY e c)"
  using assms input_at_Some [of e "index c + 1" 47]
  by (auto simp: inv_defs step_SPECIAL_RELATIVE_OR_AUTHORITY_def at_char_def)

lemma PATH_OR_AUTHORITY_inv:
  assumes "state c = STATE_PATH_OR_AUTHORITY" "state_inv e c" "at_char e c" "url_inv (url c)"
  shows "outcome_ok e (step_PATH_OR_AUTHORITY e c)"
  using assms input_at_Some [of e "index c" 47]
  by (auto simp: inv_defs step_PATH_OR_AUTHORITY_def at_char_def fresh_def url_inv_def finished_def file_path_def)

lemma SPECIAL_AUTHORITY_SLASHES_inv:
  assumes "state c = STATE_SPECIAL_AUTHORITY_SLASHES" "state_inv e c" "at_char e c" "url_inv (url c)"
  shows "outcome_ok e (step_SPECIAL_AUTHORITY_SLASHES e c)"
  using assms input_at_Some [of e "index c + 1" 47]
  by (auto simp: inv_defs step_SPECIAL_AUTHORITY_SLASHES_def at_char_def)

lemma SPECIAL_AUTHORITY_IGNORE_SLASHES_inv:
  assumes "state c = STATE_SPECIAL_AUTHORITY_IGNORE_SLASHES" "state_inv e c" "at_char e c" "url_inv (url c)"
  shows "outcome_ok e (step_SPECIAL_AUTHORITY_IGNORE_SLASHES e c)"
  using assms input_at_Some [of e "index c" 47] input_at_Some [of e "index c" 92]
  by (auto simp: inv_defs step_SPECIAL_AUTHORITY_IGNORE_SLASHES_def at_char_def fresh_def)

text \<open>What a relative reference copies from its base.\<close>

lemma url_inv_copy:
  assumes "valid_base b" and "\<not> cannotBeBase b" and "url_inv u" and "fresh u"
    and "isSpecial (scheme b) = special b"
    and "list_all (segment_ok (special b)) p" and "pred_option (clean QUERY_ENCODE_SET) q"
  shows "url_inv ((copy_authority b (u\<lparr>scheme := scheme b, special := special b\<rparr>))\<lparr>path := p, query := q\<rparr>)"
  using assms by (simp add: valid_base_def url_defs copy_authority_def)

lemma valid_base_special: "valid_base b \<Longrightarrow> isSpecial (scheme b) = special b"
  by (simp add: valid_base_def url_inv_def)

lemma RELATIVE_inv:
  assumes "state c = STATE_RELATIVE" "state_inv e c" "at_char e c" "url_inv (url c)" "env_ok e"
  shows "outcome_ok e (step_RELATIVE e c)"
proof -
  obtain b where base: "base e = Some b" "\<not> cannotBeBase b" "scheme b \<noteq> js ''file:''"
    using assms(1,2) by (auto simp: state_inv_def relative_base_def split: option.splits)
  have b: "valid_base b" using env_base assms(5) base(1) by blast
  have sp [simp]: "isSpecial (scheme b) = special b" by (rule valid_base_special [OF b])
  have fresh: "fresh (url c)" and buf: "buffer c = []" using assms(1,2) by (auto simp: state_inv_def)
  show ?thesis
  proof (cases "input_at e (index c)")
    case None
    then show ?thesis using at_char_None [OF assms(3)] base b fresh buf assms(4)
      by (auto simp: inv_defs step_RELATIVE_def)
        (auto simp: url_defs valid_base_def copy_authority_def finished_def file_path_def)
  next
    case (Some x)
    show ?thesis using Some at_char_Some [OF Some] base b fresh buf assms(1,2,4)
      by (auto simp: inv_defs step_RELATIVE_def base_is_def relative_base_def list_all_butlast)
        (auto simp: url_defs valid_base_def copy_authority_def finished_def file_path_def list_all_butlast)
  qed
qed

lemma RELATIVE_SLASH_inv:
  assumes "state c = STATE_RELATIVE_SLASH" "state_inv e c" "at_char e c" "url_inv (url c)" "env_ok e"
  shows "outcome_ok e (step_RELATIVE_SLASH e c)"
proof -
  obtain b where base: "base e = Some b" "\<not> cannotBeBase b" "scheme b = scheme (url c)"
    using assms(1,2) by (auto simp: state_inv_def Let_def relative_base_def base_is_def split: option.splits)
  have b: "valid_base b" using env_base assms(5) base(1) by blast
  have "url_inv (copy_authority b (url c))"
    using b assms(1,2,4) base by (auto simp: valid_base_def url_defs copy_authority_def state_inv_def)
  then show ?thesis
    using assms base input_at_Some [of e "index c" 47] input_at_Some [of e "index c" 92]
    by (auto simp: inv_defs step_RELATIVE_SLASH_def at_char_def fresh_def copy_authority_def)
qed

lemma AUTHORITY_inv:
  assumes "state c = STATE_AUTHORITY" "state_inv e c" "at_char e c" "url_inv (url c)"
  shows "outcome_ok e (step_AUTHORITY e c)"
proof -
  obtain seen u where loop: "userinfo_loop (if atflag c then js ''%40'' @ buffer c else buffer c)
      (passwordTokenSeenFlag c) (url c) = (seen, u)"
    by fastforce
  have u: "url_inv u \<and> path u = path (url c) \<and> cannotBeBase u = cannotBeBase (url c)"
    by (rule userinfo_loop_inv [OF loop assms(4)])
  show ?thesis
  proof (cases "input_at e (index c)")
    case None
    then show ?thesis using assms at_char_None [OF assms(3)]
      by (auto simp: inv_defs step_AUTHORITY_def ends_authority_def)
  next
    case (Some x)
    then show ?thesis using assms at_char_Some [OF Some] u loop
      by (auto simp: inv_defs step_AUTHORITY_def)
  qed
qed

lemma HOST_inv:
  assumes "state c = STATE_HOST \<or> state c = STATE_HOSTNAME" "state_inv e c" "at_char e c" "url_inv (url c)"
  shows "outcome_ok e (step_HOST e c)"
proof -
  let ?h = "parseHost (upper e) (buffer c) (special (url c))"
  have u: "path (url c) = []" "\<not> cannotBeBase (url c)" using assms(1,2) by (auto simp: state_inv_def Let_def)
  have h: "url_inv ((url c)\<lparr>host := ?h\<rparr>)"
    using assms(4) parseHost_result [of "upper e" "buffer c"]
    by (intro url_inv_new_host) (auto simp: pred_option_def)
  have none: "url_inv ((url c)\<lparr>host := None\<rparr>)" using assms(4) by (intro url_inv_new_host) auto
  show ?thesis
  proof (cases "input_at e (index c)")
    case None
    then show ?thesis using assms h none u at_char_None [OF assms(3)]
      by (cases ?h) (auto simp: inv_defs step_HOST_def ends_authority_def)
  next
    case (Some x)
    note facts = Some assms h none u at_char_Some [OF Some]
    show ?thesis
    proof (cases "ends_authority e c")
      case True
      then show ?thesis using facts
        by (cases ?h; cases "x = 58") (auto simp: inv_defs step_HOST_def hasStateOverride_def)
    next
      case False
      then show ?thesis using facts
        by (cases ?h; cases "x = 58") (auto simp: inv_defs step_HOST_def hasStateOverride_def)
    qed
  qed
qed


lemma parse_radix_port:
  assumes "\<not> 65535 < parse_radix 10 buf" and "url_inv u"
  shows "url_inv (u\<lparr>port := normalizePort (scheme u) (Some (parse_radix 10 buf))\<rparr>)"
proof -
  let ?v = "u\<lparr>port := normalizePort (scheme u) (Some (parse_radix 10 buf))\<rparr>"
  have "port_ok ?v"
    using assms(1) by (intro port_ok_normalized [of _ "Some (parse_radix 10 buf)"]) auto
  then show ?thesis using assms(2) by (auto simp: url_inv_def path_ok_def)
qed

lemma url_inv_no_port: "url_inv u \<Longrightarrow> url_inv (u\<lparr>port := None\<rparr>)"
  by (simp add: url_inv_def path_ok_def port_ok_def)

lemma PORT_inv:
  assumes "state c = STATE_PORT" "state_inv e c" "at_char e c" "url_inv (url c)"
  shows "outcome_ok e (step_PORT e c)"
proof -
  let ?u = "(url c)\<lparr>port := normalizePort (scheme (url c)) (Some (parse_radix 10 (buffer c)))\<rparr>"
  have u: "path (url c) = []" "\<not> cannotBeBase (url c)" using assms(1,2) by (auto simp: state_inv_def Let_def)
  have p: "url_inv ?u \<and> url_inv (?u\<lparr>isDefaultSchemePort := True\<rparr>)" if "\<not> 65535 < parse_radix 10 (buffer c)"
    using parse_radix_port [OF that assms(4)] by (simp add: url_inv_def path_ok_def port_ok_def)
  have none: "url_inv ((url c)\<lparr>port := None\<rparr>)" using assms(4) by (rule url_inv_no_port)
  show ?thesis
  proof (cases "input_at e (index c)")
    case None
    then show ?thesis using assms p none u at_char_None [OF assms(3)]
      by (auto simp: inv_defs step_PORT_def ends_authority_def isASCIIDigit_def hasStateOverride_def)
  next
    case (Some x)
    then show ?thesis using assms p none u at_char_Some [OF Some]
      by (auto simp: inv_defs step_PORT_def hasStateOverride_def)
  qed
qed

lemma url_inv_file_copy:
  assumes "url_inv u" and "scheme u = js ''file:''" and "fresh u"
    and "valid_base b" and "scheme b = js ''file:''"
  shows "url_inv (u\<lparr>host := host b, path := path b\<rparr>)"
    "url_inv (u\<lparr>host := host b, path := path b, query := query b\<rparr>)"
    "url_inv (u\<lparr>host := host b, path := path b, query := Some []\<rparr>)"
    "url_inv (u\<lparr>host := host b, path := path b, query := query b, fragment := Some []\<rparr>)"
    "path b \<noteq> []"
  using assms by (auto simp: valid_base_def url_defs file_path_def)

lemma url_inv_shorten: "url_inv u \<Longrightarrow> \<not> cannotBeBase u \<Longrightarrow> url_inv (shortenURLPath u)"
  by (auto simp: url_inv_def path_ok_def port_ok_def shortenURLPath_path)

lemma FILE_inv:
  assumes "state c = STATE_FILE" "state_inv e c" "at_char e c" "url_inv (url c)" "env_ok e"
  shows "outcome_ok e (step_FILE e c)"
proof -
  have buf: "buffer c = []" and fresh: "fresh (url c)" and is_file: "scheme (url c) = js ''file:''"
    using assms(1,2) by (auto simp: state_inv_def Let_def)
  have same: "(url c)\<lparr>scheme := js ''file:''\<rparr> = url c" using is_file by simp
  have nb: "\<not> cannotBeBase (url c)" "path (url c) = []" using fresh by (auto simp: fresh_def)
  note step = step_FILE_def [of e c, unfolded same Let_def]
  show ?thesis
  proof (cases "base e = None \<or> \<not> base_is e (js ''file:'')")
    case True
    then show ?thesis using assms buf fresh is_file nb input_at_Some [of e "index c" 47] input_at_Some [of e "index c" 92]
      by (auto simp: inv_defs step at_char_def base_is_def split: option.splits)
  next
    case False
    then obtain b where base: "base e = Some b" "scheme b = js ''file:''"
      by (auto simp: base_is_def split: option.splits)
    note copy = url_inv_file_copy [OF assms(4) is_file fresh env_base [OF assms(5) base(1)] base(2)]
    have short: "url_inv (shortenURLPath ((url c)\<lparr>host := host b, path := path b\<rparr>))"
      using url_inv_shorten [OF copy(1)] nb by simp
    show ?thesis
    proof (cases "input_at e (index c)")
      case None
      then show ?thesis using base at_char_None [OF assms(3)] copy
        by (auto simp: inv_defs step finished_def file_path_def)
    next
      case (Some x)
      then show ?thesis using base at_char_Some [OF Some] copy short nb buf fresh is_file assms(1,4)
        by (auto simp: inv_defs step finished_def file_path_def)
    qed
  qed
qed

lemma FILE_SLASH_inv:
  assumes "state c = STATE_FILE_SLASH" "state_inv e c" "at_char e c" "url_inv (url c)" "env_ok e"
  shows "outcome_ok e (step_FILE_SLASH e c)"
proof -
  have buf: "buffer c = []" and fresh: "fresh (url c)" and is_file: "scheme (url c) = js ''file:''"
    using assms(1,2) by (auto simp: state_inv_def Let_def)
  have nb: "\<not> cannotBeBase (url c)" "path (url c) = []" using fresh by (auto simp: fresh_def)
  have copy: "url_inv ((url c)\<lparr>path := [seg]\<rparr>) \<and> url_inv ((url c)\<lparr>host := host b\<rparr>)"
    if "base e = Some b" "scheme b = js ''file:''" "path b = seg # segs" for b seg segs
    using that env_base [OF assms(5) that(1)] assms(4) is_file fresh
    by (auto simp: valid_base_def url_defs)
  have ne: "path b \<noteq> []" if "base e = Some b" "scheme b = js ''file:''" for b
    using env_base [OF assms(5) that(1)] that(2) by (auto simp: valid_base_def file_path_def)
  show ?thesis
    using assms nb buf fresh copy ne input_at_Some [of e "index c" 47] input_at_Some [of e "index c" 92]
    by (auto simp: inv_defs step_FILE_SLASH_def at_char_def split: option.splits list.splits)
qed

lemma host_ok_Nil: "host_ok sp (HostString [])"
  by (simp add: host_ok_def)

lemma FILE_HOST_inv:
  assumes "state c = STATE_FILE_HOST" "state_inv e c" "at_char e c" "url_inv (url c)"
  shows "outcome_ok e (step_FILE_HOST e c)"
proof -
  let ?h = "parseHost (upper e) (buffer c) (special (url c))"
  have u: "path (url c) = []" "\<not> cannotBeBase (url c)" using assms(1,2) by (auto simp: state_inv_def Let_def)
  have h: "url_inv ((url c)\<lparr>host := ?h\<rparr>)"
    using assms(4) parseHost_result [of "upper e" "buffer c"]
    by (intro url_inv_new_host) (auto simp: pred_option_def)
  have empty: "url_inv ((url c)\<lparr>host := Some (HostString [])\<rparr>)"
    using assms(4) by (intro url_inv_new_host) (auto simp: host_ok_Nil)
  show ?thesis
  proof (cases "input_at e (index c) \<in> {None, Some 47, Some 92, Some 63, Some 35}")
    case True
    then show ?thesis using assms h empty u drive_segment_chars [of "buffer c"]
      by (auto simp: inv_defs step_FILE_HOST_def at_char_def split: option.splits)
  next
    case False
    then obtain x where "input_at e (index c) = Some x" by auto
    then show ?thesis using False assms u at_char_Some
      by (auto simp: inv_defs step_FILE_HOST_def)
  qed
qed

lemma PATH_START_inv:
  assumes "state c = STATE_PATH_START" "state_inv e c" "at_char e c" "url_inv (url c)"
  shows "outcome_ok e (step_PATH_START e c)"
proof -
  have is_file: "finished e (url c)" if "\<not> isSpecial (scheme (url c))"
    using that by (auto simp: finished_def file_path_def)
  show ?thesis
  proof (cases "input_at e (index c)")
    case None
    then show ?thesis using assms is_file at_char_None [OF assms(3)]
      by (auto simp: inv_defs step_PATH_START_def)
  next
    case (Some x)
    then show ?thesis using assms is_file at_char_Some [OF Some]
      by (auto simp: inv_defs step_PATH_START_def finished_def file_path_def)
  qed
qed

lemma PATH_inv:
  assumes "state c = STATE_PATH" "state_inv e c" "at_char e c" "url_inv (url c)"
  shows "outcome_ok e (step_PATH e c)"
proof -
  have buf: "segment_chars (special (url c)) (buffer c)" and nb: "\<not> cannotBeBase (url c)"
    using assms(1,2) by (auto simp: state_inv_def Let_def)
  let ?slash = "input_at e (index c) = Some 47 \<or> specialBackSlash e c"
  let ?u = "end_segment ?slash (buffer c) (url c)"
  let ?u' = "?u\<lparr>path := drop_empty_segments (path ?u)\<rparr>"
  note seg = end_segment_inv [OF assms(4) nb buf, of ?slash]
  then have trim: "url_inv ?u'" using drop_empty_segments_inv by blast
  show ?thesis
  proof (cases "input_at e (index c)")
    case None
    then show ?thesis using assms(1) seg trim at_char_None [OF assms(3)]
      by (auto simp: inv_defs step_PATH_def finished_def file_path_def specialBackSlash_def)
  next
    case (Some x)
    have app: "segment_chars (special (url c)) (appendOrEscape (buffer c) x PATH_ENCODE_SET)"
      if "x \<noteq> 47" "\<not> specialBackSlash e c"
      using segment_chars_append [OF buf, of x] that Some by (auto simp: specialBackSlash_def)
    show ?thesis using assms(1,4) seg trim app nb Some at_char_Some [OF Some]
      by (auto simp: inv_defs step_PATH_def finished_def file_path_def specialBackSlash_def)
  qed
qed

lemma CANNOT_BE_BASE_inv:
  assumes "state c = STATE_CANNOT_BE_BASE" "state_inv e c" "at_char e c" "url_inv (url c)"
  shows "outcome_ok e (step_CANNOT_BE_BASE e c)"
proof -
  have buf: "buffer c = []" and cb: "cannotBeBase (url c)"
    using assms(1,2) by (auto simp: state_inv_def Let_def)
  then obtain p where p: "path (url c) = [p]" "clean C0_CONTROL_ENCODE_SET p"
    using assms(4) by (auto simp: url_inv_def path_ok_def length_Suc_conv)
  have "scheme (url c) \<noteq> js ''file:''" using assms(4) cb by (auto simp: url_inv_def)
  then have fin: "finished e (url c)" by (simp add: finished_def file_path_def)
  have upd: "url_inv ((url c)\<lparr>path := [q]\<rparr>)" if "clean C0_CONTROL_ENCODE_SET q" for q
    using that assms(4) cb by (auto simp: url_inv_def path_ok_def port_ok_def)
  show ?thesis
  proof (cases "input_at e (index c)")
    case None
    then show ?thesis using assms p fin upd [of p] at_char_None [OF assms(3)]
      by (auto simp: inv_defs step_CANNOT_BE_BASE_def finished_def file_path_def)
  next
    case (Some x)
    then show ?thesis using assms p fin upd buf cb at_char_Some [OF Some]
      by (auto simp: inv_defs step_CANNOT_BE_BASE_def finished_def file_path_def)
  qed
qed

lemma QUERY_inv:
  assumes "state c = STATE_QUERY" "state_inv e c" "at_char e c" "url_inv (url c)"
  shows "outcome_ok e (step_QUERY e c)"
proof (cases "input_at e (index c)")
  case None
  then show ?thesis using assms at_char_None [OF assms(3)]
    by (auto simp: inv_defs step_QUERY_def finished_def file_path_def)
next
  case (Some x)
  then show ?thesis using assms at_char_Some [OF Some]
    by (auto simp: inv_defs step_QUERY_def finished_def file_path_def)
qed

lemma FRAGMENT_inv:
  assumes "state c = STATE_FRAGMENT" "state_inv e c" "at_char e c" "url_inv (url c)"
  shows "outcome_ok e (step_FRAGMENT e c)"
proof (cases "input_at e (index c)")
  case None
  then show ?thesis using assms at_char_None [OF assms(3)]
    by (auto simp: inv_defs step_FRAGMENT_def finished_def file_path_def)
next
  case (Some x)
  then show ?thesis using assms at_char_Some [OF Some]
    by (auto simp: inv_defs step_FRAGMENT_def finished_def file_path_def)
qed

section \<open>The whole parse\<close>

lemmas states_inv = SCHEME_START_inv SCHEME_inv NO_SCHEME_inv SPECIAL_RELATIVE_OR_AUTHORITY_inv
  PATH_OR_AUTHORITY_inv RELATIVE_inv RELATIVE_SLASH_inv SPECIAL_AUTHORITY_SLASHES_inv
  SPECIAL_AUTHORITY_IGNORE_SLASHES_inv AUTHORITY_inv HOST_inv PORT_inv FILE_inv FILE_SLASH_inv
  FILE_HOST_inv PATH_START_inv PATH_inv CANNOT_BE_BASE_inv QUERY_inv FRAGMENT_inv

lemma url_inv_invalid: "url_inv (u\<lparr>invalid := x\<rparr>) = url_inv u"
  by (simp add: url_inv_def path_ok_def port_ok_def)

lemma step_inv:
  assumes "parser_inv e c" and "env_ok e" and "index c < int (length (input e)) + 1"
  shows "outcome_ok e (step e c)"
proof -
  have c: "state_inv e c" "at_char e c" "url_inv (url c)"
    using assms by (auto simp: parser_inv_def at_char_def)
  show ?thesis
    using c assms(2)
    by (cases "state c")
       (simp_all add: step_def states_inv, simp add: inv_defs at_char_def url_inv_invalid finished_def)
qed

lemma url_loop_inv:
  assumes "parser_inv e c" and "env_ok e"
  shows "\<exists>u. url_loop e c = Some u \<and> url_inv u \<and> (hasStateOverride e \<or> failed u \<or> file_path u)"
  using assms
proof (induction e c rule: url_loop.induct)
  case (1 e c)
  show ?case
  proof (cases "index c < int (length (input e)) + 1")
    case True
    have "outcome_ok e (step e c)" using step_inv 1 True by blast
    then show ?thesis
      using 1 True by (cases "step e c") (auto simp: url_loop.simps [of e c] outcome_ok_def)
  next
    case False
    then show ?thesis using 1(2) by (auto simp: url_loop.simps [of e c] parser_inv_def finished_def)
  qed
qed

text \<open>The states that \<open>parser.js\<close> exports for use as a \<open>stateOverride\<close>.\<close>

definition exported_states :: "state list" where
  "exported_states = [STATE_SCHEME_START, STATE_AUTHORITY, STATE_HOST, STATE_HOSTNAME, STATE_PORT,
     STATE_PATH_START, STATE_FRAGMENT]"

lemma new_url_inv: "url_inv new_url" "fresh new_url"
  by (simp_all add: url_inv_def path_ok_def port_ok_def new_url_def fresh_def)

lemma basicURLParse_inv:
  assumes "pred_option valid_base b" and "override = None \<or> override \<in> Some ` set exported_states"
  shows "\<exists>u. basicURLParse up s b override = Some u \<and> url_inv u \<and>
    (override = None \<longrightarrow> failed u \<or> file_path u)"
proof -
  let ?e = "\<lparr>input = strip_input s, base = b, stateOverride = override, upper = up\<rparr>"
  let ?c = "\<lparr>url = new_url\<lparr>invalid := (override = Some STATE_OUT_OF_RANGE)\<rparr>,
        state = (case override of None \<Rightarrow> STATE_SCHEME_START | Some st \<Rightarrow> st),
        atflag = False, squareBracketFlag = False, passwordTokenSeenFlag = False,
        index = 0, buffer = []\<rparr>"
  have "state_inv ?e ?c"
    using assms(2) new_url_inv(2)
    by (auto simp: state_inv_def exported_states_def fresh_def Let_def finished_def hasStateOverride_def)
  then have "parser_inv ?e ?c" using new_url_inv by (simp add: parser_inv_def url_inv_invalid)
  moreover have "env_ok ?e" using assms(1) by (simp add: env_ok_def)
  ultimately have "\<exists>u. url_loop ?e ?c = Some u \<and> url_inv u \<and>
      (hasStateOverride ?e \<or> failed u \<or> file_path u)"
    by (rule url_loop_inv)
  then show ?thesis unfolding basicURLParse_def hasStateOverride_def by auto
qed

text \<open>C3: The parser never throws, and what it returns can be a base again: with no base or a
  valid one, and with no state override or one of the exported states, \<open>basicURLParse\<close> returns a
  record that satisfies the URL invariant (special flag, port, host, path, user name, password,
  query and fragment); without override it has failed or is a valid base itself.\<close>

theorem basicURLParse_valid:
  assumes "pred_option valid_base b" and "override = None \<or> override \<in> Some ` set exported_states"
  shows "\<exists>u. basicURLParse up s b override = Some u \<and> url_inv u \<and>
    (override = None \<and> \<not> failed u \<longrightarrow> valid_base u)"
  using basicURLParse_inv [OF assms, of up s] by (auto simp: valid_base_def)

theorem basicURLParse_valid_witness:
  "\<exists>u. basicURLParse (\<lambda>c. [c]) (js ''/C|/../x'')
      (Some (new_url\<lparr>scheme := js ''file:'', special := True, path := [js ''c:'']\<rparr>)) None = Some u
    \<and> \<not> failed u \<and> valid_base u \<and> path u = [js ''C:'', js ''x'']"
proof -
  let ?b = "new_url\<lparr>scheme := js ''file:'', special := True, path := [js ''c:'']\<rparr>"
  have "segment_ok True [99, 58]" by code_simp
  then have b: "valid_base ?b"
    by (simp add: valid_base_def url_inv_def path_ok_def port_ok_def new_url_def file_path_def)
  obtain u where u: "basicURLParse (\<lambda>c. [c]) (js ''/C|/../x'') (Some ?b) None = Some u"
    and v: "None = (None :: state option) \<and> \<not> failed u \<longrightarrow> valid_base u"
    using basicURLParse_valid [of "Some ?b" None] b by auto
  have "map_option (\<lambda>u. (failed u, path u)) (basicURLParse (\<lambda>c. [c]) (js ''/C|/../x'') (Some ?b) None)
      = Some (False, [js ''C:'', js ''x''])"
    by code_simp
  then show ?thesis using u v by auto
qed

text \<open>C4: No path of a parsed URL has a dot segment, in any of its escaped spellings, or a segment
  with a slash (or, in a special URL, a backslash): a path cannot climb out of where it is joined.\<close>

theorem basicURLParse_no_dot_segments:
  assumes "pred_option valid_base b" and "basicURLParse up s b None = Some u"
    and "\<not> cannotBeBase u" and "seg \<in> set (path u)"
  shows "\<not> isSingleDotSegment seg \<and> \<not> isDoubleDotSegment seg \<and> 47 \<notin> set seg \<and>
    (isSpecial (scheme u) \<longrightarrow> 92 \<notin> set seg)"
proof -
  have "url_inv u" using basicURLParse_inv [OF assms(1), of None up s] assms(2) by auto
  then have "segment_ok (special u) seg" "special u = isSpecial (scheme u)"
    using assms(3,4) by (auto simp: url_inv_def path_ok_def list_all_iff)
  then show ?thesis by (simp add: segment_ok_def segment_chars_def)
qed

theorem basicURLParse_no_dot_segments_witness:
  "\<not> isDoubleDotSegment (js ''etc'') \<and>
   map_option path (basicURLParse (\<lambda>c. [c]) (js ''http://h/a/%2E./..'' @ 92 # js ''etc'') None None) = Some [js ''etc'']"
proof -
  have r: "map_option (\<lambda>u. (path u, cannotBeBase u))
      (basicURLParse (\<lambda>c. [c]) (js ''http://h/a/%2E./..'' @ 92 # js ''etc'') None None) = Some ([js ''etc''], False)"
    by code_simp
  then obtain u where u: "basicURLParse (\<lambda>c. [c]) (js ''http://h/a/%2E./..'' @ 92 # js ''etc'') None None = Some u"
    "path u = [js ''etc'']" "\<not> cannotBeBase u" by auto
  show ?thesis using basicURLParse_no_dot_segments [OF _ u(1) u(3), of "js ''etc''"] u by simp
qed

section \<open>References to a fragment\<close>

text \<open>The text that the fragment state makes of the characters left.\<close>

definition escape_fragment :: "jsstr \<Rightarrow> jsstr \<Rightarrow> jsstr" where
  "escape_fragment buf f = foldl (\<lambda>b ch. appendOrEscape b ch FRAGMENT_ENCODE_SET) buf f"

lemma fragment_loop:
  assumes "state c = STATE_FRAGMENT" and "0 \<le> index c" and "nat (index c) \<le> length (input e)"
    and "drop (nat (index c)) (input e) = f"
  shows "url_loop e c = Some ((url c)\<lparr>fragment := Some (escape_fragment (buffer c) f)\<rparr>)"
  using assms
proof (induction f arbitrary: c)
  case Nil
  then have "input_at e (index c) = None" using input_at_None [of "index c" e] by simp
  then have "step e c = Cont (c\<lparr>url := (url c)\<lparr>fragment := Some (buffer c)\<rparr>, index := index c + 1\<rparr>)"
    using Nil by (simp add: step_def step_FRAGMENT_def advance_def)
  then show ?case using Nil by (simp add: url_loop.simps [of e c] url_loop.simps escape_fragment_def)
next
  case (Cons x f)
  then have len: "nat (index c) < length (input e)" by (metis drop_all list.distinct(1) not_le)
  then have x: "input e ! nat (index c) = x" and tl: "drop (Suc (nat (index c))) (input e) = f"
    using Cons.prems(4) Cons_nth_drop_Suc [OF len] by auto
  let ?c = "c\<lparr>buffer := appendOrEscape (buffer c) x FRAGMENT_ENCODE_SET, index := index c + 1\<rparr>"
  have "input_at e (index c) = Some x"
    using Cons.prems(2) len x by (simp add: input_at_def char_at_def)
  then have "step e c = Cont ?c" using Cons.prems(1) by (simp add: step_def step_FRAGMENT_def advance_def)
  moreover have "url_loop e ?c = Some ((url ?c)\<lparr>fragment := Some (escape_fragment (buffer ?c) f)\<rparr>)"
    using Cons.prems len tl by (intro Cons.IH) (auto simp: nat_add_distrib)
  ultimately show ?case using len Cons.prems(2) by (simp add: url_loop.simps [of e c] escape_fragment_def)
qed

text \<open>The parser right after it saw that there is no scheme.\<close>

abbreviation no_scheme_start :: parser where
  "no_scheme_start \<equiv> \<lparr>url = new_url, state = STATE_NO_SCHEME, atflag = False,
    squareBracketFlag = False, passwordTokenSeenFlag = False, index = 0, buffer = []\<rparr>"

definition fragment_result :: "url \<Rightarrow> jsstr \<Rightarrow> url \<Rightarrow> bool" where
  "fragment_result b f u \<longleftrightarrow> \<not> failed u \<and> scheme u = scheme b \<and> path u = path b \<and> query u = query b \<and>
     fragment u = Some (escape_fragment [] f) \<and> (\<not> cannotBeBase b \<longrightarrow> host u = host b)"

lemma fragment_opaque:
  assumes "input e = 35 # f" and "base e = Some b" and "input_at e 0 = Some 35" and "\<not> hasStateOverride e"
    and "cannotBeBase b"
  shows "\<exists>u. url_loop e no_scheme_start = Some u \<and> fragment_result b f u"
proof -
  have "url_loop e no_scheme_start = url_loop e (no_scheme_start\<lparr>url := new_url\<lparr>scheme := scheme b, path := path b,
      query := query b, fragment := Some [], cannotBeBase := True, special := isSpecial (scheme b)\<rparr>,
      state := STATE_FRAGMENT, index := 1\<rparr>)"
    using assms by (subst url_loop.simps) (simp add: step_def step_NO_SCHEME_def advance_def)
  then show ?thesis using assms by (simp add: fragment_loop new_url_def fragment_result_def)
qed

lemma fragment_relative:
  assumes "input e = 35 # f" and "base e = Some b" and "input_at e 0 = Some 35" and "\<not> hasStateOverride e"
    and "\<not> cannotBeBase b" and "scheme b \<noteq> js ''file:''"
  shows "\<exists>u. url_loop e no_scheme_start = Some u \<and> fragment_result b f u"
proof -
  have "url_loop e no_scheme_start = url_loop e (no_scheme_start\<lparr>state := STATE_RELATIVE\<rparr>)"
    using assms by (subst url_loop.simps) (simp add: step_def step_NO_SCHEME_def)
  also have "\<dots> = url_loop e (no_scheme_start\<lparr>url := (copy_authority b (new_url\<lparr>scheme := scheme b,
      special := isSpecial (scheme b)\<rparr>))\<lparr>path := path b, query := query b, fragment := Some []\<rparr>,
      state := STATE_FRAGMENT, index := 1\<rparr>)"
    using assms by (subst url_loop.simps) (simp add: step_def step_RELATIVE_def advance_def)
  finally show ?thesis using assms
    by (simp add: fragment_loop new_url_def copy_authority_def fragment_result_def)
qed

lemma fragment_file:
  assumes "input e = 35 # f" and "base e = Some b" and "input_at e 0 = Some 35" and "\<not> hasStateOverride e"
    and "\<not> cannotBeBase b" and "scheme b = js ''file:''"
  shows "\<exists>u. url_loop e no_scheme_start = Some u \<and> fragment_result b f u"
proof -
  have "url_loop e no_scheme_start = url_loop e (no_scheme_start\<lparr>url := new_url\<lparr>scheme := js ''file:'',
      special := True\<rparr>, state := STATE_FILE\<rparr>)"
    using assms by (subst url_loop.simps) (simp add: step_def step_NO_SCHEME_def)
  also have "\<dots> = url_loop e (no_scheme_start\<lparr>url := new_url\<lparr>special := True, scheme := js ''file:'',
      host := host b, path := path b, query := query b, fragment := Some []\<rparr>,
      state := STATE_FRAGMENT, index := 1\<rparr>)"
    using assms by (subst url_loop.simps) (simp add: step_def step_FILE_def advance_def)
  finally show ?thesis using assms by (simp add: fragment_loop new_url_def fragment_result_def)
qed

text \<open>A reference that is only a fragment resolves to the base with that fragment,
  percent-escaped: scheme, path and query (and the host, when the base is hierarchical) are kept.
  This holds for every kind of base, opaque ones and file URLs included.\<close>

theorem fragment_reference:
  assumes "strip_input s = 35 # f"
  shows "\<exists>u. basicURLParse up s (Some b) None = Some u \<and> \<not> failed u \<and> scheme u = scheme b \<and>
    path u = path b \<and> query u = query b \<and> fragment u = Some (escape_fragment [] f) \<and>
    (\<not> cannotBeBase b \<longrightarrow> host u = host b)"
proof -
  define e where "e = \<lparr>input = strip_input s, base = Some b, stateOverride = None, upper = up\<rparr>"
  have in0: "input e = 35 # f" "base e = Some b" "input_at e 0 = Some 35" "\<not> hasStateOverride e"
    using assms by (auto simp: e_def input_at_def hasStateOverride_def)
  have "basicURLParse up s (Some b) None = url_loop e (no_scheme_start\<lparr>state := STATE_SCHEME_START\<rparr>)"
    by (simp add: basicURLParse_def e_def new_url_def)
  also have "\<dots> = url_loop e no_scheme_start"
    using in0 by (subst url_loop.simps) (simp add: step_def step_SCHEME_START_def isASCIIAlpha_def)
  also have "\<exists>u. \<dots> = Some u \<and> fragment_result b f u"
    using fragment_opaque [OF in0] fragment_relative [OF in0] fragment_file [OF in0] by blast
  finally show ?thesis unfolding fragment_result_def .
qed

theorem fragment_reference_witness:
  "\<exists>u. basicURLParse (\<lambda>c. [c]) (js '' #top'')
       (Some (new_url\<lparr>scheme := js ''mailto:'', cannotBeBase := True, path := [js ''joe'']\<rparr>)) None = Some u
     \<and> path u = [js ''joe''] \<and> fragment u = Some (escape_fragment [] (js ''top''))"
proof -
  have "strip_input (js '' #top'') = 35 # js ''top''" by code_simp
  from fragment_reference [OF this, of "\<lambda>c. [c]"
      "new_url\<lparr>scheme := js ''mailto:'', cannotBeBase := True, path := [js ''joe'']\<rparr>"]
  show ?thesis by auto
qed

end
