(* ===== verification/Url_Params.thy ===== *)
theory Url_Params
  imports Url_Host
begin

text \<open>
  The query-string part of \<open>packages/zero/lib/whatwg/url.js\<close>: \<open>encodeStr\<close>, \<open>parseParams\<close>,
  \<open>serializeSearchParams\<close> and the operations of \<open>URLSearchParams\<close> on its list \<open>kList\<close>, with the
  language's \<open>decodeURIComponent\<close>.  Strings are lists of UTF-16 code units.
\<close>

unbundle bit_operations_syntax

section \<open>Escaping\<close>

text \<open>The tables \<open>hexTable\<close> and \<open>paramHexTable\<close> (a space is \<open>'+'\<close>), and \<open>noEscape\<close>.\<close>

definition upper_hex :: "nat \<Rightarrow> nat" where
  "upper_hex d = (if d < 10 then 48 + d else 55 + d)"

definition hexTable :: "nat \<Rightarrow> jsstr" where
  "hexTable i = [37, upper_hex (i div 16), upper_hex (i mod 16)]"

definition paramHexTable :: "nat \<Rightarrow> jsstr" where
  "paramHexTable i = (if i = 0x20 then [43] else hexTable i)"

definition noEscape :: "nat list" where
  "noEscape = [
     0, 0, 0, 0, 0, 0, 0, 0, 0, 0, 0, 0, 0, 0, 0, 0,
     0, 0, 0, 0, 0, 0, 0, 0, 0, 0, 0, 0, 0, 0, 0, 0,
     0, 0, 0, 0, 0, 0, 0, 0, 0, 0, 1, 0, 0, 1, 1, 0,
     1, 1, 1, 1, 1, 1, 1, 1, 1, 1, 0, 0, 0, 0, 0, 0,
     0, 1, 1, 1, 1, 1, 1, 1, 1, 1, 1, 1, 1, 1, 1, 1,
     1, 1, 1, 1, 1, 1, 1, 1, 1, 1, 1, 0, 0, 0, 0, 1,
     0, 1, 1, 1, 1, 1, 1, 1, 1, 1, 1, 1, 1, 1, 1, 1,
     1, 1, 1, 1, 1, 1, 1, 1, 1, 1, 1, 0, 0, 0, 0, 0]"

text \<open>The UTF-8 bytes of a code unit or of a surrogate pair, escaped, as the code computes them.\<close>

definition escape2 :: "(nat \<Rightarrow> jsstr) \<Rightarrow> nat \<Rightarrow> jsstr" where
  "escape2 table c = table (0xC0 OR drop_bit 6 c) @ table (0x80 OR (c AND 0x3F))"

definition escape3 :: "(nat \<Rightarrow> jsstr) \<Rightarrow> nat \<Rightarrow> jsstr" where
  "escape3 table c = table (0xE0 OR drop_bit 12 c) @ table (0x80 OR (drop_bit 6 c AND 0x3F))
     @ table (0x80 OR (c AND 0x3F))"

definition surrogate_pair :: "nat \<Rightarrow> nat \<Rightarrow> nat" where
  "surrogate_pair c c2 = 0x10000 + (push_bit 10 (c AND 0x3FF) OR c2)"

definition escape4 :: "(nat \<Rightarrow> jsstr) \<Rightarrow> nat \<Rightarrow> jsstr" where
  "escape4 table c = table (0xF0 OR drop_bit 18 c) @ table (0x80 OR (drop_bit 12 c AND 0x3F))
     @ table (0x80 OR (drop_bit 6 c AND 0x3F)) @ table (0x80 OR (c AND 0x3F))"

text \<open>
  The loop of \<open>encodeStr\<close>: \<open>lastPos\<close> is the start of the characters that need no escape and are
  not yet copied to \<open>out\<close>.
\<close>

function encode_loop ::
  "jsstr \<Rightarrow> nat list \<Rightarrow> (nat \<Rightarrow> jsstr) \<Rightarrow> nat \<Rightarrow> nat \<Rightarrow> jsstr \<Rightarrow> jsstr" where
  "encode_loop str noEscapeTable table i lastPos out =
     (if i < length str then
        let c = str ! i;
            flushed = (if lastPos < i then out @ slice str lastPos i else out)
        in if c < 0x80 then
             (if noEscapeTable ! c = 1 then encode_loop str noEscapeTable table (i + 1) lastPos out
              else encode_loop str noEscapeTable table (i + 1) (i + 1) (flushed @ table c))
           else if c < 0x800
           then encode_loop str noEscapeTable table (i + 1) (i + 1) (flushed @ escape2 table c)
           else if c < 0xD800 \<or> c \<ge> 0xE000
           then encode_loop str noEscapeTable table (i + 1) (i + 1) (flushed @ escape3 table c)
           else let c2 = (if i + 1 < length str then str ! (i + 1) AND 0x3FF else 0)
                in encode_loop str noEscapeTable table (i + 2) (i + 2)
                     (flushed @ escape4 table (surrogate_pair c c2))
      else if lastPos = 0 then str
      else if lastPos < length str then out @ drop lastPos str
      else out)"
  by pat_completeness auto
termination
  by (relation "measure (\<lambda>(str, noEscapeTable, table, i, lastPos, out). length str - i)") auto

declare encode_loop.simps [simp del]

definition encodeStr :: "jsstr \<Rightarrow> nat list \<Rightarrow> (nat \<Rightarrow> jsstr) \<Rightarrow> jsstr" where
  "encodeStr str noEscapeTable table =
     (if length str = 0 then [] else encode_loop str noEscapeTable table 0 0 [])"

section \<open>\<open>decodeURIComponent\<close>\<close>

text \<open>The language's function: \<open>%XX\<close> sequences are decoded as UTF-8; \<open>None\<close> is its \<open>URIError\<close>.\<close>

definition take_octet :: "jsstr \<Rightarrow> (nat \<times> jsstr) option" where
  "take_octet s = (case s of
     p # a # b # r \<Rightarrow>
       if p = 37 \<and> isASCIIHex (Some a) \<and> isASCIIHex (Some b)
       then Some (digit_val a * 16 + digit_val b, r) else None
   | _ \<Rightarrow> None)"

fun take_continuation :: "nat \<Rightarrow> nat \<Rightarrow> jsstr \<Rightarrow> (nat \<times> jsstr) option" where
  "take_continuation 0 v s = Some (v, s)"
| "take_continuation (Suc n) v s =
     (case take_octet s of
        None \<Rightarrow> None
      | Some (b, r) \<Rightarrow> if b div 64 = 2 then take_continuation n (v * 64 + b mod 64) r else None)"

definition utf16_units :: "nat \<Rightarrow> jsstr" where
  "utf16_units v =
     (if v < 0x10000 then [v]
      else [0xD800 + (v - 0x10000) div 0x400, 0xDC00 + (v - 0x10000) mod 0x400])"

text \<open>The number of continuation bytes, the payload of the first byte and the least legal value.\<close>

definition lead_byte :: "nat \<Rightarrow> (nat \<times> nat \<times> nat) option" where
  "lead_byte b =
     (if b < 0x80 then Some (0, b, 0)
      else if b < 0xC0 then None
      else if b < 0xE0 then Some (1, b - 0xC0, 0x80)
      else if b < 0xF0 then Some (2, b - 0xE0, 0x800)
      else if b < 0xF8 then Some (3, b - 0xF0, 0x10000)
      else None)"

definition take_escape :: "jsstr \<Rightarrow> (jsstr \<times> jsstr) option" where
  "take_escape s =
     (case take_octet s of
        None \<Rightarrow> None
      | Some (b, r) \<Rightarrow>
          (case lead_byte b of
             None \<Rightarrow> None
           | Some (n, payload, least) \<Rightarrow>
               (case take_continuation n payload r of
                  None \<Rightarrow> None
                | Some (v, r') \<Rightarrow>
                    if least \<le> v \<and> v < 0x110000 \<and> \<not> (0xD800 \<le> v \<and> v < 0xE000)
                    then Some (utf16_units v, r') else None)))"

lemma take_octet_shrinks: "take_octet s = Some (b, r) \<Longrightarrow> length r < length s"
  by (auto simp: take_octet_def split: list.splits if_splits)

lemma take_continuation_shrinks: "take_continuation n v s = Some (w, r) \<Longrightarrow> length r \<le> length s"
  by (induction n v s arbitrary: w r rule: take_continuation.induct)
     (fastforce split: option.splits if_splits dest: take_octet_shrinks)+

lemma take_escape_shrinks: "take_escape s = Some (u, r) \<Longrightarrow> length r < length s"
  by (fastforce simp: take_escape_def split: option.splits if_splits prod.splits
      dest: take_octet_shrinks take_continuation_shrinks)

function decodeURIComponent :: "jsstr \<Rightarrow> jsstr option" where
  "decodeURIComponent s =
     (case s of
        [] \<Rightarrow> Some []
      | c # cs \<Rightarrow>
          if c \<noteq> 37 then map_option (\<lambda>t. c # t) (decodeURIComponent cs)
          else (case take_escape s of
                  None \<Rightarrow> None
                | Some (units, r) \<Rightarrow> map_option (\<lambda>t. units @ t) (decodeURIComponent r)))"
  by pat_completeness auto
termination
  by (relation "measure length") (auto dest!: take_escape_shrinks)

declare decodeURIComponent.simps [simp del]

section \<open>Parsing and serialising a query\<close>

definition plus_to_space :: "jsstr \<Rightarrow> jsstr" where
  "plus_to_space s = map (\<lambda>c. if c = 43 then 32 else c) s"

text \<open>One \<open>name=value\<close>; of a sequence with several \<open>'='\<close> only the first two parts are read.\<close>

definition parse_pair :: "jsstr \<Rightarrow> (jsstr \<times> jsstr) option" where
  "parse_pair bytes =
     (let (name, val) = (if 61 \<in> set bytes
                         then (js_split 61 bytes ! 0, js_split 61 bytes ! 1) else (bytes, []))
      in case decodeURIComponent (plus_to_space name) of
           None \<Rightarrow> None
         | Some n \<Rightarrow>
             map_option (\<lambda>v. (n, v)) (decodeURIComponent (plus_to_space val)))"

fun parse_sequences :: "jsstr list \<Rightarrow> (jsstr \<times> jsstr) list option" where
  "parse_sequences [] = Some []"
| "parse_sequences (bytes # rest) =
     (if bytes = [] then parse_sequences rest
      else case parse_pair bytes of
             None \<Rightarrow> None
           | Some p \<Rightarrow> map_option (\<lambda>ps. p # ps) (parse_sequences rest))"

definition parseParams :: "jsstr \<Rightarrow> (jsstr \<times> jsstr) list option" where
  "parseParams input = parse_sequences (js_split 38 input)"

fun serialize_pairs :: "nat \<Rightarrow> (jsstr \<times> jsstr) list \<Rightarrow> jsstr" where
  "serialize_pairs i [] = []"
| "serialize_pairs i ((k, v) # l) =
     (if i = 0 then [] else [38]) @ encodeStr k noEscape paramHexTable @ [61]
       @ encodeStr v noEscape paramHexTable @ serialize_pairs (i + 1) l"

definition serializeSearchParams :: "(jsstr \<times> jsstr) list \<Rightarrow> jsstr" where
  "serializeSearchParams list = (if length list = 0 then [] else serialize_pairs 0 list)"

section \<open>The escaping loop and its specification\<close>

text \<open>What \<open>encodeStr\<close> computes, one character (or surrogate pair) at a time.\<close>

fun escape_units :: "jsstr \<Rightarrow> jsstr" where
  "escape_units [] = []"
| "escape_units (c # cs) =
     (if c < 0x80 then (if noEscape ! c = 1 then [c] else paramHexTable c) @ escape_units cs
      else if c < 0x800 then escape2 paramHexTable c @ escape_units cs
      else if c < 0xD800 \<or> c \<ge> 0xE000 then escape3 paramHexTable c @ escape_units cs
      else (case cs of
              [] \<Rightarrow> escape4 paramHexTable (surrogate_pair c 0)
            | d # ds \<Rightarrow> escape4 paramHexTable (surrogate_pair c (d AND 0x3FF)) @ escape_units ds))"

lemma slice_drop: "i \<le> j \<Longrightarrow> slice xs i j @ drop j xs = drop i xs"
  by (metis append_take_drop_id drop_drop le_add_diff_inverse2 slice_def)

lemma slice_min [simp]: "slice s a (min a b) = []"
  by (simp add: slice_def)

lemma escape_units_pair:
  assumes "0xD800 \<le> c" and "c < 0xE000"
  shows "escape_units (c # cs) =
    escape4 paramHexTable (surrogate_pair c (case cs of [] \<Rightarrow> 0 | d # ds \<Rightarrow> d AND 0x3FF))
      @ escape_units (drop 1 cs)"
  using assms by (auto split: list.split)

text \<open>The loop's result from any point: what is out, the pending slice and the rest escaped.\<close>

lemma encode_loop_units:
  assumes "lastPos \<le> i" and "i \<le> length str \<or> lastPos = i"
    and "lastPos = 0 \<Longrightarrow> out = []"
  shows "encode_loop str noEscape paramHexTable i lastPos out =
    out @ slice str lastPos (min i (length str)) @ escape_units (drop i str)"
  using assms
proof (induction str noEscape paramHexTable i lastPos out rule: encode_loop.induct)
  case (1 str i lastPos out)
  show ?case
  proof (cases "i < length str")
    case False
    show ?thesis
    proof (cases "lastPos < length str")
      case True
      then have "i = length str" using 1(6,7) False by auto
      then show ?thesis using 1(6-8) True False slice_drop [of lastPos "length str" str]
        by (auto simp: encode_loop.simps [of str])
    next
      case l: False
      then show ?thesis using 1(6-8) False
        by (cases "lastPos = 0") (auto simp: encode_loop.simps [of str] encode_loop.simps [of "[]"] slice_def)
    qed
  next
    case True
    let ?c = "str ! i"
    let ?f = "if lastPos < i then out @ slice str lastPos i else out"
    have f: "?f = out @ slice str lastPos i" using 1(6) by auto
    have d: "drop i str = ?c # drop (Suc i) str" using True by (simp add: Cons_nth_drop_Suc)
    have e: "slice str lastPos i @ [?c] = slice str lastPos (Suc i)"
      using 1(6) True slice_Suc [of lastPos i str] by simp
    note IH = 1(1-5) [OF True refl refl]
    consider "?c < 0x80" "noEscape ! ?c = 1" | "?c < 0x80" "noEscape ! ?c \<noteq> 1"
      | "0x80 \<le> ?c" "?c < 0x800" | "0x800 \<le> ?c" "?c < 0xD800 \<or> ?c \<ge> 0xE000"
      | "0xD800 \<le> ?c" "?c < 0xE000" by linarith
    then show ?thesis
    proof cases
      case 1
      then show ?thesis using IH(1) True f d e "1.prems"
        by (simp add: encode_loop.simps [of str _ _ i] Let_def)
    next
      case 2
      then show ?thesis using IH(2) True f d
        by (simp add: encode_loop.simps [of str _ _ i] Let_def)
    next
      case 3
      then show ?thesis using IH(3) True f d
        by (simp add: encode_loop.simps [of str _ _ i] Let_def)
    next
      case 4
      then show ?thesis using IH(4) True f d
        by (simp add: encode_loop.simps [of str _ _ i] Let_def)
    next
      case 5
      have c2: "(case drop (Suc i) str of [] \<Rightarrow> 0 | d # ds \<Rightarrow> d AND 0x3FF) =
          (if i + 1 < length str then str ! (i + 1) AND 0x3FF else 0)"
        by (cases "drop (Suc i) str") (auto simp: nth_via_drop)
      show ?thesis using 5 IH(5) True f
        by (simp add: encode_loop.simps [of str _ _ i] Let_def d escape_units_pair c2 del: escape_units.simps)
    qed
  qed
qed

lemma encodeStr_units: "encodeStr s noEscape paramHexTable = escape_units s"
  using encode_loop_units [of 0 0 s "[]"] by (simp add: encodeStr_def)

section \<open>Decoding what was escaped\<close>

text \<open>Well-formed UTF-16: every surrogate is part of a pair.\<close>

fun well_formed16 :: "jsstr \<Rightarrow> bool" where
  "well_formed16 [] = True"
| "well_formed16 (c # cs) =
     (if c < 0xD800 \<or> c \<ge> 0xE000 then c < 0x10000 \<and> well_formed16 cs
      else c < 0xDC00 \<and>
           (case cs of [] \<Rightarrow> False | d # ds \<Rightarrow> 0xDC00 \<le> d \<and> d < 0xE000 \<and> well_formed16 ds))"

lemma nat_or_add:
  assumes "(b::nat) < 2 ^ n"
  shows "(a * 2 ^ n) OR b = a * 2 ^ n + b"
proof -
  have "push_bit n a AND take_bit n b = 0"
    by (rule bit_eqI) (auto simp: bit_simps)
  then have "push_bit n a OR take_bit n b = push_bit n a + take_bit n b"
    by (simp add: disjunctive_add_eq_or)
  moreover have "take_bit n b = b" using assms by (simp add: take_bit_nat_eq_self)
  ultimately show ?thesis by (simp add: push_bit_nat_def)
qed

lemma and_low_bits: "(c::nat) AND 0x3F = c mod 64" "(c::nat) AND 0x3FF = c mod 1024"
  using take_bit_eq_mask [of 6 c] take_bit_eq_mask [of 10 c]
  by (simp_all add: take_bit_eq_mod mask_eq_exp_minus_1)

lemma continuation_byte: "0x80 OR (c mod 64) = 0x80 + (c::nat) mod 64"
  using nat_or_add [of "c mod 64" 6 2] by simp

lemma lead_bytes:
  "c < 0x20 \<Longrightarrow> 0xC0 OR (c::nat) = 0xC0 + c" "c < 0x10 \<Longrightarrow> 0xE0 OR c = 0xE0 + c"
  "c < 8 \<Longrightarrow> 0xF0 OR c = 0xF0 + c"
  using nat_or_add [of c 5 6] nat_or_add [of c 4 14] nat_or_add [of c 3 30] by simp_all

lemma escape2_bytes:
  "c < 0x800 \<Longrightarrow> escape2 table c = table (0xC0 + c div 64) @ table (0x80 + c mod 64)"
  by (simp add: escape2_def drop_bit_eq_div and_low_bits continuation_byte lead_bytes)

lemma escape3_bytes:
  "c < 0x10000 \<Longrightarrow> escape3 table c = table (0xE0 + c div 4096) @ table (0x80 + c div 64 mod 64)
     @ table (0x80 + c mod 64)"
  by (simp add: escape3_def drop_bit_eq_div and_low_bits continuation_byte lead_bytes)

lemma escape4_bytes:
  "c < 0x110000 \<Longrightarrow> escape4 table c = table (0xF0 + c div 262144) @ table (0x80 + c div 4096 mod 64)
     @ table (0x80 + c div 64 mod 64) @ table (0x80 + c mod 64)"
  by (simp add: escape4_def drop_bit_eq_div and_low_bits continuation_byte lead_bytes)

lemma surrogate_pair_value:
  "surrogate_pair c (d AND 0x3FF) = 0x10000 + c mod 1024 * 1024 + d mod 1024"
  using nat_or_add [of "d mod 1024" 10 "c mod 1024"]
  by (simp add: surrogate_pair_def and_low_bits push_bit_nat_def)

lemma utf16_surrogates:
  assumes "0xD800 \<le> c" "c < 0xDC00" "0xDC00 \<le> d" "d < 0xE000"
  shows "utf16_units (surrogate_pair c (d AND 0x3FF)) = [c, d]"
proof -
  obtain x where x: "c = 54 * 1024 + x" "x < 1024"
    using assms(1,2) nat_le_iff_add [of "0xD800" c] by auto
  obtain y where y: "d = 55 * 1024 + y" "y < 1024"
    using assms(3,4) nat_le_iff_add [of "0xDC00" d] by auto
  have "c mod 1024 = x" "d mod 1024 = y"
    unfolding x(1) y(1) mod_mult_self3 using x(2) y(2) by simp_all
  then show ?thesis using x y unfolding surrogate_pair_value utf16_units_def by simp
qed

lemma surrogate_pair_range:
  "0x10000 \<le> surrogate_pair c (d AND 0x3FF) \<and> surrogate_pair c (d AND 0x3FF) < 0x110000"
proof -
  have "c mod 1024 < 1024" "d mod 1024 < 1024" by simp_all
  then show ?thesis unfolding surrogate_pair_value by linarith
qed

lemma hex_digits_back: "d < 16 \<Longrightarrow> isASCIIHex (Some (upper_hex d)) \<and> digit_val (upper_hex d) = d"
  by (auto simp: upper_hex_def isASCIIHex_def isASCIIDigit_def digit_val_def)

lemma take_octet_hexTable: "b < 256 \<Longrightarrow> take_octet (hexTable b @ r) = Some (b, r)"
  using hex_digits_back [of "b div 16"] hex_digits_back [of "b mod 16"]
  by (simp add: take_octet_def hexTable_def)

lemma continuation_step:
  "x < 64 \<Longrightarrow> take_continuation (Suc n) v (hexTable (0x80 + x) @ r) = take_continuation n (v * 64 + x) r"
  using div_mult_self3 [of 64 2 x] mod_mult_self3 [of 2 64 x] by (simp add: take_octet_hexTable)

lemma continuations:
  "x < 64 \<Longrightarrow> take_continuation 1 v (hexTable (0x80 + x) @ r) = Some (v * 64 + x, r)"
  "x < 64 \<Longrightarrow> y < 64 \<Longrightarrow> take_continuation 2 v (hexTable (0x80 + x) @ hexTable (0x80 + y) @ r) =
    Some ((v * 64 + x) * 64 + y, r)"
  "x < 64 \<Longrightarrow> y < 64 \<Longrightarrow> z < 64 \<Longrightarrow> take_continuation 3 v (hexTable (0x80 + x) @ hexTable (0x80 + y)
    @ hexTable (0x80 + z) @ r) = Some (((v * 64 + x) * 64 + y) * 64 + z, r)"
proof -
  have three: "(3::nat) = Suc (Suc (Suc 0))" "(2::nat) = Suc (Suc 0)" by simp_all
  note [simp del] = take_continuation.simps(2)
  show "x < 64 \<Longrightarrow> take_continuation 1 v (hexTable (0x80 + x) @ r) = Some (v * 64 + x, r)"
    unfolding One_nat_def by (simp add: continuation_step)
  show "x < 64 \<Longrightarrow> y < 64 \<Longrightarrow> take_continuation 2 v (hexTable (0x80 + x) @ hexTable (0x80 + y) @ r) =
      Some ((v * 64 + x) * 64 + y, r)"
    unfolding three by (simp add: continuation_step)
  show "x < 64 \<Longrightarrow> y < 64 \<Longrightarrow> z < 64 \<Longrightarrow> take_continuation 3 v (hexTable (0x80 + x) @ hexTable (0x80 + y)
      @ hexTable (0x80 + z) @ r) = Some (((v * 64 + x) * 64 + y) * 64 + z, r)"
    unfolding three(1) by (simp add: continuation_step)
qed

lemma digits64:
  "c div 4096 * 64 + c div 64 mod 64 = c div (64::nat)"
  "c div 262144 * 64 + c div 4096 mod 64 = c div (4096::nat)"
  using div_mult_mod_eq [of "c div 64" 64] div_mult2_eq [of c 64 64]
    div_mult_mod_eq [of "c div 4096" 64] div_mult2_eq [of c 4096 64] by simp_all

text \<open>Reading back the bytes of a code point \<open>c\<close>: lead byte, then continuation bytes.\<close>

lemma take_escape1: "c < 0x80 \<Longrightarrow> take_escape (hexTable c @ r) = Some ([c], r)"
  by (simp add: take_escape_def take_octet_hexTable lead_byte_def utf16_units_def)

lemma take_escape2:
  assumes "0x80 \<le> c" and "c < 0x800"
  shows "take_escape (escape2 hexTable c @ r) = Some ([c], r)"
proof -
  have lead: "lead_byte (0xC0 + c div 64) = Some (1, c div 64, 0x80)"
    using assms by (auto simp: lead_byte_def)
  have "0xC0 + c div 64 < 256" using assms by simp
  then show ?thesis using assms continuations(1) [of "c mod 64" "c div 64" r]
    by (simp add: escape2_bytes take_escape_def take_octet_hexTable lead utf16_units_def del: take_continuation.simps)
qed

lemma take_escape3:
  assumes "0x800 \<le> c" and "c < 0x10000" and "\<not> (0xD800 \<le> c \<and> c < 0xE000)"
  shows "take_escape (escape3 hexTable c @ r) = Some ([c], r)"
proof -
  have lead: "lead_byte (0xE0 + c div 4096) = Some (2, c div 4096, 0x800)"
    using assms by (auto simp: lead_byte_def)
  have "c = (c div 4096 * 64 + c div 64 mod 64) * 64 + c mod 64"
    unfolding digits64 by simp
  moreover have "0xE0 + c div 4096 < 256" using assms by simp
  ultimately show ?thesis
    using assms continuations(2) [of "c div 64 mod 64" "c mod 64" "c div 4096" r]
    by (simp add: escape3_bytes take_escape_def take_octet_hexTable lead utf16_units_def del: take_continuation.simps)
qed

lemma take_escape4:
  assumes "0x10000 \<le> c" and "c < 0x110000"
  shows "take_escape (escape4 hexTable c @ r) = Some (utf16_units c, r)"
proof -
  have lead: "lead_byte (0xF0 + c div 262144) = Some (3, c div 262144, 0x10000)"
    using assms by (auto simp: lead_byte_def)
  have "c = ((c div 262144 * 64 + c div 4096 mod 64) * 64 + c div 64 mod 64) * 64 + c mod 64"
    unfolding digits64 by simp
  moreover have "0xF0 + c div 262144 < 256" using assms by simp
  ultimately show ?thesis
    using assms continuations(3) [of "c div 4096 mod 64" "c div 64 mod 64" "c mod 64" "c div 262144" r]
    by (simp add: escape4_bytes take_escape_def take_octet_hexTable lead del: take_continuation.simps)
qed

lemma decode_Nil [simp]: "decodeURIComponent [] = Some []"
  by (simp add: decodeURIComponent.simps)

lemma decode_char: "c \<noteq> 37 \<Longrightarrow> decodeURIComponent (c # s) = map_option (\<lambda>t. c # t) (decodeURIComponent s)"
  by (simp add: decodeURIComponent.simps [of "c # s"])

lemma decode_escape:
  assumes "take_escape s = Some (u, r)"
  shows "decodeURIComponent s = map_option (\<lambda>t. u @ t) (decodeURIComponent r)"
proof -
  obtain cs where "s = 37 # cs"
    using assms by (auto simp: take_escape_def take_octet_def split: option.splits list.splits if_splits)
  then show ?thesis using assms by (simp add: decodeURIComponent.simps [of "37 # cs"])
qed

subsection \<open>The characters of an escaped string\<close>

lemma noEscape_chars:
  assumes "c < 0x80" and "noEscape ! c = 1"
  shows "c \<noteq> 37 \<and> c \<noteq> 38 \<and> c \<noteq> 43 \<and> c \<noteq> 61"
proof -
  have "list_all (\<lambda>c. noEscape ! c \<noteq> 1) [37, 38, 43, 61]" by code_simp
  then show ?thesis using assms by auto
qed

lemma upper_hex_chars: "d < 16 \<Longrightarrow> upper_hex d \<noteq> 43 \<and> upper_hex d \<noteq> 38 \<and> upper_hex d \<noteq> 61"
  by (auto simp: upper_hex_def)

lemma hexTable_chars: "b < 256 \<Longrightarrow> 43 \<notin> set (hexTable b) \<and> 38 \<notin> set (hexTable b) \<and> 61 \<notin> set (hexTable b)"
  using upper_hex_chars [of "b div 16"] upper_hex_chars [of "b mod 16"]
  by (auto simp: hexTable_def)

lemma plus_to_space_append [simp]: "plus_to_space (s @ t) = plus_to_space s @ plus_to_space t"
  by (simp add: plus_to_space_def)

lemma plus_to_space_Cons [simp]:
  "plus_to_space (c # s) = (if c = 43 then 32 else c) # plus_to_space s"
  by (simp add: plus_to_space_def)

lemma plus_to_space_none: "43 \<notin> set s \<Longrightarrow> plus_to_space s = s"
  unfolding plus_to_space_def by (rule map_idI) auto

lemma escapes_param:
  "0x80 \<le> c \<Longrightarrow> c < 0x800 \<Longrightarrow> escape2 paramHexTable c = escape2 hexTable c"
  "0x800 \<le> c \<Longrightarrow> c < 0x10000 \<Longrightarrow> escape3 paramHexTable c = escape3 hexTable c"
  "c < 0x110000 \<Longrightarrow> escape4 paramHexTable c = escape4 hexTable c"
  by (simp_all add: escape2_bytes escape3_bytes escape4_bytes paramHexTable_def)

lemma escapes_chars:
  "0x80 \<le> c \<Longrightarrow> c < 0x800 \<Longrightarrow> x = 43 \<or> x = 38 \<or> x = 61 \<Longrightarrow> x \<notin> set (escape2 hexTable c)"
  "0x800 \<le> c \<Longrightarrow> c < 0x10000 \<Longrightarrow> x = 43 \<or> x = 38 \<or> x = 61 \<Longrightarrow> x \<notin> set (escape3 hexTable c)"
  "c < 0x110000 \<Longrightarrow> x = 43 \<or> x = 38 \<or> x = 61 \<Longrightarrow> x \<notin> set (escape4 hexTable c)"
proof -
  have b: "128 + n mod 64 < 256" for n :: nat using mod_less_divisor [of 64 n] by linarith
  assume x: "x = 43 \<or> x = 38 \<or> x = 61"
  note h = hexTable_chars [OF b]
  show "x \<notin> set (escape2 hexTable c)" if "0x80 \<le> c" "c < 0x800"
  proof -
    have "0xC0 + c div 64 < 256" using that by simp
    from hexTable_chars [OF this] show ?thesis using x h that by (auto simp: escape2_bytes)
  qed
  show "x \<notin> set (escape3 hexTable c)" if "0x800 \<le> c" "c < 0x10000"
  proof -
    have "0xE0 + c div 4096 < 256" using that by simp
    from hexTable_chars [OF this] show ?thesis using x h that by (auto simp: escape3_bytes)
  qed
  show "x \<notin> set (escape4 hexTable c)" if "c < 0x110000"
  proof -
    have "0xF0 + c div 262144 < 256" using that by simp
    from hexTable_chars [OF this] show ?thesis using x h that by (auto simp: escape4_bytes)
  qed
qed

lemma escape_units_chars:
  assumes "well_formed16 s" and "x = 38 \<or> x = 61"
  shows "x \<notin> set (escape_units s)"
  using assms(1)
proof (induction s rule: well_formed16.induct)
  case (2 c cs)
  have pair: "surrogate_pair c (d AND 0x3FF) < 0x110000" for d using surrogate_pair_range by blast
  have "x \<notin> set (paramHexTable c)" if "c < 0x80"
    using that hexTable_chars [of c] assms(2) by (auto simp: paramHexTable_def)
  then show ?case
    using 2 assms(2) noEscape_chars [of c] escapes_chars(1,2) [of c x]
      escapes_chars(3) [OF pair, of x]
    by (cases cs) (auto simp: escapes_param pair split: if_splits)
qed simp

subsection \<open>The round trip\<close>

lemma decode_escape_units:
  assumes "well_formed16 s"
  shows "decodeURIComponent (plus_to_space (escape_units s)) = Some s"
  using assms
proof (induction s rule: well_formed16.induct)
  case 1
  then show ?case by (simp add: plus_to_space_def)
next
  case (2 c cs)
  let ?rest = "plus_to_space (escape_units cs)"
  consider "c < 0x80" "noEscape ! c = 1" | "c = 0x20" | "c < 0x80" "noEscape ! c \<noteq> 1" "c \<noteq> 0x20"
    | "0x80 \<le> c" "c < 0x800" | "0x800 \<le> c" "c < 0x10000" "\<not> (0xD800 \<le> c \<and> c < 0xE000)"
    | "0xD800 \<le> c" "c < 0xDC00"
    using 2(3) by (fastforce split: if_splits)
  then show ?case
  proof cases
    case 1
    then show ?thesis using 2 noEscape_chars [OF 1]
      by (simp add: decode_char)
  next
    case 2
    have "noEscape ! 32 \<noteq> 1" by code_simp
    then show ?thesis using "2.IH"(1) "2.prems" 2
      by (simp add: paramHexTable_def decode_char)
  next
    case 3
    then have "plus_to_space (hexTable c) = hexTable c"
      using hexTable_chars [of c] by (intro plus_to_space_none) auto
    then show ?thesis using "2.IH"(1) "2.prems" 3 decode_escape [OF take_escape1 [of c ?rest]]
      by (simp add: paramHexTable_def)
  next
    case 4
    then have "plus_to_space (escape2 hexTable c) = escape2 hexTable c"
      using escapes_chars(1) by (intro plus_to_space_none) auto
    then show ?thesis using "2.IH"(1) "2.prems" 4 decode_escape [OF take_escape2 [of c ?rest]]
      by (simp add: escapes_param)
  next
    case 5
    then have "plus_to_space (escape3 hexTable c) = escape3 hexTable c"
      using escapes_chars(2) by (intro plus_to_space_none) auto
    moreover have "c < 0xD800 \<or> 0xE000 \<le> c" using 5 by linarith
    ultimately show ?thesis using "2.IH"(1) "2.prems" 5 decode_escape [OF take_escape3 [of c ?rest]]
      by (auto simp: escapes_param)
  next
    case 6
    then obtain d ds where cs: "cs = d # ds" "0xDC00 \<le> d" "d < 0xE000" "well_formed16 ds"
      using "2.prems" by (cases cs) auto
    let ?p = "surrogate_pair c (d AND 0x3FF)"
    have p: "0x10000 \<le> ?p" "?p < 0x110000" using surrogate_pair_range by auto
    then have "plus_to_space (escape4 hexTable ?p) = escape4 hexTable ?p"
      using escapes_chars(3) by (intro plus_to_space_none) auto
    moreover have "decodeURIComponent (plus_to_space (escape_units ds)) = Some ds"
      using "2.IH"(2) cs 6 by simp
    ultimately show ?thesis
      using 6 cs p decode_escape [OF take_escape4 [OF p, of "plus_to_space (escape_units ds)"]]
        utf16_surrogates [of c d]
      by (simp add: escapes_param)
  qed
qed

definition pair_text :: "jsstr \<times> jsstr \<Rightarrow> jsstr" where
  "pair_text p = escape_units (fst p) @ 61 # escape_units (snd p)"

lemma serialize_pairs_join:
  "serialize_pairs 0 l = js_join [38] (map pair_text l)"
  "serialize_pairs (Suc i) l = concat (map (\<lambda>p. 38 # pair_text p) l)"
proof -
  have suc: "serialize_pairs (Suc i) l = concat (map (\<lambda>p. 38 # pair_text p) l)" for i l
    by (induction l arbitrary: i) (auto simp: encodeStr_units pair_text_def)
  then show "serialize_pairs (Suc i) l = concat (map (\<lambda>p. 38 # pair_text p) l)" .
  have join: "js_join [38] (map pair_text (p # l)) = pair_text p @ concat (map (\<lambda>p. 38 # pair_text p) l)" for p l
    by (induction l arbitrary: p) (auto simp: js_join_Cons)
  show "serialize_pairs 0 l = js_join [38] (map pair_text l)"
  proof (cases l)
    case (Cons p l')
    obtain k v where "p = (k, v)" by (cases p)
    then show ?thesis unfolding Cons join using suc [of 0 l']
      by (simp add: encodeStr_units pair_text_def)
  qed simp
qed

definition params_ok :: "(jsstr \<times> jsstr) list \<Rightarrow> bool" where
  "params_ok l \<longleftrightarrow> list_all (\<lambda>p. well_formed16 (fst p) \<and> well_formed16 (snd p)) l"

lemma parse_pair_text:
  assumes "well_formed16 k" and "well_formed16 v"
  shows "parse_pair (pair_text (k, v)) = Some (k, v)"
proof -
  have "js_split 61 (escape_units k @ 61 # escape_units v) = [escape_units k, escape_units v]"
    using escape_units_chars [OF assms(1), of 61] escape_units_chars [OF assms(2), of 61]
    by (subst split_on_append) (auto intro!: split_on_none)
  then show ?thesis
    by (simp add: parse_pair_def pair_text_def decode_escape_units assms)
qed

lemma parse_sequences_text:
  "params_ok l \<Longrightarrow> parse_sequences (map pair_text l) = Some l"
proof (induction l)
  case (Cons p l)
  then show ?case using parse_pair_text [of "fst p" "snd p"]
    by (auto simp: params_ok_def) (simp add: pair_text_def)
qed simp

lemma pair_text_chars:
  assumes "well_formed16 (fst p)" and "well_formed16 (snd p)"
  shows "38 \<notin> set (pair_text p)"
  using escape_units_chars [OF assms(1), of 38] escape_units_chars [OF assms(2), of 38]
  by (auto simp: pair_text_def)

lemma parseParams_serialize:
  assumes "params_ok l"
  shows "parseParams (serializeSearchParams l) = Some l"
proof (cases "l = []")
  case True
  then show ?thesis by (simp add: parseParams_def serializeSearchParams_def)
next
  case False
  have "js_split 38 (js_join [38] (map pair_text l)) = map pair_text l"
    using False assms pair_text_chars by (intro js_split_join) (auto simp: params_ok_def list_all_iff)
  then show ?thesis
    using False parse_sequences_text [OF assms]
    by (simp add: parseParams_def serializeSearchParams_def serialize_pairs_join)
qed

interpretation search_params: codec serializeSearchParams parseParams params_ok
  by unfold_locales (rule parseParams_serialize)

section \<open>The operations of \<open>URLSearchParams\<close> on its list\<close>

text \<open>
  Each operation as a function on \<open>kList\<close>.  \<open>forEach\<close> visits the indices below the length the
  list had when it started and skips those that no longer exist, so the \<open>splice\<close> in \<open>set\<close> moves
  an element past the visit.
\<close>

type_synonym params = "(jsstr \<times> jsstr) list"

definition params_append :: "jsstr \<Rightarrow> jsstr \<Rightarrow> params \<Rightarrow> params" where
  "params_append name val l = l @ [(name, val)]"

definition params_delete :: "jsstr \<Rightarrow> params \<Rightarrow> params" where
  "params_delete name l = filter (\<lambda>(n, v). n \<noteq> name) l"

definition params_get :: "params \<Rightarrow> jsstr \<Rightarrow> jsstr option" where
  "params_get l name = map_option snd (List.find (\<lambda>(n, v). n = name) l)"

fun params_getAll :: "params \<Rightarrow> jsstr \<Rightarrow> jsstr list" where
  "params_getAll [] name = []"
| "params_getAll ((k, v) # l) name = (if k = name then v # params_getAll l name else params_getAll l name)"

definition params_has :: "params \<Rightarrow> jsstr \<Rightarrow> bool" where
  "params_has l name = list_ex (\<lambda>(n, v). name = n) l"

function set_loop :: "jsstr \<Rightarrow> jsstr \<Rightarrow> nat \<Rightarrow> nat \<Rightarrow> bool \<Rightarrow> params \<Rightarrow> bool \<times> params" where
  "set_loop name val len i remove l =
     (if i < len then
        (if i < length l \<and> fst (l ! i) = name then
           (if remove then set_loop name val len (i + 1) True (take i l @ drop (i + 1) l)
            else set_loop name val len (i + 1) True (l[i := (fst (l ! i), val)]))
         else set_loop name val len (i + 1) remove l)
      else (remove, l))"
  by pat_completeness auto
termination
  by (relation "measure (\<lambda>(name, val, len, i, remove, l). len - i)") auto

declare set_loop.simps [simp del]

definition params_set :: "jsstr \<Rightarrow> jsstr \<Rightarrow> params \<Rightarrow> params" where
  "params_set name val l =
     (case set_loop name val (length l) 0 False l of
        (remove, l') \<Rightarrow> if \<not> remove then l' @ [(name, val)] else l')"

text \<open>\<open>localeCompare\<close> is the engine's; \<open>Array.prototype.sort\<close> is stable.\<close>

fun insert_param :: "(jsstr \<Rightarrow> jsstr \<Rightarrow> int) \<Rightarrow> jsstr \<times> jsstr \<Rightarrow> params \<Rightarrow> params" where
  "insert_param localeCompare p [] = [p]"
| "insert_param localeCompare p (q # l) =
     (if localeCompare (fst p) (fst q) \<le> 0 then p # q # l else q # insert_param localeCompare p l)"

definition params_sort :: "(jsstr \<Rightarrow> jsstr \<Rightarrow> int) \<Rightarrow> params \<Rightarrow> params" where
  "params_sort localeCompare l = foldr (insert_param localeCompare) l []"

text \<open>The iterator objects: kind, position and the list they were made for.\<close>

datatype it_kind = IT_KIND_KEYS | IT_KIND_VALUES | IT_KIND_ENTRIES
datatype it_result = IterDone | IterString jsstr | IterEntry "jsstr \<times> jsstr"

record params_iterator =
  it_index :: nat
  it_kind :: it_kind
  it_target :: params

definition createSearchParamsIterator :: "params \<Rightarrow> it_kind \<Rightarrow> params_iterator" where
  "createSearchParamsIterator l kind = \<lparr>it_index = 0, it_kind = kind, it_target = l\<rparr>"

definition iterator_next :: "params_iterator \<Rightarrow> it_result \<times> params_iterator" where
  "iterator_next it =
     (if it_index it \<ge> length (it_target it) then (IterDone, it)
      else let it' = it\<lparr>it_index := it_index it + 1\<rparr>; e = it_target it ! it_index it
      in (case it_kind it of
            IT_KIND_KEYS \<Rightarrow> (IterString (fst e), it')
          | IT_KIND_VALUES \<Rightarrow> (IterString (snd e), it')
          | IT_KIND_ENTRIES \<Rightarrow> (IterEntry e, it')))"

text \<open>The constructor's argument: a string, an iterable of arrays, or an object's entries.\<close>

datatype params_init = InitString jsstr | InitPairs "jsstr list list" | InitRecord params | InitOther

fun append_pairs :: "jsstr list list \<Rightarrow> params \<Rightarrow> js_error + params" where
  "append_pairs [] l = Inr l"
| "append_pairs (pair # pairs) l =
     (if length pair \<noteq> 2 then Inl TypeError
      else append_pairs pairs (params_append (pair ! 0) (pair ! 1) l))"

definition new_URLSearchParams :: "params_init \<Rightarrow> js_error + params" where
  "new_URLSearchParams init = (case init of
     InitPairs pairs \<Rightarrow> append_pairs pairs []
   | InitRecord entries \<Rightarrow> Inr (foldl (\<lambda>l (k, v). params_append k v l) [] entries)
   | InitString s \<Rightarrow>
       (case parseParams (if char_at s 0 = Some 63 then drop 1 s else s) of
          None \<Rightarrow> Inl URIError | Some l \<Rightarrow> Inr l)
   | InitOther \<Rightarrow> Inl TypeError)"

section \<open>The list as a keyed store\<close>

lemma params_get_map_of: "params_get l name = map_of l name"
  by (induction l) (auto simp: params_get_def)

lemma params_has_get: "params_has l name \<longleftrightarrow> params_get l name \<noteq> None"
  by (induction l) (auto simp: params_get_map_of params_has_def)

lemma map_of_delete: "map_of (params_delete name l) j = (if j = name then None else map_of l j)"
  by (induction l) (auto simp: params_delete_def)

lemma map_of_later:
  assumes "i < length l" and "fst (l ! i) = name" and "name \<in> fst ` set (take i l)"
  shows "map_of (take i l @ drop (i + 1) l) = map_of l"
proof -
  have l: "l = take i l @ l ! i # drop (i + 1) l" using id_take_nth_drop [OF assms(1)] by simp
  obtain v where v: "map_of (take i l) name = Some v"
    using assms(3) by (cases "map_of (take i l) name") (auto simp: map_of_eq_None_iff)
  have "map_of (take i l @ l ! i # drop (i + 1) l) = map_of (take i l @ drop (i + 1) l)"
    using v assms(2) by (auto simp: map_add_def fun_eq_iff split: option.split)
  then show ?thesis using arg_cong [OF l, of map_of] by (simp only:)
qed

lemma set_loop_later:
  assumes "set_loop name val len i True l = (r, l')" and "name \<in> fst ` set (take i l)"
  shows "r \<and> map_of l' = map_of l"
  using assms
proof (induction name val len i True l arbitrary: r l' rule: set_loop.induct)
  case (1 name val len i l)
  have mono: "fst ` set (take i xs) \<subseteq> fst ` set (take (i + 1) xs)" for xs :: params
    using set_take_subset_set_take [of i "i + 1" xs] by auto
  show ?case
  proof (cases "i < len")
    case False
    then show ?thesis using 1(4) by (simp add: set_loop.simps [of name])
  next
    case True
    show ?thesis
    proof (cases "i < length l \<and> fst (l ! i) = name")
      case hit: True
      let ?l = "take i l @ drop (i + 1) l"
      have "take i ?l = take i l" using hit by simp
      then have "name \<in> fst ` set (take (i + 1) ?l)" using 1(5) mono [of ?l] by auto
      then show ?thesis
        using 1(1) [OF True hit, of r l'] 1(4) True hit map_of_later [of i l name] 1(5)
        by (simp add: set_loop.simps [of name val len i])
    next
      case miss: False
      have "set_loop name val len (i + 1) True l = (r, l')"
        using 1(4) True miss by (auto simp: set_loop.simps [of name val len i] split: if_splits)
      moreover have "name \<in> fst ` set (take (i + 1) l)" using 1(5) mono [of l] by blast
      ultimately show ?thesis by (rule 1(3) [OF True miss])
    qed
  qed
qed

lemma set_loop_first:
  assumes "set_loop name val (length l) i False l = (r, l')" and "name \<notin> fst ` set (take i l)"
    and "i \<le> length l"
  shows "r = (name \<in> fst ` set l) \<and>
    map_of l' j = (if j = name \<and> name \<in> fst ` set l then Some val else map_of l j)"
  using assms
proof (induction "length l - i" arbitrary: i)
  case 0
  then have i: "i = length l" by simp
  then have "r = False \<and> l' = l" using 0(2) by (simp add: set_loop.simps [of name val "length l"])
  then show ?case using 0(3) i by auto
next
  case (Suc n)
  then have i: "i < length l" by simp
  show ?case
  proof (cases "fst (l ! i) = name")
    case True
    let ?l = "l[i := (fst (l ! i), val)]"
    have l: "l = take i l @ l ! i # drop (i + 1) l" using id_take_nth_drop [OF i] by simp
    have l': "?l = take i l @ (name, val) # drop (i + 1) l" using i True by (simp add: upd_conv_take_nth_drop)
    have "take (i + 1) ?l = take i l @ [(name, val)]" using i l' by (simp add: take_Suc_conv_app_nth)
    then have "name \<in> fst ` set (take (i + 1) ?l)" by simp
    moreover have "set_loop name val (length l) (i + 1) True ?l = (r, l')"
      using Suc.prems(1) i True by (simp add: set_loop.simps [of name val "length l" i])
    ultimately have r: "r \<and> map_of l' = map_of ?l" by (intro set_loop_later) auto
    have none: "map_of (take i l) name = None" using Suc.prems(2) by (simp add: map_of_eq_None_iff)
    have "map_of ?l j = (if j = name then Some val else map_of l j)"
      unfolding l' using none True by (subst (3) l) (auto simp: map_add_def split: option.split)
    moreover have "name \<in> fst ` set l" using True i by (metis image_eqI nth_mem)
    ultimately show ?thesis using r by auto
  next
    case False
    have "take (i + 1) l = take i l @ [l ! i]" using i by (simp add: take_Suc_conv_app_nth)
    then have "name \<notin> fst ` set (take (i + 1) l)" using Suc.prems(2) False by auto
    then show ?thesis
      using Suc.hyps(1) [of "i + 1"] Suc.hyps(2) Suc.prems(1) i False
      by (simp add: set_loop.simps [of name val "length l" i])
  qed
qed

lemma params_get_set: "params_get (params_set name val l) j = (if j = name then Some val else params_get l j)"
proof -
  obtain r l' where loop: "set_loop name val (length l) 0 False l = (r, l')" by fastforce
  have "r = (name \<in> fst ` set l) \<and>
      map_of l' j = (if j = name \<and> name \<in> fst ` set l then Some val else map_of l j)"
    by (rule set_loop_first [OF loop]) auto
  moreover have "name \<notin> fst ` set l \<Longrightarrow> map_of l name = None" by (simp add: map_of_eq_None_iff)
  ultimately show ?thesis
    by (cases "name \<in> fst ` set l"; cases "j = name")
       (simp_all add: params_get_map_of params_set_def loop map_add_def split: option.split)
qed

interpretation params: keyed_store params_get params_set params_delete "\<lambda>_. True"
  by unfold_locales (simp_all add: params_get_set, simp add: params_get_map_of map_of_delete)

section \<open>Properties\<close>

text \<open>C16: Query strings round-trip: \<open>parseParams\<close> reads back the list that
  \<open>serializeSearchParams\<close> wrote, names and values alike, whenever they are well-formed UTF-16.  The
  escaping loop with its pending slice and the UTF-8 arithmetic on bits are those of the code.\<close>

theorem search_params_roundtrip:
  assumes "params_ok l"
  shows "parseParams (serializeSearchParams l) = Some l"
  using assms by (rule search_params.dec_enc)

theorem search_params_roundtrip_witness:
  "parseParams (serializeSearchParams [(js ''a&b'', [0x20, 0xE9, 0x20AC, 0xD83D, 0xDE00]), ([], js ''1=2'')])
     = Some [(js ''a&b'', [0x20, 0xE9, 0x20AC, 0xD83D, 0xDE00]), ([], js ''1=2'')]
   \<and> serializeSearchParams [(js ''a&b'', [0x20, 0xE9])] = js ''a%26b=+%C3%A9''"
  by (rule conjI, rule search_params_roundtrip, code_simp, code_simp)

text \<open>Reading a list of parameters after any sequence of \<open>set\<close> calls gives, for each name, the
  last value set, and otherwise what the list held before; a deleted name is gone.  Duplicates that
  \<open>set\<close> leaves behind are never read by \<open>get\<close>.\<close>

theorem params_last_set:
  "params_get (foldl (\<lambda>l (k, v). params_set k v l) l kvs) j =
     (case map_of (rev kvs) j of None \<Rightarrow> params_get l j | Some v \<Rightarrow> Some v) \<and>
   params_get (params_delete k l) j = (if j = k then None else params_get l j)"
  using params.lookup_insert_all [where s = l and kvs = kvs and j = j]
    params.lookup_remove [where s = l and k = k and j = j]
  by (simp add: params.insert_all_def)

text \<open>\<open>set\<close> removes every second of several adjacent later duplicates only.\<close>

lemma set_leaves_duplicates:
  "params_set (js ''a'') (js ''x'') [(js ''a'', js ''1''), (js ''a'', js ''2''), (js ''a'', js ''3'')]
     = [(js ''a'', js ''x''), (js ''a'', js ''3'')]"
  by code_simp

text \<open>A value is cut at its second \<open>'='\<close>.\<close>

lemma parseParams_cuts_value: "parseParams (js ''k=a=b'') = Some [(js ''k'', js ''a'')]"
  by code_simp

end
