(* ===== verification/Url.thy ===== *)
theory Url
  imports Url_Invariant Url_Params
begin

text \<open>
  The class \<open>URL\<close> of \<open>packages/zero/lib/whatwg/url.js\<close>: serialisation, the constructor, the
  getters and setters, the link from a URL to its \<open>searchParams\<close>, the blob store and the two
  conversions between URLs and file paths.  An object is its URL record \<open>kURL\<close> and the list
  of its query object \<open>kQuery\<close>; an exception is an \<open>Inl\<close>.
\<close>

section \<open>Serialisation\<close>

definition serializeURLPath :: "url \<Rightarrow> jsstr" where
  "serializeURLPath u =
     (if cannotBeBase u then path u ! 0
      else if path u = [] then []
      else 47 # js_join [47] (path u))"

definition serializeURL :: "bool \<Rightarrow> bool \<Rightarrow> bool \<Rightarrow> url \<Rightarrow> jsstr" where
  "serializeURL withFragment withSearch withAuth u =
     scheme u
     @ (if host_truthy (host u) then
          [47, 47]
          @ (if withAuth \<and> (username u \<noteq> [] \<or> password u \<noteq> [])
             then username u @ (if password u \<noteq> [] then 58 # password u else []) @ [64]
             else [])
          @ serializeURLHost (the (host u))
          @ (if \<not> isDefaultSchemePort u
             then (case port u of None \<Rightarrow> [] | Some p \<Rightarrow> 58 # to_radix 10 p) else [])
        else if scheme u = js ''file:'' then [47, 47]
        else [])
     @ serializeURLPath u
     @ (if withSearch then (case query u of None \<Rightarrow> [] | Some q \<Rightarrow> if q = [] then [] else 63 # q) else [])
     @ (if withFragment then (case fragment u of None \<Rightarrow> [] | Some f \<Rightarrow> if f = [] then [] else 35 # f)
        else [])"

section \<open>Objects\<close>

record url_object =
  kURL :: url
  kQuery :: params

text \<open>The wrapper that throws on failure.  The parser's \<open>upper\<close> is its parameter for upper-casing.\<close>

definition parse_or_throw ::
  "(nat \<Rightarrow> jsstr) \<Rightarrow> jsstr \<Rightarrow> url option \<Rightarrow> state option \<Rightarrow> url js_result" where
  "parse_or_throw up s b override =
     (case basicURLParse up s b override of
        None \<Rightarrow> Inl TypeError
      | Some u \<Rightarrow> if failed u then Inl TypeError else Inr u)"

definition new_URL :: "(nat \<Rightarrow> jsstr) \<Rightarrow> jsstr \<Rightarrow> jsstr option \<Rightarrow> url_object js_result" where
  "new_URL up s b =
     js_bind (case b of None \<Rightarrow> Inr None
              | Some t \<Rightarrow> js_bind (parse_or_throw up t None None) (\<lambda>u. Inr (Some u)))
       (\<lambda>parsedBase. js_bind (parse_or_throw up s parsedBase None)
         (\<lambda>parsedURL.
            js_bind (new_URLSearchParams (InitString (case query parsedURL of None \<Rightarrow> [] | Some q \<Rightarrow> q)))
              (\<lambda>l. Inr \<lparr>kURL = parsedURL, kQuery = l\<rparr>)))"

subsection \<open>Parameters of a URL\<close>

text \<open>\<open>updateSearchParams\<close>: an operation on the parameters rewrites the URL's query.\<close>

definition updateSearchParams :: "url_object \<Rightarrow> url_object" where
  "updateSearchParams obj =
     obj\<lparr>kURL := (kURL obj)\<lparr>query := Some (serializeSearchParams (kQuery obj))\<rparr>\<rparr>"

datatype params_op =
    OpAppend jsstr jsstr | OpDelete jsstr | OpSet jsstr jsstr | OpSort

definition apply_params_op :: "(jsstr \<Rightarrow> jsstr \<Rightarrow> int) \<Rightarrow> params_op \<Rightarrow> params \<Rightarrow> params" where
  "apply_params_op localeCompare x l = (case x of
     OpAppend k v \<Rightarrow> params_append k v l
   | OpDelete k \<Rightarrow> params_delete k l
   | OpSet k v \<Rightarrow> params_set k v l
   | OpSort \<Rightarrow> params_sort localeCompare l)"

definition url_params_op :: "(jsstr \<Rightarrow> jsstr \<Rightarrow> int) \<Rightarrow> params_op \<Rightarrow> url_object \<Rightarrow> url_object" where
  "url_params_op localeCompare x obj =
     updateSearchParams (obj\<lparr>kQuery := apply_params_op localeCompare x (kQuery obj)\<rparr>)"

subsection \<open>Getters\<close>

definition cannotHaveUsernamePasswordPort :: "url \<Rightarrow> bool" where
  "cannotHaveUsernamePasswordPort u \<longleftrightarrow>
     (host u = None \<or> host u = Some (HostString [])) \<or> cannotBeBase u \<or> scheme u = js ''file:''"

definition get_href :: "url_object \<Rightarrow> jsstr" where
  "get_href obj = serializeURL True True True (kURL obj)"

text \<open>A host in a template literal: an array is joined with commas, \<open>null\<close> is \<open>'null'\<close>.\<close>

definition template_host :: "host option \<Rightarrow> jsstr" where
  "template_host h = (case h of
     None \<Rightarrow> js ''null''
   | Some (HostString s) \<Rightarrow> s
   | Some (HostNumber n) \<Rightarrow> to_radix 10 n
   | Some (HostPieces ps) \<Rightarrow> js_join [44] (map (to_radix 10) ps))"

definition template_port :: "nat option \<Rightarrow> jsstr" where
  "template_port p = (case p of None \<Rightarrow> [] | Some n \<Rightarrow> 58 # to_radix 10 n)"

text \<open>A blob URL has the origin of the URL it wraps, which may be a blob URL again.\<close>

partial_function (option) origin :: "(nat \<Rightarrow> jsstr) \<Rightarrow> url \<Rightarrow> jsstr option" where
  "origin up u =
     (if scheme u = js ''blob:'' then
        (case path u of
           [] \<Rightarrow> Some []
         | p # ps \<Rightarrow> (case new_URL up p None of Inl err \<Rightarrow> Some [] | Inr obj \<Rightarrow> origin up (kURL obj)))
      else if scheme u \<in> {js ''ftp:'', js ''gopher:'', js ''http:'', js ''https:'', js ''ws:'', js ''wss:''}
      then Some (scheme u @ [47, 47] @ template_host (host u) @ template_port (port u))
      else Some [])"

definition get_origin :: "(nat \<Rightarrow> jsstr) \<Rightarrow> url_object \<Rightarrow> jsstr option" where
  "get_origin up obj = origin up (kURL obj)"

definition get_protocol :: "url_object \<Rightarrow> jsstr" where "get_protocol obj = scheme (kURL obj)"
definition get_username :: "url_object \<Rightarrow> jsstr" where "get_username obj = username (kURL obj)"
definition get_password :: "url_object \<Rightarrow> jsstr" where "get_password obj = password (kURL obj)"

text \<open>\<open>host || ''\<close>: the host itself, which may be a number or an array, when there is no port.\<close>

definition get_hostname :: "url_object \<Rightarrow> host" where
  "get_hostname obj = (if host_truthy (host (kURL obj)) then the (host (kURL obj)) else HostString [])"

definition get_host :: "url_object \<Rightarrow> host" where
  "get_host obj = (case port (kURL obj) of
     None \<Rightarrow> get_hostname obj
   | Some p \<Rightarrow> HostString (template_host (Some (get_hostname obj)) @ 58 # to_radix 10 p))"

definition get_port :: "url_object \<Rightarrow> jsstr" where
  "get_port obj = (case port (kURL obj) of None \<Rightarrow> [] | Some p \<Rightarrow> to_radix 10 p)"

definition get_pathname :: "url_object \<Rightarrow> jsstr" where
  "get_pathname obj = serializeURLPath (kURL obj)"

definition get_search :: "url_object \<Rightarrow> jsstr" where
  "get_search obj = (case query (kURL obj) of None \<Rightarrow> [] | Some q \<Rightarrow> if q = [] then [] else 63 # q)"

definition get_hash :: "url_object \<Rightarrow> jsstr" where
  "get_hash obj = (case fragment (kURL obj) of None \<Rightarrow> [] | Some f \<Rightarrow> if f = [] then [] else 35 # f)"

subsection \<open>Setters\<close>

text \<open>Most parse the new text with a state override and copy one field of the result.\<close>

definition set_href :: "(nat \<Rightarrow> jsstr) \<Rightarrow> jsstr \<Rightarrow> url_object \<Rightarrow> url_object js_result" where
  "set_href up v obj = js_bind (parse_or_throw up v None None) (\<lambda>u. Inr (obj\<lparr>kURL := u\<rparr>))"

definition set_protocol :: "(nat \<Rightarrow> jsstr) \<Rightarrow> jsstr \<Rightarrow> url_object \<Rightarrow> url_object js_result" where
  "set_protocol up v obj =
     (let u = kURL obj
      in if v = [] then Inr obj
         else if scheme u = js ''file:'' \<and> (host u = Some (HostString []) \<or> host u = None) then Inr obj
         else js_bind (parse_or_throw up v None (Some STATE_SCHEME_START))
                (\<lambda>r. Inr (obj\<lparr>kURL := u\<lparr>scheme := scheme r\<rparr>\<rparr>)))"

definition set_username :: "(nat \<Rightarrow> jsstr) \<Rightarrow> jsstr \<Rightarrow> url_object \<Rightarrow> url_object js_result" where
  "set_username up v obj =
     (let u = kURL obj
      in if cannotHaveUsernamePasswordPort u then Inr obj
         else if v = [] then Inr (obj\<lparr>kURL := u\<lparr>username := []\<rparr>\<rparr>)
         else js_bind (parse_or_throw up v None (Some STATE_AUTHORITY))
                (\<lambda>r. Inr (obj\<lparr>kURL := u\<lparr>username := username r\<rparr>\<rparr>)))"

definition set_password :: "(nat \<Rightarrow> jsstr) \<Rightarrow> jsstr \<Rightarrow> url_object \<Rightarrow> url_object js_result" where
  "set_password up v obj =
     (let u = kURL obj
      in if cannotHaveUsernamePasswordPort u then Inr obj
         else if v = [] then Inr (obj\<lparr>kURL := u\<lparr>password := []\<rparr>\<rparr>)
         else js_bind (parse_or_throw up v None (Some STATE_AUTHORITY))
                (\<lambda>r. Inr (obj\<lparr>kURL := u\<lparr>password := password r\<rparr>\<rparr>)))"

definition set_host :: "(nat \<Rightarrow> jsstr) \<Rightarrow> jsstr \<Rightarrow> url_object \<Rightarrow> url_object js_result" where
  "set_host up v obj =
     (let u = kURL obj
      in if cannotBeBase u then Inr obj
         else js_bind (parse_or_throw up v None (Some STATE_HOST))
                (\<lambda>r. Inr (obj\<lparr>kURL := u\<lparr>host := host r\<rparr>\<rparr>)))"

definition set_hostname :: "(nat \<Rightarrow> jsstr) \<Rightarrow> jsstr \<Rightarrow> url_object \<Rightarrow> url_object js_result" where
  "set_hostname up v obj =
     (let u = kURL obj
      in if cannotBeBase u then Inr obj
         else js_bind (parse_or_throw up v None (Some STATE_HOSTNAME))
                (\<lambda>r. Inr (obj\<lparr>kURL := u\<lparr>host := host r\<rparr>\<rparr>)))"

text \<open>The assignment for the empty string is overwritten by the one after it.\<close>

definition set_port :: "(nat \<Rightarrow> jsstr) \<Rightarrow> jsstr \<Rightarrow> url_object \<Rightarrow> url_object js_result" where
  "set_port up v obj =
     (let u = kURL obj
      in if cannotHaveUsernamePasswordPort u then Inr obj
         else let u' = (if v = [] then u\<lparr>port := None\<rparr> else u)
              in js_bind (parse_or_throw up v None (Some STATE_PORT))
                   (\<lambda>r. Inr (obj\<lparr>kURL := u'\<lparr>port := port r\<rparr>\<rparr>)))"

definition set_pathname :: "(nat \<Rightarrow> jsstr) \<Rightarrow> jsstr \<Rightarrow> url_object \<Rightarrow> url_object js_result" where
  "set_pathname up v obj =
     (let u = kURL obj
      in if cannotBeBase u then Inr obj
         else js_bind (parse_or_throw up v None (Some STATE_PATH_START))
                (\<lambda>r. Inr (obj\<lparr>kURL := u\<lparr>path := path r\<rparr>\<rparr>)))"

text \<open>\<open>url.query\<close> becomes the empty string, whatever is assigned.\<close>

definition set_search :: "jsstr \<Rightarrow> url_object \<Rightarrow> url_object js_result" where
  "set_search v obj =
     (let u = kURL obj
      in if v = [] then Inr (obj\<lparr>kURL := u\<lparr>query := None\<rparr>, kQuery := []\<rparr>)
         else (case parseParams (if v ! 0 = 63 then drop 1 v else v) of
                 None \<Rightarrow> Inl URIError
               | Some l \<Rightarrow> Inr (obj\<lparr>kURL := u\<lparr>query := Some []\<rparr>, kQuery := l\<rparr>)))"

definition set_hash :: "(nat \<Rightarrow> jsstr) \<Rightarrow> jsstr \<Rightarrow> url_object \<Rightarrow> url_object js_result" where
  "set_hash up v obj =
     (let u = kURL obj
      in if v = [] then Inr (obj\<lparr>kURL := u\<lparr>fragment := None\<rparr>\<rparr>)
         else js_bind (parse_or_throw up (if v ! 0 = 35 then drop 1 v else v) None (Some STATE_FRAGMENT))
                (\<lambda>r. Inr (obj\<lparr>kURL := u\<lparr>fragment := fragment r\<rparr>\<rparr>)))"

subsection \<open>Blob URLs and file paths\<close>

text \<open>
  \<open>createObjectURL\<close> with the identifier that \<open>uuid4122\<close> returned.  \<open>revokeObjectURL\<close> compares the
  scheme, which ends in a colon, with \<open>'blob'\<close>; the call behind that test is of a method that
  \<open>Map\<close> does not have.
\<close>

definition createObjectURL :: "jsstr \<Rightarrow> 'b \<Rightarrow> (jsstr, 'b) js_map \<Rightarrow> jsstr \<times> (jsstr, 'b) js_map" where
  "createObjectURL uuid blob store = (let u = js ''blob:'' @ uuid in (u, jsmap_set u blob store))"

definition revokeObjectURL ::
  "(nat \<Rightarrow> jsstr) \<Rightarrow> jsstr \<Rightarrow> (jsstr, 'b) js_map \<Rightarrow> (jsstr, 'b) js_map js_result" where
  "revokeObjectURL up s store =
     js_bind (parse_or_throw up s None None)
       (\<lambda>record. if scheme record \<noteq> js ''blob'' then Inr store else Inl TypeError)"

definition escape_percent :: "jsstr \<Rightarrow> jsstr" where
  "escape_percent s = concat (map (\<lambda>c. if c = 37 then [37, 50, 53] else [c]) s)"

definition getURLFromFilePath :: "(nat \<Rightarrow> jsstr) \<Rightarrow> jsstr \<Rightarrow> url_object js_result" where
  "getURLFromFilePath up filepath =
     js_bind (new_URL up (js ''file://'') None)
       (\<lambda>tmp. set_pathname up (if 37 \<in> set filepath then escape_percent filepath else filepath) tmp)"

text \<open>An escaped slash: \<open>%2f\<close> in either case.\<close>

definition escaped_slash_at :: "jsstr \<Rightarrow> nat \<Rightarrow> bool" where
  "escaped_slash_at s n \<longleftrightarrow> char_at s n = Some 37 \<and> char_at s (n + 1) = Some 50 \<and>
     char_at s (n + 2) \<in> {Some 70, Some 102}"

definition getFilePathFromURL :: "url_object \<Rightarrow> jsstr js_result" where
  "getFilePathFromURL obj =
     (if get_protocol obj \<noteq> js ''file:'' then Inl OtherError
      else let pathname = get_pathname obj
           in if list_ex (escaped_slash_at pathname) [0..<length pathname] then Inl OtherError
              else (case decodeURIComponent pathname of None \<Rightarrow> Inl URIError | Some s \<Rightarrow> Inr s))"

end
