(* ===== verification/Url_Runs.thy ===== *)
theory Url_Runs
  imports Url_Invariant
begin

text \<open>
  Runs of the URL parser over a stretch of its input: what the loop of \<open>basicURLParse\<close> does with a
  path, a query, a fragment, a host and a scheme whose characters need no escape.  A machine is
  \<^emph>\<open>before\<close> the text \<open>r\<close> when \<open>r\<close> is what its index has left of the input.
\<close>

definition before :: "parse_env \<Rightarrow> parser \<Rightarrow> jsstr \<Rightarrow> bool" where
  "before e c r \<longleftrightarrow> 0 \<le> index c \<and> nat (index c) \<le> length (input e) \<and> drop (nat (index c)) (input e) = r"

lemma before_Nil:
  assumes "before e c []"
  shows "input_at e (index c) = None" "index c = int (length (input e))"
  using assms by (auto simp: before_def input_at_None)

lemma before_Cons:
  assumes "before e c (x # r)"
  shows "input_at e (index c) = Some x" "index c < int (length (input e))"
    "before e (c\<lparr>index := index c + 1\<rparr>) r"
proof -
  have i: "nat (index c) < length (input e)" and "0 \<le> index c"
    using assms by (auto simp: before_def) (metis drop_all list.distinct(1) not_le)
  moreover have "drop (nat (index c)) (input e) = input e ! nat (index c) # drop (Suc (nat (index c))) (input e)"
    using i by (simp add: Cons_nth_drop_Suc)
  ultimately show "input_at e (index c) = Some x" "index c < int (length (input e))"
    "before e (c\<lparr>index := index c + 1\<rparr>) r"
    using assms by (auto simp: before_def input_at_def char_at_def nat_add_distrib)
qed

lemma before_second:
  assumes "before e c (x # r)"
  shows "input_at e (index c + 1) = char_at r 0"
proof (cases r)
  case Nil
  then show ?thesis using before_Nil(1) [of e "c\<lparr>index := index c + 1\<rparr>"] before_Cons(3) [OF assms] by simp
next
  case (Cons y r')
  then show ?thesis
    using before_Cons(1) [of e "c\<lparr>index := index c + 1\<rparr>"] before_Cons(3) [OF assms] by simp
qed

text \<open>Only the index matters.\<close>

lemma before_index: "index c' = index c \<Longrightarrow> before e c' r = before e c r"
  by (simp add: before_def)

lemma run_step:
  assumes "before e c r" and "step e c = Cont c'"
  shows "url_loop e c = url_loop e c'"
  using assms by (simp add: url_loop.simps [of e c] before_def) linarith

lemma run_end:
  assumes "before e c []" and "step e c = Cont c'" and "index c' = index c + 1"
  shows "url_loop e c = Some (url c')"
  using assms before_Nil(2) [OF assms(1)] run_step [OF assms(1,2)]
  by (simp add: url_loop.simps [of e c'])

lemma clean_append_id: "c = 0 \<or> \<not> in_encode_set S c \<Longrightarrow> appendOrEscape b c S = b @ [c]"
  by (auto simp: appendOrEscape_def)

lemma clean_Cons: "clean S (c # s) \<longleftrightarrow> (c = 0 \<or> \<not> in_encode_set S c) \<and> clean S s"
  by (simp add: clean_def)

lemma encoded_marks:
  "in_encode_set PATH_ENCODE_SET 63" "in_encode_set PATH_ENCODE_SET 35" "in_encode_set QUERY_ENCODE_SET 35"
  by code_simp+

subsection \<open>Segments of a path\<close>

lemma run_segment_chars:
  assumes "before e c (s @ r)" and "state c = STATE_PATH" and "segment_chars (special (url c)) s"
  shows "url_loop e c = url_loop e (c\<lparr>buffer := buffer c @ s, index := index c + int (length s)\<rparr>)
    \<and> before e (c\<lparr>buffer := buffer c @ s, index := index c + int (length s)\<rparr>) r"
  using assms
proof (induction s arbitrary: c)
  case (Cons x s)
  let ?c = "c\<lparr>buffer := buffer c @ [x], index := index c + 1\<rparr>"
  note b = before_Cons [OF Cons.prems(1) [simplified]]
  have x: "x \<noteq> 47" "x \<noteq> 63" "x \<noteq> 35" "special (url c) \<longrightarrow> x \<noteq> 92" "x = 0 \<or> \<not> in_encode_set PATH_ENCODE_SET x"
    using Cons.prems(3) encoded_marks by (auto simp: segment_chars_def clean_Cons)
  then have "step e c = Cont ?c"
    using Cons.prems(2) b(1)
    by (auto simp: step_def step_PATH_def specialBackSlash_def advance_def clean_append_id Let_def)
  then have "url_loop e c = url_loop e ?c" using run_step Cons.prems(1) by blast
  moreover have "before e ?c (s @ r)" using b(3) by (simp add: before_def)
  then have "url_loop e ?c = url_loop e (?c\<lparr>buffer := buffer ?c @ s, index := index ?c + int (length s)\<rparr>)
      \<and> before e (?c\<lparr>buffer := buffer ?c @ s, index := index ?c + int (length s)\<rparr>) r"
    using Cons.prems(2,3) by (intro Cons.IH) (auto simp: segment_chars_def clean_Cons)
  ultimately show ?case by (simp add: algebra_simps)
qed simp

lemma end_segment_plain:
  assumes "segment_ok sp s" and "scheme u \<noteq> js ''file:''"
  shows "end_segment slash s u = u\<lparr>path := path u @ [s]\<rparr>"
  using assms by (simp add: end_segment_def segment_ok_def push_segment_def)

text \<open>Up to the end of the last segment, which is still in the buffer.\<close>

lemma run_segments:
  assumes "before e c (js_join [47] (segs @ [s]) @ r)" and "state c = STATE_PATH" and "buffer c = []"
    and "list_all (segment_ok (special (url c))) (segs @ [s])" and "scheme (url c) \<noteq> js ''file:''"
  shows "\<exists>c'. url_loop e c = url_loop e c' \<and> before e c' r \<and> state c' = STATE_PATH \<and> buffer c' = s \<and>
    url c' = (url c)\<lparr>path := path (url c) @ segs\<rparr>"
  using assms
proof (induction segs arbitrary: c)
  case Nil
  let ?c = "c\<lparr>buffer := buffer c @ s, index := index c + int (length s)\<rparr>"
  have "url_loop e c = url_loop e ?c \<and> before e ?c r"
    using Nil by (intro run_segment_chars) (auto simp: segment_ok_def)
  then show ?case using Nil by (intro exI [of _ ?c]) simp
next
  case (Cons t segs)
  let ?c = "c\<lparr>buffer := buffer c @ t, index := index c + int (length t)\<rparr>"
  let ?d = "?c\<lparr>url := (url c)\<lparr>path := path (url c) @ [t]\<rparr>, buffer := [], index := index ?c + 1\<rparr>"
  let ?r = "js_join [47] (segs @ [s]) @ r"
  have t: "segment_ok (special (url c)) t" using Cons.prems(4) by simp
  have "before e c (t @ 47 # ?r)" using Cons.prems(1) by (simp add: js_join_Cons)
  then have c: "url_loop e c = url_loop e ?c" and b: "before e ?c (47 # ?r)"
    using run_segment_chars [of e c t "47 # ?r"] Cons.prems(2) t by (auto simp: segment_ok_def)
  have "step e ?c = Cont ?d"
    using before_Cons(1) [OF b] Cons.prems(2,3,5) t
    by (simp add: step_def step_PATH_def Let_def advance_def end_segment_plain)
  then have "url_loop e ?c = url_loop e ?d" using run_step b by blast
  moreover have "before e ?d ?r" using before_Cons(3) [OF b] by (simp add: before_def)
  then have "\<exists>c'. url_loop e ?d = url_loop e c' \<and> before e c' r \<and> state c' = STATE_PATH \<and> buffer c' = s \<and>
      url c' = (url ?d)\<lparr>path := path (url ?d) @ segs\<rparr>"
    using Cons.prems by (intro Cons.IH) auto
  ultimately show ?case using c by (auto simp del: js_join.simps)
qed

text \<open>A path up to the end of the input.\<close>

lemma run_path_end:
  assumes "before e c (js_join [47] p)" and "p \<noteq> []" and "state c = STATE_PATH" and "buffer c = []"
    and "list_all (segment_ok (special (url c))) p" and "scheme (url c) \<noteq> js ''file:''"
  shows "url_loop e c = Some ((url c)\<lparr>path := path (url c) @ p\<rparr>)"
proof -
  obtain segs s where p: "p = segs @ [s]" using assms(2) by (metis rev_exhaust)
  obtain c' where c: "url_loop e c = url_loop e c'" and b: "before e c' []" and st: "state c' = STATE_PATH"
    "buffer c' = s" "url c' = (url c)\<lparr>path := path (url c) @ segs\<rparr>"
    using run_segments [of e c segs s "[]"] assms p by auto
  have s: "segment_ok (special (url c)) s" using assms(5) p by simp
  have "step e c' = advance (c'\<lparr>url := (url c')\<lparr>path := path (url c') @ [s]\<rparr>, buffer := []\<rparr>)"
    using before_Nil(1) [OF b] st s assms(6)
    by (simp add: step_def step_PATH_def Let_def end_segment_plain [OF s] specialBackSlash_def)
  then show ?thesis using run_end [OF b] st p c by (simp add: advance_def)
qed

section \<open>Query and fragment\<close>

lemma run_query_chars:
  assumes "before e c (q @ r)" and "state c = STATE_QUERY" and "clean QUERY_ENCODE_SET q"
  shows "url_loop e c = url_loop e (c\<lparr>buffer := buffer c @ q, index := index c + int (length q)\<rparr>)
    \<and> before e (c\<lparr>buffer := buffer c @ q, index := index c + int (length q)\<rparr>) r"
  using assms
proof (induction q arbitrary: c)
  case (Cons x q)
  let ?c = "c\<lparr>buffer := buffer c @ [x], index := index c + 1\<rparr>"
  note b = before_Cons [OF Cons.prems(1) [simplified]]
  have "x \<noteq> 35" "x = 0 \<or> \<not> in_encode_set QUERY_ENCODE_SET x"
    using Cons.prems(3) encoded_marks(3) by (auto simp: clean_Cons)
  then have "step e c = Cont ?c"
    using Cons.prems(2) b(1) by (simp add: step_def step_QUERY_def advance_def clean_append_id)
  then have "url_loop e c = url_loop e ?c" using run_step Cons.prems(1) by blast
  moreover have "before e ?c (q @ r)" using b(3) by (simp add: before_def)
  then have "url_loop e ?c = url_loop e (?c\<lparr>buffer := buffer ?c @ q, index := index ?c + int (length q)\<rparr>)
      \<and> before e (?c\<lparr>buffer := buffer ?c @ q, index := index ?c + int (length q)\<rparr>) r"
    using Cons.prems(2,3) by (intro Cons.IH) (auto simp: clean_Cons)
  ultimately show ?case by (simp add: algebra_simps)
qed simp

lemma escape_fragment_id: "clean FRAGMENT_ENCODE_SET f \<Longrightarrow> escape_fragment b f = b @ f"
  by (induction f arbitrary: b) (auto simp: escape_fragment_def clean_Cons clean_append_id)

lemma run_fragment:
  assumes "before e c f" and "state c = STATE_FRAGMENT" and "buffer c = []" and "clean FRAGMENT_ENCODE_SET f"
  shows "url_loop e c = Some ((url c)\<lparr>fragment := Some f\<rparr>)"
  using fragment_loop [of c e f] assms escape_fragment_id [of f "[]"] by (simp add: before_def)

text \<open>What is written of an absent or empty part, and read back.\<close>

definition opt_text :: "nat \<Rightarrow> jsstr option \<Rightarrow> jsstr" where
  "opt_text mark t = (case t of None \<Rightarrow> [] | Some s \<Rightarrow> if s = [] then [] else mark # s)"

lemma run_query_fragment:
  assumes "before e c (q @ opt_text 35 f)" and "state c = STATE_QUERY" and "buffer c = []"
    and "\<not> hasStateOverride e" and "clean QUERY_ENCODE_SET q"
    and "pred_option (clean FRAGMENT_ENCODE_SET) f" and "f \<noteq> Some []" and "fragment (url c) = None"
  shows "url_loop e c = Some ((url c)\<lparr>query := Some q, fragment := f\<rparr>)"
proof -
  let ?c = "c\<lparr>buffer := q, index := index c + int (length q)\<rparr>"
  have c: "url_loop e c = url_loop e ?c" and b: "before e ?c (opt_text 35 f)"
    using run_query_chars [OF assms(1,2,5)] assms(3) by auto
  show ?thesis
  proof (cases f)
    case None
    let ?d = "?c\<lparr>url := (url c)\<lparr>query := Some q\<rparr>, buffer := [], index := index ?c + 1\<rparr>"
    have b: "before e ?c []" using b None by (simp add: opt_text_def)
    have "step e ?c = Cont ?d"
      using before_Nil(1) [OF b] assms(2) by (simp add: step_def step_QUERY_def advance_def Let_def)
    then show ?thesis using run_end [OF b] c None assms(8) by simp
  next
    case (Some t)
    let ?d = "?c\<lparr>url := (url c)\<lparr>query := Some q\<rparr>, buffer := [], state := STATE_FRAGMENT,
      index := index ?c + 1\<rparr>"
    have b: "before e ?c (35 # t)" using b Some assms(7) by (simp add: opt_text_def)
    have "step e ?c = Cont ?d"
      using before_Cons(1) [OF b] assms(2,4) by (simp add: step_def step_QUERY_def advance_def Let_def)
    then have "url_loop e ?c = url_loop e ?d" using run_step b by blast
    moreover have "before e ?d t" using before_Cons(3) [OF b] by (simp add: before_def)
    then have "url_loop e ?d = Some ((url ?d)\<lparr>fragment := Some t\<rparr>)"
      using assms(6) Some by (intro run_fragment) auto
    ultimately show ?thesis using c Some by simp
  qed
qed

text \<open>The rest of a URL from its path on.\<close>

lemma run_path_query_fragment:
  assumes "before e c (js_join [47] p @ opt_text 63 q @ opt_text 35 f)" and "p \<noteq> []"
    and "state c = STATE_PATH" and "buffer c = []" and "\<not> hasStateOverride e"
    and "list_all (segment_ok (special (url c))) p" and "scheme (url c) \<noteq> js ''file:''"
    and "pred_option (clean QUERY_ENCODE_SET) q" and "q \<noteq> Some []"
    and "pred_option (clean FRAGMENT_ENCODE_SET) f" and "f \<noteq> Some []"
    and "query (url c) = None" and "fragment (url c) = None"
  shows "url_loop e c = Some ((url c)\<lparr>path := path (url c) @ p, query := q, fragment := f\<rparr>)"
proof -
  obtain segs s where p: "p = segs @ [s]" using assms(2) by (metis rev_exhaust)
  obtain c' where c: "url_loop e c = url_loop e c'" and b: "before e c' (opt_text 63 q @ opt_text 35 f)"
    and st: "state c' = STATE_PATH" "buffer c' = s" "url c' = (url c)\<lparr>path := path (url c) @ segs\<rparr>"
    using run_segments [of e c segs s "opt_text 63 q @ opt_text 35 f"] assms p by auto
  have s: "segment_ok (special (url c)) s" using assms(6) p by simp
  let ?u = "(url c)\<lparr>path := path (url c) @ p\<rparr>"
  have fin: "end_segment False s (url c') = ?u"
    using end_segment_plain [OF s, of "url c'" False] st assms(7) p by simp
  show ?thesis
  proof (cases q)
    case (Some t)
    let ?d = "c'\<lparr>url := ?u\<lparr>query := Some []\<rparr>, buffer := [], state := STATE_QUERY, index := index c' + 1\<rparr>"
    have b: "before e c' (63 # t @ opt_text 35 f)" using b Some assms(9) by (simp add: opt_text_def)
    have "step e c' = Cont ?d"
      using before_Cons(1) [OF b] st assms(5,7) fin
      by (simp add: step_def step_PATH_def Let_def specialBackSlash_def advance_def)
    then have "url_loop e c' = url_loop e ?d" using run_step b by blast
    moreover have "before e ?d (t @ opt_text 35 f)" using before_Cons(3) [OF b] by (simp add: before_def)
    then have "url_loop e ?d = Some ((url ?d)\<lparr>query := Some t, fragment := f\<rparr>)"
      using assms Some by (intro run_query_fragment) auto
    ultimately show ?thesis using c Some by simp
  next
    case None
    show ?thesis
    proof (cases f)
      case None
      with \<open>q = None\<close> have b: "before e c' []" using b by (simp add: opt_text_def)
      have "step e c' = Cont (c'\<lparr>url := ?u, buffer := [], index := index c' + 1\<rparr>)"
        using before_Nil(1) [OF b] st assms(7) fin
        by (simp add: step_def step_PATH_def Let_def specialBackSlash_def advance_def)
      then show ?thesis using run_end [OF b] c None \<open>q = None\<close> assms(12,13) by simp
    next
      case (Some t)
      let ?d = "c'\<lparr>url := ?u\<lparr>fragment := Some []\<rparr>, buffer := [], state := STATE_FRAGMENT,
        index := index c' + 1\<rparr>"
      have b: "before e c' (35 # t)" using b Some None assms(11) by (simp add: opt_text_def)
      have "step e c' = Cont ?d"
        using before_Cons(1) [OF b] st assms(5,7) fin
        by (simp add: step_def step_PATH_def Let_def specialBackSlash_def advance_def)
      then have "url_loop e c' = url_loop e ?d" using run_step b by blast
      moreover have "before e ?d t" using before_Cons(3) [OF b] by (simp add: before_def)
      then have "url_loop e ?d = Some ((url ?d)\<lparr>fragment := Some t\<rparr>)"
        using assms(10) Some by (intro run_fragment) auto
      ultimately show ?thesis using c Some None assms(12) by simp
    qed
  qed
qed

section \<open>Scheme, authority and host\<close>

definition lower_alpha :: "jsstr \<Rightarrow> bool" where
  "lower_alpha s \<longleftrightarrow> list_all (\<lambda>c. 97 \<le> c \<and> c \<le> 122) s"

lemma run_scheme_chars:
  assumes "before e c (s @ r)" and "state c = STATE_SCHEME" and "lower_alpha s"
  shows "url_loop e c = url_loop e (c\<lparr>buffer := buffer c @ s, index := index c + int (length s)\<rparr>)
    \<and> before e (c\<lparr>buffer := buffer c @ s, index := index c + int (length s)\<rparr>) r"
  using assms
proof (induction s arbitrary: c)
  case (Cons x s)
  let ?c = "c\<lparr>buffer := buffer c @ [x], index := index c + 1\<rparr>"
  note b = before_Cons [OF Cons.prems(1) [simplified]]
  have "97 \<le> x" "x \<le> 122" using Cons.prems(3) by (auto simp: lower_alpha_def)
  then have "step e c = Cont ?c"
    using Cons.prems(2) b(1)
    by (simp add: step_def step_SCHEME_def isASCIIAlphanumeric_def isASCIIAlpha_def ASCIILowercase_def
        advance_def)
  then have "url_loop e c = url_loop e ?c" using run_step Cons.prems(1) by blast
  moreover have "before e ?c (s @ r)" using b(3) by (simp add: before_def)
  then have "url_loop e ?c = url_loop e (?c\<lparr>buffer := buffer ?c @ s, index := index ?c + int (length s)\<rparr>)
      \<and> before e (?c\<lparr>buffer := buffer ?c @ s, index := index ?c + int (length s)\<rparr>) r"
    using Cons.prems(2,3) by (intro Cons.IH) (auto simp: lower_alpha_def)
  ultimately show ?case by (simp add: algebra_simps)
qed simp

text \<open>A special scheme other than \<open>file:\<close>, without a base, and the two slashes.\<close>

lemma run_scheme:
  assumes "before e c (x # s @ 58 # 47 # 47 # a # r)" and "state c = STATE_SCHEME_START"
    and "buffer c = []" and "\<not> hasStateOverride e" and "base e = None" and "lower_alpha (x # s)"
    and "isSpecial (x # s @ [58])" and "x # s @ [58] \<noteq> js ''file:''" and "a \<noteq> 47" and "a \<noteq> 92"
    and "port (url c) = None"
  shows "\<exists>c'. url_loop e c = url_loop e c' \<and> before e c' (a # r) \<and> state c' = STATE_AUTHORITY \<and>
    buffer c' = [] \<and> atflag c' = atflag c \<and> squareBracketFlag c' = squareBracketFlag c \<and>
    url c' = (url c)\<lparr>scheme := x # s @ [58], special := True\<rparr>"
proof -
  let ?t = "58 # 47 # 47 # a # r"
  let ?c1 = "c\<lparr>buffer := [x], state := STATE_SCHEME, index := index c + 1\<rparr>"
  let ?c2 = "?c1\<lparr>buffer := x # s, index := index ?c1 + int (length s)\<rparr>"
  let ?u = "(url c)\<lparr>scheme := x # s @ [58], special := True\<rparr>"
  let ?c3 = "?c2\<lparr>url := ?u, buffer := [], state := STATE_SPECIAL_AUTHORITY_SLASHES, index := index ?c2 + 1\<rparr>"
  let ?c4 = "?c3\<lparr>state := STATE_SPECIAL_AUTHORITY_IGNORE_SLASHES, index := index ?c3 + 2\<rparr>"
  let ?c5 = "?c4\<lparr>state := STATE_AUTHORITY\<rparr>"
  note b0 = before_Cons [OF assms(1)]
  have "97 \<le> x" "x \<le> 122" using assms(6) by (auto simp: lower_alpha_def)
  then have "step e c = Cont ?c1" using b0(1) assms(2,3)
    by (simp add: step_def step_SCHEME_START_def isASCIIAlpha_def ASCIILowercase_def advance_def)
  then have r1: "url_loop e c = url_loop e ?c1" using run_step assms(1) by blast
  have "before e ?c1 (s @ ?t)" using b0(3) by (simp add: before_def)
  then have r2: "url_loop e ?c1 = url_loop e ?c2" and b2: "before e ?c2 ?t"
    using run_scheme_chars [of e ?c1 s ?t] assms(6) by (auto simp: lower_alpha_def)
  have "step e ?c2 = Cont ?c3"
    using before_Cons(1) [OF b2] assms(4,5,7,8,11)
    by (auto simp: step_def step_SCHEME_def scheme_done_def isASCIIAlphanumeric_def isASCIIAlpha_def
        isASCIIDigit_def base_is_def Let_def advance_def)
  then have r3: "url_loop e ?c2 = url_loop e ?c3" using run_step b2 by blast
  have b3: "before e ?c3 (47 # 47 # a # r)" using before_Cons(3) [OF b2] by (simp add: before_def)
  have "step e ?c3 = Cont ?c4"
    using before_Cons(1) [OF b3] before_second [OF b3]
    by (simp add: step_def step_SPECIAL_AUTHORITY_SLASHES_def advance_def Let_def)
  then have r4: "url_loop e ?c3 = url_loop e ?c4" using run_step b3 by blast
  have "before e (?c3\<lparr>index := index ?c3 + 1\<rparr>) (47 # a # r)" using before_Cons(3) [OF b3] .
  from before_Cons(3) [OF this] have b4: "before e ?c4 (a # r)" by (simp add: before_def)
  have "step e ?c4 = Cont ?c5"
    using before_Cons(1) [OF b4] assms(9,10) by (simp add: step_def step_SPECIAL_AUTHORITY_IGNORE_SLASHES_def)
  then have r5: "url_loop e ?c4 = url_loop e ?c5" using run_step b4 by blast
  have "before e ?c5 (a # r)" using b4 by (simp add: before_def)
  then show ?thesis using r1 r2 r3 r4 r5 by (intro exI [of _ ?c5]) simp
qed

text \<open>The characters of a host: no separator, and a colon only between square brackets.\<close>

definition host_char :: "nat \<Rightarrow> bool" where
  "host_char c \<longleftrightarrow> c \<notin> {47, 63, 35, 64, 92}"

lemma run_authority_chars:
  assumes "before e c (h @ r)" and "state c = STATE_AUTHORITY" and "list_all host_char h"
  shows "url_loop e c = url_loop e (c\<lparr>buffer := buffer c @ h, index := index c + int (length h)\<rparr>)
    \<and> before e (c\<lparr>buffer := buffer c @ h, index := index c + int (length h)\<rparr>) r"
  using assms
proof (induction h arbitrary: c)
  case (Cons x h)
  let ?c = "c\<lparr>buffer := buffer c @ [x], index := index c + 1\<rparr>"
  note b = before_Cons [OF Cons.prems(1) [simplified]]
  have "step e c = Cont ?c"
    using Cons.prems(2,3) b(1)
    by (simp add: step_def step_AUTHORITY_def ends_authority_def specialBackSlash_def host_char_def
        advance_def)
  then have "url_loop e c = url_loop e ?c" using run_step Cons.prems(1) by blast
  moreover have "before e ?c (h @ r)" using b(3) by (simp add: before_def)
  then have "url_loop e ?c = url_loop e (?c\<lparr>buffer := buffer ?c @ h, index := index ?c + int (length h)\<rparr>)
      \<and> before e (?c\<lparr>buffer := buffer ?c @ h, index := index ?c + int (length h)\<rparr>) r"
    using Cons.prems(2,3) by (intro Cons.IH) auto
  ultimately show ?case by (simp add: algebra_simps)
qed simp

text \<open>The bracket flag after a text.\<close>

definition bracket :: "bool \<Rightarrow> nat \<Rightarrow> bool" where
  "bracket b c = (if c = 91 then True else if c = 93 then False else b)"

fun colons_bracketed :: "bool \<Rightarrow> jsstr \<Rightarrow> bool" where
  "colons_bracketed b [] = True"
| "colons_bracketed b (c # s) \<longleftrightarrow> (c = 58 \<longrightarrow> b) \<and> colons_bracketed (bracket b c) s"

lemma run_host_chars:
  assumes "before e c (h @ r)" and "state c = STATE_HOST" and "list_all host_char h"
    and "colons_bracketed (squareBracketFlag c) h" and "\<not> hasStateOverride e"
  shows "\<exists>b. url_loop e c = url_loop e (c\<lparr>squareBracketFlag := b, buffer := buffer c @ h,
      index := index c + int (length h)\<rparr>)
    \<and> before e (c\<lparr>squareBracketFlag := b, buffer := buffer c @ h, index := index c + int (length h)\<rparr>) r"
  using assms
proof (induction h arbitrary: c)
  case Nil
  then show ?case by (intro exI [of _ "squareBracketFlag c"]) simp
next
  case (Cons x h)
  let ?c = "c\<lparr>squareBracketFlag := bracket (squareBracketFlag c) x, buffer := buffer c @ [x], index := index c + 1\<rparr>"
  note b = before_Cons [OF Cons.prems(1) [simplified]]
  have "step e c = Cont ?c"
    using Cons.prems b(1)
    by (auto simp: step_def step_HOST_def ends_authority_def specialBackSlash_def host_char_def
        advance_def Let_def bracket_def)
  then have "url_loop e c = url_loop e ?c" using run_step Cons.prems(1) by blast
  moreover have "before e ?c (h @ r)" using b(3) by (simp add: before_def)
  then have "\<exists>b. url_loop e ?c = url_loop e (?c\<lparr>squareBracketFlag := b, buffer := buffer ?c @ h,
        index := index ?c + int (length h)\<rparr>)
      \<and> before e (?c\<lparr>squareBracketFlag := b, buffer := buffer ?c @ h, index := index ?c + int (length h)\<rparr>) r"
    using Cons.prems by (intro Cons.IH) auto
  ultimately show ?case by (auto simp: algebra_simps)
qed

lemma before_rewind:
  assumes "before e c r" and "before e (c\<lparr>index := index c + int (length h)\<rparr>) t"
  shows "before e ((c\<lparr>index := index c + int (length h)\<rparr>)\<lparr>index := index c\<rparr>) r"
  using assms by (simp add: before_def)

text \<open>From the authority to the slash that starts the path: the host is read twice.\<close>

lemma run_host:
  assumes "before e c (h @ 47 # r)" and "state c = STATE_AUTHORITY" and "buffer c = []" and "\<not> atflag c"
    and "\<not> squareBracketFlag c" and "\<not> hasStateOverride e" and "list_all host_char h"
    and "colons_bracketed False h" and "h \<noteq> []" and "special (url c)" and "isSpecial (scheme (url c))"
    and "parseHost (upper e) h True = Some hst"
  shows "\<exists>c'. url_loop e c = url_loop e c' \<and> before e c' r \<and> state c' = STATE_PATH \<and> buffer c' = [] \<and>
    url c' = (url c)\<lparr>host := Some hst\<rparr>"
proof -
  let ?c1 = "c\<lparr>buffer := h, index := index c + int (length h)\<rparr>"
  let ?c2 = "c\<lparr>state := STATE_HOST\<rparr>"
  have r1: "url_loop e c = url_loop e ?c1" and b1: "before e ?c1 (47 # r)"
    using run_authority_chars [OF assms(1,2,7)] assms(3) by auto
  have "step e ?c1 = Cont ?c2"
    using before_Cons(1) [OF b1] assms(2-4)
    by (simp add: step_def step_AUTHORITY_def ends_authority_def advance_def)
  then have r2: "url_loop e ?c1 = url_loop e ?c2" using run_step b1 by blast
  have "before e ?c2 (h @ 47 # r)" using assms(1) by (simp add: before_def)
  then obtain b where r3: "url_loop e ?c2 = url_loop e (?c2\<lparr>squareBracketFlag := b, buffer := h,
        index := index ?c2 + int (length h)\<rparr>)"
    and b3: "before e (?c2\<lparr>squareBracketFlag := b, buffer := h, index := index ?c2 + int (length h)\<rparr>) (47 # r)"
    using run_host_chars [of e ?c2 h "47 # r"] assms by auto
  let ?c3 = "?c2\<lparr>squareBracketFlag := b, buffer := h, index := index ?c2 + int (length h)\<rparr>"
  let ?c4 = "?c3\<lparr>url := (url c)\<lparr>host := Some hst\<rparr>, buffer := [], state := STATE_PATH_START\<rparr>"
  let ?c5 = "?c4\<lparr>state := STATE_PATH, index := index ?c4 + 1\<rparr>"
  have "step e ?c3 = Cont ?c4"
    using before_Cons(1) [OF b3] assms(6,9,10,12)
    by (simp add: step_def step_HOST_def ends_authority_def advance_def Let_def)
  then have r4: "url_loop e ?c3 = url_loop e ?c4" using run_step b3 by blast
  have b4: "before e ?c4 (47 # r)" using b3 by (simp add: before_def)
  have "step e ?c4 = Cont ?c5"
    using before_Cons(1) [OF b4] assms(11)
    by (simp add: step_def step_PATH_START_def advance_def Let_def)
  then have r5: "url_loop e ?c4 = url_loop e ?c5" using run_step b4 by blast
  have "before e ?c5 r" using before_Cons(3) [OF b4] by (simp add: before_def)
  then show ?thesis using r1 r2 r3 r4 r5 by (intro exI [of _ ?c5]) simp
qed

end
