(* ===== verification/Url_Roundtrip.thy ===== *)
theory Url_Roundtrip
  imports Url Url_Runs
begin

text \<open>
  What the class \<open>URL\<close> guarantees: its \<open>href\<close> is parsed back to the same record, its path name
  splits into the parsed path, its query stays in step with its parameters, and file paths survive
  the two conversions.
\<close>

section \<open>Paths and path names\<close>

lemma segment_no_slash: "segment_ok sp s \<Longrightarrow> 47 \<notin> set s"
  by (simp add: segment_ok_def segment_chars_def)

lemma pathname_split:
  assumes "url_inv u" and "\<not> cannotBeBase u" and "path u \<noteq> []"
  shows "js_split 47 (serializeURLPath u) = [] # path u"
proof -
  have "\<forall>p \<in> set (path u). 47 \<notin> set p"
    using assms(1,2) segment_no_slash by (auto simp: url_inv_def path_ok_def list_all_iff)
  then have "js_split 47 (js_join [47] (path u)) = path u" using assms(3) by (intro js_split_join) auto
  then show ?thesis using assms(2,3) split_on_append [of "[]" "\<lambda>x. x = 47" 47] by (simp add: serializeURLPath_def)
qed

lemma parse_or_throw_inv:
  assumes "parse_or_throw up s b None = Inr u" and "pred_option valid_base b"
  shows "valid_base u \<and> \<not> failed u"
  using assms basicURLParse_inv [OF assms(2), of None up s]
  by (auto simp: parse_or_throw_def valid_base_def split: option.splits if_splits)

lemma new_URL_inv:
  assumes "new_URL up s b = Inr obj"
  shows "valid_base (kURL obj) \<and> \<not> failed (kURL obj)"
  using assms parse_or_throw_inv [where s = s]
  by (auto simp: new_URL_def js_bind_Inr parse_or_throw_inv split: option.splits)

section \<open>File paths\<close>

lemma escape_percent_Nil [simp]: "escape_percent [] = []"
  by (simp add: escape_percent_def)

lemma escape_percent_Cons [simp]:
  "escape_percent (c # s) = (if c = 37 then 37 # 50 # 53 # escape_percent s else c # escape_percent s)"
  by (simp add: escape_percent_def)

lemma escape_percent_append [simp]: "escape_percent (s @ t) = escape_percent s @ escape_percent t"
  by (simp add: escape_percent_def)

lemma escape_percent_none: "37 \<notin> set s \<Longrightarrow> escape_percent s = s"
  by (induction s) auto

lemma escape_percent_join: "escape_percent (js_join [47] p) = js_join [47] (map escape_percent p)"
  by (induction "[47::nat]" p rule: js_join.induct) auto

lemma decode_escape_percent: "decodeURIComponent (escape_percent s) = Some s"
proof (induction s)
  case (Cons c s)
  have "take_escape (37 # 50 # 53 # r) = Some ([37], r)" for r
    using take_escape1 [of 37 r] by (simp add: hexTable_def upper_hex_def)
  then show ?case using Cons decode_escape [of "37 # 50 # 53 # escape_percent s"] by (simp add: decode_char)
qed simp

text \<open>After every \<open>'%'\<close> of an escaped text comes \<open>'25'\<close>.\<close>

lemma escape_percent_25:
  "char_at (escape_percent s) i = Some 37 \<Longrightarrow>
    char_at (escape_percent s) (i + 1) = Some 50 \<and> char_at (escape_percent s) (i + 2) = Some 53"
proof (induction s arbitrary: i)
  case (Cons c s)
  show ?case
  proof (cases "c = 37")
    case True
    then consider "i = 0" | "i = 1" | "i = Suc (Suc 0)" | j where "i = Suc (Suc (Suc j))"
      by (metis One_nat_def not0_implies_Suc)
    then show ?thesis using True Cons by cases auto
  next
    case False
    then show ?thesis using Cons by (cases i) auto
  qed
qed simp

lemma escaped_dot_char_at:
  "escaped_dot s i \<Longrightarrow> i + 2 < length s \<Longrightarrow> char_at s i = Some 37 \<and> char_at s (i + 2) \<noteq> Some 53"
  by (auto simp: escaped_dot_def char_at_def ASCIILowercase_def)

lemma escaped_percent_no_escaped_dot: "i + 2 < length (escape_percent s) \<Longrightarrow> \<not> escaped_dot (escape_percent s) i"
  using escape_percent_25 [of s i] escaped_dot_char_at [of "escape_percent s" i] by blast

lemma escape_percent_dots:
  assumes "s \<noteq> [46]" and "s \<noteq> [46, 46]"
  shows "\<not> isSingleDotSegment (escape_percent s) \<and> \<not> isDoubleDotSegment (escape_percent s)"
proof -
  have plain: "escape_percent s \<noteq> [46] \<and> escape_percent s \<noteq> [46, 46]"
  proof (cases "37 \<in> set s")
    case True
    then have "37 \<in> set (escape_percent s)" by (induction s) auto
    then show ?thesis by auto
  next
    case False
    then show ?thesis using assms by (simp add: escape_percent_none)
  qed
  then show ?thesis
    using escaped_percent_no_escaped_dot [of 0 s] escaped_percent_no_escaped_dot [of 1 s]
      escaped_percent_no_escaped_dot [of 3 s]
    by (auto simp: isSingleDotSegment_def isDoubleDotSegment_def)
qed

text \<open>A file name that survives: no character that is escaped in a path, no slash, not a dot segment.\<close>

definition file_name_ok :: "jsstr \<Rightarrow> bool" where
  "file_name_ok s \<longleftrightarrow> list_all (\<lambda>c. \<not> in_encode_set PATH_ENCODE_SET c \<and> c \<noteq> 47) s \<and>
     s \<noteq> js ''.'' \<and> s \<noteq> js ''..''"

lemma percent_digits_plain:
  "\<not> in_encode_set PATH_ENCODE_SET 37" "\<not> in_encode_set PATH_ENCODE_SET 50" "\<not> in_encode_set PATH_ENCODE_SET 53"
  by code_simp+

lemma escape_percent_chars: "c \<in> set (escape_percent s) \<Longrightarrow> c \<in> set s \<or> c \<in> {37, 50, 53}"
  by (induction s) (auto split: if_splits)

lemma file_name_segment:
  assumes "file_name_ok s"
  shows "segment_ok False (escape_percent s)"
  using assms escape_percent_chars [of _ s] percent_digits_plain escape_percent_dots [of s]
  by (fastforce simp: file_name_ok_def segment_ok_def segment_chars_def clean_def list_all_iff)

text \<open>Characters that the parser strips are escaped in a path.\<close>

lemma low_chars_encoded: "c \<le> 0x20 \<Longrightarrow> in_encode_set PATH_ENCODE_SET c"
proof -
  have "list_all (in_encode_set PATH_ENCODE_SET) [0..<33]" by code_simp
  moreover assume "c \<le> 0x20"
  then have "c \<in> set [0..<33]" unfolding set_upt by simp
  ultimately show ?thesis unfolding list_all_iff by blast
qed

lemma strip_input_none: "\<forall>c \<in> set s. c > 0x20 \<Longrightarrow> strip_input s = s"
proof -
  assume a: "\<forall>c \<in> set s. c > 0x20"
  have d: "dropWhile (\<lambda>c. c \<le> 0x20) t = t" if "set t \<subseteq> set s" for t
    using that a by (cases t) auto
  have "filter (\<lambda>c. c \<noteq> 0x09 \<and> c \<noteq> 0x0A \<and> c \<noteq> 0x0D) s = s" using a by (intro filter_True) auto
  then show ?thesis using d [of s] d [of "rev s"] by (simp add: strip_input_def)
qed

definition start_parser :: "state \<Rightarrow> parser" where
  "start_parser st = \<lparr>url = new_url, state = st, atflag = False, squareBracketFlag = False,
     passwordTokenSeenFlag = False, index = 0, buffer = []\<rparr>"

lemma basicURLParse_start:
  "st \<noteq> STATE_OUT_OF_RANGE \<Longrightarrow> basicURLParse up s b (Some st) =
    url_loop \<lparr>input = strip_input s, base = b, stateOverride = Some st, upper = up\<rparr> (start_parser st)"
  "basicURLParse up s b None =
    url_loop \<lparr>input = strip_input s, base = b, stateOverride = None, upper = up\<rparr>
      (start_parser STATE_SCHEME_START)"
  by (simp_all add: basicURLParse_def start_parser_def new_url_def)

lemma path_start_in_range: "STATE_PATH_START \<noteq> STATE_OUT_OF_RANGE"
  by simp

lemma parse_pathname:
  assumes "p \<noteq> []" and "list_all file_name_ok p"
  shows "parse_or_throw up (escape_percent (47 # js_join [47] p)) None (Some STATE_PATH_START) =
    Inr (new_url\<lparr>path := map escape_percent p\<rparr>)"
proof -
  let ?s = "escape_percent (47 # js_join [47] p)"
  have s: "?s = 47 # js_join [47] (map escape_percent p)" by (simp add: escape_percent_join)
  have seg: "list_all (segment_ok False) (map escape_percent p)"
    using assms(2) file_name_segment by (simp add: list_all_iff)
  have "c \<in> set (js_join [47] q) \<Longrightarrow> c = 47 \<or> (\<exists>t \<in> set q. c \<in> set t)" for c and q :: "jsstr list"
    by (induction "[47::nat]" q rule: js_join.induct) auto
  then have chars: "c = 47 \<or> (\<exists>t \<in> set p. c \<in> set t) \<or> c \<in> {37, 50, 53}" if "c \<in> set ?s" for c
    using that escape_percent_chars [of c "47 # js_join [47] p"] by fastforce
  have "\<forall>c \<in> set ?s. c > 0x20"
  proof
    fix c assume "c \<in> set ?s"
    then consider "c = 47" | t where "t \<in> set p" "c \<in> set t" | "c \<in> {37, 50, 53}" using chars by blast
    then show "c > 0x20"
    proof cases
      case 2
      then have "\<not> in_encode_set PATH_ENCODE_SET c" using assms(2) by (auto simp: list_all_iff file_name_ok_def)
      then show ?thesis using low_chars_encoded by (meson not_le)
    qed auto
  qed
  then have strip: "strip_input ?s = ?s" by (rule strip_input_none)
  define e where "e = \<lparr>input = ?s, base = None, stateOverride = Some STATE_PATH_START, upper = up\<rparr>"
  let ?c = "start_parser STATE_PATH_START"
  let ?d = "?c\<lparr>state := STATE_PATH, index := 1\<rparr>"
  have b: "before e ?c (47 # js_join [47] (map escape_percent p))"
    unfolding before_def by (simp add: start_parser_def e_def escape_percent_join)
  have "step e ?c = Cont ?d"
    using before_Cons(1) [OF b]
    by (simp add: start_parser_def step_def step_PATH_START_def Let_def advance_def new_url_def e_def
        hasStateOverride_def)
  then have "url_loop e ?c = url_loop e ?d" using run_step b by blast
  moreover have "before e ?d (js_join [47] (map escape_percent p))"
    using before_Cons(3) [OF b] by (simp add: before_def start_parser_def)
  then have "url_loop e ?d = Some ((url ?d)\<lparr>path := path (url ?d) @ map escape_percent p\<rparr>)"
    using assms(1) seg by (intro run_path_end) (auto simp: start_parser_def new_url_def)
  moreover have "basicURLParse up ?s None (Some STATE_PATH_START) = url_loop e ?c"
    unfolding basicURLParse_start(1) [OF path_start_in_range] strip e_def ..
  ultimately have "basicURLParse up ?s None (Some STATE_PATH_START) = Some (new_url\<lparr>path := map escape_percent p\<rparr>)"
    by (simp add: start_parser_def new_url_def del: escape_percent_Cons)
  then show ?thesis by (simp add: parse_or_throw_def new_url_def del: escape_percent_Cons)
qed

lemma new_URL_file: "\<exists>obj. new_URL up (js ''file://'') None = Inr obj \<and>
    scheme (kURL obj) = js ''file:'' \<and> \<not> cannotBeBase (kURL obj)"
proof -
  have "map_option (\<lambda>u. (failed u, scheme u, cannotBeBase u, query u)) (basicURLParse up (js ''file://'') None None) =
      Some (False, js ''file:'', False, None)"
    by code_simp
  then show ?thesis
    by (auto simp: new_URL_def parse_or_throw_def new_URLSearchParams_def parseParams_def)
qed

lemma no_escaped_slash: "\<not> list_ex (escaped_slash_at (escape_percent s)) ns"
  using escape_percent_25 [of s] by (auto simp: escaped_slash_at_def list_ex_iff)

lemma file_path_codec:
  assumes "p \<noteq> []" and "list_all file_name_ok p"
  shows "\<exists>obj. getURLFromFilePath up (47 # js_join [47] p) = Inr obj \<and>
    getFilePathFromURL obj = Inr (47 # js_join [47] p)"
proof -
  let ?f = "47 # js_join [47] p"
  obtain tmp where tmp: "new_URL up (js ''file://'') None = Inr tmp"
    "scheme (kURL tmp) = js ''file:''" "\<not> cannotBeBase (kURL tmp)" using new_URL_file by blast
  let ?obj = "tmp\<lparr>kURL := (kURL tmp)\<lparr>path := map escape_percent p\<rparr>\<rparr>"
  have esc: "(if 37 \<in> set ?f then escape_percent ?f else ?f) = escape_percent ?f"
    using escape_percent_none [of ?f] by auto
  have "getURLFromFilePath up ?f = set_pathname up (escape_percent ?f) tmp"
    unfolding getURLFromFilePath_def tmp(1) js_bind_simps esc ..
  also have "\<dots> = Inr ?obj"
    unfolding set_pathname_def Let_def parse_pathname [OF assms] using tmp(3) by (simp add: new_url_def)
  finally have url: "getURLFromFilePath up ?f = Inr ?obj" .
  have pathname: "get_pathname ?obj = escape_percent ?f"
    using tmp(3) assms(1) by (simp add: get_pathname_def serializeURLPath_def escape_percent_join)
  have protocol: "get_protocol ?obj = js ''file:''" using tmp(2) by (simp add: get_protocol_def)
  have "getFilePathFromURL ?obj = Inr ?f"
    unfolding getFilePathFromURL_def pathname protocol Let_def decode_escape_percent
    using no_escaped_slash [of ?f] by (simp only: if_False option.case refl not_True_eq_False)
  then show ?thesis using url by blast
qed

section \<open>Reading back an \<open>href\<close>\<close>

text \<open>
  The records whose \<open>href\<close> is complete: a special scheme other than \<open>file:\<close>, a host that is
  printed, no credentials and no port (the code never prints one), and no empty query or fragment.
\<close>

definition printable_url :: "url \<Rightarrow> bool" where
  "printable_url u \<longleftrightarrow> url_inv u \<and> special u \<and> scheme u \<noteq> js ''file:'' \<and> \<not> cannotBeBase u \<and>
     host_truthy (host u) \<and> username u = [] \<and> password u = [] \<and> port u = None \<and> path u \<noteq> [] \<and>
     query u \<noteq> Some [] \<and> fragment u \<noteq> Some [] \<and> \<not> hasUsername u \<and> \<not> hasPassword u \<and>
     \<not> failed u \<and> \<not> invalid u \<and> \<not> terminated u"

lemma host_text_chars:
  assumes "host_ok True h" and "host_truthy (Some h)"
  shows "list_all host_char (serializeURLHost h) \<and> colons_bracketed False (serializeURLHost h) \<and>
    (\<exists>a r. serializeURLHost h = a # r \<and> a \<noteq> 47 \<and> a \<noteq> 92)"
proof -
  have plain: "list_all host_char s \<and> colons_bracketed False s"
    if "\<forall>c \<in> set s. c \<notin> {47, 63, 35, 64, 92, 58, 91, 93}" for s
  proof
    show "list_all host_char s" using that by (auto simp: list_all_iff host_char_def)
    have "\<forall>c \<in> set s. c \<notin> {58, 91, 93}" using that by blast
    then show "colons_bracketed False s" by (induction s) (auto simp: bracket_def)
  qed
  have inside: "colons_bracketed True (s @ [93])" if "\<forall>c \<in> set s. c \<notin> {91, 93}" for s
    using that by (induction s) (auto simp: bracket_def)
  show ?thesis
  proof (cases h)
    case (HostString s)
    then have s: "s \<noteq> []" "\<not> containsForbiddenHostCodePoint s"
      using assms by (auto simp: host_ok_def host_truthy_def)
    then have c: "\<forall>c \<in> set s. c \<notin> {47, 63, 35, 64, 92, 58, 91, 93}"
      by (auto simp: containsForbiddenHostCodePoint_def list_ex_iff)
    then show ?thesis using plain [OF c] s(1) HostString
      by (cases s) (auto simp: serializeURLHost_def)
  next
    case (HostNumber n)
    let ?s = "serialize_ipv4 4 n []"
    have c: "\<forall>c \<in> set ?s. c \<notin> {47, 63, 35, 64, 92, 58, 91, 93}"
      using serialize_ipv4_chars [of _ n] by fastforce
    then show ?thesis using plain [OF c] serialize_ipv4_not_Nil [of n] HostNumber
      by (cases ?s) (auto simp: serializeURLHost_def)
  next
    case (HostPieces ps)
    let ?s = "serialize_pieces (fst (findLongestZeroSequence ps)) 0 False ps"
    define P where "P = (\<lambda>c::nat. c \<notin> {47, 63, 35, 64, 92, 91, 93})"
    have hex: "list_all P (to_radix 16 x)" for x
      using hex_digits [of _ x] by (fastforce simp: list_all_iff P_def isASCIIHex_def isASCIIDigit_def)
    have "P 58" by (simp add: P_def)
    then have "list_all P (serialize_pieces k i b xs)" for k i b xs
      by (induction k i b xs rule: serialize_pieces.induct) (simp_all add: hex)
    then have c: "\<forall>c \<in> set ?s. c \<notin> {47, 63, 35, 64, 92, 91, 93}"
      unfolding list_all_iff P_def by blast
    have "list_all host_char (91 # ?s @ [93])"
      using c by (auto simp: list_all_iff host_char_def)
    moreover have "colons_bracketed True (?s @ [93])"
      using c by (intro inside) auto
    ultimately show ?thesis using HostPieces by (simp add: serializeURLHost_def bracket_def)
  qed
qed

lemma special_scheme_text:
  assumes "isSpecial s" and "s \<noteq> js ''file:''"
  shows "\<exists>x t. s = x # t @ [58] \<and> lower_alpha (x # t)"
proof -
  have "s = hd s # tl (butlast s) @ [58] \<and> lower_alpha (hd s # tl (butlast s))"
    using assms by (auto simp: isSpecial_def specials_def lower_alpha_def split: if_splits)
  then show ?thesis by blast
qed

lemma href_parts:
  assumes "printable_url u"
  shows "serializeURL True True True u = scheme u @ 47 # 47 # serializeURLHost (the (host u))
    @ 47 # js_join [47] (path u) @ opt_text 63 (query u) @ opt_text 35 (fragment u)"
  using assms
  by (simp add: printable_url_def serializeURL_def serializeURLPath_def opt_text_def url_inv_def)

lemma href_roundtrip_lemma:
  assumes u: "printable_url u" and strip: "strip_input (serializeURL True True True u) = serializeURL True True True u"
  shows "basicURLParse up (serializeURL True True True u) None None = Some u"
proof -
  obtain h where h: "host u = Some h" "host_ok True h" "host_truthy (Some h)"
    using u by (cases "host u") (auto simp: printable_url_def url_inv_def host_truthy_def)
  obtain x t where s: "scheme u = x # t @ [58]" "lower_alpha (x # t)"
    using special_scheme_text [of "scheme u"] u by (auto simp: printable_url_def url_inv_def)
  obtain a r where hd: "serializeURLHost h = a # r" "a \<noteq> 47" "a \<noteq> 92"
    and hc: "list_all host_char (serializeURLHost h)" "colons_bracketed False (serializeURLHost h)"
    using host_text_chars [OF h(2,3)] by auto
  have sp: "isSpecial (scheme u)" "scheme u \<noteq> js ''file:''" using u by (auto simp: printable_url_def url_inv_def)
  let ?tail = "js_join [47] (path u) @ opt_text 63 (query u) @ opt_text 35 (fragment u)"
  define e where "e = \<lparr>input = serializeURL True True True u, base = None, stateOverride = None, upper = up\<rparr>"
  let ?c = "start_parser STATE_SCHEME_START"
  have "before e ?c (x # t @ 58 # 47 # 47 # a # r @ 47 # ?tail)"
    unfolding before_def using href_parts [OF u] h(1) hd(1) s(1) by (simp add: start_parser_def e_def)
  then obtain c1 where c1: "url_loop e ?c = url_loop e c1" "before e c1 (a # r @ 47 # ?tail)"
    "state c1 = STATE_AUTHORITY" "buffer c1 = []" "atflag c1 = atflag ?c" "squareBracketFlag c1 = squareBracketFlag ?c"
    "url c1 = new_url\<lparr>scheme := scheme u, special := True\<rparr>"
    using run_scheme [of e ?c x t a "r @ 47 # ?tail"] s sp hd
    by (auto simp: start_parser_def e_def hasStateOverride_def new_url_def)
  have "parseHost (upper e) (serializeURLHost h) True = Some h" using parseHost_host_ok [OF h(2)] by simp
  then obtain c2 where c2: "url_loop e c1 = url_loop e c2" "before e c2 ?tail" "state c2 = STATE_PATH"
    "buffer c2 = []" "url c2 = (url c1)\<lparr>host := Some h\<rparr>"
    using run_host [of e c1 "serializeURLHost h" ?tail h] c1 hc hd sp(1)
    by (auto simp: start_parser_def e_def hasStateOverride_def)
  have "url_loop e c2 = Some ((url c2)\<lparr>path := path (url c2) @ path u, query := query u, fragment := fragment u\<rparr>)"
  proof (rule run_path_query_fragment)
    show "before e c2 ?tail" by (rule c2)
    show "list_all (segment_ok (special (url c2))) (path u)"
      using u c2(5) c1(7) by (auto simp: printable_url_def url_inv_def path_ok_def)
  qed (use u c2 c1 sp in \<open>auto simp: printable_url_def url_inv_def e_def hasStateOverride_def new_url_def\<close>)
  then have "url_loop e ?c = Some u"
    using c1(1,7) c2(1,5) u h(1) by (cases u) (simp add: printable_url_def url_inv_def new_url_def)
  then show ?thesis unfolding basicURLParse_start(2) strip e_def .
qed

section \<open>Parameters in step with the query\<close>

lemma params_ok_set: "params_ok l \<Longrightarrow> well_formed16 k \<Longrightarrow> well_formed16 v \<Longrightarrow> params_ok (params_set k v l)"
proof -
  assume k: "well_formed16 k" and v: "well_formed16 v"
  have "params_ok l \<Longrightarrow> set_loop k v len i remove l = (r, l') \<Longrightarrow> params_ok l'" for len i remove l r l'
    using v
  proof (induction k v len i remove l arbitrary: r l' rule: set_loop.induct)
    case (1 name val len i remove l)
    have d: "params_ok (take i l @ drop (i + 1) l)" "params_ok (l[i := (fst (l ! i), val)])" if "i < length l"
      using 1(4,6) that nth_mem [OF that]
      by (auto simp: params_ok_def list_all_iff dest!: in_set_takeD in_set_dropD set_update_subset_insert [THEN subsetD])
    show ?case using 1 d by (auto simp: set_loop.simps [of name val len i] split: if_splits)
  qed
  then show "params_ok l \<Longrightarrow> params_ok (params_set k v l)"
    using k v by (cases "set_loop k v (length l) 0 False l") (auto simp: params_set_def params_ok_def)
qed

lemma set_insert_param: "set (insert_param lc p l) = insert p (set l)"
  by (induction lc p l rule: insert_param.induct) auto

lemma set_params_sort: "set (params_sort lc l) = set l"
  by (induction l) (auto simp: params_sort_def set_insert_param)

fun params_op_ok :: "params_op \<Rightarrow> bool" where
  "params_op_ok (OpAppend k v) \<longleftrightarrow> well_formed16 k \<and> well_formed16 v"
| "params_op_ok (OpSet k v) \<longleftrightarrow> well_formed16 k \<and> well_formed16 v"
| "params_op_ok _ = True"

lemma apply_params_op_ok: "params_ok l \<Longrightarrow> params_op_ok x \<Longrightarrow> params_ok (apply_params_op lc x l)"
  by (cases x) (auto simp: apply_params_op_def params_ok_set params_append_def params_delete_def
      set_params_sort, auto simp: params_ok_def list_all_iff set_params_sort)

definition in_step :: "url_object \<Rightarrow> bool" where
  "in_step obj \<longleftrightarrow> params_ok (kQuery obj) \<and>
     (\<exists>q. query (kURL obj) = Some q \<and> parseParams q = Some (kQuery obj))"

lemma url_params_op_in_step:
  assumes "params_ok (kQuery obj)" and "params_op_ok x"
  shows "in_step (url_params_op lc x obj)"
  using apply_params_op_ok [OF assms, of lc] parseParams_serialize
  by (simp add: in_step_def url_params_op_def updateSearchParams_def)

lemma url_params_ops_in_step:
  "xs \<noteq> [] \<Longrightarrow> list_all params_op_ok xs \<Longrightarrow> params_ok (kQuery obj) \<Longrightarrow>
    in_step (foldl (\<lambda>obj x. url_params_op lc x obj) obj xs)"
proof (induction xs arbitrary: obj)
  case (Cons x xs)
  have "in_step (url_params_op lc x obj)" using Cons.prems by (intro url_params_op_in_step) auto
  then show ?case using Cons by (cases "xs = []") (auto simp: in_step_def)
qed simp

section \<open>Properties\<close>

interpretation href: codec "serializeURL True True True" "\<lambda>s. basicURLParse up s None None"
    "\<lambda>u. printable_url u \<and> strip_input (serializeURL True True True u) = serializeURL True True True u"
  by unfold_locales (simp add: href_roundtrip_lemma)





text \<open>C20: The query of a URL and its \<open>searchParams\<close> stay in step: after any sequence of \<open>append\<close>,
  \<open>delete\<close>, \<open>set\<close> and \<open>sort\<close> calls with well-formed strings, the URL has a query, and parsing that
  query gives exactly the list of parameters.\<close>

theorem search_params_in_step:
  assumes "xs \<noteq> []" and "list_all params_op_ok xs" and "params_ok (kQuery obj)"
  shows "in_step (foldl (\<lambda>obj x. url_params_op localeCompare x obj) obj xs)"
  using assms by (rule url_params_ops_in_step)

theorem search_params_in_step_witness:
  "in_step (foldl (\<lambda>obj x. url_params_op (\<lambda>a b. 0) x obj) \<lparr>kURL = new_url, kQuery = []\<rparr>
      [OpAppend (js ''a'') (js ''1''), OpSet (js ''a'') (js ''&=''), OpDelete (js ''b''), OpSort])"
  by (rule search_params_in_step) (simp_all add: params_ok_def)

text \<open>The path name of a URL splits at its slashes into the parsed path and nothing else: for a
  URL object that the constructor returned, hierarchical and with a path, splitting \<open>pathname\<close> at
  \<open>'/'\<close> gives an empty first part and the segments.\<close>

theorem pathname_segments:
  assumes "new_URL up s b = Inr obj" and "\<not> cannotBeBase (kURL obj)" and "path (kURL obj) \<noteq> []"
  shows "js_split 47 (get_pathname obj) = [] # path (kURL obj)"
  using pathname_split [of "kURL obj"] new_URL_inv [OF assms(1)] assms(2,3)
  by (simp add: get_pathname_def valid_base_def)

theorem pathname_segments_witness:
  "\<exists>obj. new_URL (\<lambda>c. [c]) (js ''../x/%2e%2E/y/'') (Some (js ''http://h/a/b/c'')) = Inr obj \<and>
    js_split 47 (get_pathname obj) = [[], js ''a'', js ''y'', []]"
proof -
  let ?r = "new_URL (\<lambda>c. [c]) (js ''../x/%2e%2E/y/'') (Some (js ''http://h/a/b/c''))"
  have v: "(case ?r of Inl err \<Rightarrow> None | Inr obj \<Rightarrow> Some (path (kURL obj), cannotBeBase (kURL obj)))
      = Some ([js ''a'', js ''y'', []], False)"
    by code_simp
  obtain obj where "?r = Inr obj" "path (kURL obj) = [js ''a'', js ''y'', []]" "\<not> cannotBeBase (kURL obj)"
    using v by (auto split: sum.splits)
  then show ?thesis using pathname_segments [of "\<lambda>c. [c]" _ _ obj] by auto
qed

text \<open>
  Setters that lose what they are given: assigning a special protocol empties the scheme, assigning
  a user name empties the user name, assigning a search empties the query, and the port of a URL is
  not part of its \<open>href\<close>.
\<close>

lemma set_protocol_special:
  "map (\<lambda>s. case set_protocol (\<lambda>c. [c]) s \<lparr>kURL = new_url\<lparr>scheme := js ''http:'', special := True\<rparr>, kQuery = []\<rparr>
     of Inl err \<Rightarrow> None | Inr obj \<Rightarrow> Some (get_protocol obj)) [js ''https'', js ''ftp'', js ''ws'']
   = [Some [], Some [], Some []]"
  by code_simp

lemma set_search_empties: "v \<noteq> [] \<Longrightarrow> set_search v obj = Inr obj' \<Longrightarrow> get_search obj' = []"
  by (auto simp: set_search_def get_search_def Let_def split: option.splits)

lemma href_without_port:
  "url_inv u \<Longrightarrow> serializeURL f s a u = serializeURL f s a (u\<lparr>port := p\<rparr>)"
  by (simp add: serializeURL_def serializeURLPath_def url_inv_def)

lemma revoke_keeps_blobs: "revokeObjectURL up s store = Inr store' \<Longrightarrow> store' = store"
  by (auto simp: revokeObjectURL_def js_bind_Inr split: if_splits)

end
