(* ===== verification/Bytes.thy ===== *)
theory Bytes
  imports Prelude
begin

unbundle bit_operations_syntax

text \<open>
  Byte buffers, as the files under \<open>src/lib\<close> use them: an \<open>ArrayBuffer\<close> with its \<open>DataView\<close> and
  \<open>Uint8Array\<close> is one list of bytes.  \<open>DataView\<close> reads and writes are big-endian and throw a
  \<open>RangeError\<close> outside the buffer.  \<open>writeString\<close>, \<open>readString\<close> and \<open>copyFrom\<close> are the native
  operations of \<open>src/modules/sys/sys.cc\<close>, which do not check the bounds: outside the buffer the
  model stops with \<open>Overrun\<close>.  They use the engine's UTF-8 conversions, which are parameters.
  The shifts of JavaScript work on 32 bits.
\<close>

type_synonym bytes = "nat list"

abbreviation bytes_ok :: "bytes \<Rightarrow> bool" where
  "bytes_ok b \<equiv> \<forall>x \<in> set b. x < 256"

section \<open>Masks\<close>

lemma and_low: "(c::nat) AND (2 ^ k - 1) = c mod 2 ^ k"
  using take_bit_eq_mask [of k c] by (simp add: take_bit_eq_mod mask_eq_exp_minus_1)

lemma and_masks:
  "(c::nat) AND 1 = c mod 2" "c AND 3 = c mod 4" "c AND 7 = c mod 8" "c AND 15 = c mod 16"
  "c AND 63 = c mod 64" "c AND 127 = c mod 128" "c AND 255 = c mod 256" "c AND 511 = c mod 512"
  "c AND 8191 = c mod 8192" "c AND 16383 = c mod 16384" "c AND 65535 = c mod 65536"
  subgoal using and_low [of c 1] by simp
  subgoal using and_low [of c 2] by simp
  subgoal using and_low [of c 3] by simp
  subgoal using and_low [of c 4] by simp
  subgoal using and_low [of c 6] by simp
  subgoal using and_low [of c 7] by simp
  subgoal using and_low [of c 8] by simp
  subgoal using and_low [of c 9] by simp
  subgoal using and_low [of c 13] by simp
  subgoal using and_low [of c 14] by simp
  subgoal using and_low [of c 16] by simp
  done

lemma and_push_bit: "(c::nat) AND push_bit k m = push_bit k (drop_bit k c AND m)"
  by (rule bit_eqI) (auto simp: bit_simps)

lemma and_high_masks:
  "(c::nat) AND 192 = c div 64 mod 4 * 64" "c AND 49152 = c div 16384 mod 4 * 16384"
  subgoal using and_push_bit [of c 6 3] by (simp add: and_masks push_bit_nat_def drop_bit_eq_div)
  subgoal using and_push_bit [of c 14 3] by (simp add: and_masks push_bit_nat_def drop_bit_eq_div)
  done

section \<open>Big-endian numbers\<close>

fun be_bytes :: "nat \<Rightarrow> nat \<Rightarrow> bytes" where
  "be_bytes 0 v = []"
| "be_bytes (Suc n) v = be_bytes n (v div 256) @ [v mod 256]"

lemma be_bytes_numeral:
  "be_bytes (numeral k) v = be_bytes (pred_numeral k) (v div 256) @ [v mod 256]"
  using be_bytes.simps(2) [of "pred_numeral k" v] by (simp only: numeral_eq_Suc [symmetric])

definition be_val :: "bytes \<Rightarrow> nat" where
  "be_val b = foldl (\<lambda>v x. v * 256 + x) 0 b"

lemma be_val_snoc [simp]: "be_val (b @ [x]) = be_val b * 256 + x"
  by (simp add: be_val_def)

lemma be_val_Nil [simp]: "be_val [] = 0"
  by (simp add: be_val_def)

lemma length_be_bytes [simp]: "length (be_bytes n v) = n"
  by (induction n arbitrary: v) auto

lemma be_bytes_ok: "x \<in> set (be_bytes n v) \<Longrightarrow> x < 256"
  by (induction n arbitrary: v) auto

lemma be_val_bytes: "v < 256 ^ n \<Longrightarrow> be_val (be_bytes n v) = v"
proof (induction n arbitrary: v)
  case (Suc n)
  then have "v div 256 < 256 ^ n" by (simp add: div_less_iff_less_mult mult.commute)
  then show ?case using Suc.IH by simp
qed simp

lemma be_bytes_val: "bytes_ok b \<Longrightarrow> be_bytes (length b) (be_val b) = b"
  by (induction b rule: rev_induct) auto

lemma be_val_less: "bytes_ok b \<Longrightarrow> be_val b < 256 ^ length b"
proof (induction b rule: rev_induct)
  case (snoc x b)
  then have "be_val b < 256 ^ length b" "x < 256" by auto
  then have "be_val b + 1 \<le> 256 ^ length b" by simp
  then have "(be_val b + 1) * 256 \<le> 256 ^ length b * 256" by (rule mult_le_mono1)
  then show ?case using \<open>x < 256\<close> by simp
qed simp

interpretation be_codec: codec "be_bytes n" "\<lambda>b. if length b = n then Some (be_val b) else None"
  "\<lambda>v. v < 256 ^ n" for n
  by unfold_locales (simp add: be_val_bytes)

definition twos_complement :: "nat \<Rightarrow> nat \<Rightarrow> int" where
  "twos_complement n v = (if 2 * v < 256 ^ n then int v else int v - 256 ^ n)"

section \<open>Buffers\<close>

definition write_at :: "bytes \<Rightarrow> nat \<Rightarrow> bytes \<Rightarrow> bytes" where
  "write_at b i w = take i b @ w @ drop (i + length w) b"

definition getUint :: "nat \<Rightarrow> bytes \<Rightarrow> nat \<Rightarrow> nat js_result" where
  "getUint n b i = (if i + n \<le> length b then Inr (be_val (slice b i (i + n))) else Inl RangeError)"

definition getInt :: "nat \<Rightarrow> bytes \<Rightarrow> nat \<Rightarrow> int js_result" where
  "getInt n b i = js_bind (getUint n b i) (\<lambda>v. Inr (twos_complement n v))"

definition setUint :: "nat \<Rightarrow> nat \<Rightarrow> nat \<Rightarrow> bytes \<Rightarrow> bytes js_result" where
  "setUint n i v b = (if i + n \<le> length b then Inr (write_at b i (be_bytes n v)) else Inl RangeError)"

definition writeString :: "(jsstr \<Rightarrow> bytes) \<Rightarrow> jsstr \<Rightarrow> nat \<Rightarrow> bytes \<Rightarrow> bytes js_result" where
  "writeString utf8 s off b =
     (if off + length (utf8 s) \<le> length b then Inr (write_at b off (utf8 s)) else Inl Overrun)"

definition readString :: "(bytes \<Rightarrow> jsstr) \<Rightarrow> nat \<Rightarrow> nat \<Rightarrow> bytes \<Rightarrow> jsstr js_result" where
  "readString text len off b =
     (if off + len \<le> length b then Inr (text (slice b off (off + len))) else Inl Overrun)"

definition copyFrom :: "bytes \<Rightarrow> nat \<Rightarrow> nat \<Rightarrow> nat \<Rightarrow> bytes \<Rightarrow> bytes js_result" where
  "copyFrom src off len off2 b =
     (if len = 0 then Inr b
      else if off2 + len \<le> length src \<and> off + len \<le> length b
      then Inr (write_at b off (slice src off2 (off2 + len)))
      else Inl Overrun)"

text \<open>What is relied on of the engine: a code unit below 128 is one byte, and that byte reads back.\<close>

definition ascii_transparent :: "(nat list \<Rightarrow> nat list) \<Rightarrow> bool" where
  "ascii_transparent f \<longleftrightarrow> (\<forall>s. (\<forall>c \<in> set s. c < 128) \<longrightarrow> f s = s)"

lemma ascii_transparentD: "ascii_transparent f \<Longrightarrow> \<forall>c \<in> set s. c < 128 \<Longrightarrow> f s = s"
  by (simp add: ascii_transparent_def)

lemma ascii_transparent_id: "ascii_transparent (\<lambda>s. s)"
  by (simp add: ascii_transparent_def)

lemma length_write_at: "i + length w \<le> length b \<Longrightarrow> length (write_at b i w) = length b"
  by (simp add: write_at_def)

lemma write_at_append:
  "length z = length w \<Longrightarrow> i = length p \<Longrightarrow> write_at (p @ z @ q) i w = p @ w @ q"
  by (simp add: write_at_def)

lemma write_at_zeros:
  "length w \<le> n \<Longrightarrow> write_at (p @ replicate n 0) (length p) w = p @ w @ replicate (n - length w) 0"
  by (simp add: write_at_def)

lemma slice_append: "i = length p \<Longrightarrow> n = length w \<Longrightarrow> slice (p @ w @ q) i (i + n) = w"
  by (simp add: slice_def)

lemma slice_append_end: "i = length p \<Longrightarrow> n = length w \<Longrightarrow> slice (p @ w) i (i + n) = w"
  by (simp add: slice_def)

lemma getUint_append:
  "i = length p \<Longrightarrow> v < 256 ^ n \<Longrightarrow> getUint n (p @ be_bytes n v @ q) i = Inr v"
  by (simp add: getUint_def slice_append be_val_bytes)

lemma setUint_append:
  "i = length p \<Longrightarrow> n \<le> length q \<Longrightarrow> setUint n i v (p @ q) = Inr (p @ be_bytes n v @ drop n q)"
  by (simp add: setUint_def write_at_def)

lemma writeString_append:
  "i = length p \<Longrightarrow> length (utf8 s) \<le> length q \<Longrightarrow>
    writeString utf8 s i (p @ q) = Inr (p @ utf8 s @ drop (length (utf8 s)) q)"
  by (simp add: writeString_def write_at_def)

lemma readString_append:
  "i = length p \<Longrightarrow> n = length w \<Longrightarrow> readString text n i (p @ w @ q) = Inr (text w)"
  by (simp add: readString_def slice_append)

lemma getUint8_nth: "getUint (Suc 0) b i = (if i < length b then Inr (b ! i) else Inl RangeError)"
  by (simp add: getUint_def slice_def take_Suc_conv_app_nth hd_drop_conv_nth be_val_def
      take_Suc hd_conv_nth)

lemma getUint_set_same: "setUint n i v b = Inr b' \<Longrightarrow> v < 256 ^ n \<Longrightarrow> getUint n b' i = Inr v"
  by (auto simp: setUint_def getUint_def write_at_def slice_def be_val_bytes split: if_splits)

lemma getUint_less: "bytes_ok b \<Longrightarrow> getUint n b i = Inr v \<Longrightarrow> v < 256 ^ n"
proof -
  assume "bytes_ok b" and "getUint n b i = Inr v"
  then have "v = be_val (slice b i (i + n))" "length (slice b i (i + n)) = n"
    by (auto simp: getUint_def length_slice split: if_splits)
  moreover have "bytes_ok (slice b i (i + n))"
    using \<open>bytes_ok b\<close> by (auto simp: slice_def dest!: in_set_takeD in_set_dropD)
  ultimately show "v < 256 ^ n" using be_val_less by metis
qed

section \<open>Thirty-two bit arithmetic\<close>

definition to_int32 :: "int \<Rightarrow> int" where
  "to_int32 x = (let y = x mod 4294967296 in if y < 2147483648 then y else y - 4294967296)"

definition shl :: "int \<Rightarrow> nat \<Rightarrow> int" where
  "shl x k = to_int32 (to_int32 x * 2 ^ (k mod 32))"

lemma to_int32_id: "- 2147483648 \<le> x \<Longrightarrow> x < 2147483648 \<Longrightarrow> to_int32 x = x"
proof (cases "0 \<le> x")
  case False
  assume "- 2147483648 \<le> x" "x < 2147483648"
  have "x mod 4294967296 = (x + 4294967296) mod 4294967296" by simp
  also have "\<dots> = x + 4294967296" using False \<open>- 2147483648 \<le> x\<close> by (intro mod_pos_pos_trivial) auto
  finally show ?thesis using \<open>- 2147483648 \<le> x\<close> by (simp add: to_int32_def)
qed (simp add: to_int32_def)

lemma to_int32_range: "- 2147483648 \<le> to_int32 x \<and> to_int32 x < 2147483648"
  by (simp add: to_int32_def Let_def; smt (verit) pos_mod_bound pos_mod_sign)

lemma shl_exact: "0 \<le> x \<Longrightarrow> x * 2 ^ (k mod 32) < 2147483648 \<Longrightarrow> shl x k = x * 2 ^ (k mod 32)"
proof -
  assume a: "0 \<le> x" "x * 2 ^ (k mod 32) < 2147483648"
  have "x * 1 \<le> x * 2 ^ (k mod 32)" using a(1) by (intro mult_left_mono) auto
  then show ?thesis using a by (simp add: shl_def to_int32_id)
qed

section \<open>Consumers of byte streams\<close>

text \<open>
  A parser that is fed one buffer after the other.  \<open>run_bytes\<close> runs a machine that takes one byte at
  a time; the locale states that a parser's handling of a whole buffer is the run of such a machine,
  as long as every byte is acceptable where it arrives.  Then the cuts between the buffers do not
  matter.
\<close>

fun run_bytes :: "('s \<Rightarrow> nat \<Rightarrow> 's \<times> 'e list) \<Rightarrow> 's \<Rightarrow> bytes \<Rightarrow> 's \<times> 'e list" where
  "run_bytes byte s [] = (s, [])"
| "run_bytes byte s (c # cs) =
     (let (s', es) = byte s c; (s'', es') = run_bytes byte s' cs in (s'', es @ es'))"

fun accepted :: "('s \<Rightarrow> nat \<Rightarrow> 's \<times> 'e list) \<Rightarrow> ('s \<Rightarrow> nat \<Rightarrow> bool) \<Rightarrow> 's \<Rightarrow> bytes \<Rightarrow> bool" where
  "accepted byte good s [] = True"
| "accepted byte good s (c # cs) \<longleftrightarrow> good s c \<and> accepted byte good (fst (byte s c)) cs"

lemma run_bytes_append:
  "run_bytes byte s (xs @ ys) =
    (fst (run_bytes byte (fst (run_bytes byte s xs)) ys),
     snd (run_bytes byte s xs) @ snd (run_bytes byte (fst (run_bytes byte s xs)) ys))"
  by (induction xs arbitrary: s) (auto simp: Let_def split: prod.splits)

lemma accepted_append:
  "accepted byte good s (xs @ ys) \<longleftrightarrow>
    accepted byte good s xs \<and> accepted byte good (fst (run_bytes byte s xs)) ys"
  by (induction xs arbitrary: s) (auto simp: Let_def split: prod.splits)

fun feed_all :: "('s \<Rightarrow> bytes \<Rightarrow> ('s \<times> 'e list) option) \<Rightarrow> 's \<Rightarrow> bytes list \<Rightarrow> ('s \<times> 'e list) option" where
  "feed_all feed s [] = Some (s, [])"
| "feed_all feed s (b # bs) =
     (case feed s b of None \<Rightarrow> None
      | Some (s', es) \<Rightarrow> map_option (\<lambda>(s'', es'). (s'', es @ es')) (feed_all feed s' bs))"

locale byte_consumer =
  fixes byte :: "'s \<Rightarrow> nat \<Rightarrow> 's \<times> 'e list" and good :: "'s \<Rightarrow> nat \<Rightarrow> bool"
    and feed :: "'s \<Rightarrow> bytes \<Rightarrow> ('s \<times> 'e list) option"
  assumes feed_run: "accepted byte good s b \<Longrightarrow> feed s b = Some (run_bytes byte s b)"
begin

lemma feed_all_run:
  "accepted byte good s (concat bs) \<Longrightarrow> feed_all feed s bs = Some (run_bytes byte s (concat bs))"
proof (induction bs arbitrary: s)
  case (Cons b bs)
  then have "accepted byte good s b" "accepted byte good (fst (run_bytes byte s b)) (concat bs)"
    by (simp_all add: accepted_append)
  then show ?case using Cons.IH feed_run
    by (auto simp: run_bytes_append split: prod.split)
qed simp

lemma feed_all_cuts:
  "accepted byte good s (concat bs) \<Longrightarrow> concat bs = concat cs \<Longrightarrow> feed_all feed s bs = feed_all feed s cs"
  by (simp add: feed_all_run)

lemma feed_append:
  "accepted byte good s (b @ c) \<Longrightarrow> feed_all feed s [b, c] = feed s (b @ c)"
  using feed_all_run [of s "[b, c]"] feed_run [of s "b @ c"] by simp

end

end
