(* ===== verification/Util.thy ===== *)
theory Util
  imports Bytes
begin

text \<open>
  \<open>packages/zero/lib/util.js\<close>: terminal styles, \<open>uuid4122\<close> and \<open>base64decode\<close>, with the decoder of
  RFC 4648 as the specification that the last one is measured against.
\<close>

unbundle bit_operations_syntax

section \<open>Styles and identifiers\<close>

definition ansi :: "jsstr \<Rightarrow> (nat \<times> nat) option" where
  "ansi color = map_of [
     (js ''bold'', (1, 22)), (js ''italic'', (3, 23)), (js ''underline'', (4, 24)), (js ''inverse'', (7, 27)),
     (js ''white'', (37, 39)), (js ''grey'', (90, 39)), (js ''black'', (30, 39)), (js ''blue'', (34, 39)),
     (js ''cyan'', (36, 39)), (js ''green'', (32, 39)), (js ''magenta'', (35, 39)), (js ''red'', (31, 39)),
     (js ''yellow'', (33, 39))] color"

text \<open>An unknown colour is the \<open>TypeError\<close> of destructuring \<open>undefined\<close>.\<close>

definition style :: "jsstr \<Rightarrow> jsstr \<Rightarrow> jsstr option" where
  "style str color = (case ansi color of None \<Rightarrow> None
     | Some (start, stop) \<Rightarrow>
         Some ([0x1b, 91] @ to_radix 10 start @ [109] @ str @ [0x1b, 91] @ to_radix 10 stop @ [109]))"

text \<open>The digit at position \<open>i\<close>; \<open>random i\<close> is \<open>Math.random() * 16 | 0\<close>.\<close>

definition uuid_digit :: "(nat \<Rightarrow> nat) \<Rightarrow> nat \<Rightarrow> nat" where
  "uuid_digit random i = (if i = 12 then 4 else if i = 16 then random i AND 3 else random i)"

fun uuid_loop :: "(nat \<Rightarrow> nat) \<Rightarrow> nat \<Rightarrow> nat \<Rightarrow> jsstr" where
  "uuid_loop random i 0 = []"
| "uuid_loop random i (Suc n) =
     (if i = 8 \<or> i = 12 \<or> i = 16 \<or> i = 20 then [45] else [])
       @ to_radix 16 (uuid_digit random i) @ uuid_loop random (i + 1) n"

definition uuid4122 :: "(nat \<Rightarrow> nat) \<Rightarrow> jsstr" where
  "uuid4122 random = uuid_loop random 0 32"

section \<open>Base64\<close>

definition b64table :: jsstr where
  "b64table = js ''ABCDEFGHIJKLMNOPQRSTUVWXYZabcdefghijklmnopqrstuvwxyz0123456789+/''"

definition b64_char :: "nat option \<Rightarrow> nat" where
  "b64_char g = (case g of None \<Rightarrow> 61 | Some k \<Rightarrow> b64table ! k)"

text \<open>One turn of the loop: three characters become four groups of six bits.\<close>

definition groupsOfSix :: "jsstr \<Rightarrow> nat option list" where
  "groupsOfSix d =
     (let c0 = d ! 0;
          g1 = push_bit 4 (c0 AND 0x03);
          g1' = (if length d > 1 then g1 OR drop_bit 4 (d ! 1) else g1);
          g2 = (if length d > 1 then Some (push_bit 2 (d ! 1 AND 0x0f)) else None);
          g2' = (if length d > 2 then map_option (\<lambda>g. g OR drop_bit 6 (d ! 2)) g2 else g2);
          g3 = (if length d > 2 then Some (d ! 2 AND 0x3f) else None)
      in [Some (drop_bit 2 c0), Some g1', g2', g3])"

function base64_loop :: "jsstr \<Rightarrow> jsstr" where
  "base64_loop [] = []"
| "base64_loop (c # cs) = map b64_char (groupsOfSix (c # cs)) @ base64_loop (drop 2 cs)"
  by pat_completeness auto
termination
  by (relation "measure length") auto

definition base64decode :: "jsstr \<Rightarrow> jsstr option" where
  "base64decode data = (if list_ex (\<lambda>c. c > 255) data then None else Some (base64_loop data))"

section \<open>What it computes is the encoding\<close>

text \<open>The decoder of RFC 4648 for padded input, as a specification.\<close>

fun sextet :: "nat \<Rightarrow> jsstr \<Rightarrow> nat \<Rightarrow> nat option" where
  "sextet c [] i = None"
| "sextet c (x # xs) i = (if c = x then Some i else sextet c xs (i + 1))"

definition b64_value :: "nat \<Rightarrow> nat option" where
  "b64_value c = sextet c b64table 0"

definition b64_quad :: "nat \<Rightarrow> nat \<Rightarrow> nat \<Rightarrow> nat \<Rightarrow> jsstr option" where
  "b64_quad w x y z =
     (case (b64_value w, b64_value x) of
        (Some a, Some b) \<Rightarrow>
          (case (b64_value y, b64_value z) of
             (Some c, Some d) \<Rightarrow> Some [a * 4 + b div 16, b mod 16 * 16 + c div 4, c mod 4 * 64 + d]
           | (Some c, None) \<Rightarrow> if z = 61 then Some [a * 4 + b div 16, b mod 16 * 16 + c div 4] else None
           | (None, _) \<Rightarrow> if y = 61 \<and> z = 61 then Some [a * 4 + b div 16] else None)
      | _ \<Rightarrow> None)"

fun rfc4648_decode :: "jsstr \<Rightarrow> jsstr option" where
  "rfc4648_decode [] = Some []"
| "rfc4648_decode (w # x # y # z # s) =
     (case b64_quad w x y z of
        None \<Rightarrow> None
      | Some t \<Rightarrow> map_option (\<lambda>r. t @ r) (rfc4648_decode s))"
| "rfc4648_decode _ = None"

lemma upto_63: "[0..<64] = [0, Suc 0, 2, 3, 4, 5, 6, 7, 8, 9, 10, 11, 12, 13, 14, 15, 16, 17, 18, 19, 20, 21, 22,
  23, 24, 25, 26, 27, 28, 29, 30, 31, 32, 33, 34, 35, 36, 37, 38, 39, 40, 41, 42, 43, 44, 45, 46, 47, 48, 49,
  50, 51, 52, 53, 54, 55, 56, 57, 58, 59, 60, 61, 62, 63]"
  by (simp add: upt_conv_Cons)

lemma b64_value_char: "k < 64 \<Longrightarrow> b64_value (b64_char (Some k)) = Some k"
proof -
  have "list_all (\<lambda>k. b64_value (b64_char (Some k)) = Some k) [0..<64]"
    unfolding upto_63 by code_simp
  moreover assume "k < 64"
  then have "k \<in> set [0..<64]" unfolding set_upt by simp
  ultimately show ?thesis unfolding list_all_iff by blast
qed

lemma b64_value_pad: "b64_char None = 61 \<and> b64_value 61 = None"
  by code_simp

lemma or_disjoint:
  assumes "(b::nat) < 2 ^ n"
  shows "push_bit n a OR b = a * 2 ^ n + b"
proof -
  have "push_bit n a AND take_bit n b = 0"
    by (rule bit_eqI) (auto simp: bit_simps)
  then have "push_bit n a OR take_bit n b = push_bit n a + take_bit n b"
    by (simp add: disjunctive_add_eq_or)
  moreover have "take_bit n b = b" using assms by (simp add: take_bit_nat_eq_self)
  ultimately show ?thesis by (simp add: push_bit_nat_def)
qed

lemma groups:
  "groupsOfSix [a] = [Some (a div 4), Some (a mod 4 * 16), None, None]"
  "b < 256 \<Longrightarrow> groupsOfSix [a, b] = [Some (a div 4), Some (a mod 4 * 16 + b div 16), Some (b mod 16 * 4), None]"
  "b < 256 \<Longrightarrow> c < 256 \<Longrightarrow> groupsOfSix (a # b # c # s) =
    [Some (a div 4), Some (a mod 4 * 16 + b div 16), Some (b mod 16 * 4 + c div 64), Some (c mod 64)]"
  using or_disjoint [of "b div 16" 4 "a mod 4"] or_disjoint [of "c div 64" 2 "b mod 16"]
  by (simp_all add: groupsOfSix_def Let_def and_masks drop_bit_eq_div push_bit_nat_def)

lemma quads:
  assumes "a < 256" and "b < 256" and "c < 256"
  shows "b64_quad (b64_char (Some (a div 4))) (b64_char (Some (a mod 4 * 16 + b div 16)))
      (b64_char (Some (b mod 16 * 4 + c div 64))) (b64_char (Some (c mod 64))) = Some [a, b, c]"
    and "b64_quad (b64_char (Some (a div 4))) (b64_char (Some (a mod 4 * 16 + b div 16)))
      (b64_char (Some (b mod 16 * 4))) (b64_char None) = Some [a, b]"
    and "b64_quad (b64_char (Some (a div 4))) (b64_char (Some (a mod 4 * 16))) (b64_char None) (b64_char None)
      = Some [a]"
proof -
  have r: "a div 4 < 64" "c mod 64 < 64" "b div 16 < 16" "c div 64 < 4" "a mod 4 < 4" "b mod 16 < 16"
    using assms by auto
  then have s: "a mod 4 * 16 + b div 16 < 64" "b mod 16 * 4 + c div 64 < 64" "b mod 16 * 4 < 64" "a mod 4 * 16 < 64"
    by linarith+
  have d: "(a mod 4 * 16 + b div 16) div 16 = a mod 4" "(a mod 4 * 16 + b div 16) mod 16 = b div 16"
    "(b mod 16 * 4 + c div 64) div 4 = b mod 16" "(b mod 16 * 4 + c div 64) mod 4 = c div 64"
    using r div_mult_self3 [of 16 "a mod 4" "b div 16"] div_mult_self3 [of 4 "b mod 16" "c div 64"]
    by simp_all
  show "b64_quad (b64_char (Some (a div 4))) (b64_char (Some (a mod 4 * 16 + b div 16)))
      (b64_char (Some (b mod 16 * 4 + c div 64))) (b64_char (Some (c mod 64))) = Some [a, b, c]"
    using r s d by (simp add: b64_quad_def b64_value_char)
  show "b64_quad (b64_char (Some (a div 4))) (b64_char (Some (a mod 4 * 16 + b div 16)))
      (b64_char (Some (b mod 16 * 4))) (b64_char None) = Some [a, b]"
    using r s d by (simp add: b64_quad_def b64_value_char b64_value_pad)
  show "b64_quad (b64_char (Some (a div 4))) (b64_char (Some (a mod 4 * 16))) (b64_char None) (b64_char None)
      = Some [a]"
    using r s by (simp add: b64_quad_def b64_value_char b64_value_pad)
qed

lemma base64_loop_decodes: "\<forall>c \<in> set s. c < 256 \<Longrightarrow> rfc4648_decode (base64_loop s) = Some s"
proof (induction s rule: base64_loop.induct)
  case (2 c cs)
  consider "cs = []" | x where "cs = [x]" | x y s where "cs = x # y # s"
    by (cases cs; cases "tl cs") auto
  then show ?case
    using 2 quads [of c] by cases (auto simp: groups)
qed simp

text \<open>C26: \<open>base64decode\<close> is an encoder: for every string of bytes its result is the text that the
  decoder of RFC 4648 maps back to that string, and a string with a character above 255 gives
  \<open>null\<close>.\<close>

theorem base64decode_encodes:
  "(if list_ex (\<lambda>c. c > 255) s then base64decode s = None
    else \<exists>t. base64decode s = Some t \<and> rfc4648_decode t = Some s)"
proof (cases "list_ex (\<lambda>c. c > 255) s")
  case False
  then have "\<forall>c \<in> set s. c < 256" by (auto simp: list_ex_iff)
  then show ?thesis using False base64_loop_decodes by (simp add: base64decode_def)
qed (simp add: base64decode_def)

interpretation base64: codec base64_loop rfc4648_decode "\<lambda>s. \<forall>c \<in> set s. c < 256"
  by unfold_locales (rule base64_loop_decodes)

section \<open>The shape of an identifier\<close>

lemma uuid_loop_pos:
  "0 < n \<Longrightarrow> uuid_loop random i n =
     (if i = 8 \<or> i = 12 \<or> i = 16 \<or> i = 20 then [45] else [])
       @ to_radix 16 (uuid_digit random i) @ uuid_loop random (i + 1) (n - 1)"
  by (cases n) auto

lemma one_digit: "d < 16 \<Longrightarrow> to_radix 16 d = [digit_char d]"
  by (simp add: to_radix.simps [of 16 d])

lemma uuid_digit_bound:
  assumes "\<And>i. random i < 16"
  shows "uuid_digit random i < 16"
proof -
  have "random i AND 3 < 4" by (simp add: and_masks(2))
  then have "random i AND 3 < 16" by linarith
  then show ?thesis using assms [of i] by (auto simp: uuid_digit_def)
qed

text \<open>
  Thirty-six characters, the version digit 4 and hyphens in the places of RFC 4122; the variant
  digit is one of \<open>0\<close> to \<open>3\<close>, where the RFC wants \<open>8\<close> to \<open>b\<close>.
\<close>

lemma uuid_shape:
  assumes "\<And>i. random i < 16"
  shows "length (uuid4122 random) = 36 \<and> uuid4122 random ! 14 = 52 \<and>
    (\<forall>i \<in> {8, 13, 18, 23}. uuid4122 random ! i = 45) \<and> uuid4122 random ! 19 \<in> {48, 49, 50, 51}"
proof -
  note [simp del] = uuid_loop.simps(2)
  have d: "to_radix 16 (uuid_digit random i) = [digit_char (uuid_digit random i)]" for i
    by (rule one_digit, rule uuid_digit_bound, rule assms)
  have "random 16 AND 3 < 4" by (simp add: and_masks(2))
  then have v: "digit_char (uuid_digit random 16) \<in> {48, 49, 50, 51}"
    by (auto simp: uuid_digit_def digit_char_def)
  have f: "digit_char (uuid_digit random 12) = 52" by (simp add: uuid_digit_def digit_char_def)
  show ?thesis using v f by (simp add: uuid4122_def uuid_loop_pos d del: to_radix.simps One_nat_def)
qed

end
