(* ===== verification/Async_Queue.thy ===== *)
theory Async_Queue
  imports Prelude "HOL-Library.Multiset"
begin

text \<open>
  \<open>AsyncQueue\<close> of \<open>packages/zero/lib/util.js\<close>: a queue that runs at most \<open>concurrency\<close> jobs at a
  time.  \<open>run\<close> is cut at its \<open>await\<close>: \<open>aq_run\<close> is what happens up to the call of a job, and
  \<open>aq_settle\<close> what happens when that job's promise settles (its value and its rejection take the
  same way).  The step relation interleaves calls of \<open>add\<close> with settling jobs in any order.
\<close>

section \<open>The object\<close>

record 'j async_queue =
  queue :: "'j list"
  concurrency :: nat
  current :: nat

definition new_AsyncQueue :: "nat \<Rightarrow> 'j async_queue" where
  "new_AsyncQueue n = \<lparr>queue = [], concurrency = n, current = 0\<rparr>"

text \<open>The job that is started, if one is.\<close>

definition aq_run :: "'j async_queue \<Rightarrow> 'j async_queue \<times> 'j option" where
  "aq_run q =
     (if current q \<ge> concurrency q then (q, None)
      else let q1 = q\<lparr>current := current q + 1\<rparr>
           in case queue q1 of
                [] \<Rightarrow> (q1\<lparr>current := current q1 - 1\<rparr>, None)
              | item # rest \<Rightarrow> (q1\<lparr>queue := rest\<rparr>, Some item))"

definition aq_add :: "'j \<Rightarrow> 'j async_queue \<Rightarrow> 'j async_queue \<times> 'j option" where
  "aq_add job q = aq_run (q\<lparr>queue := queue q @ [job]\<rparr>)"

definition aq_settle :: "'j async_queue \<Rightarrow> 'j async_queue \<times> 'j option" where
  "aq_settle q = aq_run (q\<lparr>current := current q - 1\<rparr>)"

section \<open>Interleavings\<close>

text \<open>The object with its history: what was added and started, in order, and what runs.\<close>

record 'j aq_world =
  obj :: "'j async_queue"
  added :: "'j list"
  started :: "'j list"
  running :: "'j multiset"

definition aq_start :: "'j option \<Rightarrow> 'j aq_world \<Rightarrow> 'j aq_world" where
  "aq_start r w = (case r of None \<Rightarrow> w
     | Some j \<Rightarrow> w\<lparr>started := started w @ [j], running := add_mset j (running w)\<rparr>)"

inductive aq_step :: "'j aq_world \<Rightarrow> 'j aq_world \<Rightarrow> bool" where
  Add: "aq_add j (obj w) = (q, r) \<Longrightarrow>
    aq_step w (aq_start r (w\<lparr>obj := q, added := added w @ [j]\<rparr>))"
| Settle: "j \<in># running w \<Longrightarrow> aq_settle (obj w) = (q, r) \<Longrightarrow>
    aq_step w (aq_start r (w\<lparr>obj := q, running := running w - {#j#}\<rparr>))"

inductive_cases aq_stepE: "aq_step w w'"

inductive aq_reach :: "nat \<Rightarrow> 'j aq_world \<Rightarrow> bool" for n where
  Init: "aq_reach n \<lparr>obj = new_AsyncQueue n, added = [], started = [], running = {#}\<rparr>"
| Step: "aq_reach n w \<Longrightarrow> aq_step w w' \<Longrightarrow> aq_reach n w'"

section \<open>The invariant\<close>

definition aq_inv :: "nat \<Rightarrow> 'j aq_world \<Rightarrow> bool" where
  "aq_inv n w \<longleftrightarrow> concurrency (obj w) = n \<and> current (obj w) = size (running w) \<and>
     size (running w) \<le> n \<and> added w = started w @ queue (obj w) \<and>
     (queue (obj w) \<noteq> [] \<longrightarrow> size (running w) = n) \<and> running w \<subseteq># mset (started w)"

text \<open>What \<open>aq_run\<close> does to a queue that is not saturated, or is.\<close>

lemma aq_run_inv:
  assumes "concurrency (obj w) = n" and "current (obj w) = size (running w)" and "size (running w) \<le> n"
    and "added w = started w @ queue (obj w)" and "running w \<subseteq># mset (started w)"
    and "length (queue (obj w)) \<le> 1 \<or> n \<le> Suc (size (running w))"
    and "aq_run (obj w) = (q, r)"
  shows "aq_inv n (aq_start r (w\<lparr>obj := q\<rparr>))"
proof (cases "current (obj w) \<ge> concurrency (obj w)")
  case True
  then show ?thesis using assms by (auto simp: aq_run_def aq_inv_def aq_start_def)
next
  case False
  show ?thesis
  proof (cases "queue (obj w)")
    case Nil
    then show ?thesis using False assms by (auto simp: aq_run_def aq_inv_def aq_start_def Let_def)
  next
    case (Cons item rest)
    have "rest \<noteq> [] \<longrightarrow> Suc (size (running w)) = n" using assms(1,2,6) False Cons by auto
    then show ?thesis using False assms Cons
      by (auto simp: aq_run_def aq_inv_def aq_start_def Let_def)
  qed
qed

lemma aq_world_commute:
  "w\<lparr>added := a, obj := q\<rparr> = w\<lparr>obj := q, added := a\<rparr>"
  "w\<lparr>running := r, obj := q\<rparr> = w\<lparr>obj := q, running := r\<rparr>" for w :: "'j aq_world"
  by simp_all

lemma aq_step_inv:
  assumes "aq_step w w'" and "aq_inv n w"
  shows "aq_inv n w'"
  using assms(1)
proof cases
  case (Add j q r)
  let ?w = "w\<lparr>obj := (obj w)\<lparr>queue := queue (obj w) @ [j]\<rparr>, added := added w @ [j]\<rparr>"
  have "aq_inv n (aq_start r (?w\<lparr>obj := q\<rparr>))"
    using assms(2) Add(2) by (intro aq_run_inv) (auto simp: aq_inv_def aq_add_def)
  then show ?thesis using Add(1) by (simp only: aq_world_commute aq_world.update_convs) (simp add: aq_world_commute)
next
  case (Settle j q r)
  let ?w = "w\<lparr>obj := (obj w)\<lparr>current := current (obj w) - 1\<rparr>, running := running w - {#j#}\<rparr>"
  have s: "size (running w - {#j#}) = size (running w) - 1" "size (running w) \<noteq> 0"
    using Settle(2) by (auto simp: size_Diff_singleton)
  have "running w - {#j#} \<subseteq># mset (started w)"
    using assms(2) by (auto simp: aq_inv_def intro: subset_mset.order_trans [OF diff_subset_eq_self])
  then have "aq_inv n (aq_start r (?w\<lparr>obj := q\<rparr>))"
    using assms(2) Settle(3) s by (intro aq_run_inv) (auto simp: aq_inv_def aq_settle_def)
  then show ?thesis using Settle(1) by (simp only: aq_world_commute aq_world.update_convs) (simp add: aq_world_commute)
qed

lemma aq_reach_inv: "aq_reach n w \<Longrightarrow> aq_inv n w"
proof (induction rule: aq_reach.induct)
  case Init
  then show ?case by (simp add: aq_inv_def new_AsyncQueue_def)
next
  case (Step w w')
  then show ?case using aq_step_inv by blast
qed

text \<open>C23: In every interleaving of calls of \<open>add\<close> with settling jobs, at most \<open>concurrency\<close> jobs run,
  \<open>current\<close> is their number, the jobs are started in the order they were added and none twice or
  out of turn (what was added is what was started followed by the queue), and no job waits while
  there is room for it.\<close>

theorem async_queue_invariant:
  assumes "aq_reach n w"
  shows "size (running w) \<le> n \<and> current (obj w) = size (running w) \<and>
    added w = started w @ queue (obj w) \<and> (queue (obj w) \<noteq> [] \<longrightarrow> size (running w) = n)"
  using aq_reach_inv [OF assms] by (simp add: aq_inv_def)

theorem async_queue_invariant_witness:
  "\<exists>w :: nat aq_world. aq_reach 1 w \<and> started w = [7, 8] \<and> running w = {#8#} \<and> queue (obj w) = [9] \<and>
    size (running w) \<le> 1"
proof -
  let ?o = "\<lambda>q c. \<lparr>queue = q, concurrency = 1, current = c\<rparr>"
  let ?w0 = "\<lparr>obj = ?o [] 0, added = [], started = [], running = {#}\<rparr> :: nat aq_world"
  let ?w1 = "\<lparr>obj = ?o [] 1, added = [7], started = [7], running = {#7#}\<rparr> :: nat aq_world"
  let ?w2 = "\<lparr>obj = ?o [8] 1, added = [7, 8], started = [7], running = {#7#}\<rparr> :: nat aq_world"
  let ?w3 = "\<lparr>obj = ?o [8, 9] 1, added = [7, 8, 9], started = [7], running = {#7#}\<rparr> :: nat aq_world"
  let ?w4 = "\<lparr>obj = ?o [9] 1, added = [7, 8, 9], started = [7, 8], running = {#8#}\<rparr> :: nat aq_world"
  have "aq_reach 1 ?w0" using aq_reach.Init [of 1] by (simp add: new_AsyncQueue_def)
  moreover have "aq_step ?w0 ?w1"
    using aq_step.Add [of 7 ?w0 "?o [] 1" "Some 7"] by (simp add: aq_add_def aq_run_def aq_start_def)
  moreover have "aq_step ?w1 ?w2"
    using aq_step.Add [of 8 ?w1 "?o [8] 1" None] by (simp add: aq_add_def aq_run_def aq_start_def)
  moreover have "aq_step ?w2 ?w3"
    using aq_step.Add [of 9 ?w2 "?o [8, 9] 1" None] by (simp add: aq_add_def aq_run_def aq_start_def)
  moreover have "aq_step ?w3 ?w4"
    using aq_step.Settle [of 7 ?w3 "?o [9] 1" "Some 8"] by (simp add: aq_settle_def aq_run_def aq_start_def)
  ultimately have "aq_reach 1 ?w4" by (meson aq_reach.Step)
  then show ?thesis using async_queue_invariant [of 1 ?w4] by (intro exI [of _ ?w4]) simp
qed

end
