(* ===== verification/Websocket.thy ===== *)
theory Websocket
  imports Bytes
begin

text \<open>
  The WebSocket framing of \<open>src/lib/websocket.js\<close>: the parser that is fed buffers, the functions that
  build a frame, and \<open>unmask\<close>.  The parser's closure variables are the record \<open>ws_parser\<close>; the
  callbacks it makes are returned as a list of events.  A negative index of a buffer reads
  \<open>undefined\<close>, which counts as 0 in the operations the code applies there (after a step back the
  parser is at the start of a header, and a second byte of 0 ends it, so only the first two
  positions are ever reached on such an index).  The end of the data must lie in the buffer.
\<close>

section \<open>The parser\<close>

record hybi_message =
  FIN :: nat
  RSV1 :: nat
  RSV2 :: nat
  RSV3 :: nat
  OpCode :: nat
  len :: int
  mask :: nat
  maskkey :: "nat list"

text \<open>\<open>mask\<close> and \<open>maskkey\<close> are absent from a new message and set by the first two bytes, before
  anything reads them.\<close>

definition HYBIMessage :: hybi_message where
  "HYBIMessage = \<lparr>FIN = 1, RSV1 = 0, RSV2 = 0, RSV3 = 0, OpCode = 1, len = 0, mask = 0, maskkey = []\<rparr>"

record ws_parser =
  current :: hybi_message
  pos :: nat
  bpos :: int
  complete :: bool
  inheader :: bool
  payload16 :: bool
  payload64 :: bool

datatype ws_event = OnHeader hybi_message | OnMessage hybi_message | OnChunk int int hybi_message

definition new_Parser :: ws_parser where
  "new_Parser = \<lparr>current = HYBIMessage, pos = 0, bpos = 0, complete = False, inheader = True,
     payload16 = False, payload64 = False\<rparr>"

definition reset :: "ws_parser \<Rightarrow> ws_parser" where
  "reset p = \<lparr>current = HYBIMessage, pos = 0, bpos = 0, complete = False, inheader = True,
     payload16 = False, payload64 = False\<rparr>"

definition onMessage :: "ws_parser \<Rightarrow> ws_parser \<times> ws_event list" where
  "onMessage p = (p\<lparr>pos := 0, complete := True\<rparr>, [OnMessage (current p)])"

definition onHeader :: "ws_parser \<Rightarrow> ws_parser \<times> ws_event list" where
  "onHeader p = (p\<lparr>inheader := False, bpos := 0\<rparr>, [OnHeader (current p)])"

definition payload_or_message :: "ws_parser \<Rightarrow> ws_parser \<times> ws_event list" where
  "payload_or_message p = (if len (current p) \<noteq> 0 then onHeader p else onMessage p)"

abbreviation set_len :: "int \<Rightarrow> ws_parser \<Rightarrow> ws_parser" where
  "set_len n p \<equiv> p\<lparr>current := (current p)\<lparr>len := n\<rparr>\<rparr>"

abbreviation set_key :: "nat \<Rightarrow> nat \<Rightarrow> ws_parser \<Rightarrow> ws_parser" where
  "set_key i c p \<equiv> p\<lparr>current := (current p)\<lparr>maskkey := (maskkey (current p))[i := c]\<rparr>\<rparr>"

text \<open>The cases of the \<open>switch\<close> on the position.\<close>

definition first_byte :: "nat \<Rightarrow> ws_parser \<Rightarrow> ws_parser" where
  "first_byte c p = p\<lparr>payload16 := False, payload64 := False, complete := False,
     current := (current p)\<lparr>FIN := drop_bit 7 c AND 1, RSV1 := drop_bit 6 c AND 1,
       RSV2 := drop_bit 5 c AND 1, RSV3 := drop_bit 4 c AND 1, OpCode := c AND 0x0f,
       maskkey := [0, 0, 0, 0]\<rparr>\<rparr>"

definition second_byte :: "nat \<Rightarrow> ws_parser \<Rightarrow> ws_parser \<times> ws_event list" where
  "second_byte c p =
     (let p1 = p\<lparr>current := (current p)\<lparr>mask := drop_bit 7 c AND 1, len := int (c AND 0x7f)\<rparr>\<rparr> in
      if len (current p1) = 126 then (p1\<lparr>payload16 := True\<rparr>, [])
      else if len (current p1) = 127 then (p1\<lparr>payload64 := True\<rparr>, [])
      else if len (current p1) = 0 then onMessage p1
      else if mask (current p1) = 0 then onHeader p1
      else (p1, []))"

definition header_case :: "nat \<Rightarrow> ws_parser \<Rightarrow> ws_parser \<times> ws_event list" where
  "header_case c p =
     (let n = len (current p) in
      if pos p = 0 then (first_byte c p, [])
      else if pos p = 1 then second_byte c p
      else if pos p = 2 then
        (if payload16 p then (set_len (shl (int c) 8) p, [])
         else if \<not> payload64 p then (set_key 0 c p, []) else (p, []))
      else if pos p = 3 then
        (if payload16 p then
           (let p1 = set_len (n + int c) p
            in if mask (current p1) = 0 then payload_or_message p1 else (p1, []))
         else if payload64 p then (set_len (shl (int c) 48) p, [])
         else (set_key 1 c p, []))
      else if pos p = 4 then
        (if payload16 p then (set_key 0 c p, [])
         else if payload64 p then (set_len (n + shl (int c) 40) p, [])
         else (set_key 2 c p, []))
      else if pos p = 5 then
        (if payload16 p then (set_key 1 c p, [])
         else if payload64 p then (set_len (n + shl (int c) 32) p, [])
         else payload_or_message (set_key 3 c p))
      else if pos p = 6 then
        (if payload16 p then (set_key 2 c p, [])
         else if payload64 p then (set_len (n + shl (int c) 24) p, [])
         else (p, []))
      else if pos p = 7 then
        (if payload16 p then payload_or_message (set_key 3 c p)
         else if payload64 p then (set_len (n + shl (int c) 16) p, [])
         else (p, []))
      else if pos p = 8 then
        (if payload64 p then (set_len (n + shl (int c) 8) p, []) else (p, []))
      else if pos p = 9 then
        (if payload64 p then
           (let p1 = set_len (n + int c) p
            in if mask (current p1) = 0 then payload_or_message p1 else (p1, []))
         else (p, []))
      else if pos p = 10 then (if payload64 p then (set_key 0 c p, []) else (p, []))
      else if pos p = 11 then (if payload64 p then (set_key 1 c p, []) else (p, []))
      else if pos p = 12 then (if payload64 p then (set_key 2 c p, []) else (p, []))
      else if pos p = 13 then
        (if payload64 p then payload_or_message (set_key 3 c p) else (p, []))
      else (p, []))"

definition header_byte :: "nat \<Rightarrow> ws_parser \<Rightarrow> ws_parser \<times> ws_event list" where
  "header_byte c p =
     (let (p1, es) = header_case c p
      in (if \<not> complete p1 then p1\<lparr>pos := pos p1 + 1\<rparr> else p1\<lparr>complete := False\<rparr>, es))"

definition byte_at :: "bytes \<Rightarrow> int \<Rightarrow> nat" where
  "byte_at b i = (if 0 \<le> i \<and> i < int (length b) then b ! nat i else 0)"

text \<open>One turn of the loop: the parser, the next start and the callbacks made.\<close>

definition execute_step :: "bytes \<Rightarrow> int \<Rightarrow> ws_parser \<Rightarrow> int \<Rightarrow> ws_parser \<times> int \<times> ws_event list" where
  "execute_step b e p start =
     (if inheader p then (let (p1, es) = header_byte (byte_at b start) p in (p1, start + 1, es))
      else (let toread = len (current p) - bpos p in
        if toread = 0 then (let (p1, es) = onMessage (p\<lparr>inheader := True\<rparr>) in (p1, start, es))
        else if toread \<le> e - start then
          (let (p1, es) = onMessage (p\<lparr>bpos := bpos p + toread\<rparr>)
           in (p1\<lparr>inheader := True\<rparr>, start + toread, OnChunk start toread (current p) # es))
        else (let n = e - start
              in (p\<lparr>bpos := bpos p + n\<rparr>, start + n, [OnChunk start n (current p)]))))"

partial_function (option) execute_loop ::
  "bytes \<Rightarrow> int \<Rightarrow> ws_parser \<Rightarrow> int \<Rightarrow> ws_event list \<Rightarrow> (ws_parser \<times> ws_event list) option" where
  "execute_loop b e p start evs =
     (if start < e
      then (case execute_step b e p start of (p1, start1, es) \<Rightarrow> execute_loop b e p1 start1 (evs @ es))
      else Some (p, evs))"

definition execute :: "bytes \<Rightarrow> int \<Rightarrow> int \<Rightarrow> ws_parser \<Rightarrow> (ws_parser \<times> ws_event list) option" where
  "execute b start e p = execute_loop b e p start []"

section \<open>Frames\<close>

definition frame_start :: "nat \<Rightarrow> nat \<times> nat" where
  "frame_start dataLength =
     (if dataLength > 65536 then (10, 127) else if dataLength > 125 then (4, 126) else (2, dataLength))"

text \<open>The loop that stores the eight bytes of a long length, from the last; \<open>i\<close> is \<open>9 - k\<close>.\<close>

fun length_loop :: "nat \<Rightarrow> nat \<Rightarrow> nat \<Rightarrow> bytes \<Rightarrow> bytes" where
  "length_loop 0 startOffset l b = b"
| "length_loop (Suc k) startOffset l b =
     length_loop k startOffset (drop_bit 8 (l mod 2 ^ 32)) (b[startOffset - (8 - k) := l AND 0xff])"

definition message_buffer :: "nat \<Rightarrow> bytes" where
  "message_buffer dataLength =
     (let (startOffset, secondByte) = frame_start dataLength;
          b = (replicate (startOffset + dataLength) 0)[0 := 0x81, 1 := secondByte mod 256]
      in if secondByte = 126 then b[2 := drop_bit 8 (dataLength mod 2 ^ 32) mod 256, 3 := dataLength mod 256]
         else if secondByte = 127 then length_loop 8 startOffset dataLength b
         else b)"

definition createMessage :: "(jsstr \<Rightarrow> bytes) \<Rightarrow> jsstr \<Rightarrow> bytes js_result" where
  "createMessage utf8 str =
     writeString utf8 str (fst (frame_start (length str))) (message_buffer (length str))"

definition createBinaryMessage :: "bytes \<Rightarrow> nat \<Rightarrow> nat \<Rightarrow> bytes js_result" where
  "createBinaryMessage ab n off = copyFrom ab (fst (frame_start n)) n off (message_buffer n)"

fun unmask_loop :: "nat \<Rightarrow> nat \<Rightarrow> nat \<Rightarrow> nat list \<Rightarrow> bytes \<Rightarrow> bytes" where
  "unmask_loop 0 p off key b = b"
| "unmask_loop (Suc k) p off key b =
     unmask_loop k (p + 1) off key (b[p := b ! p XOR key ! ((p - off) mod 4)])"

definition unmask :: "bytes \<Rightarrow> nat list \<Rightarrow> nat \<Rightarrow> nat \<Rightarrow> bytes" where
  "unmask b key off n = unmask_loop n off off key b"

section \<open>One byte at a time\<close>

text \<open>The parser as a machine that takes single bytes, its payload bytes being separate tokens.\<close>

datatype ws_token = THeader hybi_message | TMessage hybi_message | TByte nat

fun tokens :: "bytes \<Rightarrow> ws_event \<Rightarrow> ws_token list" where
  "tokens b (OnHeader h) = [THeader h]"
| "tokens b (OnMessage h) = [TMessage h]"
| "tokens b (OnChunk off n h) = map TByte (slice b (nat off) (nat (off + n)))"

definition ws_byte :: "ws_parser \<Rightarrow> nat \<Rightarrow> ws_parser \<times> ws_token list" where
  "ws_byte p c =
     (if inheader p then (let (p1, es) = header_byte c p in (p1, concat (map (tokens []) es)))
      else let p1 = p\<lparr>bpos := bpos p + 1\<rparr> in
        if bpos p1 = len (current p)
        then (p1\<lparr>pos := 0, complete := True, inheader := True\<rparr>, [TByte c, TMessage (current p)])
        else (p1, [TByte c]))"

definition in_body :: "ws_parser \<Rightarrow> bool" where
  "in_body p \<longleftrightarrow> inheader p \<or> (0 \<le> bpos p \<and> bpos p < len (current p))"

definition ws_good :: "ws_parser \<Rightarrow> nat \<Rightarrow> bool" where
  "ws_good p c \<longleftrightarrow> in_body p \<and> in_body (fst (ws_byte p c))"

definition ws_feed :: "ws_parser \<Rightarrow> bytes \<Rightarrow> (ws_parser \<times> ws_token list) option" where
  "ws_feed p b = map_option (\<lambda>(p', es). (p', concat (map (tokens b) es))) (execute b 0 (int (length b)) p)"

lemma header_tokens: "header_byte c p = (p1, es) \<Longrightarrow> tokens b e = tokens [] e \<or> e \<notin> set es"
  by (cases e) (auto simp: header_byte_def header_case_def second_byte_def payload_or_message_def
      onHeader_def onMessage_def Let_def split: if_splits prod.splits)

lemma header_tokens_all:
  assumes "header_byte c p = (p1, es)"
  shows "concat (map (tokens b) es) = concat (map (tokens []) es)"
  using header_tokens [OF assms] by (metis map_cong)

lemma run_body:
  assumes "\<not> inheader p" and "0 \<le> bpos p" and "bpos p + int (length cs) < len (current p)"
  shows "run_bytes ws_byte p cs = (p\<lparr>bpos := bpos p + int (length cs)\<rparr>, map TByte cs)"
  using assms
proof (induction cs arbitrary: p)
  case (Cons c cs)
  then have "ws_byte p c = (p\<lparr>bpos := bpos p + 1\<rparr>, [TByte c])"
    by (simp add: ws_byte_def Let_def)
  then show ?case using Cons by (simp add: algebra_simps)
qed simp

lemma run_body_last:
  assumes "\<not> inheader p" and "0 \<le> bpos p" and "bpos p + int (length cs) = len (current p)" and "cs \<noteq> []"
  shows "run_bytes ws_byte p cs =
    (p\<lparr>bpos := len (current p), pos := 0, complete := True, inheader := True\<rparr>,
     map TByte cs @ [TMessage (current p)])"
proof -
  obtain ds d where cs: "cs = ds @ [d]" using assms(4) rev_exhaust by blast
  have "run_bytes ws_byte p ds = (p\<lparr>bpos := bpos p + int (length ds)\<rparr>, map TByte ds)"
    using assms cs by (intro run_body) auto
  then show ?thesis using assms cs by (simp add: run_bytes_append ws_byte_def Let_def)
qed

lemma execute_loop_simp:
  "execute_loop b e p start evs =
    (if start < e then (case execute_step b e p start of (p1, s1, es) \<Rightarrow> execute_loop b e p1 s1 (evs @ es))
     else Some (p, evs))"
  by (rule execute_loop.simps)

text \<open>Handling the rest of a buffer is the run of the byte machine over it.\<close>

lemma execute_loop_run:
  assumes "accepted ws_byte ws_good p cs"
  shows "\<exists>es. execute_loop (pre @ cs) (int (length pre + length cs)) p (int (length pre)) evs =
      Some (fst (run_bytes ws_byte p cs), evs @ es) \<and>
    concat (map (tokens (pre @ cs)) es) = snd (run_bytes ws_byte p cs)"
  using assms
proof (induction "length cs" arbitrary: cs pre p evs rule: less_induct)
  case less
  let ?b = "pre @ cs" and ?s = "int (length pre)" and ?e = "int (length pre + length cs)"
  show ?case
  proof (cases cs)
    case Nil
    then show ?thesis by (subst execute_loop_simp) simp
  next
    case (Cons c ds)
    have good: "in_body p" using less.prems Cons by (simp add: ws_good_def)
    show ?thesis
    proof (cases "inheader p")
      case True
      obtain p1 es where h: "header_byte c p = (p1, es)" by fastforce
      have step: "execute_step ?b ?e p ?s = (p1, ?s + 1, es)"
        using True h Cons by (simp add: execute_step_def byte_at_def nth_append)
      have byte: "ws_byte p c = (p1, concat (map (tokens []) es))" using True h by (simp add: ws_byte_def)
      have acc: "accepted ws_byte ws_good p1 ds" using less.prems Cons byte by simp
      from less.hyps [OF _ acc, of "pre @ [c]" "evs @ es"] Cons obtain es2 where
        "execute_loop ?b ?e p1 (?s + 1) (evs @ es) = Some (fst (run_bytes ws_byte p1 ds), evs @ es @ es2)"
        "concat (map (tokens ?b) es2) = snd (run_bytes ws_byte p1 ds)"
        by (auto simp: algebra_simps)
      then show ?thesis
        using step Cons byte header_tokens_all [OF h, of ?b]
        by (subst execute_loop_simp) (auto simp: split_beta intro!: exI [of _ "es @ es2"])
    next
      case False
      let ?toread = "len (current p) - bpos p"
      have t: "0 < ?toread" "0 \<le> bpos p" using good False by (auto simp: in_body_def)
      show ?thesis
      proof (cases "?toread \<le> int (length cs)")
        case True
        let ?n = "nat ?toread"
        let ?p = "p\<lparr>bpos := len (current p), pos := 0, complete := True, inheader := True\<rparr>"
        have n: "0 < ?n" "?n \<le> length cs" using True t by auto
        have run: "run_bytes ws_byte p (take ?n cs) = (?p, map TByte (take ?n cs) @ [TMessage (current p)])"
          using False t n by (intro run_body_last) auto
        have "accepted ws_byte ws_good p (take ?n cs @ drop ?n cs)" using less.prems by simp
        then have acc: "accepted ws_byte ws_good ?p (drop ?n cs)" by (simp only: accepted_append run) simp
        have step: "execute_step ?b ?e p ?s =
            (?p, ?s + ?toread, [OnChunk ?s ?toread (current p), OnMessage (current p)])"
          using False t True by (simp add: execute_step_def onMessage_def Let_def)
        have "length (drop ?n cs) < length cs" using n by simp
        from less.hyps [OF this acc, of "pre @ take ?n cs"
            "evs @ [OnChunk ?s ?toread (current p), OnMessage (current p)]"] n obtain es2 where
          es2: "execute_loop ?b ?e ?p (?s + ?toread) (evs @ [OnChunk ?s ?toread (current p), OnMessage (current p)]) =
            Some (fst (run_bytes ws_byte ?p (drop ?n cs)),
              evs @ [OnChunk ?s ?toread (current p), OnMessage (current p)] @ es2)"
          "concat (map (tokens ?b) es2) = snd (run_bytes ws_byte ?p (drop ?n cs))"
          using t by (auto simp: algebra_simps)
        have "run_bytes ws_byte p cs = run_bytes ws_byte p (take ?n cs @ drop ?n cs)" by simp
        also have "\<dots> = (fst (run_bytes ws_byte ?p (drop ?n cs)),
            map TByte (take ?n cs) @ [TMessage (current p)] @ snd (run_bytes ws_byte ?p (drop ?n cs)))"
          by (simp only: run_bytes_append run) simp
        finally have total: "run_bytes ws_byte p cs = \<dots>" .
        have "slice ?b (nat ?s) (nat (?s + ?toread)) = take ?n cs"
          using t by (simp add: slice_def nat_add_distrib)
        then show ?thesis using es2 total Cons step
          by (subst execute_loop_simp)
            (auto intro!: exI [of _ "[OnChunk ?s ?toread (current p), OnMessage (current p)] @ es2"])
      next
        case False2: False
        have run: "run_bytes ws_byte p cs = (p\<lparr>bpos := bpos p + int (length cs)\<rparr>, map TByte cs)"
          using False t False2 by (intro run_body) auto
        have "execute_step ?b ?e p ?s =
            (p\<lparr>bpos := bpos p + int (length cs)\<rparr>, ?e, [OnChunk ?s (int (length cs)) (current p)])"
          using False t False2 by (simp add: execute_step_def Let_def)
        moreover have "execute_loop ?b ?e q ?e evs2 = Some (q, evs2)" for q evs2
          by (subst execute_loop_simp) simp
        ultimately show ?thesis using run Cons
          by (subst execute_loop_simp)
            (auto simp: slice_def nat_add_distrib intro!: exI [of _ "[OnChunk ?s (int (length cs)) (current p)]"])
      qed
    qed
  qed
qed

lemma ws_feed_run: "accepted ws_byte ws_good p b \<Longrightarrow> ws_feed p b = Some (run_bytes ws_byte p b)"
  using execute_loop_run [of p b "[]" "[]"] by (auto simp: ws_feed_def execute_def)

interpretation websocket: byte_consumer ws_byte ws_good ws_feed
  by unfold_locales (rule ws_feed_run)

section \<open>What is written on the wire\<close>

text \<open>The header of a frame of \<open>n\<close> bytes, as the bytes that \<open>createMessage\<close> stores.\<close>

definition frame_header :: "nat \<Rightarrow> bytes" where
  "frame_header n =
     (if n \<le> 125 then [129, n]
      else if n \<le> 65536 then [129, 126, n div 256 mod 256, n mod 256]
      else [129, 127, 0, 0, 0, 0, n div 16777216 mod 256, n div 65536 mod 256, n div 256 mod 256, n mod 256])"

lemma replicate_numerals:
  "replicate (2 + n) x = x # x # replicate n x"
  "replicate (4 + n) x = x # x # x # x # replicate n x"
  "replicate (10 + n) x = x # x # x # x # x # x # x # x # x # x # replicate n x"
  by (simp_all add: numeral_eq_Suc)

lemma eight: "(8::nat) = Suc (Suc (Suc (Suc (Suc (Suc (Suc (Suc 0)))))))"
  by simp

lemma length_loop_8:
  assumes "n < 4294967296"
  shows "length_loop 8 10 n b =
    b[9 := n mod 256, 8 := n div 256 mod 256, 7 := n div 65536 mod 256, 6 := n div 16777216 mod 256,
      5 := 0, 4 := 0, 3 := 0, 2 := 0]"
proof -
  have small: "n div k mod 4294967296 = n div k" for k
    using assms by (metis div_le_dividend le_less_trans mod_less)
  have zero: "n div 4294967296 = 0" using assms by simp
  have "length_loop (Suc (Suc (Suc (Suc (Suc (Suc (Suc (Suc 0)))))))) 10 n b = b[9 := n mod 256, 8 := n div 256 mod 256, 7 := n div 65536 mod 256, 6 := n div 16777216 mod 256,
      5 := 0, 4 := 0, 3 := 0, 2 := 0]"
    by (simp add: and_masks drop_bit_eq_div small zero assms div_mult2_eq [symmetric])
  then show ?thesis by (simp only: eight [symmetric])
qed

lemma message_buffer_eq: 
  assumes "n < 4294967296"
  shows "message_buffer n = frame_header n @ replicate n 0"
proof -
  consider "n \<le> 125" | "125 < n" "n \<le> 65536" | "65536 < n" by linarith
  then show ?thesis
  proof cases
    case 3
    then show ?thesis using assms
      by (simp add: message_buffer_def frame_start_def frame_header_def replicate_numerals length_loop_8)
  qed (use assms in \<open>simp_all add: message_buffer_def frame_start_def frame_header_def replicate_numerals
      drop_bit_eq_div\<close>)
qed

section \<open>Reading frames back\<close>

definition wire_header :: "nat \<Rightarrow> hybi_message" where
  "wire_header n = \<lparr>FIN = 1, RSV1 = 0, RSV2 = 0, RSV3 = 0, OpCode = 1, len = int n, mask = 0, maskkey = [0, 0, 0, 0]\<rparr>"

definition between_frames :: "ws_parser \<Rightarrow> bool" where
  "between_frames p \<longleftrightarrow> inheader p \<and> pos p = 0"

text \<open>The parser right after a header.\<close>

definition in_payload :: "nat \<Rightarrow> ws_parser \<Rightarrow> bool" where
  "in_payload n p \<longleftrightarrow> \<not> inheader p \<and> bpos p = 0 \<and> current p = wire_header n"

lemmas header_defs = ws_byte_def ws_good_def in_body_def header_byte_def header_case_def first_byte_def
  second_byte_def payload_or_message_def onHeader_def onMessage_def Let_def and_masks drop_bit_eq_div

lemma more_masks: "(c::nat) AND Suc 0 = c mod 2"
  using and_masks(1) by simp

lemma shl_zero [simp]: "shl 0 k = 0"
  by (simp add: shl_def to_int32_def)

definition header_read :: "nat \<Rightarrow> ws_parser \<Rightarrow> bytes \<Rightarrow> bool" where
  "header_read n p h \<longleftrightarrow> accepted ws_byte ws_good p h \<and> in_payload n (fst (run_bytes ws_byte p h)) \<and>
    snd (run_bytes ws_byte p h) = [THeader (wire_header n)]"

lemma run_header16:
  assumes "between_frames p" and "shl (int h) 8 + int l = int n" and "0 < n"
  shows "header_read n p [129, 126, h, l]"
  using assms by (simp add: header_read_def header_defs more_masks between_frames_def in_payload_def wire_header_def)

lemma run_header64:
  assumes "between_frames p" and "shl (int a) 24 + shl (int b) 16 + shl (int c) 8 + int d = int n" and "0 < n"
  shows "header_read n p [129, 127, 0, 0, 0, 0, a, b, c, d]"
  using assms by (simp add: header_read_def header_defs more_masks between_frames_def in_payload_def wire_header_def)

lemma run_header:
  assumes "between_frames p" and "0 < n" and "n < 2147483648" and "n \<noteq> 65536"
  shows "header_read n p (frame_header n)"
proof -
  consider "n \<le> 125" | "125 < n" "n < 65536" | "65536 < n" using assms(4) by linarith
  then show ?thesis
  proof cases
    case 1
    then show ?thesis using assms
      by (simp add: header_read_def frame_header_def header_defs more_masks between_frames_def in_payload_def wire_header_def)
  next
    case 2
    have "shl (int (n div 256 mod 256)) 8 = int (n div 256) * 256" using 2 by (subst shl_exact) auto
    moreover have "n div 256 * 256 + n mod 256 = n" by simp
    ultimately have "shl (int (n div 256 mod 256)) 8 + int (n mod 256) = int n" by linarith
    then show ?thesis using run_header16 [OF assms(1)] assms(2) 2 by (simp add: frame_header_def)
  next
    case 3
    let ?a = "n div 16777216 mod 256" and ?b = "n div 65536 mod 256" and ?c = "n div 256 mod 256"
    have "shl (int ?a) 24 = int ?a * 16777216" using assms(3) by (subst shl_exact) auto
    moreover have "shl (int ?b) 16 = int ?b * 65536" by (subst shl_exact) auto
    moreover have "shl (int ?c) 8 = int ?c * 256" by (subst shl_exact) auto
    moreover have "?a * 16777216 + ?b * 65536 + ?c * 256 + n mod 256 = n"
    proof -
      have "n div 16777216 < 256" using assms(3) by (simp add: div_less_iff_less_mult)
      then have a: "?a = n div 65536 div 256" by (simp add: div_mult2_eq [symmetric])
      have "n div 65536 = n div 256 div 256" by (simp add: div_mult2_eq [symmetric])
      then show ?thesis using a div_mult_mod_eq [of n 256] div_mult_mod_eq [of "n div 256" 256]
        div_mult_mod_eq [of "n div 65536" 256] by linarith
    qed
    ultimately have "shl (int ?a) 24 + shl (int ?b) 16 + shl (int ?c) 8 + int (n mod 256) = int n" by linarith
    then have "header_read n p [129, 127, 0, 0, 0, 0, ?a, ?b, ?c, n mod 256]"
      by (rule run_header64 [OF assms(1) _ assms(2)])
    moreover have "frame_header n = [129, 127, 0, 0, 0, 0, ?a, ?b, ?c, n mod 256]"
      using 3 by (simp add: frame_header_def)
    ultimately show ?thesis by metis
  qed
qed

text \<open>The payloads of the messages in a run.\<close>

fun messages :: "bytes \<Rightarrow> ws_token list \<Rightarrow> bytes list" where
  "messages acc [] = []"
| "messages acc (TByte c # ts) = messages (acc @ [c]) ts"
| "messages acc (TMessage h # ts) = acc # messages [] ts"
| "messages acc (THeader h # ts) = messages acc ts"

lemma messages_bytes: "messages acc (map TByte b @ ts) = messages (acc @ b) ts"
  by (induction b arbitrary: acc) auto

lemma length_frame_header: "length (frame_header n) = fst (frame_start n)"
  by (simp add: frame_header_def frame_start_def)

lemma createMessage_frame:
  assumes "length (utf8 s) = length s" and "length s < 4294967296"
  shows "createMessage utf8 s = Inr (frame_header (length s) @ utf8 s)"
  using assms
  by (simp add: createMessage_def writeString_def message_buffer_eq length_frame_header write_at_append
      [where q = "[]", simplified])

lemma accepted_body:
  assumes "\<not> inheader p" and "0 \<le> bpos p" and "bpos p + int (length cs) \<le> len (current p)"
  shows "accepted ws_byte ws_good p cs"
  using assms
proof (induction cs arbitrary: p)
  case (Cons c cs)
  show ?case
  proof (cases "cs = []")
    case True
    then show ?thesis using Cons.prems by (simp add: ws_good_def in_body_def ws_byte_def Let_def)
  next
    case False
    then have "1 \<le> length cs" by (cases cs) auto
    then have "bpos p + 1 < len (current p)" using Cons.prems(3) by simp
    then show ?thesis using Cons by (simp add: ws_good_def in_body_def ws_byte_def Let_def)
  qed
qed simp

lemma run_frame:
  assumes "between_frames p" and "length b = n" and "n < 2147483648" and "n \<noteq> 65536"
  shows "accepted ws_byte ws_good p (frame_header n @ b) \<and>
    between_frames (fst (run_bytes ws_byte p (frame_header n @ b))) \<and>
    (\<forall>ts. messages [] (snd (run_bytes ws_byte p (frame_header n @ b)) @ ts) = b # messages [] ts)"
proof (cases "n = 0")
  case True
  then show ?thesis using assms
    by (simp add: frame_header_def header_defs more_masks between_frames_def)
next
  case False
  let ?q = "fst (run_bytes ws_byte p (frame_header n))"
  have h: "accepted ws_byte ws_good p (frame_header n)" "in_payload n ?q"
      "snd (run_bytes ws_byte p (frame_header n)) = [THeader (wire_header n)]"
    using run_header [of p n] assms False by (auto simp: header_read_def)
  then have q: "\<not> inheader ?q" "bpos ?q = 0" "len (current ?q) = int (length b)"
    using assms(2) by (auto simp: in_payload_def wire_header_def)
  have "accepted ws_byte ws_good ?q b" using q by (intro accepted_body) auto
  moreover have "b \<noteq> []" using assms(2) False by auto
  then have "run_bytes ws_byte ?q b = (?q\<lparr>bpos := len (current ?q), pos := 0, complete := True, inheader := True\<rparr>,
      map TByte b @ [TMessage (current ?q)])"
    using q by (intro run_body_last) auto
  ultimately show ?thesis using h
    by (simp add: accepted_append run_bytes_append between_frames_def messages_bytes)
qed

lemma run_frames:
  assumes "between_frames p" and "\<forall>b \<in> set bs. length b < 2147483648 \<and> length b \<noteq> 65536"
  shows "accepted ws_byte ws_good p (concat (map (\<lambda>b. frame_header (length b) @ b) bs)) \<and>
    messages [] (snd (run_bytes ws_byte p (concat (map (\<lambda>b. frame_header (length b) @ b) bs)))) = bs"
  using assms
proof (induction bs arbitrary: p)
  case (Cons b bs)
  let ?f = "frame_header (length b) @ b"
  have f: "accepted ws_byte ws_good p ?f" "between_frames (fst (run_bytes ws_byte p ?f))"
    "\<And>ts. messages [] (snd (run_bytes ws_byte p ?f) @ ts) = b # messages [] ts"
    using run_frame [of p b "length b"] Cons.prems by auto
  have "concat (map (\<lambda>b. frame_header (length b) @ b) (b # bs)) = ?f @ concat (map (\<lambda>b. frame_header (length b) @ b) bs)"
    by simp
  then show ?case using Cons.IH [OF f(2)] Cons.prems(2) f(1,3)
    by (simp only: accepted_append run_bytes_append snd_conv) simp
qed simp

lemma between_new: "between_frames new_Parser"
  by (simp add: between_frames_def new_Parser_def)



section \<open>A header that never ends\<close>

lemma never_returns:
  assumes "I p start" and "\<And>p s. I p s \<Longrightarrow> s < e \<and> (case execute_step b e p s of (p1, s1, es) \<Rightarrow> I p1 s1)"
  shows "execute_loop b e p start evs = None"
proof -
  have "b' = b \<longrightarrow> e' = e \<longrightarrow> \<not> I p start" if "execute_loop b' e' p start evs = Some y" for b' e' p start evs y
  proof (rule execute_loop.raw_induct [OF _ that,
      where P = "\<lambda>b' e' p start evs y. b' = b \<longrightarrow> e' = e \<longrightarrow> \<not> I p start"], intro impI notI)
    fix loop b' e' p start evs y
    assume IH: "\<And>b' e' p start evs y. loop b' e' p start evs = Some y \<Longrightarrow> b' = b \<longrightarrow> e' = e \<longrightarrow> \<not> I p start"
      and eq: "b' = b" "e' = e" and I: "I p start"
      and run: "(if start < e' then case execute_step b' e' p start of (p1, s1, es) \<Rightarrow> loop b' e' p1 s1 (evs @ es)
        else Some (p, evs)) = Some y"
    obtain p1 s1 es where st: "execute_step b e p start = (p1, s1, es)" by (metis prod_cases3)
    then have "I p1 s1" "start < e" using assms(2) [OF I] by auto
    then have "loop b e p1 s1 (evs @ es) = Some y" using run eq st by simp
    then show False using IH \<open>I p1 s1\<close> by blast
  qed
  then show ?thesis using assms(1) by (metis option.exhaust)
qed

definition negative_frame :: bytes where
  "negative_frame = [0x82, 127, 0, 0, 0, 0, 255, 255, 255, 246, 0]"

definition hang :: "nat \<Rightarrow> ws_parser \<Rightarrow> bool" where
  "hang i p \<longleftrightarrow> pos p = i \<and> inheader p = (i < 10) \<and> (0 < i \<longrightarrow> \<not> complete p \<and> \<not> payload16 p) \<and>
    (2 \<le> i \<longrightarrow> payload64 p \<and> mask (current p) = 0) \<and>
    (4 \<le> i \<longrightarrow> i < 7 \<longrightarrow> len (current p) = 0) \<and>
    (i = 7 \<longrightarrow> len (current p) = - 16777216) \<and> (i = 8 \<longrightarrow> len (current p) = - 65536) \<and>
    (i = 9 \<longrightarrow> len (current p) = - 256) \<and> (i = 10 \<longrightarrow> len (current p) = - 10 \<and> bpos p = 0)"

lemma shl_255: "shl 255 24 = - 16777216" "shl 255 16 = 16711680" "shl 255 8 = 65280"
  by (simp_all add: shl_def to_int32_def)

lemma hang_step:
  assumes "hang i p" and "i \<le> 10"
  shows "case execute_step negative_frame 11 p (int i) of (p1, s1, es) \<Rightarrow>
    s1 = int (if i = 10 then 0 else i + 1) \<and> hang (if i = 10 then 0 else i + 1) p1"
proof -
  consider "i = 0" | "i = 1" | "i = 2" | "i = 3" | "i = 4" | "i = 5" | "i = 6" | "i = 7" | "i = 8" | "i = 9" | "i = 10"
    using assms(2) by (auto simp: le_Suc_eq numeral_eq_Suc)
  then show ?thesis
    by cases (use assms in \<open>simp_all add: hang_def execute_step_def byte_at_def negative_frame_def header_defs more_masks shl_255\<close>)
qed


section \<open>Unmasking\<close>

lemma unmask_loop_length [simp]: "length (unmask_loop n p off key b) = length b"
  by (induction n p off key b rule: unmask_loop.induct) auto

lemma unmask_loop_nth:
  "i < length b \<Longrightarrow> unmask_loop n p off key b ! i =
    (if p \<le> i \<and> i < p + n then b ! i XOR key ! ((i - off) mod 4) else b ! i)"
proof (induction n p off key b rule: unmask_loop.induct)
  case (2 k p off key b)
  show ?case
  proof (cases "i = p")
    case True
    then show ?thesis using 2 by simp
  next
    case False
    then have "Suc p \<le> i \<longleftrightarrow> p \<le> i" by auto
    then show ?thesis using 2 False by simp
  qed
qed simp

text \<open>Masking is its own inverse, and changes only the bytes of the payload.\<close>

theorem unmask_involution:
  "unmask (unmask b key off n) key off n = b \<and> length (unmask b key off n) = length b \<and>
   take off (unmask b key off n) = take off b \<and> drop (off + n) (unmask b key off n) = drop (off + n) b"
  unfolding unmask_def
  by (intro conjI nth_equalityI) (auto simp: unmask_loop_nth xor.assoc)

section \<open>Where the framing falls short\<close>

text \<open>A message of 65536 bytes gets a 16-bit length, which is 0: the reader sees an empty message.\<close>

lemma message_65536: "frame_header 65536 = [129, 126, 0, 0]"
  by (simp add: frame_header_def)

text \<open>A masked frame without payload ends before its key, which is then read as the next header.\<close>

lemma masked_empty_frame:
  assumes "between_frames p"
  shows "\<exists>h. snd (run_bytes ws_byte p [0x89, 0x80]) = [TMessage h] \<and> mask h = 1 \<and>
    between_frames (fst (run_bytes ws_byte p [0x89, 0x80]))"
  using assms by (simp add: header_defs more_masks between_frames_def)

text \<open>The buffer is sized by the characters of the text: a text with a longer encoding is written past
  its end.\<close>

lemma createMessage_overruns:
  assumes "length s < length (utf8 s)" and "length s < 4294967296"
  shows "createMessage utf8 s = Inl Overrun"
  using assms by (simp add: createMessage_def writeString_def message_buffer_eq length_frame_header)

end
