(* ===== verification/Http.thy ===== *)
theory Http
  imports Bytes
begin

text \<open>
  The parsers of \<open>src/lib/http/http.js\<close>.  The chunked parser reads a body in chunked transfer coding
  from buffers that its client (\<open>src/lib/fetch/fetch.js\<close>) fills from the start, setting
  \<open>buf.offset\<close> to 0.  Request and response parsers hand the work to native functions, which are
  parameters, and manage the rest of the buffer; finished parsers go to one free list.  Chunk
  lengths are exact here; the engine's numbers are exact up to 13 hexadecimal digits.
\<close>

section \<open>The chunked parser\<close>

record chunked =
  inHeader :: bool
  offset :: nat
  chunkLen :: nat
  ending :: bool
  digits :: jsstr
  buf_offset :: nat

datatype chunk_event = OnData nat nat | OnEnd

definition chunkedParser :: chunked where
  "chunkedParser = \<lparr>inHeader = True, offset = 0, chunkLen = 0, ending = False, digits = [], buf_offset = 0\<rparr>"

definition is_hex_digit :: "nat \<Rightarrow> bool" where
  "is_hex_digit c \<longleftrightarrow> (c > 47 \<and> c < 58) \<or> (c > 96 \<and> c < 103) \<or> (c > 64 \<and> c < 71)"

text \<open>The byte \<open>c\<close> of a header, \<open>offset\<close> being past it.\<close>

definition chunk_newline :: "chunked \<Rightarrow> chunked \<times> chunk_event list" where
  "chunk_newline p =
     (if ending p then (p\<lparr>buf_offset := offset p, ending := False\<rparr>, [OnEnd])
      else if digits p \<noteq> [] then
        (let n = parse_radix 16 (digits p);
             p1 = p\<lparr>chunkLen := n\<rparr>;
             p2 = (if n > 0 then p1\<lparr>inHeader := False\<rparr> else p1\<lparr>ending := True\<rparr>)
         in (p2\<lparr>digits := []\<rparr>, []))
      else (p, []))"

definition chunk_header :: "nat \<Rightarrow> chunked \<Rightarrow> (chunked \<times> chunk_event list) js_result" where
  "chunk_header c p =
     (if c = 13 then Inr (p, [])
      else if c = 10 then Inr (chunk_newline p)
      else if is_hex_digit c then Inr (p\<lparr>digits := digits p @ [c]\<rparr>, [])
      else Inl OtherError)"

text \<open>The body part of the loop with \<open>n\<close> bytes left: the parser, the bytes left and the callback.\<close>

definition chunk_body :: "nat \<Rightarrow> chunked \<Rightarrow> chunked \<times> nat \<times> chunk_event" where
  "chunk_body n p =
     (if n \<ge> chunkLen p
      then (p\<lparr>inHeader := True, offset := offset p + chunkLen p, chunkLen := 0,
              buf_offset := offset p + chunkLen p\<rparr>,
            n - chunkLen p, OnData (offset p) (chunkLen p))
      else (p\<lparr>chunkLen := chunkLen p - n, buf_offset := offset p\<rparr>, 0, OnData (offset p) n))"

function chunk_loop :: "bytes \<Rightarrow> nat \<Rightarrow> chunked \<Rightarrow> chunk_event list \<Rightarrow> (chunked \<times> chunk_event list) js_result" where
  "chunk_loop u8 n p evs =
     (if n = 0 then Inr (p, evs)
      else if inHeader p then
        js_bind (chunk_header (u8 ! offset p) (p\<lparr>offset := offset p + 1\<rparr>))
          (\<lambda>(p1, es). chunk_loop u8 (n - 1) p1 (evs @ es))
      else (case chunk_body n p of (p1, n1, e) \<Rightarrow> chunk_loop u8 n1 p1 (evs @ [e])))"
  by pat_completeness auto
termination
  by (relation "measures [\<lambda>(u8, n, p, evs). n, \<lambda>(u8, n, p, evs). if inHeader p then 0 else 1]")
    (auto simp: chunk_body_def split: if_splits)

declare chunk_loop.simps [simp del]

definition chunk_parse :: "bytes \<Rightarrow> nat \<Rightarrow> chunked \<Rightarrow> (chunked \<times> chunk_event list) js_result" where
  "chunk_parse u8 n p = chunk_loop u8 n (p\<lparr>offset := buf_offset p\<rparr>) []"

section \<open>Requests and responses\<close>

text \<open>A buffer with its \<open>offset\<close> and \<open>remaining\<close> properties.\<close>

record http_buffer =
  content :: bytes
  hb_offset :: nat
  hb_remaining :: nat

text \<open>
  \<open>native b end off\<close> is \<open>parseRequests\<close> or \<open>parseResponses\<close>: the number of bytes before \<open>end\<close> that are
  left and the number of messages.  The result is the buffer and the count handed to the callback,
  with the buffer the callback sees.
\<close>

definition request_parse ::
  "(bytes \<Rightarrow> nat \<Rightarrow> nat \<Rightarrow> nat \<times> nat) \<Rightarrow> nat \<Rightarrow> nat \<Rightarrow> http_buffer \<Rightarrow>
    (http_buffer \<times> (nat \<times> http_buffer) option) js_result" where
  "request_parse native n off hb =
     (let offset = hb_offset hb;
          (remaining, count) = native (content hb) (offset + n) off;
          call = (if count > 0 then Some (count, hb) else None)
      in if remaining > 0 then
           (let start = offset + n - remaining
            in if start > offset
               then js_bind (copyFrom (content hb) 0 remaining start (content hb))
                 (\<lambda>b. Inr (hb\<lparr>content := b, hb_offset := remaining\<rparr>, call))
               else Inr (hb\<lparr>hb_offset := remaining\<rparr>, call))
         else Inr (hb\<lparr>hb_offset := 0\<rparr>, call))"

definition response_parse ::
  "(bytes \<Rightarrow> nat \<Rightarrow> nat \<Rightarrow> nat \<times> nat) \<Rightarrow> nat \<Rightarrow> http_buffer \<Rightarrow> http_buffer \<times> (nat \<times> http_buffer) option" where
  "response_parse native n hb =
     (let (remaining, count) = native (content hb) (hb_offset hb + n) (hb_offset hb);
          hb1 = (if remaining > 0
                 then hb\<lparr>hb_offset := hb_offset hb + n - remaining, hb_remaining := remaining\<rparr> else hb);
          call = (if count > 0 then Some (count, hb1) else None)
      in (hb1\<lparr>hb_offset := 0\<rparr>, call))"

text \<open>A parser object is its kind and its buffer; buffers are named by numbers.\<close>

datatype parser_kind = HTTP_REQUEST | HTTP_RESPONSE | HTTP_CHUNKED

text \<open>What a constructor returns, and the free list after it; the returned parser's buffer has its
  offset set to 0.\<close>

definition requestParser :: "nat \<Rightarrow> (parser_kind \<times> nat) list \<Rightarrow> (parser_kind \<times> nat) \<times> (parser_kind \<times> nat) list" where
  "requestParser buffer free =
     (case free of parser # rest \<Rightarrow> (parser, rest) | [] \<Rightarrow> ((HTTP_REQUEST, buffer), []))"

definition responseParser :: "nat \<Rightarrow> (parser_kind \<times> nat) list \<Rightarrow> (parser_kind \<times> nat) \<times> (parser_kind \<times> nat) list" where
  "responseParser buffer free =
     (case free of parser # rest \<Rightarrow> (parser, rest) | [] \<Rightarrow> ((HTTP_RESPONSE, buffer), []))"

definition createParser :: "nat \<Rightarrow> parser_kind \<Rightarrow> (parser_kind \<times> nat) list \<Rightarrow>
    (parser_kind \<times> nat) \<times> (parser_kind \<times> nat) list" where
  "createParser buffer type free =
     (case type of HTTP_CHUNKED \<Rightarrow> ((HTTP_CHUNKED, buffer), free)
      | HTTP_REQUEST \<Rightarrow> requestParser buffer free
      | HTTP_RESPONSE \<Rightarrow> responseParser buffer free)"

definition free_parser :: "parser_kind \<times> nat \<Rightarrow> (parser_kind \<times> nat) list \<Rightarrow> (parser_kind \<times> nat) list" where
  "free_parser parser free = free @ [parser]"

section \<open>One byte at a time\<close>

text \<open>The state between two bytes, without the positions in the buffer.\<close>

datatype chunk_token = Data nat | End

definition chunk_byte :: "chunked \<Rightarrow> nat \<Rightarrow> chunked \<times> chunk_token list" where
  "chunk_byte p c =
     (if inHeader p then
        (case chunk_header c p of
           Inl e \<Rightarrow> (p, [])
         | Inr (p1, es) \<Rightarrow> (p1\<lparr>buf_offset := 0\<rparr>, if es = [] then [] else [End]))
      else if chunkLen p = 1 then (p\<lparr>inHeader := True, chunkLen := 0\<rparr>, [Data c])
      else (p\<lparr>chunkLen := chunkLen p - 1\<rparr>, [Data c]))"

definition chunk_good :: "chunked \<Rightarrow> nat \<Rightarrow> bool" where
  "chunk_good p c \<longleftrightarrow> (if inHeader p then c = 13 \<or> c = 10 \<or> is_hex_digit c else chunkLen p \<noteq> 0) \<and>
    offset p = 0 \<and> buf_offset p = 0"

fun chunk_tokens :: "bytes \<Rightarrow> chunk_event \<Rightarrow> chunk_token list" where
  "chunk_tokens b (OnData off n) = map Data (slice b off (off + n))"
| "chunk_tokens b OnEnd = [End]"

text \<open>A fresh buffer, as the client fills it: the positions start at 0, and an empty read does not
  reach the parser.\<close>

definition at_start :: "chunked \<Rightarrow> chunked" where
  "at_start p = p\<lparr>offset := 0, buf_offset := 0\<rparr>"

definition chunk_feed :: "chunked \<Rightarrow> bytes \<Rightarrow> (chunked \<times> chunk_token list) option" where
  "chunk_feed p b =
     (if b = [] then Some (p, [])
      else (case chunk_parse b (length b) (at_start p) of
              Inl e \<Rightarrow> None
            | Inr (p1, es) \<Rightarrow> Some (at_start p1, concat (map (chunk_tokens b) es))))"

lemma at_start_idem [simp]: "at_start (at_start p) = at_start p"
  "at_start (p\<lparr>offset := a\<rparr>) = at_start p" "at_start (p\<lparr>buf_offset := a\<rparr>) = at_start p"
  "inHeader (at_start p) = inHeader p" "chunkLen (at_start p) = chunkLen p"
  by (simp_all add: at_start_def)

lemma at_start_id: "offset p = 0 \<Longrightarrow> buf_offset p = 0 \<Longrightarrow> at_start p = p"
  by (simp add: at_start_def)

lemma chunk_header_start:
  assumes "c = 13 \<or> c = 10 \<or> is_hex_digit c"
  shows "\<exists>p1 es. chunk_header c p = Inr (p1, es) \<and> offset p1 = offset p \<and>
    chunk_byte (at_start p) c = (if inHeader p then (at_start p1, concat (map (chunk_tokens b) es)) else chunk_byte (at_start p) c)"
  using assms by (auto simp: chunk_header_def chunk_byte_def chunk_newline_def at_start_def Let_def)

lemma chunk_body_run:
  assumes "\<not> inHeader p" and "length cs < chunkLen p"
  shows "run_bytes chunk_byte p cs = (p\<lparr>chunkLen := chunkLen p - length cs\<rparr>, map Data cs)"
  using assms
proof (induction cs arbitrary: p)
  case (Cons c cs)
  then have "chunk_byte p c = (p\<lparr>chunkLen := chunkLen p - 1\<rparr>, [Data c])"
    by (simp add: chunk_byte_def)
  then show ?case using Cons by simp
qed simp

lemma chunk_body_run_last:
  assumes "\<not> inHeader p" and "length cs = chunkLen p" and "cs \<noteq> []"
  shows "run_bytes chunk_byte p cs = (p\<lparr>inHeader := True, chunkLen := 0\<rparr>, map Data cs)"
proof -
  obtain ds d where cs: "cs = ds @ [d]" using assms(3) rev_exhaust by blast
  have "run_bytes chunk_byte p ds = (p\<lparr>chunkLen := chunkLen p - length ds\<rparr>, map Data ds)"
    using assms cs by (intro chunk_body_run) auto
  then show ?thesis using assms cs by (simp add: run_bytes_append chunk_byte_def)
qed

lemma chunk_loop_run:
  assumes "accepted chunk_byte chunk_good (at_start p) cs" and "offset p = length pre"
  shows "\<exists>p1 es. chunk_loop (pre @ cs) (length cs) p evs = Inr (p1, evs @ es) \<and>
    run_bytes chunk_byte (at_start p) cs = (at_start p1, concat (map (chunk_tokens (pre @ cs)) es))"
  using assms
proof (induction "length cs" arbitrary: cs pre p evs rule: less_induct)
  case less
  let ?b = "pre @ cs"
  show ?case
  proof (cases cs)
    case Nil
    then show ?thesis by (simp add: chunk_loop.simps)
  next
    case (Cons c ds)
    show ?thesis
    proof (cases "inHeader p")
      case True
      then have c: "c = 13 \<or> c = 10 \<or> is_hex_digit c" using less.prems(1) Cons by (simp add: chunk_good_def)
      from chunk_header_start [OF c, of "p\<lparr>offset := offset p + 1\<rparr>" ?b] True obtain p1 es where
        h: "chunk_header c (p\<lparr>offset := offset p + 1\<rparr>) = Inr (p1, es)" "offset p1 = offset p + 1"
          "chunk_byte (at_start p) c = (at_start p1, concat (map (chunk_tokens ?b) es))"
        by auto
      have "accepted chunk_byte chunk_good (at_start p1) ds" using less.prems(1) Cons h by simp
      from less.hyps [OF _ this, of "pre @ [c]" "evs @ es"] Cons h(2) less.prems(2) obtain p2 es2 where
        "chunk_loop ?b (length ds) p1 (evs @ es) = Inr (p2, evs @ es @ es2)"
        "run_bytes chunk_byte (at_start p1) ds = (at_start p2, concat (map (chunk_tokens ?b) es2))"
        by auto
      then show ?thesis using True Cons h less.prems(2)
        by (subst chunk_loop.simps) (auto simp: nth_append intro!: exI [of _ "es @ es2"])
    next
      case False
      then have n0: "chunkLen p \<noteq> 0" using less.prems(1) Cons by (simp add: chunk_good_def)
      show ?thesis
      proof (cases "chunkLen p \<le> length cs")
        case True
        let ?n = "chunkLen p"
        let ?p = "p\<lparr>inHeader := True, offset := offset p + ?n, chunkLen := 0, buf_offset := offset p + ?n\<rparr>"
        have st: "at_start ?p = (at_start p)\<lparr>inHeader := True, chunkLen := 0\<rparr>" by (simp add: at_start_def)
        have run: "run_bytes chunk_byte (at_start p) (take ?n cs) = (at_start ?p, map Data (take ?n cs))"
          unfolding st using False True n0 Cons by (intro chunk_body_run_last) auto
        have "accepted chunk_byte chunk_good (at_start p) (take ?n cs @ drop ?n cs)" using less.prems by simp
        then have acc: "accepted chunk_byte chunk_good (at_start ?p) (drop ?n cs)"
          by (simp only: accepted_append run) simp
        have len: "length (drop ?n cs) < length cs" using n0 Cons by simp
        have pre: "offset ?p = length (pre @ take ?n cs)" using True less.prems(2) by simp
        from less.hyps [OF len acc pre, of "evs @ [OnData (offset p) ?n]"] True obtain p2 es2 where
          r: "chunk_loop ?b (length cs - ?n) ?p (evs @ [OnData (offset p) ?n]) =
            Inr (p2, evs @ OnData (offset p) ?n # es2)"
          "run_bytes chunk_byte (at_start ?p) (drop ?n cs) = (at_start p2, concat (map (chunk_tokens ?b) es2))"
          by auto
        have "run_bytes chunk_byte (at_start p) cs = run_bytes chunk_byte (at_start p) (take ?n cs @ drop ?n cs)"
          by simp
        also have "\<dots> = (at_start p2, map Data (take ?n cs) @ concat (map (chunk_tokens ?b) es2))"
          by (simp only: run_bytes_append run r fst_conv snd_conv)
        finally show ?thesis using r(1) False True Cons less.prems(2)
          by (subst chunk_loop.simps)
            (auto simp: chunk_body_def slice_def intro!: exI [of _ "OnData (offset p) ?n # es2"])
      next
        case False2: False
        have run: "run_bytes chunk_byte (at_start p) cs =
            ((at_start p)\<lparr>chunkLen := chunkLen p - length cs\<rparr>, map Data cs)"
          using False False2 chunk_body_run [of "at_start p" cs] by simp
        have st: "(at_start p)\<lparr>chunkLen := n\<rparr> = at_start (p\<lparr>chunkLen := n\<rparr>)" for n
          by (simp add: at_start_def)
        show ?thesis using run False False2 Cons less.prems(2)
          by (subst chunk_loop.simps)
            (auto simp: chunk_body_def slice_def st chunk_loop.simps intro!: exI [of _ "[OnData (offset p) (length cs)]"])
      qed
    qed
  qed
qed

lemma chunk_accept_start: "accepted chunk_byte chunk_good p b \<Longrightarrow> b \<noteq> [] \<Longrightarrow> at_start p = p"
  by (cases b) (auto simp: chunk_good_def at_start_id)

lemma chunk_feed_run:
  assumes "accepted chunk_byte chunk_good p b"
  shows "chunk_feed p b = Some (run_bytes chunk_byte p b)"
proof (cases "b = []")
  case False
  then have p: "at_start p = p" using chunk_accept_start assms by blast
  have "offset (at_start p) = length ([] :: bytes)" by (simp add: at_start_def)
  from chunk_loop_run [OF _ this, of b "[]"] assms p obtain p1 es where
    "chunk_loop b (length b) (at_start p) [] = Inr (p1, es)"
    "run_bytes chunk_byte p b = (at_start p1, concat (map (chunk_tokens b) es))"
    by auto
  moreover have "(at_start p)\<lparr>offset := buf_offset (at_start p)\<rparr> = at_start p" by (simp add: at_start_def)
  ultimately show ?thesis using False by (simp add: chunk_feed_def chunk_parse_def)
qed (simp add: chunk_feed_def)

interpretation chunked: byte_consumer chunk_byte chunk_good chunk_feed
  by unfold_locales (rule chunk_feed_run)

section \<open>Chunked transfer coding\<close>

definition chunk_wire :: "bytes \<Rightarrow> bytes" where
  "chunk_wire d = to_radix 16 (length d) @ [13, 10] @ d @ [13, 10]"

definition chunked_body :: "bytes list \<Rightarrow> bytes" where
  "chunked_body ds = concat (map chunk_wire ds) @ [48, 13, 10, 13, 10]"

definition between_chunks :: "chunked \<Rightarrow> bool" where
  "between_chunks p \<longleftrightarrow> inHeader p \<and> \<not> ending p \<and> digits p = [] \<and> offset p = 0 \<and> buf_offset p = 0"

definition chunk_run :: "chunked \<Rightarrow> bytes \<Rightarrow> chunked \<Rightarrow> chunk_token list \<Rightarrow> bool" where
  "chunk_run p b p' ts \<longleftrightarrow> accepted chunk_byte chunk_good p b \<and> run_bytes chunk_byte p b = (p', ts)"

lemma chunk_run_append: "chunk_run p a q ts \<Longrightarrow> chunk_run q b r us \<Longrightarrow> chunk_run p (a @ b) r (ts @ us)"
  by (simp add: chunk_run_def accepted_append run_bytes_append)

lemma hex_digit_char: "d < 16 \<Longrightarrow> is_hex_digit (digit_char d)"
  by (auto simp: is_hex_digit_def digit_char_def)

lemma chunk_run_digits:
  assumes "between_chunks p" and "\<forall>c \<in> set h. is_hex_digit c"
  shows "chunk_run p h (p\<lparr>digits := h\<rparr>) []"
  using assms(2)
proof (induction h rule: rev_induct)
  case Nil
  then show ?case using assms(1) by (simp add: chunk_run_def between_chunks_def)
next
  case (snoc c h)
  have "\<not> c = 13 \<and> \<not> c = 10" using snoc.prems by (auto simp: is_hex_digit_def)
  then have "chunk_run (p\<lparr>digits := h\<rparr>) [c] (p\<lparr>digits := h @ [c]\<rparr>) []"
    using snoc.prems assms(1)
    by (simp add: chunk_run_def chunk_good_def chunk_byte_def chunk_header_def between_chunks_def)
  then show ?case using snoc chunk_run_append by fastforce
qed

lemma chunk_run_size:
  assumes "between_chunks p" and "n \<noteq> 0"
  shows "chunk_run p (to_radix 16 n @ [13, 10]) (p\<lparr>chunkLen := n, inHeader := False, digits := []\<rparr>) []"
proof -
  have "\<forall>c \<in> set (to_radix 16 n). is_hex_digit c"
    using to_radix_digits [of 16 _ n] hex_digit_char by force
  from chunk_run_digits [OF assms(1) this]
  have "chunk_run p (to_radix 16 n) (p\<lparr>digits := to_radix 16 n\<rparr>) []" .
  moreover have "chunk_run (p\<lparr>digits := to_radix 16 n\<rparr>) [13, 10]
      (p\<lparr>chunkLen := n, inHeader := False, digits := []\<rparr>) []"
    using assms by (simp add: chunk_run_def chunk_good_def chunk_byte_def chunk_header_def chunk_newline_def
        between_chunks_def parse_to_radix Let_def)
  ultimately show ?thesis using chunk_run_append by fastforce
qed

lemma chunk_run_data:
  assumes "\<not> inHeader p" and "chunkLen p = length d" and "d \<noteq> []" and "offset p = 0" and "buf_offset p = 0"
  shows "chunk_run p d (p\<lparr>inHeader := True, chunkLen := 0\<rparr>) (map Data d)"
proof -
  have "accepted chunk_byte chunk_good p cs" if "length cs \<le> chunkLen p" for cs
    using that assms(1,4,5)
  proof (induction cs arbitrary: p)
    case (Cons c cs)
    show ?case
    proof (cases "cs = []")
      case False
      then have "chunkLen p \<noteq> 1" using Cons.prems(1) by (cases cs) auto
      then have "chunk_byte p c = (p\<lparr>chunkLen := chunkLen p - 1\<rparr>, [Data c])"
        using Cons.prems by (simp add: chunk_byte_def)
      then show ?thesis using Cons.prems Cons.IH [of "p\<lparr>chunkLen := chunkLen p - 1\<rparr>"]
        by (simp add: chunk_good_def)
    qed (use Cons.prems in \<open>simp add: chunk_good_def\<close>)
  qed simp
  then show ?thesis using assms chunk_body_run_last by (simp add: chunk_run_def)
qed

lemma chunk_run_wire:
  assumes "between_chunks p" and "d \<noteq> []"
  shows "\<exists>q. between_chunks q \<and> chunk_run p (chunk_wire d) q (map Data d)"
proof -
  let ?p = "p\<lparr>chunkLen := length d, inHeader := False, digits := []\<rparr>"
  let ?q = "?p\<lparr>inHeader := True, chunkLen := 0\<rparr>"
  have "chunk_run p ((to_radix 16 (length d) @ [13, 10]) @ d) ?q ([] @ map Data d)"
    using assms chunk_run_size [OF assms(1), of "length d"] chunk_run_data [of ?p d]
    by (intro chunk_run_append) (auto simp: between_chunks_def)
  moreover have "chunk_run ?q [13, 10] ?q []"
    using assms(1) by (simp add: chunk_run_def chunk_good_def chunk_byte_def chunk_header_def
        chunk_newline_def between_chunks_def)
  ultimately have "chunk_run p (((to_radix 16 (length d) @ [13, 10]) @ d) @ [13, 10]) ?q (([] @ map Data d) @ [])"
    by (rule chunk_run_append)
  moreover have "between_chunks ?q" using assms(1) by (simp add: between_chunks_def)
  ultimately show ?thesis by (auto simp: chunk_wire_def)
qed

lemma chunk_run_body:
  assumes "between_chunks p" and "\<forall>d \<in> set ds. d \<noteq> []"
  shows "\<exists>q. between_chunks q \<and> chunk_run p (chunked_body ds) q (map Data (concat ds) @ [End])"
  using assms
proof (induction ds arbitrary: p)
  case Nil
  then have "chunk_run p [48, 13, 10, 13, 10] (p\<lparr>chunkLen := 0\<rparr>) [End]"
    by (simp add: chunk_run_def chunk_good_def chunk_byte_def chunk_header_def chunk_newline_def
        between_chunks_def is_hex_digit_def parse_radix_def digit_val_def Let_def)
  moreover have "between_chunks (p\<lparr>chunkLen := 0\<rparr>)" using Nil by (simp add: between_chunks_def)
  ultimately show ?case by (auto simp: chunked_body_def)
next
  case (Cons d ds)
  obtain q where q: "between_chunks q" "chunk_run p (chunk_wire d) q (map Data d)"
    using chunk_run_wire Cons.prems by force
  from Cons.IH [OF q(1)] Cons.prems(2) obtain r where
    "between_chunks r" "chunk_run q (chunked_body ds) r (map Data (concat ds) @ [End])" by auto
  then show ?case using chunk_run_append [OF q(2)] by (auto simp: chunked_body_def)
qed



section \<open>The rest of a buffer\<close>

text \<open>The request parser keeps what it did not consume: after a call the front of the buffer, up to its
  \<open>offset\<close>, is the unparsed end of the bytes received so far.  The native parser is relied on to
  consume either nothing or more than what an earlier call left over (which held no complete
  request).\<close>

theorem request_parse_keeps_rest:
  assumes "native (content hb) (hb_offset hb + n) off = (remaining, count)"
    and "hb_offset hb + n \<le> length (content hb)"
    and "remaining = hb_offset hb + n \<or> remaining < n"
  shows "\<exists>hb' call. request_parse native n off hb = Inr (hb', call) \<and>
    hb_offset hb' = remaining \<and> length (content hb') = length (content hb) \<and>
    take (hb_offset hb') (content hb') =
      drop (hb_offset hb + n - remaining) (take (hb_offset hb + n) (content hb))"
proof (cases "remaining > 0 \<and> hb_offset hb + n - remaining > hb_offset hb")
  case True
  let ?b = "content hb" and ?start = "hb_offset hb + n - remaining"
  have r: "remaining < n" using True assms(3) by auto
  have "copyFrom ?b 0 remaining ?start ?b = Inr (write_at ?b 0 (slice ?b ?start (?start + remaining)))"
    using True assms(2) r by (simp add: copyFrom_def)
  moreover have "slice ?b ?start (?start + remaining) = drop ?start (take (hb_offset hb + n) ?b)"
    using r by (simp add: slice_def drop_take)
  ultimately show ?thesis using True assms r
    by (simp add: request_parse_def write_at_def Let_def)
next
  case False
  then show ?thesis using assms by (auto simp: request_parse_def Let_def)
qed

theorem request_parse_keeps_rest_witness:
  "\<exists>hb' call. request_parse (\<lambda>b e off. (e - 4, 1)) 6 0
      \<lparr>content = [1, 2, 3, 4, 5, 6], hb_offset = 0, hb_remaining = 0\<rparr> = Inr (hb', call) \<and>
    take (hb_offset hb') (content hb') = [5, 6]"
  using request_parse_keeps_rest [of "\<lambda>b e off. (e - 4, 1)"
      "\<lparr>content = [1, 2, 3, 4, 5, 6], hb_offset = 0, hb_remaining = 0\<rparr>" 6 0 2 1]
  by auto

text \<open>The response parser forgets what it did not consume: the next read starts at 0.\<close>

lemma response_parse_forgets_rest: "hb_offset (fst (response_parse native n hb)) = 0"
  by (simp add: response_parse_def Let_def split: prod.split)

text \<open>Request and response parsers share one free list, and a parser from it keeps its own kind and
  buffer, whatever was asked for.\<close>

lemma createParser_ignores_kind:
  "fst (createParser buffer HTTP_RESPONSE (free_parser (HTTP_REQUEST, old) [])) = (HTTP_REQUEST, old)"
  by (simp add: createParser_def responseParser_def free_parser_def)

end
