(* ===== verification/Dns.thy ===== *)
theory Dns
  imports Bytes
begin

text \<open>
  The DNS messages of \<open>src/lib/dns/protocol.js\<close>: \<open>create\<close> writes a query into a buffer and \<open>parse\<close>
  reads a message, its names through \<open>readName\<close>, which follows compression pointers.  A name that
  points to itself is a recursion without end (\<open>None\<close>; the engine throws when its stack is full).
  The conversion of bytes to text is the engine's.
\<close>

section \<open>Names\<close>

partial_function (option) readName_loop ::
  "(bytes \<Rightarrow> jsstr) \<Rightarrow> bytes \<Rightarrow> nat \<Rightarrow> nat \<Rightarrow> jsstr list \<Rightarrow> jsstr list js_result option" where
  "readName_loop dec b offset qnameSize name =
     (if qnameSize = 0 then Some (Inr name)
      else if qnameSize AND 192 = 192 then
        run_bind (Some (getUint 1 b offset)) (\<lambda>lo.
          let off = push_bit 8 (qnameSize - 192) + lo in
          run_bind (Some (getUint 1 b off)) (\<lambda>size.
            run_bind (readName_loop dec b (off + 1) size []) (\<lambda>rest. Some (Inr (name @ rest)))))
      else
        run_bind (Some (readString dec qnameSize offset b)) (\<lambda>label.
          run_bind (Some (getUint 1 b (offset + qnameSize))) (\<lambda>size.
            readName_loop dec b (offset + qnameSize + 1) size (name @ [label]))))"

definition readName :: "(bytes \<Rightarrow> jsstr) \<Rightarrow> nat \<Rightarrow> bytes \<Rightarrow> jsstr list js_result option" where
  "readName dec offset b =
     run_bind (Some (getUint 1 b offset)) (\<lambda>size. readName_loop dec b (offset + 1) size [])"

section \<open>Reading a message\<close>

record dns_question =
  q_type :: nat
  q_class :: nat
  q_name :: "jsstr list"

record dns_answer =
  a_name :: "jsstr list"
  cname :: "jsstr list option"
  a_type :: nat
  a_class :: nat
  ttl :: nat
  ip :: "bytes option"

record dns_message =
  msg_bytes :: bytes
  qcount :: nat
  nscount :: nat
  ancount :: nat
  arcount :: nat
  ident :: nat
  flags :: nat
  QR :: nat
  opCode :: nat
  AA :: nat
  TC :: nat
  RD :: nat
  RA :: nat
  Z :: nat
  RCODE :: nat
  question :: "dns_question list"
  answer :: "dns_answer list"

text \<open>\<open>while (bytes[i++]) size++\<close>: the bytes up to the next zero or the end of the buffer.\<close>

definition run_length :: "bytes \<Rightarrow> nat \<Rightarrow> nat" where
  "run_length b i = length (takeWhile (\<lambda>c. c \<noteq> 0) (drop i b))"

text \<open>The labels of a question; \<open>n\<close> is the number of bytes from \<open>start\<close> to read.\<close>

function section_loop ::
  "(bytes \<Rightarrow> jsstr) \<Rightarrow> bytes \<Rightarrow> nat \<Rightarrow> nat \<Rightarrow> nat \<Rightarrow> jsstr list \<Rightarrow> (nat \<times> jsstr list) js_result" where
  "section_loop dec b start n off sections =
     (if off - start < n then
        js_bind (getUint 1 b off) (\<lambda>qnameSize.
          js_bind (readString dec qnameSize (off + 1) b) (\<lambda>label.
            section_loop dec b start n (off + 1 + qnameSize) (sections @ [label])))
      else Inr (off, sections))"
  by pat_completeness auto
termination
  by (relation "measure (\<lambda>(dec, b, start, n, off, sections). start + n - off)") auto

declare section_loop.simps [simp del]

text \<open>\<open>off\<close> and \<open>i\<close> are the two cursors of the code.\<close>

fun parse_questions ::
  "(bytes \<Rightarrow> jsstr) \<Rightarrow> bytes \<Rightarrow> nat \<Rightarrow> nat \<Rightarrow> nat \<Rightarrow> dns_question list \<Rightarrow> (nat \<times> dns_question list) js_result" where
  "parse_questions dec b 0 off i qs = Inr (off, qs)"
| "parse_questions dec b (Suc counter) off i qs =
     (let size = run_length b i in
      js_bind (if size > 0 then section_loop dec b 12 size off [] else Inr (off, [])) (\<lambda>(off1, sections).
        js_bind (getUint 2 b (off1 + 1)) (\<lambda>qtype.
          js_bind (getUint 2 b (off1 + 3)) (\<lambda>qclass.
            parse_questions dec b counter (off1 + 5) (i + size + 1)
              (qs @ [\<lparr>q_type = qtype, q_class = qclass, q_name = sections\<rparr>])))))"

text \<open>The name of an answer and the offset after it.\<close>

definition answer_name :: "(bytes \<Rightarrow> jsstr) \<Rightarrow> bytes \<Rightarrow> nat \<Rightarrow> (nat \<times> jsstr list) js_result option" where
  "answer_name dec b off =
     run_bind (Some (getUint 2 b off)) (\<lambda>nxt.
       if 0xC000 AND nxt = 0xC000
       then run_bind (readName dec (nxt AND 0x3FFF) b) (\<lambda>name. Some (Inr (off + 2, name)))
       else run_bind (readName dec off b) (\<lambda>name.
         Some (Inr (off + length name + sum_list (map length name) + 1, name))))"

fun parse_answers ::
  "(bytes \<Rightarrow> jsstr) \<Rightarrow> bytes \<Rightarrow> nat \<Rightarrow> nat \<Rightarrow> dns_answer list \<Rightarrow> dns_answer list js_result option" where
  "parse_answers dec b 0 off as = Some (Inr as)"
| "parse_answers dec b (Suc counter) off as =
     run_bind (answer_name dec b off) (\<lambda>(off1, name).
       run_bind (Some (getUint 2 b off1)) (\<lambda>qtype.
       run_bind (Some (getUint 2 b (off1 + 2))) (\<lambda>qclass.
       run_bind (Some (getUint 4 b (off1 + 4))) (\<lambda>t.
       run_bind (Some (getUint 2 b (off1 + 8))) (\<lambda>rdLength.
         let off2 = off1 + 10;
             a = \<lparr>a_name = name, cname = None, a_type = qtype, a_class = qclass, ttl = t, ip = None\<rparr>
         in run_bind
              (if qtype = 5 then run_bind (readName dec off2 b) (\<lambda>c. Some (Inr (as @ [a\<lparr>cname := Some c\<rparr>])))
               else if qtype = 1 then Some (Inr (as @ [a\<lparr>ip := Some (slice b off2 (off2 + rdLength))\<rparr>]))
               else Some (Inr as))
              (\<lambda>as1. parse_answers dec b counter (off2 + rdLength) as1))))))"

definition bit_at :: "nat \<Rightarrow> nat \<Rightarrow> nat" where
  "bit_at k f = drop_bit k f AND 1"

definition parse :: "(bytes \<Rightarrow> jsstr) \<Rightarrow> bytes \<Rightarrow> nat \<Rightarrow> dns_message js_result option" where
  "parse dec b len =
     run_bind (Some (getUint 2 b 0)) (\<lambda>i.
     run_bind (Some (getUint 2 b 2)) (\<lambda>f.
     run_bind (Some (getUint 2 b 4)) (\<lambda>qc.
     run_bind (Some (getUint 2 b 6)) (\<lambda>an.
     run_bind (Some (getUint 2 b 8)) (\<lambda>ns.
     run_bind (Some (getUint 2 b 10)) (\<lambda>ar.
     run_bind (Some (parse_questions dec b qc 12 12 [])) (\<lambda>(off, qs).
     run_bind (parse_answers dec b an off []) (\<lambda>as.
       Some (Inr \<lparr>msg_bytes = take len b, qcount = qc, nscount = ns, ancount = an, arcount = ar,
         ident = i, flags = f, QR = bit_at 15 f, opCode = drop_bit 11 f AND 15, AA = bit_at 10 f,
         TC = bit_at 9 f, RD = bit_at 8 f, RA = bit_at 7 f, Z = drop_bit 4 f AND 7,
         RCODE = f AND 15, question = qs, answer = as\<rparr>)))))))))"

section \<open>Writing a query\<close>

text \<open>The labels, each after its length; a label's length is counted in characters.\<close>

fun write_parts :: "(jsstr \<Rightarrow> bytes) \<Rightarrow> jsstr list \<Rightarrow> nat \<Rightarrow> bytes \<Rightarrow> (nat \<times> bytes) js_result" where
  "write_parts utf8 [] off b = Inr (off, b)"
| "write_parts utf8 (part # parts) off b =
     js_bind (setUint 1 off (length part) b) (\<lambda>b1.
       js_bind (writeString utf8 part (off + 1) b1) (\<lambda>b2.
         write_parts utf8 parts (off + 1 + length part) b2))"

definition create :: "(jsstr \<Rightarrow> bytes) \<Rightarrow> jsstr \<Rightarrow> bytes \<Rightarrow> nat \<Rightarrow> nat \<Rightarrow> nat \<Rightarrow> (nat \<times> bytes) js_result" where
  "create utf8 domain b i qtype qclass =
     js_bind (setUint 2 0 i b) (\<lambda>b.
     js_bind (setUint 2 2 0x0140 b) (\<lambda>b.
     js_bind (setUint 2 4 1 b) (\<lambda>b.
     js_bind (setUint 2 6 0 b) (\<lambda>b.
     js_bind (setUint 2 8 0 b) (\<lambda>b.
     js_bind (setUint 2 10 0 b) (\<lambda>b.
     js_bind (write_parts utf8 (js_split 46 domain) 12 b) (\<lambda>(off, b).
       let b = b[off := 0] in
       js_bind (setUint 2 (off + 1) qtype b) (\<lambda>b.
       js_bind (setUint 2 (off + 3) qclass b) (\<lambda>b. Inr (off + 5, b))))))))))"

definition getFlags :: "dns_message \<Rightarrow> jsstr" where
  "getFlags m = js_join [32]
     ((if QR m \<noteq> 0 then [js ''qr''] else []) @ (if AA m \<noteq> 0 then [js ''aa''] else []) @
      (if TC m \<noteq> 0 then [js ''tc''] else []) @ (if RD m \<noteq> 0 then [js ''rd''] else []) @
      (if RA m \<noteq> 0 then [js ''ra''] else []) @ (if Z m \<noteq> 0 then [js ''z''] else []))"

section \<open>Names on the wire\<close>

text \<open>The names of RFC 1035: labels of up to 63 bytes, ended by a zero or by a pointer.\<close>

inductive name_at :: "(bytes \<Rightarrow> jsstr) \<Rightarrow> bytes \<Rightarrow> nat \<Rightarrow> jsstr list \<Rightarrow> bool" for dec :: "bytes \<Rightarrow> jsstr" and b :: bytes where
  Root: "off < length b \<Longrightarrow> b ! off = 0 \<Longrightarrow> name_at dec b off []"
| Label: "off < length b \<Longrightarrow> b ! off = n \<Longrightarrow> 0 < n \<Longrightarrow> n < 64 \<Longrightarrow> off + 1 + n \<le> length b \<Longrightarrow>
    name_at dec b (off + 1 + n) ls \<Longrightarrow> name_at dec b off (dec (slice b (off + 1) (off + 1 + n)) # ls)"
| Pointer: "off + 1 < length b \<Longrightarrow> b ! off = 192 + h \<Longrightarrow> h < 64 \<Longrightarrow> b ! (off + 1) = lo \<Longrightarrow>
    name_at dec b (256 * h + lo) ls \<Longrightarrow> name_at dec b off ls"

lemma name_at_start: "name_at dec b off ls \<Longrightarrow> off < length b"
  by (cases rule: name_at.cases) auto

lemma readName_loop_name_at:
  "name_at dec b off ls \<Longrightarrow> readName_loop dec b (off + 1) (b ! off) acc = Some (Inr (acc @ ls))"
proof (induction arbitrary: acc rule: name_at.induct)
  case (Root off)
  then show ?case by (subst readName_loop.simps) simp
next
  case (Label off n ls)
  have nxt: "off + 1 + n < length b" using name_at_start [OF Label(6)] .
  have "n div 64 = 0" using Label(4) by simp
  then have "n AND 192 \<noteq> 192" by (simp add: and_high_masks)
  moreover have "readString dec n (off + 1) b = Inr (dec (slice b (off + 1) (off + 1 + n)))"
    using Label(5) by (simp add: readString_def)
  ultimately show ?case using Label(2,3) Label.IH nxt
    by (subst readName_loop.simps) (simp add: getUint8_nth add_ac)
next
  case (Pointer off h lo ls)
  have "(192 + h) div 64 = 3" using Pointer(3) by (simp add: div_nat_eqI)
  then have "(192 + h) AND 192 = 192" by (simp add: and_high_masks)
  then show ?case using Pointer(1-4) Pointer.IH [of "[]"] name_at_start [OF Pointer(5)]
    by (subst readName_loop.simps) (simp add: getUint8_nth push_bit_nat_def mult.commute)
qed

text \<open>C25: \<open>readName\<close> reads every well-formed name, through any chain of compression pointers that ends:
  it returns, does not throw, and gives the labels of RFC 1035.\<close>

theorem readName_reads:
  assumes "name_at dec b off ls"
  shows "readName dec off b = Some (Inr ls)"
  using readName_loop_name_at [OF assms, of "[]"] name_at_start [OF assms]
  by (simp add: readName_def getUint8_nth)

theorem readName_reads_witness:
  "readName (\<lambda>s. s) 3 [1, 97, 0, 1, 98, 192, 0] = Some (Inr [[98], [97]])"
proof -
  let ?b = "[1, 97, 0, 1, 98, 192, 0] :: bytes"
  have "name_at (\<lambda>s. s) ?b 2 []" by (rule Root) simp_all
  then have "name_at (\<lambda>s. s) ?b 0 [[97]]" using Label [of 0 ?b 1 "\<lambda>s. s" "[]"] by (simp add: slice_def numeral_2_eq_2)
  then have "name_at (\<lambda>s. s) ?b 5 [[97]]" using Pointer [of 5 ?b 0 0 "\<lambda>s. s" "[[97]]"] by simp
  then have "name_at (\<lambda>s. s) ?b 3 [[98], [97]]" using Label [of 3 ?b 1 "\<lambda>s. s" "[[97]]"] by (simp add: slice_def)
  then show ?thesis by (rule readName_reads)
qed

text \<open>A pointer to itself is followed forever.\<close>

lemma readName_self_pointer:
  assumes "b ! off = 192" and "b ! (off + 1) = off" and "off < 256" and "off + 1 < length b"
  shows "readName dec off b = None"
proof -
  have "a = dec \<longrightarrow> c = b \<longrightarrow> o1 = off + 1 \<longrightarrow> n = 192 \<longrightarrow> False" if "readName_loop a c o1 n acc = Some y" for a c o1 n acc y
  proof (rule readName_loop.raw_induct [OF _ that,
      where P = "\<lambda>a c o1 n acc y. a = dec \<longrightarrow> c = b \<longrightarrow> o1 = off + 1 \<longrightarrow> n = 192 \<longrightarrow> False"], intro impI, goal_cases)
    case (1 rec a c o1 n acc y)
    have "rec dec b (off + 1) 192 [] = None"
      using 1(1) [of dec b "off + 1" 192 "[]"] by (cases "rec dec b (off + 1) 192 []") auto
    then show ?case using assms 1(2-)
      by (auto simp: getUint8_nth and_high_masks push_bit_nat_def)
  qed
  then have "readName_loop dec b (off + 1) 192 [] = None" by (metis option.exhaust)
  then show ?thesis using assms by (simp add: readName_def getUint8_nth)
qed

section \<open>Messages on the wire\<close>

definition labels :: "jsstr list \<Rightarrow> bytes" where
  "labels parts = concat (map (\<lambda>p. length p # p) parts)"

definition label_ok :: "jsstr \<Rightarrow> bool" where
  "label_ok p \<longleftrightarrow> p \<noteq> [] \<and> length p < 64 \<and> (\<forall>c \<in> set p. 0 < c \<and> c < 128)"

lemma labels_simps [simp]: "labels [] = []" "labels (p # ps) = length p # p @ labels ps"
  by (simp_all add: labels_def)

lemma labels_nonzero: "\<forall>p \<in> set ps. label_ok p \<Longrightarrow> c \<in> set (labels ps) \<Longrightarrow> c \<noteq> 0"
  by (induction ps) (auto simp: label_ok_def)

lemma label_text: "label_ok p \<Longrightarrow> ascii_transparent f \<Longrightarrow> f p = p"
  by (rule ascii_transparentD) (auto simp: label_ok_def)

lemma labels_name_at:
  assumes "\<forall>p \<in> set ps. label_ok p" and "ascii_transparent dec" and "b = pre @ labels ps @ 0 # rest"
  shows "name_at dec b (length pre) ps"
  using assms
proof (induction ps arbitrary: pre)
  case Nil
  then show ?case by (intro Root) (auto simp: nth_append)
next
  case (Cons p ps)
  have "name_at dec b (length (pre @ length p # p)) ps"
    using Cons by (intro Cons.IH) auto
  moreover have "slice b (length pre + 1) (length pre + 1 + length p) = p"
    using Cons.prems(3) slice_append [of "length pre + 1" "pre @ [length p]" "length p" p] by simp
  moreover have "dec p = p" using Cons.prems label_text by simp
  ultimately show ?case
    using Label [of "length pre" b "length p" dec ps] Cons.prems
    by (auto simp: label_ok_def nth_append)
qed

lemma section_loop_labels:
  assumes "\<forall>p \<in> set ps. label_ok p" and "ascii_transparent dec" and "b = pre @ labels ps @ rest"
    and "start + n = length pre + length (labels ps)" and "start \<le> length pre"
  shows "section_loop dec b start n (length pre) acc = Inr (length pre + length (labels ps), acc @ ps)"
  using assms
proof (induction ps arbitrary: pre acc)
  case Nil
  then show ?case by (subst section_loop.simps) auto
next
  case (Cons p ps)
  have "dec p = p" using Cons.prems label_text by simp
  then have "readString dec (length p) (length pre + 1) b = Inr p"
    using Cons.prems(3) readString_append [of "length pre + 1" "pre @ [length p]" "length p" p] by simp
  moreover have "section_loop dec b start n (length (pre @ length p # p)) (acc @ [p]) =
      Inr (length (pre @ length p # p) + length (labels ps), (acc @ [p]) @ ps)"
    using Cons.prems by (intro Cons.IH) auto
  ultimately show ?case using Cons.prems
    by (subst section_loop.simps) (auto simp: getUint8_nth nth_append)
qed

lemma run_length_labels:
  assumes "\<forall>p \<in> set ps. label_ok p" and "b = pre @ labels ps @ 0 # rest"
  shows "run_length b (length pre) = length (labels ps)"
proof -
  have "takeWhile (\<lambda>c. c \<noteq> 0) (labels ps @ 0 # rest) = labels ps"
    using labels_nonzero [OF assms(1)] by (simp add: takeWhile_append2)
  then show ?thesis by (simp add: run_length_def assms(2))
qed

text \<open>A message with one question and, for each of its answers, the address record of that name,
  which is written as a pointer to the question (offset 12).\<close>

definition header_bytes :: "nat \<Rightarrow> nat \<Rightarrow> nat \<Rightarrow> bytes" where
  "header_bytes i f an = be_bytes 2 i @ be_bytes 2 f @ be_bytes 2 1 @ be_bytes 2 an @ be_bytes 2 0 @ be_bytes 2 0"

definition question_bytes :: "jsstr list \<Rightarrow> nat \<Rightarrow> nat \<Rightarrow> bytes" where
  "question_bytes parts qtype qclass = labels parts @ 0 # be_bytes 2 qtype @ be_bytes 2 qclass"

definition address_bytes :: "nat \<times> bytes \<Rightarrow> bytes" where
  "address_bytes r = be_bytes 2 0xC00C @ be_bytes 2 1 @ be_bytes 2 1 @ be_bytes 4 (fst r) @
     be_bytes 2 (length (snd r)) @ snd r"

definition address_answer :: "jsstr list \<Rightarrow> nat \<times> bytes \<Rightarrow> dns_answer" where
  "address_answer parts r =
     \<lparr>a_name = parts, cname = None, a_type = 1, a_class = 1, ttl = fst r, ip = Some (snd r)\<rparr>"

lemma length_header_bytes [simp]: "length (header_bytes i f an) = 12"
  by (simp add: header_bytes_def)

lemma parse_answers_addresses:
  assumes "readName dec 12 b = Some (Inr parts)" and "b = pre @ concat (map address_bytes rs) @ rest"
    and "\<forall>r \<in> set rs. fst r < 256 ^ 4 \<and> length (snd r) < 65536"
  shows "parse_answers dec b (length rs) (length pre) as = Some (Inr (as @ map (address_answer parts) rs))"
  using assms(2,3)
proof (induction rs arbitrary: pre as)
  case (Cons r rs)
  let ?rest = "concat (map address_bytes rs) @ rest"
  have get: "getUint n b i = Inr v" if "b = p @ be_bytes n v @ q" "i = length p" "v < 256 ^ n" for n v p q i
    using getUint_append that by simp
  have b: "b = pre @ be_bytes 2 0xC00C @ be_bytes 2 1 @ be_bytes 2 1 @ be_bytes 4 (fst r) @
     be_bytes 2 (length (snd r)) @ snd r @ ?rest"
    using Cons.prems(1) by (simp add: address_bytes_def [of r])
  have g0: "getUint 2 b (length pre) = Inr 0xC00C" by (rule get [OF b]) auto
  have g1: "getUint 2 b (length pre + 2) = Inr 1"
    by (rule get [of "pre @ be_bytes 2 0xC00C"]) (auto simp: b)
  have g2: "getUint 2 b (length pre + 2 + 2) = Inr 1"
    by (rule get [of "pre @ be_bytes 2 0xC00C @ be_bytes 2 1"]) (auto simp: b)
  have g3: "getUint 4 b (length pre + 2 + 4) = Inr (fst r)"
    by (rule get [of "pre @ be_bytes 2 0xC00C @ be_bytes 2 1 @ be_bytes 2 1"])
      (use Cons.prems in \<open>auto simp: b\<close>)
  have g4: "getUint 2 b (length pre + 2 + 8) = Inr (length (snd r))"
    by (rule get [of "pre @ be_bytes 2 0xC00C @ be_bytes 2 1 @ be_bytes 2 1 @ be_bytes 4 (fst r)"])
      (use Cons.prems in \<open>auto simp: b\<close>)
  have ip: "slice b (length pre + 2 + 10) (length pre + 2 + 10 + length (snd r)) = snd r"
    by (subst b) (simp add: slice_def)
  have name: "answer_name dec b (length pre) = Some (Inr (length pre + 2, parts))"
    using g0 assms(1) by (simp add: answer_name_def and_high_masks and_masks and.commute [of 49152])
  have rest: "parse_answers dec b (length rs) (length (pre @ address_bytes r)) as2 =
      Some (Inr (as2 @ map (address_answer parts) rs))" for as2
    using Cons.prems by (intro Cons.IH) auto
  have ne: "(1::nat) \<noteq> 5" by simp
  have "parse_answers dec b (length (r # rs)) (length pre) as =
      parse_answers dec b (length rs) (length pre + 2 + 10 + length (snd r)) (as @ [address_answer parts r])"
    by (simp only: length_Cons parse_answers.simps name run_bind_simps prod.case g1 g2 g3 g4 Let_def ip
        ne if_False refl if_True dns_answer.simps address_answer_def)
  also have "length pre + 2 + 10 + length (snd r) = length (pre @ address_bytes r)"
    by (simp add: address_bytes_def)
  finally show ?case using rest by simp
qed simp

lemma parse_wire:
  assumes "\<forall>p \<in> set parts. label_ok p" and "parts \<noteq> []" and "ascii_transparent dec"
    and "b = header_bytes i f (length rs) @ question_bytes parts qtype qclass @ concat (map address_bytes rs) @ rest"
    and "\<forall>r \<in> set rs. fst r < 256 ^ 4 \<and> length (snd r) < 65536"
    and "i < 65536" and "f < 65536" and "qtype < 65536" and "qclass < 65536" and "length rs < 65536"
  shows "parse dec b n = Some (Inr \<lparr>msg_bytes = take n b, qcount = 1, nscount = 0, ancount = length rs, arcount = 0,
      ident = i, flags = f, QR = bit_at 15 f, opCode = drop_bit 11 f AND 15, AA = bit_at 10 f,
      TC = bit_at 9 f, RD = bit_at 8 f, RA = bit_at 7 f, Z = drop_bit 4 f AND 7, RCODE = f AND 15,
      question = [\<lparr>q_type = qtype, q_class = qclass, q_name = parts\<rparr>],
      answer = map (address_answer parts) rs\<rparr>)"
proof -
  let ?an = "length rs" and ?as = "concat (map address_bytes rs) @ rest"
  let ?h = "header_bytes i f ?an" and ?q = "question_bytes parts qtype qclass"
  have get: "getUint n b i = Inr v" if "b = p @ be_bytes n v @ q" "i = length p" "v < 256 ^ n" for n v p q i
    using getUint_append that by simp
  have h0: "getUint 2 b 0 = Inr i"
    by (rule get [of "[]"]) (use assms in \<open>auto simp: header_bytes_def\<close>)
  have h2: "getUint 2 b 2 = Inr f"
    by (rule get [of "be_bytes 2 i"]) (use assms in \<open>auto simp: header_bytes_def\<close>)
  have h4: "getUint 2 b 4 = Inr 1"
    by (rule get [of "be_bytes 2 i @ be_bytes 2 f"]) (use assms in \<open>auto simp: header_bytes_def\<close>)
  have h6: "getUint 2 b 6 = Inr ?an"
    by (rule get [of "be_bytes 2 i @ be_bytes 2 f @ be_bytes 2 1"])
      (use assms in \<open>auto simp: header_bytes_def\<close>)
  have h8: "getUint 2 b 8 = Inr 0"
    by (rule get [of "be_bytes 2 i @ be_bytes 2 f @ be_bytes 2 1 @ be_bytes 2 ?an"])
      (use assms in \<open>auto simp: header_bytes_def\<close>)
  have h10: "getUint 2 b 10 = Inr 0"
    by (rule get [of "be_bytes 2 i @ be_bytes 2 f @ be_bytes 2 1 @ be_bytes 2 ?an @ be_bytes 2 0"])
      (use assms in \<open>auto simp: header_bytes_def\<close>)
  have b: "b = ?h @ labels parts @ 0 # be_bytes 2 qtype @ be_bytes 2 qclass @ ?as"
    using assms(4) by (simp add: question_bytes_def)
  let ?o = "12 + length (labels parts)"
  have size: "run_length b 12 = length (labels parts)"
    using run_length_labels [OF assms(1) b] by simp
  have sec: "section_loop dec b 12 (length (labels parts)) 12 [] = Inr (?o, parts)"
    using section_loop_labels [OF assms(1,3) b, of 12 "length (labels parts)" "[]"] by simp
  have q1: "getUint 2 b (?o + 1) = Inr qtype"
    by (rule get [of "?h @ labels parts @ [0]"]) (use assms b in auto)
  have q2: "getUint 2 b (?o + 3) = Inr qclass"
    by (rule get [of "?h @ labels parts @ [0] @ be_bytes 2 qtype"]) (use assms b in auto)
  have ne: "length (labels parts) > 0" using assms(2) by (cases parts) auto
  have qs: "parse_questions dec b 1 12 12 [] =
      Inr (?o + 5, [\<lparr>q_type = qtype, q_class = qclass, q_name = parts\<rparr>])"
    by (simp only: One_nat_def parse_questions.simps Let_def size ne if_True sec js_bind_simps prod.case
        q1 [unfolded One_nat_def] q2 append_Nil)
  have name: "readName dec 12 b = Some (Inr parts)"
    using readName_loop_name_at [OF labels_name_at [OF assms(1,3) b], of "[]"]
      name_at_start [OF labels_name_at [OF assms(1,3) b]]
    by (simp add: readName_def getUint8_nth)
  have "b = (?h @ ?q) @ concat (map address_bytes rs) @ rest" using assms(4) by simp
  from parse_answers_addresses [OF name this assms(5), of "[]"]
  have as: "parse_answers dec b ?an (?o + 5) [] = Some (Inr (map (address_answer parts) rs))"
    by (simp add: question_bytes_def)
  show ?thesis
    by (simp only: parse_def h0 h2 h4 h6 h8 h10 run_bind_simps qs prod.case as)
qed

lemma length_labels_split: "length (labels (js_split c s)) = Suc (length s)"
proof (induction s)
  case (Cons x s)
  then show ?case by (cases "js_split c s") auto
qed simp

lemma write_parts_append:
  assumes "\<forall>p \<in> set ps. label_ok p" and "ascii_transparent utf8" and "length (labels ps) \<le> length q"
  shows "write_parts utf8 ps (length pre) (pre @ q) =
    Inr (length pre + length (labels ps), pre @ labels ps @ drop (length (labels ps)) q)"
  using assms
proof (induction ps arbitrary: pre q)
  case (Cons p ps)
  have p: "utf8 p = p" "length p < 256" using Cons.prems label_text by (auto simp: label_ok_def)
  have b1: "setUint 1 (length pre) (length p) (pre @ q) = Inr ((pre @ [length p]) @ drop 1 q)"
    using setUint_append [of "length pre" pre 1 q "length p"] Cons.prems(3) p by simp
  have b2: "writeString utf8 p (length pre + 1) ((pre @ [length p]) @ drop 1 q) =
      Inr ((pre @ length p # p) @ drop (Suc (length p)) q)"
    using writeString_append [of "length pre + 1" "pre @ [length p]" utf8 p "drop 1 q"] Cons.prems(3) p
    by simp
  have "write_parts utf8 ps (length (pre @ length p # p)) ((pre @ length p # p) @ drop (Suc (length p)) q) =
      Inr (length (pre @ length p # p) + length (labels ps),
        (pre @ length p # p) @ labels ps @ drop (length (labels ps)) (drop (Suc (length p)) q))"
    using Cons.prems by (intro Cons.IH) auto
  then show ?case using b1 b2 by (simp add: add_ac)
qed simp

lemma create_wire:
  assumes "\<forall>p \<in> set (js_split 46 domain). label_ok p" and "ascii_transparent utf8"
    and "length domain + 18 \<le> length b"
  shows "create utf8 domain b i qtype qclass = Inr (length domain + 18,
    header_bytes i 0x0140 0 @ question_bytes (js_split 46 domain) qtype qclass @ drop (length domain + 18) b)"
proof -
  let ?ps = "js_split 46 domain" and ?h = "header_bytes i 0x0140 0"
  let ?o = "12 + length (labels ?ps)"
  have o: "?o = length domain + 13" by (simp add: length_labels_split)
  have put: "setUint 2 k v (p @ drop k b) = Inr ((p @ be_bytes 2 v) @ drop (k + 2) b)"
    if "k = length p" "k + 2 \<le> length b" for k v p
    using setUint_append [of k p 2 "drop k b" v] that by (simp add: add.commute)
  have s0: "setUint 2 0 i b = Inr (be_bytes 2 i @ drop 2 b)"
    using put [of 0 "[]" i] assms(3) by (simp add: numeral_2_eq_2)
  have s2: "setUint 2 2 0x0140 (be_bytes 2 i @ drop 2 b) = Inr ((be_bytes 2 i @ be_bytes 2 0x0140) @ drop 4 b)"
    using put [of 2 "be_bytes 2 i" "0x0140"] assms(3) by simp
  have s4: "setUint 2 4 1 ((be_bytes 2 i @ be_bytes 2 0x0140) @ drop 4 b) =
      Inr ((be_bytes 2 i @ be_bytes 2 0x0140 @ be_bytes 2 1) @ drop 6 b)"
    using put [of 4 "be_bytes 2 i @ be_bytes 2 0x0140" 1] assms(3) by simp
  have s6: "setUint 2 6 0 ((be_bytes 2 i @ be_bytes 2 0x0140 @ be_bytes 2 1) @ drop 6 b) =
      Inr ((be_bytes 2 i @ be_bytes 2 0x0140 @ be_bytes 2 1 @ be_bytes 2 0) @ drop 8 b)"
    using put [of 6 "be_bytes 2 i @ be_bytes 2 0x0140 @ be_bytes 2 1" 0] assms(3) by simp
  have s8: "setUint 2 8 0 ((be_bytes 2 i @ be_bytes 2 0x0140 @ be_bytes 2 1 @ be_bytes 2 0) @ drop 8 b) =
      Inr ((be_bytes 2 i @ be_bytes 2 0x0140 @ be_bytes 2 1 @ be_bytes 2 0 @ be_bytes 2 0) @ drop 10 b)"
    using put [of 8 "be_bytes 2 i @ be_bytes 2 0x0140 @ be_bytes 2 1 @ be_bytes 2 0" 0] assms(3) by simp
  have s10: "setUint 2 10 0 ((be_bytes 2 i @ be_bytes 2 0x0140 @ be_bytes 2 1 @ be_bytes 2 0 @ be_bytes 2 0) @ drop 10 b) =
      Inr (?h @ drop 12 b)"
    using put [of 10 "be_bytes 2 i @ be_bytes 2 0x0140 @ be_bytes 2 1 @ be_bytes 2 0 @ be_bytes 2 0" 0] assms(3)
    by (simp add: header_bytes_def)
  have w: "write_parts utf8 ?ps 12 (?h @ drop 12 b) = Inr (?o, (?h @ labels ?ps) @ drop ?o b)"
    using write_parts_append [OF assms(1,2), of "drop 12 b" ?h] assms(3) o by (simp add: add.commute)
  have "drop ?o b \<noteq> []" using assms(3) o by simp
  moreover have "drop (?o + 1) b = tl (drop ?o b)" by (metis Suc_eq_plus1 drop_Suc tl_drop)
  ultimately have z: "((?h @ labels ?ps) @ drop ?o b)[?o := 0] = (?h @ labels ?ps @ [0]) @ drop (?o + 1) b"
    by (cases "drop ?o b") (auto simp: list_update_append)
  have t: "setUint 2 (?o + 1) qtype ((?h @ labels ?ps @ [0]) @ drop (?o + 1) b) =
      Inr ((?h @ labels ?ps @ [0] @ be_bytes 2 qtype) @ drop (?o + 3) b)"
    using put [of "?o + 1" "?h @ labels ?ps @ [0]" qtype] assms(3) o by simp
  have c: "setUint 2 (?o + 3) qclass ((?h @ labels ?ps @ [0] @ be_bytes 2 qtype) @ drop (?o + 3) b) =
      Inr ((?h @ labels ?ps @ [0] @ be_bytes 2 qtype @ be_bytes 2 qclass) @ drop (?o + 5) b)"
    using put [of "?o + 3" "?h @ labels ?ps @ [0] @ be_bytes 2 qtype" qclass] assms(3) o by simp
  have "create utf8 domain b i qtype qclass =
      Inr (?o + 5, (?h @ labels ?ps @ [0] @ be_bytes 2 qtype @ be_bytes 2 qclass) @ drop (?o + 5) b)"
    by (simp only: create_def s0 s2 s4 s6 s8 s10 js_bind_simps w prod.case Let_def z t c)
  moreover have "?o + 5 = length domain + 18" using o by simp
  ultimately show ?thesis by (simp add: question_bytes_def)
qed

text \<open>C7: A query written by \<open>create\<close> is read back by \<open>parse\<close>: writing succeeds and reports its length, and
  the message read has the identifier, one question with the labels of the domain, the type and
  the class, recursion desired, no answers, and the written bytes.\<close>

theorem create_parse:
  assumes "\<forall>p \<in> set (js_split 46 domain). label_ok p" and "length domain + 18 \<le> length b"
    and "ascii_transparent utf8" and "ascii_transparent dec"
    and "i < 65536" and "qtype < 65536" and "qclass < 65536"
  shows "\<exists>len b' m. create utf8 domain b i qtype qclass = Inr (len, b') \<and> parse dec b' len = Some (Inr m) \<and>
    len = length domain + 18 \<and> drop len b' = drop len b \<and> msg_bytes m = take len b' \<and>
    ident m = i \<and> QR m = 0 \<and> opCode m = 0 \<and> RD m = 1 \<and> RCODE m = 0 \<and> answer m = [] \<and>
    question m = [\<lparr>q_type = qtype, q_class = qclass, q_name = js_split 46 domain\<rparr>]"
proof -
  let ?b = "header_bytes i 0x0140 0 @ question_bytes (js_split 46 domain) qtype qclass @ drop (length domain + 18) b"
  have c: "create utf8 domain b i qtype qclass = Inr (length domain + 18, ?b)"
    using create_wire assms by simp
  have len: "length (question_bytes (js_split 46 domain) qtype qclass) = length domain + 6"
    by (simp add: question_bytes_def length_labels_split)
  have "?b = header_bytes i 0x0140 (length ([] :: (nat \<times> bytes) list)) @
      question_bytes (js_split 46 domain) qtype qclass @ concat (map address_bytes []) @ drop (length domain + 18) b"
    by simp
  from parse_wire [OF assms(1) split_on_not_Nil assms(4) this, of "length domain + 18"] assms
  show ?thesis unfolding c
    by (simp add: bit_at_def drop_bit_eq_div and_masks len)
qed

theorem create_parse_witness:
  "\<exists>len b' m. create (\<lambda>s. s) [97, 46, 98] (replicate 32 0) 7 1 1 = Inr (len, b') \<and>
    parse (\<lambda>s. s) b' len = Some (Inr m) \<and> len = 21 \<and> ident m = 7 \<and>
    question m = [\<lparr>q_type = 1, q_class = 1, q_name = [[97], [98]]\<rparr>]"
  using create_parse [of "[97, 46, 98]" "replicate 32 0" "\<lambda>s. s" "\<lambda>s. s" 7 1 1]
  by (auto simp: label_ok_def ascii_transparent_id)



text \<open>The flags of a query also set the top one of the three reserved bits.\<close>

lemma query_reserved_bit: "drop_bit 4 0x0140 AND 7 = (4 :: nat)"
  by (simp add: and_masks drop_bit_eq_div)

text \<open>A label of 192 bytes or more is written as a pointer: its length does not fit six bits.\<close>

lemma write_long_label: "192 \<le> n \<Longrightarrow> n < 256 \<Longrightarrow> n AND 192 = (192 :: nat)"
proof -
  assume "192 \<le> n" "n < 256"
  then have "n div 64 = 3" by (intro div_nat_eqI) auto
  then show ?thesis by (simp add: and_high_masks)
qed

end
