(* ===== verification/Packet.thy ===== *)
theory Packet
  imports Bytes
begin

text \<open>
  The packet parser of \<open>src/lib/packet/packet.js\<close>: an IPv4 header, with an Ethernet frame before it on
  request, and a TCP or UDP header after it.  The parser owns one buffer of 65536 bytes; the closure
  variable \<open>offset\<close> is passed and returned.  Reads of the \<open>DataView\<close> and views outside the buffer
  throw a \<open>RangeError\<close>; a byte outside the buffer is \<open>undefined\<close>, which the bit operations take as 0.
\<close>

section \<open>Headers and messages\<close>

record tcp_options =
  maxss :: "nat option"
  windowScale :: "nat option"
  selAck :: bool
  sackSize :: "nat option"
  sack :: "bytes option"
  timestamp :: "(nat \<times> nat \<times> bytes) option"

definition no_options :: tcp_options where
  "no_options = \<lparr>maxss = None, windowScale = None, selAck = False, sackSize = None, sack = None,
     timestamp = None\<rparr>"

record tcp_message =
  t_source :: nat
  t_dest :: nat
  seq :: nat
  ack :: nat
  doff :: nat
  t_flags :: "nat list"
  window :: nat
  t_checksum :: nat
  urgent :: nat
  extra :: int
  options :: tcp_options

record udp_message =
  u_source :: nat
  u_dest :: nat
  u_length :: nat
  u_checksum :: nat

datatype message = TcpMessage tcp_message | UdpMessage udp_message | NoMessage

record eth_frame =
  f_source :: bytes
  f_dest :: bytes
  f_type :: nat
  f_size :: "nat option"
  f_protocol :: "jsstr option"

record ip_header =
  version :: nat
  ihl :: nat
  dscp :: nat
  ecn :: nat
  ident :: nat
  flags :: nat
  DF :: nat
  MF :: nat
  foff :: nat
  hops :: nat
  protocol :: nat
  checksum :: nat
  source :: nat
  dest :: nat
  header_length :: nat
  total_length :: nat

record packet =
  frame :: "eth_frame option"
  header :: ip_header
  message :: message
  end_offset :: nat
  packet_bytes :: nat
  remaining :: int

definition TCP :: nat where "TCP = 6"
definition UDP :: nat where "UDP = 17"

section \<open>UDP and TCP\<close>

definition parseUDPMessage :: "bytes \<Rightarrow> nat \<Rightarrow> (nat \<times> udp_message) js_result" where
  "parseUDPMessage b offset =
     js_bind (getUint 2 b offset) (\<lambda>src.
     js_bind (getUint 2 b (offset + 2)) (\<lambda>dst.
     js_bind (getUint 2 b (offset + 4)) (\<lambda>n.
     js_bind (getUint 2 b (offset + 6)) (\<lambda>sum.
       Inr (offset + 8, \<lparr>u_source = src, u_dest = dst, u_length = n, u_checksum = sum\<rparr>)))))"

text \<open>\<open>new Uint8Array(buf, off, n)\<close>.\<close>

definition view :: "bytes \<Rightarrow> nat \<Rightarrow> nat \<Rightarrow> bytes js_result" where
  "view b off n = (if off + n \<le> length b then Inr (slice b off (off + n)) else Inl RangeError)"

text \<open>The loop over the options; \<open>i\<close> counts the bytes left and may pass below zero, where the loop
  goes on until it meets an end, an unknown kind or the end of the buffer.\<close>

function options_loop :: "bytes \<Rightarrow> int \<Rightarrow> nat \<Rightarrow> tcp_options \<Rightarrow> (nat \<times> tcp_options) js_result" where
  "options_loop b i offset opts =
     (if i = 0 then Inr (offset, opts)
      else if offset \<ge> length b then Inl OtherError
      else let kind = b ! offset in
        if kind = 0 then Inr (offset + 1, opts)
        else if kind = 1 then options_loop b (i - 1) (offset + 1) opts
        else if kind = 2 then
          js_bind (getUint 2 b (offset + 2)) (\<lambda>v.
            options_loop b (i - 4) (offset + 4) (opts\<lparr>maxss := Some v\<rparr>))
        else if kind = 3 then
          options_loop b (i - 3) (offset + 3) (opts\<lparr>windowScale := char_at b (offset + 2)\<rparr>)
        else if kind = 4 then options_loop b (i - 2) (offset + 2) (opts\<lparr>selAck := True\<rparr>)
        else if kind = 5 then
          (case char_at b (offset + 1) of
             None \<Rightarrow> Inl RangeError
           | Some len \<Rightarrow>
               if len < 2 then Inl RangeError
               else js_bind (view b (offset + 2) (len - 2)) (\<lambda>v.
                 options_loop b (i - int len) (offset + len) (opts\<lparr>sackSize := Some (len - 2), sack := Some v\<rparr>)))
        else if kind = 8 then
          js_bind (getUint 4 b (offset + 2)) (\<lambda>tsval.
          js_bind (getUint 4 b (offset + 6)) (\<lambda>tsecr.
          js_bind (view b (offset + 2) 8) (\<lambda>v.
            options_loop b (i - 10) (offset + 10) (opts\<lparr>timestamp := Some (tsval, tsecr, v)\<rparr>))))
        else Inl OtherError)"
  by pat_completeness auto
termination
  by (relation "measure (\<lambda>(b, i, offset, opts). length b - offset)") auto

declare options_loop.simps [simp del]

definition flag_bits :: "nat \<Rightarrow> nat list" where
  "flag_bits f = map (\<lambda>k. drop_bit k f AND 1) [8, 7, 6, 5, 4, 3, 2, 1, 0]"

definition parseTCPMessage :: "bytes \<Rightarrow> nat \<Rightarrow> (nat \<times> tcp_message) js_result" where
  "parseTCPMessage b offset =
     js_bind (getUint 2 b offset) (\<lambda>src.
     js_bind (getUint 2 b (offset + 2)) (\<lambda>dst.
     js_bind (getUint 4 b (offset + 4)) (\<lambda>sq.
     js_bind (getUint 4 b (offset + 8)) (\<lambda>ak.
     js_bind (getUint 2 b (offset + 12)) (\<lambda>field.
     js_bind (getUint 2 b (offset + 14)) (\<lambda>win.
     js_bind (getUint 2 b (offset + 16)) (\<lambda>sum.
     js_bind (getUint 2 b (offset + 18)) (\<lambda>urg.
       let dof = drop_bit 12 field;
           fl = field AND 0x1ff;
           ext = int dof * 4 - 20
       in js_bind (if ext > 0 then options_loop b ext (offset + 20) no_options
                   else Inr (offset + 20, no_options)) (\<lambda>(off, opts).
         Inr (off, \<lparr>t_source = src, t_dest = dst, seq = sq, ack = ak, doff = dof, t_flags = flag_bits fl,
           window = win, t_checksum = sum, urgent = urg, extra = ext, options = opts\<rparr>))))))))))"

section \<open>The packet\<close>

definition parse_frame :: "bytes \<Rightarrow> eth_frame js_result" where
  "parse_frame b =
     js_bind (view b 0 6) (\<lambda>src.
     js_bind (view b 6 6) (\<lambda>dst.
     js_bind (getUint 2 b 12) (\<lambda>ty.
       Inr \<lparr>f_source = src, f_dest = dst, f_type = ty,
         f_size = (if ty \<le> 1500 then Some ty else None),
         f_protocol = (if ty \<ge> 1536 then
             (if ty = 0x0800 then Some (js ''IPv4'') else if ty = 0x0806 then Some (js ''ARP'') else None)
           else None)\<rparr>)))"

definition byte_or_0 :: "bytes \<Rightarrow> nat \<Rightarrow> nat" where
  "byte_or_0 b i = (case char_at b i of None \<Rightarrow> 0 | Some c \<Rightarrow> c)"

definition parse_header :: "bytes \<Rightarrow> nat \<Rightarrow> ip_header js_result" where
  "parse_header b offset =
     (let vi = byte_or_0 b offset; de = byte_or_0 b (offset + 1) in
      js_bind (getUint 2 b (offset + 2)) (\<lambda>len.
      js_bind (getUint 2 b (offset + 4)) (\<lambda>i.
      js_bind (getUint 2 b (offset + 6)) (\<lambda>field.
      js_bind (getUint 2 b (offset + 10)) (\<lambda>sum.
      js_bind (getUint 4 b (offset + 12)) (\<lambda>src.
      js_bind (getUint 4 b (offset + 16)) (\<lambda>dst.
        let fl = drop_bit 13 field; il = vi AND 15 in
        Inr \<lparr>version = drop_bit 4 vi, ihl = il, dscp = drop_bit 2 de, ecn = de AND 3, ident = i,
          flags = fl, DF = drop_bit 1 fl AND 1, MF = drop_bit 2 fl AND 1, foff = field AND 0x1fff,
          hops = byte_or_0 b (offset + 8), protocol = byte_or_0 b (offset + 9), checksum = sum,
          source = src, dest = dst, header_length = il * 4, total_length = len\<rparr>)))))))"

definition parse :: "bytes \<Rightarrow> nat \<Rightarrow> bool \<Rightarrow> packet js_result" where
  "parse b n ethernet =
     js_bind (if ethernet then js_bind (parse_frame b) (\<lambda>f. Inr (14, Some f)) else Inr (0, None)) (\<lambda>(offset, fr).
     js_bind (parse_header b offset) (\<lambda>h.
       let offset1 = offset + header_length h in
       js_bind (if protocol h = TCP then js_bind (parseTCPMessage b offset1) (\<lambda>(o1, m). Inr (o1, TcpMessage m))
                else if protocol h = UDP then js_bind (parseUDPMessage b offset1) (\<lambda>(o1, m). Inr (o1, UdpMessage m))
                else Inr (offset1, NoMessage)) (\<lambda>(offset2, m).
         Inr \<lparr>frame = fr, header = h, message = m, end_offset = offset2, packet_bytes = n,
           remaining = int n - int offset2\<rparr>)))"

section \<open>Options on the wire\<close>

datatype tcp_option = Nop | Mss nat | WindowScale nat | SackPermitted | Sack bytes | Timestamp nat nat

fun option_bytes :: "tcp_option \<Rightarrow> bytes" where
  "option_bytes Nop = [1]"
| "option_bytes (Mss n) = 2 # 4 # be_bytes 2 n"
| "option_bytes (WindowScale n) = [3, 3, n]"
| "option_bytes SackPermitted = [4, 2]"
| "option_bytes (Sack bs) = 5 # (length bs + 2) # bs"
| "option_bytes (Timestamp a b) = 8 # 10 # be_bytes 4 a @ be_bytes 4 b"

fun option_ok :: "tcp_option \<Rightarrow> bool" where
  "option_ok (Mss n) \<longleftrightarrow> n < 65536"
| "option_ok (Timestamp a b) \<longleftrightarrow> a < 256 ^ 4 \<and> b < 256 ^ 4"
| "option_ok _ \<longleftrightarrow> True"

fun read_option :: "tcp_option \<Rightarrow> tcp_options \<Rightarrow> tcp_options" where
  "read_option Nop opts = opts"
| "read_option (Mss n) opts = opts\<lparr>maxss := Some n\<rparr>"
| "read_option (WindowScale n) opts = opts\<lparr>windowScale := Some n\<rparr>"
| "read_option SackPermitted opts = opts\<lparr>selAck := True\<rparr>"
| "read_option (Sack bs) opts = opts\<lparr>sackSize := Some (length bs), sack := Some bs\<rparr>"
| "read_option (Timestamp a b) opts = opts\<lparr>timestamp := Some (a, b, be_bytes 4 a @ be_bytes 4 b)\<rparr>"

definition options_bytes :: "tcp_option list \<Rightarrow> bytes" where
  "options_bytes os = concat (map option_bytes os)"

lemma getUint_at: "b = p @ be_bytes n v @ q \<Longrightarrow> i = length p \<Longrightarrow> v < 256 ^ n \<Longrightarrow> getUint n b i = Inr v"
  using getUint_append by simp

lemma option_bytes_pos: "0 < length (option_bytes p)"
  by (cases p) auto

lemma options_loop_step:
  assumes "b = pre @ option_bytes p @ rest" and "option_ok p" and "i \<noteq> 0"
  shows "options_loop b i (length pre) opts =
    options_loop b (i - int (length (option_bytes p))) (length pre + length (option_bytes p)) (read_option p opts)"
proof (cases p)
  case Nop
  then show ?thesis using assms by (subst options_loop.simps) (simp add: Let_def)
next
  case (Mss n)
  have "getUint 2 b (length pre + 2) = Inr n"
    by (rule getUint_at [of _ "pre @ [2, 4]"]) (use assms Mss in auto)
  then show ?thesis using assms Mss by (subst options_loop.simps) (simp add: Let_def nth_append)
next
  case (WindowScale n)
  have "char_at b (length pre + 2) = Some n" using assms WindowScale by (simp add: char_at_def nth_append)
  then show ?thesis using assms WindowScale
    by (subst options_loop.simps) (simp add: Let_def nth_append numeral_3_eq_3)
next
  case SackPermitted
  then show ?thesis using assms by (subst options_loop.simps) (simp add: Let_def nth_append)
next
  case (Sack bs)
  have c: "char_at b (length pre + 1) = Some (length bs + 2)"
    using assms Sack by (simp add: char_at_def nth_append)
  have "view b (length pre + 2) (length bs) = Inr bs"
    using assms Sack slice_append [of "length pre + 2" "pre @ [5, length bs + 2]" "length bs" bs rest]
    by (simp add: view_def)
  then show ?thesis using assms Sack c by (subst options_loop.simps) (simp add: Let_def nth_append)
next
  case (Timestamp a c)
  have b: "b = pre @ [8, 10] @ be_bytes 4 a @ be_bytes 4 c @ rest" using assms Timestamp by simp
  have 1: "getUint 4 b (length pre + 2) = Inr a"
    by (rule getUint_at [of _ "pre @ [8, 10]"]) (use assms Timestamp in auto)
  have 2: "getUint 4 b (length pre + 6) = Inr c"
    by (rule getUint_at [of _ "pre @ [8, 10] @ be_bytes 4 a"]) (use assms Timestamp in auto)
  have k: "b ! length pre = 8" "length pre < length b" using b by auto
  let ?w = "be_bytes 4 a @ be_bytes 4 c"
  have b': "b = (pre @ [8, 10]) @ ?w @ rest" using b by simp
  have "slice b (length pre + 2) (length pre + 2 + 8) = ?w" unfolding b' by (rule slice_append) auto
  moreover have "length pre + 2 + 8 \<le> length b" unfolding b' by simp
  ultimately have v: "view b (length pre + 2) 8 = Inr ?w" by (simp only: view_def if_True)
  have "options_loop b i (length pre) opts = options_loop b (i - 10) (length pre + 10)
      (opts\<lparr>timestamp := Some (a, c, be_bytes 4 a @ be_bytes 4 c)\<rparr>)"
    apply (subst options_loop.simps)
    apply (simp only: Let_def k 1 2 v js_bind_simps assms(3) if_False if_True simp_thms)
    using k by simp
  moreover have "length (option_bytes p) = 10" by (simp add: Timestamp)
  ultimately show ?thesis by (simp only: Timestamp read_option.simps of_nat_numeral)
qed

lemma tcp_options_read:
  assumes "\<forall>p \<in> set os. option_ok p"
  shows "options_loop (pre @ options_bytes os @ rest) (int (length (options_bytes os))) (length pre) opts =
    Inr (length pre + length (options_bytes os), fold read_option os opts)"
  using assms
proof (induction os arbitrary: pre opts)
  case Nil
  then show ?case by (simp add: options_bytes_def options_loop.simps)
next
  case (Cons p os)
  let ?b = "pre @ options_bytes (p # os) @ rest"
  have b: "?b = pre @ option_bytes p @ options_bytes os @ rest" by (simp add: options_bytes_def)
  have "length (options_bytes (p # os)) > 0" using option_bytes_pos [of p] by (simp add: options_bytes_def)
  then have n: "int (length (options_bytes (p # os))) \<noteq> 0" by (metis of_nat_eq_0_iff less_irrefl)
  have "options_loop ?b (int (length (options_bytes (p # os)))) (length pre) opts =
      options_loop ?b (int (length (options_bytes os))) (length pre + length (option_bytes p)) (read_option p opts)"
    using options_loop_step [OF b _ n] Cons.prems by (simp add: options_bytes_def)
  then show ?case using Cons.IH [of "pre @ option_bytes p" "read_option p opts"] Cons.prems
    by (simp add: options_bytes_def)
qed

text \<open>The option loop reads back any list of TCP options: it does not throw, consumes exactly their
  bytes and returns their values, a later option of a kind replacing an earlier one.\<close>

theorem tcp_options_roundtrip:
  assumes "\<forall>p \<in> set os. option_ok p"
  shows "options_loop (pre @ options_bytes os @ rest) (int (length (options_bytes os))) (length pre) opts =
    Inr (length pre + length (options_bytes os), fold read_option os opts)"
  using tcp_options_read [OF assms] .

theorem tcp_options_roundtrip_witness:
  "options_loop ([] @ options_bytes [Mss 1460, SackPermitted, Timestamp 5 6, Nop, WindowScale 7] @ [])
      20 0 no_options =
    Inr (20, \<lparr>maxss = Some 1460, windowScale = Some 7, selAck = True, sackSize = None, sack = None,
      timestamp = Some (5, 6, [0, 0, 0, 5, 0, 0, 0, 6])\<rparr>)"
  using tcp_options_roundtrip [of "[Mss 1460, SackPermitted, Timestamp 5 6, Nop, WindowScale 7]" "[]" "[]" no_options]
  by (simp add: options_bytes_def no_options_def be_bytes_numeral)

section \<open>Packets on the wire\<close>

definition ip_bytes :: "ip_header \<Rightarrow> bytes \<Rightarrow> bytes" where
  "ip_bytes h opts =
     [version h * 16 + ihl h, dscp h * 4 + ecn h] @ be_bytes 2 (total_length h) @ be_bytes 2 (ident h) @
     be_bytes 2 (flags h * 8192 + foff h) @ [hops h, protocol h] @ be_bytes 2 (checksum h) @
     be_bytes 4 (source h) @ be_bytes 4 (dest h) @ opts"

definition ip_ok :: "ip_header \<Rightarrow> bytes \<Rightarrow> bool" where
  "ip_ok h opts \<longleftrightarrow> ihl h < 16 \<and> length opts + 20 = ihl h * 4 \<and> ecn h < 4 \<and> total_length h < 65536 \<and>
     ident h < 65536 \<and> flags h < 8 \<and> foff h < 8192 \<and> checksum h < 65536 \<and>
     source h < 256 ^ 4 \<and> dest h < 256 ^ 4 \<and> header_length h = ihl h * 4 \<and>
     DF h = flags h div 2 mod 2 \<and> MF h = flags h div 4 mod 2"

definition tcp_bytes :: "tcp_message \<Rightarrow> nat \<Rightarrow> tcp_option list \<Rightarrow> bytes" where
  "tcp_bytes m f os =
     be_bytes 2 (t_source m) @ be_bytes 2 (t_dest m) @ be_bytes 4 (seq m) @ be_bytes 4 (ack m) @
     be_bytes 2 (doff m * 4096 + f) @ be_bytes 2 (window m) @ be_bytes 2 (t_checksum m) @
     be_bytes 2 (urgent m) @ options_bytes os"

definition tcp_ok :: "tcp_message \<Rightarrow> nat \<Rightarrow> tcp_option list \<Rightarrow> bool" where
  "tcp_ok m f os \<longleftrightarrow> t_source m < 65536 \<and> t_dest m < 65536 \<and> seq m < 256 ^ 4 \<and> ack m < 256 ^ 4 \<and>
     doff m < 16 \<and> f < 512 \<and> window m < 65536 \<and> t_checksum m < 65536 \<and> urgent m < 65536 \<and>
     (\<forall>p \<in> set os. option_ok p) \<and> length (options_bytes os) + 20 = doff m * 4 \<and>
     t_flags m = flag_bits f \<and> extra m = int (length (options_bytes os)) \<and>
     options m = fold read_option os no_options"

lemma ip_record_eqI:
  assumes "ip_ok h opts"
  shows "\<lparr>version = version h, ihl = ihl h, dscp = dscp h, ecn = ecn h, ident = ident h, flags = flags h,
      DF = flags h div 2 mod 2, MF = flags h div 4 mod 2, foff = foff h, hops = hops h, protocol = protocol h,
      checksum = checksum h, source = source h, dest = dest h, header_length = ihl h * 4,
      total_length = total_length h\<rparr> = h"
  using assms by (cases h) (simp add: ip_ok_def)

lemma parse_header_bytes:
  assumes "ip_ok h opts" and "b = ip_bytes h opts @ rest"
  shows "parse_header b 0 = Inr h"
proof -
  let ?ff = "flags h * 8192 + foff h"
  let ?a = "[version h * 16 + ihl h, dscp h * 4 + ecn h]"
  note w = assms(2) [unfolded ip_bytes_def]
  have g2: "getUint 2 b (0 + 2) = Inr (total_length h)"
    by (rule getUint_at [of _ ?a]) (use w assms(1) in \<open>auto simp: ip_ok_def\<close>)
  have g4: "getUint 2 b (0 + 4) = Inr (ident h)"
    by (rule getUint_at [of _ "?a @ be_bytes 2 (total_length h)"]) (use w assms(1) in \<open>auto simp: ip_ok_def\<close>)
  have g6: "getUint 2 b (0 + 6) = Inr ?ff"
    by (rule getUint_at [of _ "?a @ be_bytes 2 (total_length h) @ be_bytes 2 (ident h)"])
      (use w assms(1) in \<open>auto simp: ip_ok_def\<close>)
  let ?p8 = "?a @ be_bytes 2 (total_length h) @ be_bytes 2 (ident h) @ be_bytes 2 ?ff"
  have g10: "getUint 2 b (0 + 10) = Inr (checksum h)"
    by (rule getUint_at [of _ "?p8 @ [hops h, protocol h]"]) (use w assms(1) in \<open>auto simp: ip_ok_def\<close>)
  have g12: "getUint 4 b (0 + 12) = Inr (source h)"
    by (rule getUint_at [of _ "?p8 @ [hops h, protocol h] @ be_bytes 2 (checksum h)"])
      (use w assms(1) in \<open>auto simp: ip_ok_def\<close>)
  have g16: "getUint 4 b (0 + 16) = Inr (dest h)"
    by (rule getUint_at [of _ "?p8 @ [hops h, protocol h] @ be_bytes 2 (checksum h) @ be_bytes 4 (source h)"])
      (use w assms(1) in \<open>auto simp: ip_ok_def\<close>)
  have byte: "byte_or_0 b i = x" if "b = p @ x # q" "i = length p" for p x q i
    using that by (simp add: byte_or_0_def char_at_def nth_append)
  have b0: "byte_or_0 b 0 = version h * 16 + ihl h" by (rule byte [of "[]"]) (auto simp: w)
  have b1: "byte_or_0 b (0 + 1) = dscp h * 4 + ecn h"
    by (rule byte [of "[version h * 16 + ihl h]"]) (auto simp: w)
  have b8: "byte_or_0 b (0 + 8) = hops h" by (rule byte [of ?p8]) (auto simp: w)
  have b9: "byte_or_0 b (0 + 9) = protocol h" by (rule byte [of "?p8 @ [hops h]"]) (auto simp: w)
  have ok: "ihl h < 16" "ecn h < 4" "foff h < 8192" using assms(1) by (auto simp: ip_ok_def)
  have parts: "drop_bit 4 (version h * 16 + ihl h) = version h" "(version h * 16 + ihl h) AND 15 = ihl h"
    "drop_bit 2 (dscp h * 4 + ecn h) = dscp h" "(dscp h * 4 + ecn h) AND 3 = ecn h"
    "drop_bit 13 ?ff = flags h" "?ff AND 0x1fff = foff h"
    "drop_bit 1 (flags h) AND 1 = flags h div 2 mod 2" "drop_bit 2 (flags h) AND 1 = flags h div 4 mod 2"
    using ok by (simp_all add: drop_bit_eq_div and_masks)
  show ?thesis
    by (simp only: parse_header_def Let_def b0 b1 b8 b9 g2 g4 g6 g10 g12 g16 js_bind_simps parts
        ip_record_eqI [OF assms(1)])
qed

lemma parse_tcp_bytes:
  assumes "tcp_ok m f os" and "b = pre @ tcp_bytes m f os @ rest" and off: "off = length pre"
  shows "parseTCPMessage b off = Inr (off + doff m * 4, m)"
proof -
  note w = assms(2) [unfolded tcp_bytes_def]
  let ?f = "doff m * 4096 + f"
  have g0: "getUint 2 b off = Inr (t_source m)"
    by (rule getUint_at [of _ pre]) (use w off assms(1) in \<open>auto simp: tcp_ok_def\<close>)
  let ?p2 = "pre @ be_bytes 2 (t_source m)"
  have g2: "getUint 2 b (off + 2) = Inr (t_dest m)"
    by (rule getUint_at [of _ ?p2]) (use w off assms(1) in \<open>auto simp: tcp_ok_def\<close>)
  let ?p4 = "?p2 @ be_bytes 2 (t_dest m)"
  have g4: "getUint 4 b (off + 4) = Inr (seq m)"
    by (rule getUint_at [of _ ?p4]) (use w off assms(1) in \<open>auto simp: tcp_ok_def\<close>)
  let ?p8 = "?p4 @ be_bytes 4 (seq m)"
  have g8: "getUint 4 b (off + 8) = Inr (ack m)"
    by (rule getUint_at [of _ ?p8]) (use w off assms(1) in \<open>auto simp: tcp_ok_def\<close>)
  let ?p12 = "?p8 @ be_bytes 4 (ack m)"
  have g12: "getUint 2 b (off + 12) = Inr ?f"
    by (rule getUint_at [of _ ?p12]) (use w off assms(1) in \<open>auto simp: tcp_ok_def\<close>)
  let ?p14 = "?p12 @ be_bytes 2 ?f"
  have g14: "getUint 2 b (off + 14) = Inr (window m)"
    by (rule getUint_at [of _ ?p14]) (use w off assms(1) in \<open>auto simp: tcp_ok_def\<close>)
  let ?p16 = "?p14 @ be_bytes 2 (window m)"
  have g16: "getUint 2 b (off + 16) = Inr (t_checksum m)"
    by (rule getUint_at [of _ ?p16]) (use w off assms(1) in \<open>auto simp: tcp_ok_def\<close>)
  let ?p18 = "?p16 @ be_bytes 2 (t_checksum m)"
  have g18: "getUint 2 b (off + 18) = Inr (urgent m)"
    by (rule getUint_at [of _ ?p18]) (use w off assms(1) in \<open>auto simp: tcp_ok_def\<close>)
  let ?p20 = "?p18 @ be_bytes 2 (urgent m)"
  have ext: "int (doff m) * 4 - 20 = extra m" "extra m = int (length (options_bytes os))"
    "length (options_bytes os) + 20 = doff m * 4"
    using assms(1) by (auto simp: tcp_ok_def)
  have b20: "b = ?p20 @ options_bytes os @ rest" using w by simp
  have len: "length ?p20 = off + 20" by (simp add: off)
  have "options_loop b (extra m) (off + 20) no_options =
      Inr (off + 20 + length (options_bytes os), options m)"
    using tcp_options_read [of os ?p20 rest no_options, folded b20] assms(1) len ext(2)
    unfolding tcp_ok_def by metis
  moreover have "options_bytes os = [] \<longrightarrow> options m = no_options"
    using assms(1) option_bytes_pos by (cases os) (auto simp: tcp_ok_def options_bytes_def)
  ultimately have opts: "(if extra m > 0 then options_loop b (extra m) (off + 20) no_options
      else Inr (off + 20, no_options)) = Inr (off + doff m * 4, options m)"
    using ext by (cases "options_bytes os = []") (auto simp: add.commute add.left_commute)
  have parts: "drop_bit 12 ?f = doff m" "?f AND 0x1ff = f"
    using assms(1) mod_mult_self3 [of "doff m * 8" 512 f] by (auto simp: mult.commute tcp_ok_def drop_bit_eq_div and_masks)
  have "t_flags m = flag_bits f" using assms(1) by (simp add: tcp_ok_def)
  then show ?thesis
    by (simp only: parseTCPMessage_def g0 g2 g4 g8 g12 g14 g16 g18 js_bind_simps Let_def parts ext(1) opts
        prod.case) simp
qed



text \<open>The more-fragments flag is the lowest of the three flag bits (RFC 791), but \<open>MF\<close> reads the highest,
  which is reserved: a first fragment is reported as not fragmented.\<close>

lemma MF_misses_fragments:
  assumes "ip_ok h opts" and "flags h = 1"
  shows "\<exists>h'. parse_header (ip_bytes h opts @ rest) 0 = Inr h' \<and> MF h' = 0"
  using parse_header_bytes [OF assms(1) refl] assms by (simp add: ip_ok_def)

text \<open>In an Ethernet frame the destination comes first; the parser calls it the source.\<close>

lemma frame_addresses_swapped:
  assumes "length dst = 6" and "length src = 6" and "length ty = 2"
  shows "\<exists>f. parse_frame (dst @ src @ ty @ rest) = Inr f \<and> f_source f = dst \<and> f_dest f = src"
  using assms by (simp add: parse_frame_def view_def slice_def getUint_def)

text \<open>An end-of-options byte stops the loop right after it: padding that follows counts as payload.\<close>

lemma end_of_options_keeps_padding:
  "options_loop [0, 0, 0, 0] 4 0 opts = Inr (1, opts)"
  by (simp add: options_loop.simps Let_def)

end
