(* ===== verification/Binary.thy ===== *)
theory Binary
  imports Packet
begin

text \<open>
  The formatting helpers of \<open>src/lib/binary/binary.js\<close>: dotted addresses and their numbers, hardware
  addresses, the hex dump and the one-line reports of parsed packets.  Bit operations are the
  32-bit ones of JavaScript.
\<close>

section \<open>Addresses\<close>

definition octet :: "nat \<Rightarrow> int \<Rightarrow> nat" where
  "octet k v = nat (to_int32 v div 2 ^ k mod 256)"

definition b2ipv4 :: "int \<Rightarrow> jsstr" where
  "b2ipv4 v = js_join [46] (map (\<lambda>k. to_radix 10 (octet k v)) [24, 16, 8, 0])"

text \<open>A missing or malformed number is \<open>NaN\<close> (\<open>None\<close>), which counts as 0 in a shift.\<close>

definition number_or_0 :: "int option \<Rightarrow> int" where
  "number_or_0 x = (case x of None \<Rightarrow> 0 | Some n \<Rightarrow> n)"

definition ipv42b :: "jsstr \<Rightarrow> int option" where
  "ipv42b v =
     (let bs = map parse_int10 (js_split 46 v);
          b = (\<lambda>i. if i < length bs then bs ! i else None)
      in map_option (\<lambda>b3. shl (number_or_0 (b 0)) 24 + shl (number_or_0 (b 1)) 16 +
           shl (number_or_0 (b 2)) 8 + b3) (b 3))"

definition hex2 :: "nat \<Rightarrow> jsstr" where
  "hex2 v = padStart 2 48 (to_radix 16 v)"

definition toMAC :: "bytes \<Rightarrow> jsstr" where
  "toMAC u8 = js_join [58] (map hex2 u8)"

definition htons16 :: "nat \<Rightarrow> int" where
  "htons16 n = (let u16 = n AND 0xffff in shl (int (u16 AND 0xff)) (8 + drop_bit 8 u16))"

section \<open>Reports\<close>

definition esc :: "string \<Rightarrow> jsstr" where
  "esc s = 27 # js s"

definition AD :: jsstr where "AD = esc ''[0m''"
definition AY :: jsstr where "AY = esc ''[33m''"
definition AM :: jsstr where "AM = esc ''[35m''"
definition AC :: jsstr where "AC = esc ''[36m''"
definition AG :: jsstr where "AG = esc ''[32m''"

text \<open>The text so far and the characters of the current line; \<open>width\<close> is positive.\<close>

fun dump_loop :: "bytes \<Rightarrow> nat \<Rightarrow> nat \<Rightarrow> nat \<Rightarrow> nat \<Rightarrow> jsstr \<times> jsstr \<Rightarrow> (jsstr \<times> jsstr) js_result" where
  "dump_loop b off width 0 i st = Inr st"
| "dump_loop b off width (Suc n) i (result, chars) =
     (let (result, chars) = (if i mod width = 0 \<and> i \<noteq> 0 then (result @ 32 # chars @ [10], []) else (result, chars));
          boff = i + off;
          result = (if i mod 8 = 0 then result @ AG @ padStart 5 32 (to_radix 16 boff) @ AD else result)
      in case char_at b boff of
           None \<Rightarrow> Inl TypeError
         | Some c \<Rightarrow>
             dump_loop b off width n (i + 1)
               (result @ 32 # hex2 c, chars @ (if c \<ge> 32 \<and> c \<le> 126 then AC @ c # AD else [46])))"

definition dump :: "bytes \<Rightarrow> nat \<Rightarrow> nat \<Rightarrow> nat \<Rightarrow> jsstr js_result" where
  "dump b len off width =
     js_bind (dump_loop b off width len 0 ([], [])) (\<lambda>(result, chars).
       let remaining = width - len mod width;
           blanks = replicate (3 * remaining) 32
       in Inr (if remaining = width then result @ 32 # chars @ [10]
               else if remaining < 8 then result @ blanks @ 32 # chars @ [10]
               else result @ blanks @ replicate 6 32 @ chars @ [10]))"

definition getFlags :: "(jsstr \<times> nat) list \<Rightarrow> jsstr list" where
  "getFlags fs = map fst (filter (\<lambda>(k, v). v \<noteq> 0) fs)"

definition flag_names :: "jsstr list" where
  "flag_names = [js ''NS'', js ''CWR'', js ''ECE'', js ''URG'', js ''ACK'', js ''PSH'', js ''RST'', js ''SYN'', js ''FIN'']"

definition pad :: "nat \<Rightarrow> nat \<Rightarrow> jsstr" where
  "pad n p = padStart p 32 (to_radix 10 n)"

definition arrow :: "jsstr \<Rightarrow> jsstr \<Rightarrow> jsstr \<Rightarrow> jsstr" where
  "arrow colour a b = colour @ a @ AD @ js '' -> '' @ colour @ b @ AD"

text \<open>The first two lines of both reports; without a frame or a known protocol the code throws.\<close>

definition dump_head :: "packet \<Rightarrow> jsstr js_result" where
  "dump_head p =
     (case frame p of
        None \<Rightarrow> Inl TypeError
      | Some f \<Rightarrow> (case f_protocol f of
          None \<Rightarrow> Inl TypeError
        | Some proto \<Rightarrow> Inr
            (10 # AM @ js ''Eth  '' @ AD @ js '': '' @ arrow AM (toMAC (f_source f)) (toMAC (f_dest f)) @
             10 # AG @ padEnd 4 32 proto @ 32 # AD @ js '':  '' @
             arrow AG (b2ipv4 (int (source (header p)))) (b2ipv4 (int (dest (header p)))) @ [10])))"

definition tcpDump :: "packet \<Rightarrow> jsstr js_result" where
  "tcpDump p =
     (case message p of
        TcpMessage m \<Rightarrow> js_bind (dump_head p) (\<lambda>head.
          Inr (js_trim (head @ AY @ js ''TCP  '' @ AD @ js '':   '' @
            arrow AY (pad (t_source m) 5) (pad (t_dest m) 5) @ js '' seq '' @ AY @ pad (seq m) 10 @ AD @
            js '' ack '' @ AY @ pad (ack m) 10 @ AD @ js '' ('' @ AC @
            js_join [32] (getFlags (zip flag_names (t_flags m))) @ AD @ js '')'' @ [10])))
      | _ \<Rightarrow> Inl TypeError)"

definition udpDump :: "packet \<Rightarrow> jsstr js_result" where
  "udpDump p = js_bind (dump_head p) (\<lambda>head. Inr (js_trim (head @ AY @ js ''UDP  '' @ AD @ [58])))"

section \<open>Addresses survive\<close>

lemma octet_less: "octet k v < 256"
  by (simp add: octet_def nat_less_iff)

lemma dotted_digits: "46 \<notin> set (to_radix 10 n)"
  using to_radix_10_digits [of 46 n] by (auto simp: is_digit_def)

lemma octets_sum:
  assumes "- 2147483648 \<le> t" and "t < 2147483648"
  shows "to_int32 (t div 16777216 mod 256 * 16777216) + t div 65536 mod 256 * 65536 +
    t div 256 mod 256 * 256 + t mod 256 = t"
proof -
  let ?q = "t div 16777216"
  have q: "- 128 \<le> ?q" "?q \<le> 127"
    using zdiv_mono1 [of "- 2147483648" t "16777216"] zdiv_mono1 [of t 2147483647 "16777216"] assms by auto
  have r: "t = ?q * 16777216 + t div 65536 mod 256 * 65536 + t div 256 mod 256 * 256 + t mod 256"
  proof -
    have "t div 65536 div 256 = ?q" "t div 256 div 256 = t div 65536"
      by (simp_all add: zdiv_zmult2_eq [symmetric])
    then show ?thesis using div_mult_mod_eq [of t 256] div_mult_mod_eq [of "t div 256" 256]
      div_mult_mod_eq [of "t div 65536" 256] by linarith
  qed
  have "to_int32 (?q mod 256 * 16777216) = ?q * 16777216"
  proof (cases "0 \<le> ?q")
    case True
    then show ?thesis using q by (simp add: to_int32_id)
  next
    case False
    have "?q mod 256 = (?q + 256) mod 256" by simp
    also have "\<dots> = ?q + 256" using q False by (intro mod_pos_pos_trivial) auto
    finally have "?q mod 256 = ?q + 256" .
    then have "to_int32 (?q mod 256 * 16777216) = to_int32 (?q * 16777216 + 4294967296)" by simp
    also have "\<dots> = to_int32 (?q * 16777216)" by (simp only: to_int32_def mod_add_self2)
    also have "\<dots> = ?q * 16777216" using q False by (intro to_int32_id) auto
    finally show ?thesis .
  qed
  then show ?thesis using r by linarith
qed

lemma ipv42b_b2ipv4: "ipv42b (b2ipv4 v) = Some (to_int32 v)"
proof -
  let ?t = "to_int32 v"
  let ?ds = "map (\<lambda>k. to_radix 10 (octet k v)) [24, 16, 8, 0]"
  have split: "js_split 46 (b2ipv4 v) = ?ds"
    unfolding b2ipv4_def by (rule js_split_join) (auto simp: dotted_digits)
  have i: "int (octet k v) = ?t div 2 ^ k mod 256" for k by (simp add: octet_def)
  have a: "shl (int (octet 24 v)) 24 = to_int32 (?t div 16777216 mod 256 * 16777216)"
  proof -
    have "to_int32 (int (octet 24 v)) = int (octet 24 v)"
      using octet_less [of 24 v] by (intro to_int32_id) auto
    then show ?thesis unfolding shl_def by (simp add: i)
  qed
  have b: "shl (int (octet 16 v)) 16 = ?t div 65536 mod 256 * 65536"
    using octet_less [of 16 v] by (subst shl_exact) (auto simp: i)
  have c: "shl (int (octet 8 v)) 8 = ?t div 256 mod 256 * 256"
    using octet_less [of 8 v] by (subst shl_exact) (auto simp: i)
  have d: "int (octet 0 v) = ?t mod 256" by (simp add: i)
  have "to_int32 (?t div 16777216 mod 256 * 16777216) + ?t div 65536 mod 256 * 65536 +
      ?t div 256 mod 256 * 256 + ?t mod 256 = ?t"
    by (rule octets_sum) (use to_int32_range [of v] in auto)
  then have "shl (int (octet 24 v)) 24 + shl (int (octet 16 v)) 16 + shl (int (octet 8 v)) 8 +
      int (octet 0 v) = ?t"
    by (simp only: a b c d)
  then show ?thesis
    by (simp add: ipv42b_def split parse_int10_to_radix number_or_0_def Let_def nth_Cons')
qed

text \<open>An address survives being written with dots and read back, as the signed 32-bit number it denotes;
  reading never fails on what \<open>b2ipv4\<close> wrote.\<close>

theorem ipv4_text_roundtrip: "ipv42b (b2ipv4 v) = Some (to_int32 v)"
  by (rule ipv42b_b2ipv4)

interpretation ipv4_text: codec b2ipv4 ipv42b "\<lambda>v. - 2147483648 \<le> v \<and> v < 2147483648"
  by unfold_locales (simp add: ipv42b_b2ipv4 to_int32_id)

text \<open>\<open>htons16\<close> shifts by the sum: it swaps the bytes only when the high byte is 0.\<close>

lemma htons16_low: "n < 256 \<Longrightarrow> htons16 n = int n * 256"
  by (simp add: htons16_def and_masks drop_bit_eq_div Let_def shl_exact)

lemma htons16_high: "htons16 0x1234 = - 805306368"
  by (simp add: htons16_def and_masks drop_bit_eq_div Let_def shl_def to_int32_def)

end
