(* ===== verification/Pg.thy ===== *)
theory Pg
  imports Bytes
begin

text \<open>
  The PostgreSQL protocol of \<open>src/lib/pg/protocol.js\<close>: the messages a client sends, and the parser of
  the server's messages with all its handlers.  The parser's closure variables, its buffer and the
  object it returns are one record; every call of \<open>onMessage\<close> is returned as a snapshot of that
  record.  \<open>None\<close> stands for a loop without end, such as the search for the zero of a C string past
  the end of the buffer.  \<open>md5AuthMessage\<close> is in \<open>Pg_Auth\<close>.
\<close>

section \<open>Messages to the server\<close>

definition syncMessage :: "bytes js_result" where
  "syncMessage = js_bind (setUint 1 0 83 (replicate 5 0)) (\<lambda>b. setUint 4 1 4 b)"

definition terminateMessage :: "bytes js_result" where
  "terminateMessage = js_bind (setUint 1 0 88 (replicate 5 0)) (\<lambda>b. setUint 4 1 4 b)"

text \<open>A string and the zero after it: \<open>off += buf.writeString(s, off); dv.setUint8(off++, 0)\<close>.\<close>

definition write_cstring :: "(jsstr \<Rightarrow> bytes) \<Rightarrow> jsstr \<Rightarrow> nat \<times> bytes \<Rightarrow> (nat \<times> bytes) js_result" where
  "write_cstring utf8 s st =
     (case st of (off, b) \<Rightarrow>
       js_bind (writeString utf8 s off b) (\<lambda>b.
       let off = off + length (utf8 s) in
       js_bind (setUint 1 off 0 b) (\<lambda>b. Inr (off + 1, b))))"

fun write_parameters :: "(jsstr \<Rightarrow> bytes) \<Rightarrow> (jsstr \<times> jsstr) list \<Rightarrow> nat \<times> bytes \<Rightarrow> (nat \<times> bytes) js_result" where
  "write_parameters utf8 [] st = Inr st"
| "write_parameters utf8 ((name, val) # ps) st =
     js_bind (write_cstring utf8 name st) (\<lambda>st.
       js_bind (write_cstring utf8 val st) (\<lambda>st. write_parameters utf8 ps st))"

definition startup_length :: "jsstr \<Rightarrow> jsstr \<Rightarrow> (jsstr \<times> jsstr) list \<Rightarrow> nat" where
  "startup_length user database parameters =
     8 + 4 + 1 + length user + 1 + 8 + 1 + length database + 2 +
     sum_list (map (\<lambda>(name, val). length name + 1 + length val + 1) parameters)"

definition startupMessage :: "(jsstr \<Rightarrow> bytes) \<Rightarrow> jsstr \<Rightarrow> jsstr \<Rightarrow> (jsstr \<times> jsstr) list \<Rightarrow> bytes js_result" where
  "startupMessage utf8 user database parameters =
     (let b = replicate (startup_length user database parameters) 0 in
      js_bind (setUint 4 0 0 b) (\<lambda>b.
      js_bind (setUint 4 4 196608 b) (\<lambda>b.
      js_bind (write_cstring utf8 (js ''user'') (8, b)) (\<lambda>st.
      js_bind (write_cstring utf8 user st) (\<lambda>st.
      js_bind (write_cstring utf8 (js ''database'') st) (\<lambda>st.
      js_bind (write_cstring utf8 database st) (\<lambda>st.
      js_bind (write_parameters utf8 parameters st) (\<lambda>(off, b).
      js_bind (setUint 1 off 0 b) (\<lambda>b.
        setUint 4 0 (off + 1) b)))))))))"

section \<open>The parser\<close>

record pg_field =
  f_name :: jsstr
  tid :: int
  attrib :: int
  oid :: int
  f_size :: int
  mod_ :: int
  format :: int

record pg_parser =
  buf :: bytes
  buf_offset :: nat
  nextRow :: nat
  parseNext :: nat
  parameters :: "(jsstr, jsstr) js_map"
  q_start :: nat
  q_end :: nat
  q_rows :: nat
  q_running :: bool
  mtype :: nat
  mlen :: nat
  row_fields :: "pg_field list"
  errors :: "(nat \<times> jsstr) list"
  salt :: "bytes option"
  status :: "nat option"
  pid :: nat
  key :: nat
  params :: "nat list"

definition createParser :: "bytes \<Rightarrow> pg_parser" where
  "createParser b = \<lparr>buf = b, buf_offset = 0, nextRow = 0, parseNext = 0, parameters = [], q_start = 0,
     q_end = 0, q_rows = 0, q_running = False, mtype = 0, mlen = 0, row_fields = [], errors = [], salt = None,
     status = None, pid = 0, key = 0, params = []\<rparr>"

definition free :: "pg_parser \<Rightarrow> pg_parser" where
  "free p = p\<lparr>row_fields := [], errors := [], parameters := [], nextRow := 0, parseNext := 0, q_start := 0,
     q_end := 0, q_rows := 0, q_running := False\<rparr>"

type_synonym pg_result = "(nat \<times> pg_parser \<times> pg_parser list) js_result option"

text \<open>The offset of the next zero byte; past the end of the buffer the search never stops.\<close>

partial_function (option) cstring_end :: "bytes \<Rightarrow> nat \<Rightarrow> nat option" where
  "cstring_end b off = (if char_at b off = Some 0 then Some off else cstring_end b (off + 1))"

definition readCString :: "(bytes \<Rightarrow> jsstr) \<Rightarrow> bytes \<Rightarrow> nat \<Rightarrow> jsstr js_result option" where
  "readCString dec b off =
     Option.bind (cstring_end b off) (\<lambda>e. Some (readString dec (e - off) off b))"

text \<open>The handlers: the offset after the message, the parser and the calls of \<open>onMessage\<close>.\<close>

definition onDataRow :: "nat \<Rightarrow> nat \<Rightarrow> pg_parser \<Rightarrow> pg_result" where
  "onDataRow len off p =
     (let p1 = (if nextRow p = 0 then p\<lparr>q_start := off - 5\<rparr> else p)
      in Some (Inr (off + len - 4, p1\<lparr>nextRow := nextRow p1 + 1\<rparr>, [])))"

definition onCommandComplete :: "nat \<Rightarrow> nat \<Rightarrow> pg_parser \<Rightarrow> pg_result" where
  "onCommandComplete len off p =
     (let p1 = p\<lparr>q_end := off - 5, q_rows := nextRow p, q_running := False, nextRow := 0\<rparr>
      in Some (Inr (off + len - 4, p1, [p1])))"

definition onCloseComplete :: "nat \<Rightarrow> nat \<Rightarrow> pg_parser \<Rightarrow> pg_result" where
  "onCloseComplete len off p = Some (Inr (off + len - 4, p, [p]))"

definition onParseComplete :: "nat \<Rightarrow> nat \<Rightarrow> pg_parser \<Rightarrow> pg_result" where
  "onParseComplete len off p = Some (Inr (off + len - 4, p, [p]))"

definition onBindComplete :: "nat \<Rightarrow> nat \<Rightarrow> pg_parser \<Rightarrow> pg_result" where
  "onBindComplete len off p =
     Some (Inr (off + len - 4, p\<lparr>q_rows := 0, q_start := off + len - 4, q_running := True\<rparr>, [p]))"

definition onReadyForQuery :: "nat \<Rightarrow> nat \<Rightarrow> pg_parser \<Rightarrow> pg_result" where
  "onReadyForQuery len off p =
     (let p1 = p\<lparr>status := char_at (buf p) off\<rparr> in Some (Inr (off + len - 4, p1, [p1])))"

definition onDefault :: "nat \<Rightarrow> nat \<Rightarrow> pg_parser \<Rightarrow> pg_result" where
  "onDefault len off p = Some (Inr (off + len - 4, p, [p]))"

definition onBackendKeyData :: "nat \<Rightarrow> nat \<Rightarrow> pg_parser \<Rightarrow> pg_result" where
  "onBackendKeyData len off p =
     run_bind (Some (getUint 4 (buf p) off)) (\<lambda>a.
     run_bind (Some (getUint 4 (buf p) (off + 4))) (\<lambda>k.
       let p1 = p\<lparr>pid := a, key := k\<rparr> in Some (Inr (off + 8, p1, [p1]))))"

definition AuthenticationMD5Password :: int where
  "AuthenticationMD5Password = 5"

definition onAuthenticationOk :: "nat \<Rightarrow> nat \<Rightarrow> pg_parser \<Rightarrow> pg_result" where
  "onAuthenticationOk len off p =
     run_bind (Some (getInt 4 (buf p) off)) (\<lambda>meth.
       if meth = AuthenticationMD5Password
       then let p1 = p\<lparr>salt := Some (slice (buf p) (off + 4) (off + 8))\<rparr> in Some (Inr (off + 8, p1, [p1]))
       else Some (Inr (off + 4, p, [])))"

partial_function (option) error_loop ::
  "(bytes \<Rightarrow> jsstr) \<Rightarrow> bytes \<Rightarrow> nat \<Rightarrow> (nat \<times> jsstr) list \<Rightarrow> (nat \<times> (nat \<times> jsstr) list) js_result option" where
  "error_loop dec b off errs =
     (if char_at b off = Some 0 then Some (Inr (off + 1, errs))
      else run_bind (readCString dec b (off + 1)) (\<lambda>val.
        error_loop dec b (off + 1 + length val + 1)
          (errs @ [(case char_at b off of None \<Rightarrow> 0 | Some t \<Rightarrow> t, val)])))"

definition onErrorResponse :: "(bytes \<Rightarrow> jsstr) \<Rightarrow> nat \<Rightarrow> nat \<Rightarrow> pg_parser \<Rightarrow> pg_result" where
  "onErrorResponse dec len off p =
     run_bind (error_loop dec (buf p) off []) (\<lambda>(off1, errs).
       let p1 = p\<lparr>errors := errs\<rparr> in Some (Inr (off1, p1, [p1])))"

definition onParameterStatus :: "(bytes \<Rightarrow> jsstr) \<Rightarrow> nat \<Rightarrow> nat \<Rightarrow> pg_parser \<Rightarrow> pg_result" where
  "onParameterStatus dec len off p =
     run_bind (readCString dec (buf p) off) (\<lambda>k.
     run_bind (readCString dec (buf p) (off + length k + 1)) (\<lambda>v.
       Some (Inr (off + length k + 1 + length v + 1, p\<lparr>parameters := jsmap_set k v (parameters p)\<rparr>, []))))"

fun read_params :: "bytes \<Rightarrow> nat \<Rightarrow> nat \<Rightarrow> nat list \<Rightarrow> (nat \<times> nat list) js_result" where
  "read_params b 0 off acc = Inr (off, acc)"
| "read_params b (Suc n) off acc = js_bind (getUint 4 b off) (\<lambda>v. read_params b n (off + 4) (acc @ [v]))"

definition onParameterDescription :: "nat \<Rightarrow> nat \<Rightarrow> pg_parser \<Rightarrow> pg_result" where
  "onParameterDescription len off p =
     run_bind (Some (getInt 2 (buf p) off)) (\<lambda>n.
     run_bind (Some (read_params (buf p) (nat n) (off + 2) [])) (\<lambda>(off1, ps).
       Some (Inr (off1, p\<lparr>params := ps\<rparr>, []))))"

fun read_fields ::
  "(bytes \<Rightarrow> jsstr) \<Rightarrow> bytes \<Rightarrow> nat \<Rightarrow> nat \<Rightarrow> pg_field list \<Rightarrow> (nat \<times> pg_field list) js_result option" where
  "read_fields dec b 0 off acc = Some (Inr (off, acc))"
| "read_fields dec b (Suc n) off acc =
     run_bind (readCString dec b off) (\<lambda>name.
       let off = off + length name + 1 in
       run_bind (Some (getInt 4 b off)) (\<lambda>t.
       run_bind (Some (getInt 2 b (off + 4))) (\<lambda>a.
       run_bind (Some (getInt 4 b (off + 6))) (\<lambda>i.
       run_bind (Some (getInt 2 b (off + 10))) (\<lambda>s.
       run_bind (Some (getInt 4 b (off + 12))) (\<lambda>m.
       run_bind (Some (getInt 2 b (off + 16))) (\<lambda>f.
         read_fields dec b n (off + 18)
           (acc @ [\<lparr>f_name = name, tid = t, attrib = a, oid = i, f_size = s, mod_ = m, format = f\<rparr>]))))))))"

definition onRowDescripton :: "(bytes \<Rightarrow> jsstr) \<Rightarrow> nat \<Rightarrow> nat \<Rightarrow> pg_parser \<Rightarrow> pg_result" where
  "onRowDescripton dec len off p =
     run_bind (Some (getInt 2 (buf p) off)) (\<lambda>n.
     run_bind (read_fields dec (buf p) (nat n) (off + 2) []) (\<lambda>(off1, fs).
       let p1 = p\<lparr>row_fields := fs\<rparr> in Some (Inr (off1, p1, [p1]))))"

text \<open>The table \<open>V\<close> of handlers by message type.\<close>

definition dispatch :: "(bytes \<Rightarrow> jsstr) \<Rightarrow> nat \<Rightarrow> nat \<Rightarrow> nat \<Rightarrow> pg_parser \<Rightarrow> pg_result" where
  "dispatch dec type len off p =
     (if type = 82 then onAuthenticationOk len off p
      else if type = 69 then onErrorResponse dec len off p
      else if type = 84 then onRowDescripton dec len off p
      else if type = 67 then onCommandComplete len off p
      else if type = 51 then onCloseComplete len off p
      else if type = 49 then onParseComplete len off p
      else if type = 50 then onBindComplete len off p
      else if type = 90 then onReadyForQuery len off p
      else if type = 75 then onBackendKeyData len off p
      else if type = 83 then onParameterStatus dec len off p
      else if type = 116 then onParameterDescription len off p
      else if type = 68 then onDataRow len off p
      else onDefault len off p)"

text \<open>The end of a call with an incomplete message: what is left moves to the front when the buffer
  is nearly full, together with the rows of a running query.  If those rows are said to start after
  \<open>off\<close>, the code computes a negative length or position, which the native copy or the next call
  fails on; the model stops here.\<close>

definition suspend :: "nat \<Rightarrow> nat \<Rightarrow> pg_parser \<Rightarrow> pg_parser js_result" where
  "suspend off remaining p =
     (if length (buf p) < off + 1024 then
        (if q_running p \<and> off < q_start p then Inl Overrun
         else if q_running p then
           (let queryLen = off - q_start p + remaining in
            js_bind (copyFrom (buf p) 0 queryLen (q_start p) (buf p)) (\<lambda>b.
              Inr (p\<lparr>buf := b, buf_offset := queryLen, parseNext := off - q_start p, q_start := 0\<rparr>)))
         else js_bind (copyFrom (buf p) 0 remaining off (buf p)) (\<lambda>b.
              Inr (p\<lparr>buf := b, buf_offset := remaining, parseNext := 0\<rparr>)))
      else Inr (p\<lparr>buf_offset := off + remaining, parseNext := off\<rparr>))"

partial_function (option) parse_loop ::
  "(bytes \<Rightarrow> jsstr) \<Rightarrow> nat \<Rightarrow> nat \<Rightarrow> pg_parser \<Rightarrow> pg_parser list \<Rightarrow> (pg_parser \<times> pg_parser list) js_result option" where
  "parse_loop dec e off p evs =
     (if off < e then
        (let remaining = e - off in
         if remaining < 5
         then run_bind (Some (suspend off remaining p)) (\<lambda>p1. Some (Inr (p1, evs)))
         else run_bind (Some (getUint 1 (buf p) off)) (\<lambda>type.
              run_bind (Some (getUint 4 (buf p) (off + 1))) (\<lambda>len.
                let p1 = p\<lparr>mtype := type, mlen := len\<rparr> in
                if remaining < len + 1
                then run_bind (Some (suspend off remaining p1)) (\<lambda>p2. Some (Inr (p2, evs)))
                else run_bind (dispatch dec type len (off + 5) p1) (\<lambda>(off1, p2, es).
                  parse_loop dec e off1 p2 (evs @ es)))))
      else Some (Inr (p\<lparr>buf_offset := 0, parseNext := 0\<rparr>, evs)))"

definition parse :: "(bytes \<Rightarrow> jsstr) \<Rightarrow> nat \<Rightarrow> pg_parser \<Rightarrow> (pg_parser \<times> pg_parser list) js_result option" where
  "parse dec bytesRead p = parse_loop dec (buf_offset p + bytesRead) (parseNext p) p []"

definition getPGError :: "(nat \<times> jsstr) list \<Rightarrow> jsstr js_result" where
  "getPGError errs = (case filter (\<lambda>(t, v). t = 77) errs of [] \<Rightarrow> Inl TypeError | (t, v) # _ \<Rightarrow> Inr v)"

section \<open>Messages on the wire\<close>

type_synonym pg_message = "nat \<times> bytes"

definition pg_wire :: "pg_message \<Rightarrow> bytes" where
  "pg_wire m = fst m # be_bytes 4 (length (snd m) + 4) @ snd m"

definition incomplete :: "bytes \<Rightarrow> bool" where
  "incomplete r \<longleftrightarrow> length r < 5 \<or> length r < be_val (slice r 1 5) + 1"

text \<open>The messages whose handler goes by the length in the header.\<close>

definition simple_type :: "nat \<Rightarrow> bool" where
  "simple_type t \<longleftrightarrow> t \<notin> {82, 69, 84, 75, 83, 116}"

definition pg_message_ok :: "pg_message \<Rightarrow> bool" where
  "pg_message_ok m \<longleftrightarrow> simple_type (fst m) \<and> length (snd m) + 4 < 256 ^ 4"

definition pending :: "pg_parser \<Rightarrow> bytes" where
  "pending p = slice (buf p) (parseNext p) (buf_offset p)"

text \<open>One read from the socket: the bytes arrive at the buffer's offset.\<close>

definition receive :: "(bytes \<Rightarrow> jsstr) \<Rightarrow> bytes \<Rightarrow> pg_parser \<Rightarrow> (pg_parser \<times> pg_parser list) js_result option" where
  "receive dec c p = parse dec (length c) (p\<lparr>buf := write_at (buf p) (buf_offset p) c\<rparr>)"

lemma dispatch_simple:
  assumes "simple_type t"
  shows "\<exists>p' es. dispatch dec t len off p = Some (Inr (off + len - 4, p', es)) \<and> buf p' = buf p \<and>
    map mtype es = (if t = 68 then [] else [mtype p]) \<and> (q_running p' \<longrightarrow> q_running p \<or> t = 50)"
  using assms
  by (auto simp: dispatch_def simple_type_def onCommandComplete_def onCloseComplete_def onParseComplete_def
      onBindComplete_def onReadyForQuery_def onDataRow_def onDefault_def Let_def)

lemma suspend_pending:
  assumes "buf p = pre @ rest @ post" and "rest \<noteq> []"
    and "length pre + 1024 \<le> length (buf p) \<or> \<not> q_running p"
  shows "\<exists>p'. suspend (length pre) (length rest) p = Inr p' \<and> pending p' = rest \<and>
    length (buf p') = length (buf p) \<and> parseNext p' \<le> buf_offset p' \<and> buf_offset p' \<le> length (buf p')"
proof (cases "length (buf p) < length pre + 1024")
  case True
  then have run: "\<not> q_running p" using assms(3) by linarith
  have "slice (buf p) (length pre) (length pre + length rest) = rest"
    using assms(1) by (simp add: slice_append)
  then have c: "copyFrom (buf p) 0 (length rest) (length pre) (buf p) = Inr (write_at (buf p) 0 rest)"
    using assms(1,2) by (simp add: copyFrom_def)
  have "length (write_at (buf p) 0 rest) = length (buf p)"
    using assms(1) by (intro length_write_at) simp
  moreover have "slice (write_at (buf p) 0 rest) 0 (length rest) = rest"
    by (simp add: write_at_def slice_def)
  ultimately show ?thesis using True run c assms(1)
    by (simp add: suspend_def pending_def)
next
  case False
  then show ?thesis using assms(1) by (auto simp: suspend_def pending_def slice_append)
qed

lemma parse_loop_messages:
  assumes "buf p = pre @ concat (map pg_wire ms) @ rest @ post" and "\<forall>m \<in> set ms. pg_message_ok m"
    and "incomplete rest" and "e = length pre + length (concat (map pg_wire ms) @ rest)"
    and "e + 1024 \<le> length (buf p) \<or> (\<not> q_running p \<and> 50 \<notin> fst ` set ms)"
  shows "\<exists>p' es. parse_loop dec e (length pre) p evs = Some (Inr (p', evs @ es)) \<and>
    map mtype es = filter (\<lambda>t. t \<noteq> 68) (map fst ms) \<and> pending p' = rest \<and>
    length (buf p') = length (buf p) \<and> parseNext p' \<le> buf_offset p' \<and> buf_offset p' \<le> length (buf p')"
  using assms
proof (induction ms arbitrary: pre p evs)
  case Nil
  show ?case
  proof (cases "rest = []")
    case True
    then show ?thesis using Nil by (subst parse_loop.simps) (simp add: pending_def)
  next
    case False
    have b: "buf p = pre @ rest @ post" and e: "e = length pre + length rest" using Nil.prems by auto
    have cond: "length pre + 1024 \<le> length (buf p) \<or> \<not> q_running p" using Nil.prems(4,5) by auto
    show ?thesis
    proof (cases "length rest < 5")
      case True
      obtain p' where "suspend (length pre) (length rest) p = Inr p'" "pending p' = rest"
        "length (buf p') = length (buf p)" "parseNext p' \<le> buf_offset p'" "buf_offset p' \<le> length (buf p')"
        using suspend_pending [OF b False cond] by blast
      then show ?thesis using True False e
        by (subst parse_loop.simps) simp
    next
      case long: False
      let ?len = "be_val (slice rest 1 5)"
      let ?p = "p\<lparr>mtype := rest ! 0, mlen := ?len\<rparr>"
      have t: "getUint 1 (buf p) (length pre) = Inr (rest ! 0)"
        using getUint8_nth [of "buf p" "length pre"] b False by (simp add: nth_append)
      have "slice (buf p) (length pre + 1) (length pre + 1 + 4) = slice rest 1 5"
        using b long by (simp add: slice_def)
      then have l: "getUint 4 (buf p) (length pre + 1) = Inr ?len"
        using b long by (simp add: getUint_def)
      have "length rest < ?len + 1" using Nil.prems(3) long by (simp add: incomplete_def)
      moreover obtain p' where "suspend (length pre) (length rest) ?p = Inr p'" "pending p' = rest"
        "length (buf p') = length (buf p)" "parseNext p' \<le> buf_offset p'" "buf_offset p' \<le> length (buf p')"
        using suspend_pending [of ?p pre rest post] b False cond by auto
      ultimately show ?thesis using long False e t l
        by (subst parse_loop.simps) (simp add: Let_def)
    qed
  qed
next
  case (Cons m ms)
  obtain t pl where m: "m = (t, pl)" by (cases m)
  let ?len = "length pl + 4" and ?r = "concat (map pg_wire ms) @ rest @ post"
  let ?p = "p\<lparr>mtype := t, mlen := ?len\<rparr>"
  have ok: "simple_type t" "?len < 256 ^ 4" using Cons.prems(2) m by (auto simp: pg_message_ok_def)
  have b: "buf p = pre @ t # be_bytes 4 ?len @ pl @ ?r" using Cons.prems(1) m by (simp add: pg_wire_def [of "(t, pl)"])
  have ty: "getUint 1 (buf p) (length pre) = Inr t"
    using getUint8_nth [of "buf p" "length pre"] b by (simp add: nth_append)
  have l: "getUint 4 (buf p) (length pre + 1) = Inr ?len"
    using getUint_append [of "length pre + 1" "pre @ [t]" ?len 4 "pl @ ?r"] ok(2) b by simp
  obtain p1 es where d: "dispatch dec t ?len (length pre + 5) ?p = Some (Inr (length pre + 5 + ?len - 4, p1, es))"
    "buf p1 = buf p" "map mtype es = (if t = 68 then [] else [t])" "q_running p1 \<longrightarrow> q_running p \<or> t = 50"
    using dispatch_simple [OF ok(1), of dec ?len "length pre + 5" ?p] by auto
  let ?pre = "pre @ pg_wire m"
  have len: "length ?pre = length pre + 5 + ?len - 4" by (simp add: m pg_wire_def)
  have wl: "length (pg_wire m) = length pl + 5" by (simp add: m pg_wire_def)
  have "\<exists>p' es2. parse_loop dec e (length ?pre) p1 (evs @ es) = Some (Inr (p', (evs @ es) @ es2)) \<and>
    map mtype es2 = filter (\<lambda>t. t \<noteq> 68) (map fst ms) \<and> pending p' = rest \<and>
    length (buf p') = length (buf p1) \<and> parseNext p' \<le> buf_offset p' \<and> buf_offset p' \<le> length (buf p')"
  proof (rule Cons.IH)
    show "buf p1 = ?pre @ concat (map pg_wire ms) @ rest @ post" using d(2) Cons.prems(1) by simp
    show "e + 1024 \<le> length (buf p1) \<or> (\<not> q_running p1 \<and> 50 \<notin> fst ` set ms)"
      using Cons.prems(5) d(2,4) m by auto
  qed (use Cons.prems in auto)
  then obtain p' es2 where r: "parse_loop dec e (length pre + 5 + ?len - 4) p1 (evs @ es) = Some (Inr (p', evs @ es @ es2))"
    "map mtype es2 = filter (\<lambda>t. t \<noteq> 68) (map fst ms)" "pending p' = rest"
    "length (buf p') = length (buf p)" "parseNext p' \<le> buf_offset p'" "buf_offset p' \<le> length (buf p')"
    unfolding len d(2) by auto
  have "parse_loop dec e (length pre) p evs = parse_loop dec e (length pre + 5 + ?len - 4) p1 (evs @ es)"
    using Cons.prems(4) wl ty l d(1)
    by (subst parse_loop.simps) (simp add: Let_def)
  then show ?case using r d(3) m by (intro exI [of _ p'] exI [of _ "es @ es2"]) auto
qed



section \<open>Errors from the server\<close>

lemma cstring_end_found:
  assumes "\<forall>c \<in> set v. c \<noteq> 0" and "b = pre @ v @ 0 # post"
  shows "cstring_end b (length pre) = Some (length pre + length v)"
  using assms
proof (induction v arbitrary: pre)
  case Nil
  then show ?case by (subst cstring_end.simps) (simp add: char_at_def nth_append)
next
  case (Cons c v)
  have "cstring_end b (length (pre @ [c])) = Some (length (pre @ [c]) + length v)"
    using Cons.prems by (intro Cons.IH) auto
  moreover have "char_at b (length pre) = Some c" using Cons.prems(2) by (simp add: char_at_def nth_append)
  ultimately show ?case using Cons.prems(1) by (subst cstring_end.simps) simp
qed

definition c_text :: "jsstr \<Rightarrow> bool" where
  "c_text v \<longleftrightarrow> (\<forall>c \<in> set v. 0 < c \<and> c < 128)"

lemma readCString_found:
  assumes "c_text v" and "ascii_transparent dec" and "b = pre @ v @ 0 # post"
  shows "readCString dec b (length pre) = Some (Inr v)"
proof -
  have "cstring_end b (length pre) = Some (length pre + length v)"
    using assms by (intro cstring_end_found) (auto simp: c_text_def)
  moreover have "readString dec (length v) (length pre) b = Inr v"
    using assms ascii_transparentD [OF assms(2), of v] by (simp add: readString_append c_text_def)
  ultimately show ?thesis by (simp add: readCString_def)
qed

definition error_fields :: "(nat \<times> jsstr) list \<Rightarrow> bytes" where
  "error_fields fs = concat (map (\<lambda>(t, v). t # v @ [0]) fs) @ [0]"

lemma error_loop_fields:
  assumes "\<forall>(t, v) \<in> set fs. t \<noteq> 0 \<and> c_text v" and "ascii_transparent dec"
    and "b = pre @ error_fields fs @ post"
  shows "error_loop dec b (length pre) errs = Some (Inr (length pre + length (error_fields fs), errs @ fs))"
  using assms
proof (induction fs arbitrary: pre errs)
  case Nil
  then show ?case by (subst error_loop.simps) (simp add: error_fields_def char_at_def nth_append)
next
  case (Cons f fs)
  obtain t v where f: "f = (t, v)" by (cases f)
  have b: "b = (pre @ [t]) @ v @ 0 # error_fields fs @ post"
    using Cons.prems(3) f by (simp add: error_fields_def)
  have "readCString dec b (length (pre @ [t])) = Some (Inr v)"
    using Cons.prems f by (intro readCString_found [OF _ _ b]) auto
  moreover have "char_at b (length pre) = Some t" using b by (simp add: char_at_def nth_append)
  moreover have "error_loop dec b (length (pre @ t # v @ [0])) (errs @ [f]) =
      Some (Inr (length (pre @ t # v @ [0]) + length (error_fields fs), (errs @ [f]) @ fs))"
    using Cons.prems b by (intro Cons.IH) auto
  ultimately show ?case using Cons.prems(1) f
    by (subst error_loop.simps) (simp add: error_fields_def)
qed



section \<open>Messages to the server on the wire\<close>

definition ascii :: "jsstr \<Rightarrow> bool" where
  "ascii s \<longleftrightarrow> (\<forall>c \<in> set s. c < 128)"

definition cstrings :: "jsstr list \<Rightarrow> bytes" where
  "cstrings ss = concat (map (\<lambda>s. s @ [0]) ss)"

definition startup_strings :: "jsstr \<Rightarrow> jsstr \<Rightarrow> (jsstr \<times> jsstr) list \<Rightarrow> jsstr list" where
  "startup_strings user database ps =
     [js ''user'', user, js ''database'', database] @ concat (map (\<lambda>(n, v). [n, v]) ps)"

text \<open>The strings of the message, written one after the other.\<close>

fun write_all :: "(jsstr \<Rightarrow> bytes) \<Rightarrow> jsstr list \<Rightarrow> nat \<times> bytes \<Rightarrow> (nat \<times> bytes) js_result" where
  "write_all utf8 [] st = Inr st"
| "write_all utf8 (s # ss) st = js_bind (write_cstring utf8 s st) (write_all utf8 ss)"

lemma write_all_Cons: "write_all utf8 (s # ss) = (\<lambda>st. js_bind (write_cstring utf8 s st) (write_all utf8 ss))"
  by (rule ext) simp

lemma js_bind_assoc: "js_bind (js_bind m f) g = js_bind m (\<lambda>x. js_bind (f x) g)"
  by (cases m) auto

lemma js_bind_return: "js_bind m Inr = m"
  by (cases m) auto

lemma write_parameters_all:
  "write_parameters utf8 ps st = write_all utf8 (concat (map (\<lambda>(n, v). [n, v]) ps)) st"
proof (induction ps arbitrary: st)
  case (Cons nv ps)
  then have "write_parameters utf8 ps = write_all utf8 (concat (map (\<lambda>(n, v). [n, v]) ps))" by blast
  then show ?case by (cases nv) (simp add: write_all_Cons)
qed simp

lemma write_all_append:
  assumes "\<forall>s \<in> set ss. ascii s" and "ascii_transparent utf8" and "length (cstrings ss) \<le> length z"
  shows "write_all utf8 ss (length pre, pre @ z) =
    Inr (length (pre @ cstrings ss), (pre @ cstrings ss) @ drop (length (cstrings ss)) z)"
  using assms
proof (induction ss arbitrary: pre z)
  case (Cons s ss)
  have u: "utf8 s = s" using Cons.prems by (simp add: ascii_def ascii_transparentD)
  have l: "length s < length z" using Cons.prems by (simp add: cstrings_def)
  have w: "writeString utf8 s (length pre) (pre @ z) = Inr ((pre @ s) @ drop (length s) z)"
    using u l by (simp add: writeString_append)
  have "setUint 1 (length pre + length s) 0 ((pre @ s) @ drop (length s) z) =
      Inr ((pre @ s @ [0]) @ drop (length s + 1) z)"
    using setUint_append [of "length pre + length s" "pre @ s" 1 "drop (length s) z" 0] l by simp
  then have "write_cstring utf8 s (length pre, pre @ z) =
      Inr (length (pre @ s @ [0]), (pre @ s @ [0]) @ drop (length s + 1) z)"
    using w u by (simp add: write_cstring_def Let_def)
  then show ?case
    using Cons.prems Cons.IH [of "drop (length s + 1) z" "pre @ s @ [0]"] by (simp add: cstrings_def add_ac)
qed (simp add: cstrings_def)

lemma startupMessage_all:
  "startupMessage utf8 user database ps =
    js_bind (setUint 4 0 0 (replicate (startup_length user database ps) 0)) (\<lambda>b.
    js_bind (setUint 4 4 196608 b) (\<lambda>b.
    js_bind (write_all utf8 (startup_strings user database ps) (8, b)) (\<lambda>(off, b).
    js_bind (setUint 1 off 0 b) (\<lambda>b. setUint 4 0 (off + 1) b))))"
  by (simp add: startupMessage_def startup_strings_def write_parameters_all js_bind_assoc Let_def
      cong: js_bind_cong)

lemma length_startup_strings:
  "length (cstrings (startup_strings user database ps)) + 9 = startup_length user database ps"
  by (induction ps) (auto simp: startup_strings_def cstrings_def startup_length_def)

text \<open>The start-up message is written without overrunning its buffer: its length word is its length, and
  after the protocol version 3.0 come user, database and the parameters as zero-terminated
  strings, and a last zero.\<close>

theorem startup_message:
  assumes "\<forall>s \<in> set (startup_strings user database ps). ascii s" and "ascii_transparent utf8"
  shows "startupMessage utf8 user database ps =
    Inr (be_bytes 4 (length (cstrings (startup_strings user database ps)) + 9) @ be_bytes 4 0x30000 @
      cstrings (startup_strings user database ps) @ [0])"
proof -
  let ?n = "startup_length user database ps"
  let ?s = "cstrings (startup_strings user database ps)"
  let ?h = "replicate 4 0 @ be_bytes 4 196608" and ?z = "replicate (length ?s + 1) (0 :: nat)"
  have n: "?n = length ?s + 9" by (simp add: length_startup_strings)
  have split: "replicate ?n (0 :: nat) = replicate 4 0 @ replicate 4 0 @ ?z"
  proof -
    have "?n = 4 + (4 + (length ?s + 1))" using n by simp
    then show ?thesis by (simp only: replicate_add)
  qed
  have z4: "be_bytes 4 0 = replicate 4 0" by code_simp
  have s0: "setUint 4 0 0 (replicate ?n 0) = Inr (replicate 4 0 @ replicate 4 0 @ ?z)"
    unfolding split using setUint_append [of 0 "[]" 4 "replicate 4 0 @ replicate 4 0 @ ?z" 0] z4 by simp
  have s4: "setUint 4 4 196608 (replicate 4 0 @ replicate 4 0 @ ?z) = Inr (?h @ ?z)"
    using setUint_append [of 4 "replicate 4 0" 4 "replicate 4 0 @ ?z" 196608] by simp
  have h8: "length ?h = 8" by simp
  have w: "write_all utf8 (startup_strings user database ps) (8, ?h @ ?z) =
      Inr (length (?h @ ?s), (?h @ ?s) @ drop (length ?s) ?z)"
    using write_all_append [OF assms, of ?z ?h] unfolding h8 by simp
  have last: "setUint 1 (length (?h @ ?s)) 0 ((?h @ ?s) @ drop (length ?s) ?z) = Inr ((?h @ ?s) @ [0])"
    using setUint_append [of "length (?h @ ?s)" "?h @ ?s" 1 "drop (length ?s) ?z" 0] by simp
  have len: "length (?h @ ?s) + 1 = ?n" using n by simp
  have "setUint 4 0 ?n ((?h @ ?s) @ [0]) = Inr (be_bytes 4 ?n @ be_bytes 4 196608 @ ?s @ [0])"
    using setUint_append [of 0 "[]" 4 "(?h @ ?s) @ [0]" ?n] by simp
  then have "startupMessage utf8 user database ps = Inr (be_bytes 4 ?n @ be_bytes 4 196608 @ ?s @ [0])"
    by (simp only: startupMessage_all s0 s4 js_bind_simps w prod.case last len)
  then show ?thesis by (simp add: n)
qed

theorem startup_message_witness:
  "startupMessage (\<lambda>s. s) [97] [98] [([99], [100])] =
    Inr (be_bytes 4 31 @ be_bytes 4 0x30000 @ [117, 115, 101, 114, 0, 97, 0,
      100, 97, 116, 97, 98, 97, 115, 101, 0, 98, 0, 99, 0, 100, 0] @ [0])"
  using startup_message [of "[97]" "[98]" "[([99], [100])]" "\<lambda>s. s"]
  by (simp add: ascii_def ascii_transparent_id startup_strings_def cstrings_def)

section \<open>Where rows are lost\<close>

text \<open>A read that ends with a complete data row while the query runs puts the next read at the start of
  the buffer, over the rows that the query still points to.\<close>

lemma rows_are_overwritten:
  assumes "q_running p" and "nextRow p = 0" and "parseNext p = 7" and "buf_offset p = 7"
    and "buf p = pre @ pg_wire (68, pl) @ post" and "length pre = 7" and "length pl + 4 < 256 ^ 4"
  shows "\<exists>p'. parse dec (length (pg_wire (68, pl))) p = Some (Inr (p', [])) \<and>
    q_running p' \<and> q_start p' = 7 \<and> buf_offset p' = 0"
proof -
  have b: "buf p = (pre @ [68]) @ be_bytes 4 (length pl + 4) @ pl @ post" using assms(5) by (simp add: pg_wire_def)
  have t: "getUint (Suc 0) (buf p) 7 = Inr 68" using getUint8_nth [of "buf p" 7] b assms(6) by (simp add: nth_append)
  have l: "getUint 4 (buf p) 8 = Inr (length pl + 4)"
    unfolding b using assms(6,7) by (intro getUint_append) auto
  have end_: "parse_loop dec e off q evs = Some (Inr (q\<lparr>buf_offset := 0, parseNext := 0\<rparr>, evs))" if "off = e" for q off e evs
    using that by (subst parse_loop.simps) simp
  show ?thesis using assms(1-4)
    by (simp add: parse_def pg_wire_def) (subst parse_loop.simps, simp add: t l Let_def dispatch_def onDataRow_def end_)
qed

end
