(* ===== verification/Events.thy ===== *)
theory Events
  imports Prelude "HOL-Library.Sublist"
begin

text \<open>
  Events and event targets of \<open>packages/zero/lib/whatwg/events.js\<close>.  A listener is an object with an
  identity (\<open>lid\<close>), so that a listener removed and added again differs from itself.  What a callback
  does to the event and the target it is called for is a list of calls of their operations; that
  list is a parameter, by callback.  A callback that throws (by itself, or by dispatching the event
  again) stops there, and the exception is swallowed.  The path of an event is always empty, so the
  loops over it do nothing.
\<close>

section \<open>Events\<close>

record event =
  etype :: jsstr
  bubbles :: bool
  cancelable :: bool
  target :: "nat option"
  currentTarget :: "nat option"
  eventPhase :: nat
  initializedFlag :: bool
  stopPropagationFlag :: bool
  stopImmediatePropagationFlag :: bool
  canceledFlag :: bool
  dispatchFlag :: bool
  isTrusted :: bool
  timeStamp :: nat
  inPassiveListener :: bool

definition NONE :: nat where "NONE = 0"
definition CAPTURING_PHASE :: nat where "CAPTURING_PHASE = 1"
definition AT_TARGET :: nat where "AT_TARGET = 2"
definition BUBBLING_PHASE :: nat where "BUBBLING_PHASE = 3"

definition new_Event :: "nat \<Rightarrow> jsstr \<Rightarrow> bool \<Rightarrow> bool \<Rightarrow> event" where
  "new_Event now type b c = \<lparr>etype = type, bubbles = b, cancelable = c, target = None, currentTarget = None,
     eventPhase = NONE, initializedFlag = True, stopPropagationFlag = False,
     stopImmediatePropagationFlag = False, canceledFlag = False, dispatchFlag = False, isTrusted = False,
     timeStamp = now, inPassiveListener = False\<rparr>"

record 'd custom_event = event +
  detail :: 'd

definition new_CustomEvent :: "nat \<Rightarrow> jsstr \<Rightarrow> bool \<Rightarrow> bool \<Rightarrow> 'd \<Rightarrow> 'd custom_event" where
  "new_CustomEvent now type b c d = event.extend (new_Event now type b c) \<lparr>detail = d\<rparr>"

definition stopPropagation :: "event \<Rightarrow> event" where
  "stopPropagation e = e\<lparr>stopPropagationFlag := True\<rparr>"

definition stopImmediatePropagation :: "event \<Rightarrow> event" where
  "stopImmediatePropagation e = e\<lparr>stopPropagationFlag := True, stopImmediatePropagationFlag := True\<rparr>"

definition preventDefault :: "event \<Rightarrow> event" where
  "preventDefault e = (if cancelable e \<and> \<not> inPassiveListener e then e\<lparr>canceledFlag := True\<rparr> else e)"

definition defaultPrevented :: "event \<Rightarrow> bool" where
  "defaultPrevented e = canceledFlag e"

definition markTrusted :: "event \<Rightarrow> event" where
  "markTrusted e = e\<lparr>isTrusted := True\<rparr>"

section \<open>Listeners\<close>

datatype callback = Function nat | Handler nat bool

text \<open>\<open>Handler n b\<close> is an object; \<open>b\<close> tells whether its \<open>handleEvent\<close> is a function.\<close>

datatype callback_arg = NoCallback | BadCallback | Callback callback

text \<open>The options argument: a boolean, null or nothing, an object, or another value with its truth and
  the truth of its property \<open>once\<close>.\<close>

datatype options_arg = OptionsUndefined | OptionsNull | OptionsBool bool | OptionsObject bool bool
  | OptionsOther bool bool

record options =
  capture :: bool
  once :: bool
  isPassive :: bool

text \<open>With the keys \<open>capture\<close> and, when \<open>with_once\<close>, \<open>once\<close>; an absent key reads as false.\<close>

definition normalizeEventHandlerOptions :: "options_arg \<Rightarrow> bool \<Rightarrow> options" where
  "normalizeEventHandlerOptions opts with_once =
     (case opts of
        OptionsUndefined \<Rightarrow> \<lparr>capture = False, once = False, isPassive = False\<rparr>
      | OptionsNull \<Rightarrow> \<lparr>capture = False, once = False, isPassive = False\<rparr>
      | OptionsBool b \<Rightarrow> \<lparr>capture = b, once = False, isPassive = False\<rparr>
      | OptionsOther b n \<Rightarrow> \<lparr>capture = b, once = with_once \<and> n, isPassive = False\<rparr>
      | OptionsObject c n \<Rightarrow> \<lparr>capture = c, once = with_once \<and> n, isPassive = False\<rparr>)"

record listener =
  lid :: nat
  lcallback :: callback
  loptions :: options

record event_target =
  tid :: nat
  listeners :: "(jsstr, listener list) js_map"
  next_lid :: nat

definition new_EventTarget :: "nat \<Rightarrow> event_target" where
  "new_EventTarget i = \<lparr>tid = i, listeners = [], next_lid = 0\<rparr>"

definition listeners_of :: "event_target \<Rightarrow> jsstr \<Rightarrow> listener list" where
  "listeners_of t type = (case jsmap_get (listeners t) type of None \<Rightarrow> [] | Some ls \<Rightarrow> ls)"

definition same_listener :: "callback \<Rightarrow> bool \<Rightarrow> listener \<Rightarrow> bool" where
  "same_listener c cap l \<longleftrightarrow> lcallback l = c \<and> capture (loptions l) = cap"

definition addEventListener ::
  "jsstr \<Rightarrow> callback_arg \<Rightarrow> options_arg \<Rightarrow> event_target \<Rightarrow> event_target js_result" where
  "addEventListener type cb opts t =
     (case cb of
        BadCallback \<Rightarrow> Inl TypeError
      | NoCallback \<Rightarrow> Inr t
      | Callback c \<Rightarrow>
          (let opt = normalizeEventHandlerOptions opts True;
               ls = listeners_of t type;
               t1 = (if jsmap_get (listeners t) type = None
                     then t\<lparr>listeners := jsmap_set type [] (listeners t)\<rparr> else t)
           in if list_ex (same_listener c (capture opt)) ls then Inr t1
              else Inr (t1\<lparr>listeners := jsmap_set type (ls @ [\<lparr>lid = next_lid t, lcallback = c, loptions = opt\<rparr>])
                     (listeners t1), next_lid := next_lid t + 1\<rparr>)))"

fun remove_first :: "('a \<Rightarrow> bool) \<Rightarrow> 'a list \<Rightarrow> 'a list" where
  "remove_first P [] = []"
| "remove_first P (x # xs) = (if P x then xs else x # remove_first P xs)"

definition removeEventListener ::
  "jsstr \<Rightarrow> callback_arg \<Rightarrow> options_arg \<Rightarrow> event_target \<Rightarrow> event_target js_result" where
  "removeEventListener type cb opts t =
     (case cb of
        BadCallback \<Rightarrow> Inl TypeError
      | NoCallback \<Rightarrow> Inr t
      | Callback c \<Rightarrow>
          (let opt = normalizeEventHandlerOptions opts False
           in case jsmap_get (listeners t) type of
                None \<Rightarrow> Inr t
              | Some ls \<Rightarrow> Inr (t\<lparr>listeners :=
                  jsmap_set type (remove_first (same_listener c (capture opt)) ls) (listeners t)\<rparr>)))"

section \<open>Dispatch\<close>

datatype action =
  StopPropagation | StopImmediate | PreventDefault | Throw
| Add jsstr callback_arg options_arg | Remove jsstr callback_arg options_arg

text \<open>An exception ends the callback; a \<open>TypeError\<close> of \<open>addEventListener\<close> is one.\<close>

fun run_actions :: "action list \<Rightarrow> event \<times> event_target \<Rightarrow> event \<times> event_target" where
  "run_actions [] st = st"
| "run_actions (a # as) (e, t) =
     (case a of
        StopPropagation \<Rightarrow> run_actions as (stopPropagation e, t)
      | StopImmediate \<Rightarrow> run_actions as (stopImmediatePropagation e, t)
      | PreventDefault \<Rightarrow> run_actions as (preventDefault e, t)
      | Throw \<Rightarrow> (e, t)
      | Add type c opts \<Rightarrow>
          (case addEventListener type c opts t of Inl x \<Rightarrow> (e, t) | Inr t1 \<Rightarrow> run_actions as (e, t1))
      | Remove type c opts \<Rightarrow>
          (case removeEventListener type c opts t of Inl x \<Rightarrow> (e, t) | Inr t1 \<Rightarrow> run_actions as (e, t1)))"

text \<open>Calling a listener; an object without a \<open>handleEvent\<close> function is passed over.\<close>

definition call_listener ::
  "(nat \<Rightarrow> action list) \<Rightarrow> listener \<Rightarrow> event \<times> event_target \<Rightarrow> event \<times> event_target" where
  "call_listener script l st =
     (case lcallback l of
        Function n \<Rightarrow> run_actions (script n) st
      | Handler n b \<Rightarrow> if b then run_actions (script n) st else st)"

text \<open>The loop over the copy of the listeners; the log names the listeners that were reached.\<close>

fun invoke_loop ::
  "(nat \<Rightarrow> action list) \<Rightarrow> listener list \<Rightarrow> event \<times> event_target \<times> nat list \<Rightarrow> event \<times> event_target \<times> nat list" where
  "invoke_loop script [] st = st"
| "invoke_loop script (l # handlers) (e, t, log) =
     (if stopImmediatePropagationFlag e then (e, t, log)
      else
        let e1 = (if isPassive (loptions l) then e\<lparr>inPassiveListener := True\<rparr> else e);
            live = listeners_of t (etype e)
        in if l \<notin> set live \<or> (eventPhase e = CAPTURING_PHASE \<and> \<not> capture (loptions l)) \<or>
              (eventPhase e = BUBBLING_PHASE \<and> capture (loptions l))
           then invoke_loop script handlers (e1, t, log)
           else
             let t1 = (if once (loptions l)
                       then t\<lparr>listeners := jsmap_set (etype e) (remove1 l live) (listeners t)\<rparr> else t);
                 (e2, t2) = call_listener script l (e1, t1)
             in invoke_loop script handlers (e2\<lparr>inPassiveListener := False\<rparr>, t2, log @ [lid l]))"

definition invokeEventListeners ::
  "(nat \<Rightarrow> action list) \<Rightarrow> event \<times> event_target \<Rightarrow> event \<times> event_target \<times> nat list" where
  "invokeEventListeners script st =
     (case st of (e, t) \<Rightarrow>
       invoke_loop script (listeners_of t (etype e)) (e\<lparr>currentTarget := Some (tid t)\<rparr>, t, []))"

definition dispatchEvent ::
  "(nat \<Rightarrow> action list) \<Rightarrow> event \<Rightarrow> event_target \<Rightarrow> (bool \<times> event \<times> event_target \<times> nat list) js_result" where
  "dispatchEvent script e t =
     (if dispatchFlag e \<or> \<not> initializedFlag e then Inl OtherError
      else if eventPhase e \<noteq> NONE then Inl OtherError
      else
        let e1 = e\<lparr>dispatchFlag := True, target := Some (tid t), eventPhase := AT_TARGET\<rparr>;
            (e2, t2, log) = (if \<not> stopPropagationFlag e1 \<and> jsmap_get (listeners t) (etype e1) \<noteq> None
                             then invokeEventListeners script (e1, t) else (e1, t, []));
            e3 = (if bubbles e2 then e2\<lparr>eventPhase := BUBBLING_PHASE\<rparr> else e2);
            e4 = e3\<lparr>dispatchFlag := False, stopPropagationFlag := False, stopImmediatePropagationFlag := False,
                   eventPhase := NONE, currentTarget := None\<rparr>
        in Inr (\<not> canceledFlag e4, e4, t2, log))"

section \<open>The invariant of a target\<close>

text \<open>Per type no two listeners have the same callback and capture, and no two listeners have the same
  identity.\<close>

definition listener_key :: "listener \<Rightarrow> callback \<times> bool" where
  "listener_key l = (lcallback l, capture (loptions l))"

definition target_ok :: "event_target \<Rightarrow> bool" where
  "target_ok t \<longleftrightarrow> (\<forall>type. distinct (map listener_key (listeners_of t type)) \<and>
     distinct (map lid (listeners_of t type)) \<and> (\<forall>l \<in> set (listeners_of t type). lid l < next_lid t))"

lemma listeners_of_set:
  "listeners_of (t\<lparr>listeners := jsmap_set type ls (listeners t)\<rparr>) type' =
    (if type' = type then ls else listeners_of t type')"
  by (simp add: listeners_of_def jsmap_get_set)

lemma listeners_of_next [simp]: "listeners_of (t\<lparr>next_lid := n\<rparr>) type = listeners_of t type"
  by (simp add: listeners_of_def)

lemma remove_first_set: "set (remove_first P xs) \<subseteq> set xs"
  by (induction xs) auto

lemma remove_first_distinct: "distinct (map f xs) \<Longrightarrow> distinct (map f (remove_first P xs))"
proof (induction xs)
  case (Cons x xs)
  then show ?case using remove_first_set [of P xs] by auto
qed simp

lemma target_ok_shrink:
  assumes "target_ok t" and "set ls \<subseteq> set (listeners_of t type)" and "distinct (map listener_key ls)"
    and "distinct (map lid ls)"
  shows "target_ok (t\<lparr>listeners := jsmap_set type ls (listeners t)\<rparr>)"
  using assms by (auto simp: target_ok_def listeners_of_set)

lemma target_ok_new: "target_ok (new_EventTarget i)"
  by (simp add: target_ok_def new_EventTarget_def listeners_of_def jsmap_get_def)

lemma listeners_of_empty_slot:
  "jsmap_get (listeners t) type = None \<Longrightarrow>
    listeners_of (t\<lparr>listeners := jsmap_set type [] (listeners t)\<rparr>) type' = listeners_of t type'"
  by (simp add: listeners_of_def jsmap_get_set)

lemma addEventListener_cases:
  assumes "addEventListener type cb opts t = Inr t'"
  shows "(\<forall>ty. listeners_of t' ty = listeners_of t ty) \<and> next_lid t' = next_lid t \<or>
    (\<exists>l. lid l = next_lid t \<and> listener_key l \<notin> listener_key ` set (listeners_of t type) \<and>
      next_lid t' = next_lid t + 1 \<and>
      (\<forall>ty. listeners_of t' ty = (if ty = type then listeners_of t type @ [l] else listeners_of t ty)))"
proof (cases cb)
  case (Callback c)
  let ?opt = "normalizeEventHandlerOptions opts True"
  let ?l = "\<lparr>lid = next_lid t, lcallback = c, loptions = ?opt\<rparr>"
  let ?t = "if jsmap_get (listeners t) type = None
            then t\<lparr>listeners := jsmap_set type [] (listeners t)\<rparr> else t"
  have l1: "listeners_of ?t ty = listeners_of t ty" for ty by (simp add: listeners_of_empty_slot)
  have n1: "next_lid ?t = next_lid t" by simp
  show ?thesis
  proof (cases "list_ex (same_listener c (capture ?opt)) (listeners_of t type)")
    case True
    then have "t' = ?t" using assms Callback by (simp add: addEventListener_def Let_def split: if_splits)
    then show ?thesis using l1 n1 by simp
  next
    case False
    then have t': "t' = ?t\<lparr>listeners := jsmap_set type (listeners_of t type @ [?l]) (listeners ?t),
        next_lid := next_lid t + 1\<rparr>"
      using assms Callback by (simp add: addEventListener_def Let_def)
    have "listener_key ?l \<notin> listener_key ` set (listeners_of t type)"
      using False by (auto simp: list_ex_iff same_listener_def listener_key_def)
    moreover have "listeners_of t' ty = (if ty = type then listeners_of t type @ [?l] else listeners_of t ty)" for ty
      unfolding t' by (simp add: listeners_of_set l1 del: listeners_of_next) (simp add: listeners_of_def jsmap_get_set)
    ultimately show ?thesis unfolding t' by (intro disjI2 exI [of _ ?l]) simp
  qed
qed (use assms in \<open>simp_all add: addEventListener_def\<close>)

lemma addEventListener_ok:
  assumes "target_ok t" and "addEventListener type cb opts t = Inr t'"
  shows "target_ok t'"
  using addEventListener_cases [OF assms(2)] assms(1)
  by (fastforce simp: target_ok_def)

lemma removeEventListener_cases:
  assumes "removeEventListener type cb opts t = Inr t'"
  shows "t' = t \<or> (\<exists>P. t' = t\<lparr>listeners := jsmap_set type (remove_first P (listeners_of t type)) (listeners t)\<rparr>)"
  using assms
  by (auto simp: removeEventListener_def Let_def listeners_of_def split: callback_arg.splits option.splits)

lemma removeEventListener_ok:
  assumes "target_ok t" and "removeEventListener type cb opts t = Inr t'"
  shows "target_ok t'"
  using removeEventListener_cases [OF assms(2)]
proof
  assume "\<exists>P. t' = t\<lparr>listeners := jsmap_set type (remove_first P (listeners_of t type)) (listeners t)\<rparr>"
  then obtain P where t': "t' = t\<lparr>listeners := jsmap_set type (remove_first P (listeners_of t type)) (listeners t)\<rparr>" ..
  show ?thesis unfolding t'
    by (rule target_ok_shrink [OF assms(1) remove_first_set])
      (use assms(1) in \<open>auto simp: target_ok_def intro: remove_first_distinct\<close>)
qed (use assms(1) in simp)

lemma run_actions_ok: "target_ok t \<Longrightarrow> target_ok (snd (run_actions as (e, t)))"
proof (induction as arbitrary: e t)
  case (Cons a as)
  show ?case
  proof (cases a)
    case (Add type c opts)
    then show ?thesis using Cons addEventListener_ok by (auto split: sum.split)
  next
    case (Remove type c opts)
    then show ?thesis using Cons removeEventListener_ok by (auto split: sum.split)
  qed (use Cons in auto)
qed simp

lemma call_listener_ok: "target_ok t \<Longrightarrow> target_ok (snd (call_listener script l (e, t)))"
  by (auto simp: call_listener_def run_actions_ok split: callback.split)

lemma remove1_distinct_map: "distinct (map f xs) \<Longrightarrow> distinct (map f (remove1 x xs))"
proof (induction xs)
  case (Cons y xs)
  then show ?case using set_remove1_subset [of x xs] by auto
qed simp

lemma once_ok:
  assumes "target_ok t"
  shows "target_ok (t\<lparr>listeners := jsmap_set type (remove1 l (listeners_of t type)) (listeners t)\<rparr>)"
  by (rule target_ok_shrink [OF assms set_remove1_subset])
    (use assms in \<open>auto simp: target_ok_def intro: remove1_distinct_map\<close>)

lemma invoke_loop_ok: "target_ok t \<Longrightarrow> target_ok (fst (snd (invoke_loop script ls (e, t, log))))"
proof (induction ls arbitrary: e t log)
  case (Cons l ls)
  let ?e1 = "if isPassive (loptions l) then e\<lparr>inPassiveListener := True\<rparr> else e"
  let ?t1 = "if once (loptions l)
    then t\<lparr>listeners := jsmap_set (etype e) (remove1 l (listeners_of t (etype e))) (listeners t)\<rparr> else t"
  have "target_ok ?t1" using Cons.prems once_ok by simp
  then have "target_ok (snd (call_listener script l (?e1, ?t1)))" by (rule call_listener_ok)
  then show ?case using Cons by (auto simp: Let_def split: prod.split)
qed simp

lemma dispatch_ok:
  assumes "target_ok t" and "dispatchEvent script e t = Inr (r, e', t', log)"
  shows "target_ok t'"
  using assms invoke_loop_ok [OF assms(1), of script "listeners_of t (etype e)" "e\<lparr>dispatchFlag := True,
      target := Some (tid t), eventPhase := AT_TARGET, currentTarget := Some (tid t)\<rparr>" "[]"]
  by (auto simp: dispatchEvent_def invokeEventListeners_def Let_def split: if_splits prod.splits)

section \<open>Sequences of operations\<close>

datatype operation = AddOp jsstr callback_arg options_arg | RemoveOp jsstr callback_arg options_arg | DispatchOp event

fun apply_op :: "(nat \<Rightarrow> action list) \<Rightarrow> operation \<Rightarrow> event_target \<Rightarrow> event_target" where
  "apply_op script (AddOp type c opts) t = (case addEventListener type c opts t of Inl x \<Rightarrow> t | Inr t' \<Rightarrow> t')"
| "apply_op script (RemoveOp type c opts) t = (case removeEventListener type c opts t of Inl x \<Rightarrow> t | Inr t' \<Rightarrow> t')"
| "apply_op script (DispatchOp e) t = (case dispatchEvent script e t of Inl x \<Rightarrow> t | Inr (r, e', t', log) \<Rightarrow> t')"

lemma apply_op_ok: "target_ok t \<Longrightarrow> target_ok (apply_op script o1 t)"
  by (cases o1) (auto split: sum.split intro: addEventListener_ok removeEventListener_ok dispatch_ok)

text \<open>Whatever operations are applied to a target, and whatever its callbacks do to it and to the event
  while they are called, no two listeners of a type have the same callback and capture flag.\<close>

theorem no_duplicate_listeners:
  "distinct (map listener_key (listeners_of (fold (apply_op script) ops (new_EventTarget i)) type))"
proof -
  have "target_ok t \<Longrightarrow> target_ok (fold (apply_op script) ops t)" for t
    by (induction ops arbitrary: t) (auto simp: apply_op_ok)
  then show ?thesis using target_ok_new by (auto simp: target_ok_def)
qed

section \<open>Who is called\<close>

text \<open>What no action of a callback changes of the event.\<close>

definition same_event :: "event \<Rightarrow> event \<Rightarrow> bool" where
  "same_event e e' \<longleftrightarrow> etype e' = etype e \<and> eventPhase e' = eventPhase e \<and> cancelable e' = cancelable e \<and>
     initializedFlag e' = initializedFlag e \<and> target e' = target e \<and> bubbles e' = bubbles e \<and>
     (\<not> cancelable e \<longrightarrow> canceledFlag e' = canceledFlag e)"

lemma same_event_refl [simp]: "same_event e e"
  by (simp add: same_event_def)

lemma same_event_trans: "same_event a b \<Longrightarrow> same_event b c \<Longrightarrow> same_event a c"
  by (auto simp: same_event_def)

text \<open>A listener that is gone from a target stays gone.\<close>

definition gone :: "jsstr \<Rightarrow> listener \<Rightarrow> event_target \<Rightarrow> bool" where
  "gone type l t \<longleftrightarrow> l \<notin> set (listeners_of t type) \<and> lid l < next_lid t"

definition advances :: "event_target \<Rightarrow> event_target \<Rightarrow> bool" where
  "advances t t' \<longleftrightarrow> next_lid t \<le> next_lid t' \<and> (\<forall>type l. gone type l t \<longrightarrow> gone type l t')"

lemma advances_refl [simp]: "advances t t"
  by (simp add: advances_def)

lemma advances_trans: "advances a b \<Longrightarrow> advances b c \<Longrightarrow> advances a c"
  by (auto simp: advances_def)

lemma add_advances:
  assumes "addEventListener ty c opts t = Inr t'"
  shows "advances t t'"
  using addEventListener_cases [OF assms]
proof
  assume "(\<forall>ty. listeners_of t' ty = listeners_of t ty) \<and> next_lid t' = next_lid t"
  then show ?thesis by (simp add: advances_def gone_def)
next
  assume "\<exists>l. lid l = next_lid t \<and> listener_key l \<notin> listener_key ` set (listeners_of t ty) \<and>
      next_lid t' = next_lid t + 1 \<and>
      (\<forall>y. listeners_of t' y = (if y = ty then listeners_of t ty @ [l] else listeners_of t y))"
  then obtain l where "lid l = next_lid t" "next_lid t' = next_lid t + 1"
    "\<And>y. listeners_of t' y = (if y = ty then listeners_of t ty @ [l] else listeners_of t y)" by blast
  then show ?thesis by (auto simp: advances_def gone_def)
qed

lemma shrink_advances:
  "set ls \<subseteq> set (listeners_of t ty) \<Longrightarrow> advances t (t\<lparr>listeners := jsmap_set ty ls (listeners t)\<rparr>)"
  by (auto simp: advances_def gone_def listeners_of_set)

lemma remove_advances: "removeEventListener ty c opts t = Inr t' \<Longrightarrow> advances t t'"
  by (auto dest!: removeEventListener_cases intro!: shrink_advances dest: subsetD [OF remove_first_set])

lemma run_actions_facts:
  "same_event e (fst (run_actions as (e, t))) \<and> advances t (snd (run_actions as (e, t)))"
proof (induction as arbitrary: e t)
  case (Cons a as)
  have s: "same_event e (stopPropagation e)" "same_event e (stopImmediatePropagation e)"
    "same_event e (preventDefault e)"
    by (auto simp: same_event_def stopPropagation_def stopImmediatePropagation_def preventDefault_def)
  show ?case
  proof (cases a)
    case (Add type c opts)
    then show ?thesis
      using Cons.IH [of e] add_advances [of type c opts t]
      by (auto split: sum.split intro: advances_trans)
  next
    case (Remove type c opts)
    then show ?thesis
      using Cons.IH [of e] remove_advances [of type c opts t]
      by (auto split: sum.split intro: advances_trans)
  qed (use Cons.IH s in \<open>auto intro: same_event_trans\<close>)
qed simp

lemma call_listener_facts:
  "same_event e (fst (call_listener script m (e, t))) \<and> advances t (snd (call_listener script m (e, t)))"
  using run_actions_facts by (simp add: call_listener_def split: callback.split)

lemma once_advances:
  "advances t (if once (loptions m) then t\<lparr>listeners := jsmap_set ty (remove1 m (listeners_of t ty)) (listeners t)\<rparr> else t)"
  by (simp add: shrink_advances set_remove1_subset)

lemma once_gone:
  assumes "target_ok t" and "lid m < next_lid t"
  shows "gone ty m (t\<lparr>listeners := jsmap_set ty (remove1 m (listeners_of t ty)) (listeners t)\<rparr>)"
proof -
  have "distinct (listeners_of t ty)" using assms(1) by (auto simp: target_ok_def distinct_map)
  then show ?thesis using assms(2) by (simp add: gone_def listeners_of_set)
qed

text \<open>What the loop guarantees of the listeners \<open>ls\<close> it goes over.\<close>

definition loop_result :: "jsstr \<Rightarrow> listener list \<Rightarrow> event_target \<Rightarrow> nat list \<Rightarrow> event_target \<Rightarrow> nat list \<Rightarrow> bool" where
  "loop_result ty ls t log t' log' \<longleftrightarrow> advances t t' \<and> (\<exists>called. log' = log @ called \<and> subseq called (map lid ls) \<and>
    (\<forall>l \<in> set ls. once (loptions l) \<and> lid l \<in> set called \<longrightarrow> gone ty l t'))"

lemma loop_result_stop: "loop_result ty ls t log t log"
  by (simp add: loop_result_def)

lemma loop_result_skip:
  assumes "loop_result ty ls t log t' log'" and "lid m \<notin> lid ` set ls"
  shows "loop_result ty (m # ls) t log t' log'"
proof -
  obtain called where c: "advances t t'" "log' = log @ called" "subseq called (map lid ls)"
    "\<forall>l \<in> set ls. once (loptions l) \<and> lid l \<in> set called \<longrightarrow> gone ty l t'"
    using assms(1) by (auto simp: loop_result_def)
  have "set called \<subseteq> lid ` set ls" using c(3) by (auto dest: list_emb_set)
  then show ?thesis using c assms(2) unfolding loop_result_def by (intro conjI exI [of _ called]) auto
qed

lemma loop_result_call:
  assumes "loop_result ty ls t2 (log @ [lid m]) t' log'" and "lid m \<notin> lid ` set ls" and "advances t t2"
    and "once (loptions m) \<Longrightarrow> gone ty m t2"
  shows "loop_result ty (m # ls) t log t' log'"
proof -
  obtain called where c: "advances t2 t'" "log' = log @ lid m # called" "subseq called (map lid ls)"
    "\<forall>l \<in> set ls. once (loptions l) \<and> lid l \<in> set called \<longrightarrow> gone ty l t'"
    using assms(1) by (auto simp: loop_result_def)
  have "once (loptions m) \<Longrightarrow> gone ty m t'" using assms(4) c(1) by (simp add: advances_def)
  moreover have "lid l \<noteq> lid m" if "l \<in> set ls" for l using assms(2) that by (metis imageI)
  ultimately show ?thesis using c advances_trans [OF assms(3) c(1)] unfolding loop_result_def
    by (intro conjI exI [of _ "lid m # called"]) auto
qed

lemma invoke_loop_facts:
  assumes "target_ok t" and "\<forall>l \<in> set ls. lid l < next_lid t" and "distinct (map lid ls)"
    and "invoke_loop script ls (e, t, log) = (e', t', log')"
  shows "same_event e e' \<and> loop_result (etype e) ls t log t' log'"
  using assms
proof (induction ls arbitrary: e t log)
  case Nil
  then show ?case by (simp add: loop_result_stop)
next
  case (Cons m ls)
  let ?e1 = "if isPassive (loptions m) then e\<lparr>inPassiveListener := True\<rparr> else e"
  let ?live = "listeners_of t (etype e)"
  let ?t1 = "if once (loptions m) then t\<lparr>listeners := jsmap_set (etype e) (remove1 m ?live) (listeners t)\<rparr> else t"
  have e1: "same_event e ?e1" "etype ?e1 = etype e" by (simp_all add: same_event_def)
  have fresh: "lid m \<notin> lid ` set ls" using Cons.prems(3) by simp
  have ls: "\<forall>l \<in> set ls. lid l < next_lid t" "distinct (map lid ls)" using Cons.prems by simp_all
  show ?case
  proof (cases "stopImmediatePropagationFlag e")
    case True
    then show ?thesis using Cons.prems(4) by (simp add: loop_result_stop)
  next
    case go: False
    show ?thesis
    proof (cases "m \<notin> set ?live \<or> (eventPhase e = CAPTURING_PHASE \<and> \<not> capture (loptions m)) \<or>
        (eventPhase e = BUBBLING_PHASE \<and> capture (loptions m))")
      case True
      then have "invoke_loop script ls (?e1, t, log) = (e', t', log')"
        using Cons.prems(4) go by (simp add: Let_def del: if_split)
      from Cons.IH [OF Cons.prems(1) ls this] e1 show ?thesis
        using loop_result_skip [OF _ fresh] same_event_trans by metis
    next
      case False
      obtain e2 t2 where c: "call_listener script m (?e1, ?t1) = (e2, t2)" by fastforce
      let ?e3 = "e2\<lparr>inPassiveListener := False\<rparr>"
      have l: "invoke_loop script ls (?e3, t2, log @ [lid m]) = (e', t', log')"
        using Cons.prems(4) c by (simp only: invoke_loop.simps Let_def go False if_False prod.case)
      have t1: "target_ok ?t1" using once_ok [OF Cons.prems(1)] Cons.prems(1) by simp
      have t2: "target_ok t2" using call_listener_ok [OF t1, of script m ?e1] c by simp
      have a1: "advances ?t1 t2" and s1: "same_event ?e1 e2"
        using call_listener_facts [of ?e1 script m ?t1] c by simp_all
      have a: "advances t t2" using advances_trans [OF once_advances a1] .
      have s3: "same_event e ?e3" using same_event_trans [OF e1(1) s1] by (simp add: same_event_def)
      then have ty: "etype ?e3 = etype e" by (simp add: same_event_def)
      have "\<forall>l \<in> set ls. lid l < next_lid t2" using ls(1) a by (auto simp: advances_def dest: order_less_le_trans)
      from Cons.IH [OF t2 this ls(2) l] have ih: "same_event ?e3 e'" "loop_result (etype e) ls t2 (log @ [lid m]) t' log'"
        unfolding ty by blast+
      have "gone (etype e) m t2" if "once (loptions m)"
        using once_gone [OF Cons.prems(1), of m "etype e"] Cons.prems(2) that a1 by (auto simp: advances_def)
      with loop_result_call [OF ih(2) fresh a] same_event_trans [OF s3 ih(1)] show ?thesis by blast
    qed
  qed
qed

text \<open>The event after the loop.\<close>

definition finish :: "event \<Rightarrow> event" where
  "finish e = e\<lparr>dispatchFlag := False, stopPropagationFlag := False, stopImmediatePropagationFlag := False,
     eventPhase := NONE, currentTarget := None\<rparr>"

definition at_target :: "event \<Rightarrow> event_target \<Rightarrow> event" where
  "at_target e t = e\<lparr>dispatchFlag := True, target := Some (tid t), eventPhase := AT_TARGET\<rparr>"

lemma finish_bubbling: "finish (if b then e\<lparr>eventPhase := n\<rparr> else e) = finish e"
  by (simp add: finish_def)

lemma dispatch_unfold:
  assumes "dispatchEvent script e t = Inr z"
    and "(if \<not> stopPropagationFlag e \<and> jsmap_get (listeners t) (etype e) \<noteq> None
          then invokeEventListeners script (at_target e t, t) else (at_target e t, t, [])) = (e2, t2, l2)"
  shows "z = (\<not> canceledFlag e2, finish e2, t2, l2)"
proof -
  have "Inr z = dispatchEvent script e t" using assms(1) ..
  also have "\<dots> = Inr (\<not> canceledFlag (finish (if bubbles e2 then e2\<lparr>eventPhase := BUBBLING_PHASE\<rparr> else e2)),
      finish (if bubbles e2 then e2\<lparr>eventPhase := BUBBLING_PHASE\<rparr> else e2), t2, l2)"
  proof -
    have "\<not> (dispatchFlag e \<or> \<not> initializedFlag e)" "\<not> eventPhase e \<noteq> NONE"
      using assms(1) by (auto simp: dispatchEvent_def split: if_splits)
    moreover have "stopPropagationFlag (at_target e t) = stopPropagationFlag e" "etype (at_target e t) = etype e"
      by (simp_all add: at_target_def)
    ultimately show ?thesis using assms(2) unfolding dispatchEvent_def Let_def finish_def at_target_def
      by (simp only: if_False prod.case)
  qed
  finally show ?thesis unfolding finish_bubbling by (simp add: finish_def)
qed

lemma dispatch_cases:
  assumes "dispatchEvent script e t = Inr (r, e', t', log)"
  obtains e2 where "e' = finish e2" and "r = (\<not> canceledFlag e2)" and "same_event (at_target e t) e2"
      and "t' = t" and "log = []" and "stopPropagationFlag e \<or> jsmap_get (listeners t) (etype e) = None"
  | e2 where "e' = finish e2" and "r = (\<not> canceledFlag e2)" and "\<not> stopPropagationFlag e"
      and "invoke_loop script (listeners_of t (etype e)) ((at_target e t)\<lparr>currentTarget := Some (tid t)\<rparr>, t, []) = (e2, t', log)"
proof (cases "\<not> stopPropagationFlag e \<and> jsmap_get (listeners t) (etype e) \<noteq> None")
  case True
  obtain e2 t2 l2 where i: "invokeEventListeners script (at_target e t, t) = (e2, t2, l2)" by (metis prod_cases3)
  have "(r, e', t', log) = (\<not> canceledFlag e2, finish e2, t2, l2)"
    by (rule dispatch_unfold [OF assms]) (simp only: True i if_True simp_thms)
  moreover have "etype (at_target e t) = etype e" by (simp add: at_target_def)
  ultimately show ?thesis using that(2) [of e2] i True by (simp add: invokeEventListeners_def)
next
  case False
  then have "(r, e', t', log) = (\<not> canceledFlag (at_target e t), finish (at_target e t), t, [])"
    by (intro dispatch_unfold [OF assms]) (simp only: if_False)
  then show ?thesis using that(1) [of "at_target e t"] False by auto
qed

lemma dispatch_facts:
  assumes ok: "target_ok t" and d: "dispatchEvent script e t = Inr (r, e', t', log)"
  shows "loop_result (etype e) (listeners_of t (etype e)) t [] t' log \<and>
    (\<exists>e2. e' = finish e2 \<and> r = (\<not> canceledFlag e2) \<and> same_event (at_target e t) e2)"
  using d
proof (cases rule: dispatch_cases)
  case (1 e2)
  then show ?thesis by (auto simp: loop_result_stop)
next
  case (2 e2)
  let ?e = "(at_target e t)\<lparr>currentTarget := Some (tid t)\<rparr>"
  have p: "\<forall>l \<in> set (listeners_of t (etype e)). lid l < next_lid t" "distinct (map lid (listeners_of t (etype e)))"
    using ok by (simp_all add: target_ok_def)
  have e: "same_event (at_target e t) ?e" "etype ?e = etype e" by (simp_all add: same_event_def at_target_def)
  note f = invoke_loop_facts [OF ok p 2(4), unfolded e(2)]
  show ?thesis using f same_event_trans [OF e(1) conjunct1 [OF f]] 2(1,2) by blast
qed

lemma dispatch_result:
  assumes "target_ok t" and "dispatchEvent script e t = Inr (r, e', t', log)"
  shows "subseq log (map lid (listeners_of t (etype e))) \<and>
    (\<forall>l \<in> set (listeners_of t (etype e)). once (loptions l) \<and> lid l \<in> set log \<longrightarrow> l \<notin> set (listeners_of t' (etype e))) \<and>
    r = (\<not> defaultPrevented e') \<and> (defaultPrevented e' \<noteq> defaultPrevented e \<longrightarrow> cancelable e) \<and>
    target e' = Some (tid t) \<and> currentTarget e' = None \<and>
    (\<forall>script' t1. \<not> isl (dispatchEvent script' e' t1))"
proof -
  obtain e2 where e2: "e' = finish e2" "r = (\<not> canceledFlag e2)" "same_event (at_target e t) e2"
    and l: "loop_result (etype e) (listeners_of t (etype e)) t [] t' log"
    using dispatch_facts [OF assms] by blast
  have "initializedFlag e" using assms(2) by (auto simp: dispatchEvent_def split: if_splits)
  then show ?thesis using e2 l
    by (auto simp: loop_result_def finish_def same_event_def at_target_def gone_def defaultPrevented_def
        dispatchEvent_def Let_def split: prod.split)
qed

text \<open>C26: A dispatch calls listeners of the event's type only, each at most once, in the order in which they
  were added, whatever the callbacks do; a listener added with \<open>once\<close> and called is no longer on the
  target afterwards; the result says whether the default was prevented, which only a cancelable event
  allows; the event keeps its target, loses its current target, and can be dispatched again.\<close>

theorem dispatch_in_order:
  assumes "target_ok t" and "dispatchEvent script e t = Inr (r, e', t', log)"
  shows "subseq log (map lid (listeners_of t (etype e))) \<and>
    (\<forall>l \<in> set (listeners_of t (etype e)). once (loptions l) \<and> lid l \<in> set log \<longrightarrow> l \<notin> set (listeners_of t' (etype e))) \<and>
    r = (\<not> defaultPrevented e') \<and> (defaultPrevented e' \<noteq> defaultPrevented e \<longrightarrow> cancelable e) \<and>
    target e' = Some (tid t) \<and> currentTarget e' = None \<and>
    (\<forall>script' t1. \<not> isl (dispatchEvent script' e' t1))"
  by (rule dispatch_result [OF assms])

text \<open>An example: the first of two listeners is \<open>once\<close> and removes the second one.\<close>

definition example_target :: event_target where
  "example_target = fold (apply_op (\<lambda>n. [])) [AddOp (js ''load'') (Callback (Function 0)) (OptionsObject False True),
     AddOp (js ''load'') (Callback (Function 1)) OptionsUndefined, AddOp (js ''load'') (Callback (Function 2)) OptionsUndefined]
     (new_EventTarget 7)"

definition example_script :: "nat \<Rightarrow> action list" where
  "example_script n = (if n = 0 then [Remove (js ''load'') (Callback (Function 1)) OptionsUndefined, PreventDefault] else [])"

lemma example_ok: "target_ok example_target"
proof -
  have "target_ok t \<Longrightarrow> target_ok (fold (apply_op script) ops t)" for script ops t
    by (induction ops arbitrary: t) (auto simp: apply_op_ok)
  then show ?thesis using target_ok_new unfolding example_target_def by blast
qed

definition example_dispatch :: "bool \<times> event \<times> event_target \<times> nat list" where
  "example_dispatch = projr (dispatchEvent example_script (new_Event 0 (js ''load'') False True) example_target)"

lemma example_dispatched:
  "dispatchEvent example_script (new_Event 0 (js ''load'') False True) example_target =
    Inr (fst example_dispatch, fst (snd example_dispatch), fst (snd (snd example_dispatch)), snd (snd (snd example_dispatch)))"
  "fst example_dispatch = False" "snd (snd (snd example_dispatch)) = [0, 2]"
  by code_simp+

theorem dispatch_in_order_witness:
  "fst example_dispatch = (\<not> defaultPrevented (fst (snd example_dispatch))) \<and> snd (snd (snd example_dispatch)) = [0, 2] \<and>
   currentTarget (fst (snd example_dispatch)) = None"
  using dispatch_in_order [OF example_ok example_dispatched(1)] example_dispatched(3) by blast

section \<open>Every listener is called\<close>

text \<open>A callback is mild when it neither stops the propagation at once nor removes a listener.\<close>

fun mild_action :: "action \<Rightarrow> bool" where
  "mild_action StopImmediate \<longleftrightarrow> False"
| "mild_action (Remove type c opts) \<longleftrightarrow> False"
| "mild_action a \<longleftrightarrow> True"

definition mild :: "(nat \<Rightarrow> action list) \<Rightarrow> bool" where
  "mild script \<longleftrightarrow> (\<forall>n. list_all mild_action (script n))"

lemma add_keeps:
  "addEventListener ty c opts t = Inr t' \<Longrightarrow> set (listeners_of t y) \<subseteq> set (listeners_of t' y)"
  by (cases "y = ty"; drule addEventListener_cases) auto

lemma run_actions_mild:
  "list_all mild_action as \<Longrightarrow>
    stopImmediatePropagationFlag (fst (run_actions as (e, t))) = stopImmediatePropagationFlag e \<and>
    set (listeners_of t y) \<subseteq> set (listeners_of (snd (run_actions as (e, t))) y)"
proof (induction as arbitrary: e t)
  case (Cons a as)
  show ?case
  proof (cases a)
    case (Add type c opts)
    show ?thesis
    proof (cases "addEventListener type c opts t")
      case (Inr t1)
      then show ?thesis using Add Cons.IH [of e t1] Cons.prems add_keeps [OF Inr, of y] by auto
    qed (simp add: Add)
  qed (use Cons in \<open>auto simp: stopPropagation_def preventDefault_def\<close>)
qed simp

lemma call_listener_mild:
  assumes "mild script"
  shows "stopImmediatePropagationFlag (fst (call_listener script m (e, t))) = stopImmediatePropagationFlag e \<and>
    set (listeners_of t y) \<subseteq> set (listeners_of (snd (call_listener script m (e, t))) y)"
  using run_actions_mild assms by (auto simp: call_listener_def mild_def split: callback.split)

lemma invoke_loop_all:
  assumes "mild script" and "\<not> stopImmediatePropagationFlag e" and "eventPhase e = AT_TARGET"
    and "set ls \<subseteq> set (listeners_of t (etype e))" and "distinct ls"
  shows "snd (snd (invoke_loop script ls (e, t, log))) = log @ map lid ls"
  using assms(2-)
proof (induction ls arbitrary: e t log)
  case (Cons m ls)
  let ?e1 = "if isPassive (loptions m) then e\<lparr>inPassiveListener := True\<rparr> else e"
  let ?live = "listeners_of t (etype e)"
  let ?t1 = "if once (loptions m) then t\<lparr>listeners := jsmap_set (etype e) (remove1 m ?live) (listeners t)\<rparr> else t"
  obtain e2 t2 where c: "call_listener script m (?e1, ?t1) = (e2, t2)" by fastforce
  let ?e3 = "e2\<lparr>inPassiveListener := False\<rparr>"
  have run: "\<not> (m \<notin> set ?live \<or> (eventPhase e = CAPTURING_PHASE \<and> \<not> capture (loptions m)) \<or>
      (eventPhase e = BUBBLING_PHASE \<and> capture (loptions m)))"
    using Cons.prems by (simp add: AT_TARGET_def CAPTURING_PHASE_def BUBBLING_PHASE_def)
  have step: "invoke_loop script (m # ls) (e, t, log) = invoke_loop script ls (?e3, t2, log @ [lid m])"
    using c Cons.prems(1) by (simp only: invoke_loop.simps Let_def run if_False prod.case)
  have "same_event ?e1 e2" using call_listener_facts [of ?e1 script m ?t1] c by simp
  then have e3: "etype ?e3 = etype e" "eventPhase ?e3 = AT_TARGET"
    using Cons.prems(2) by (auto simp: same_event_def)
  have "set ls \<subseteq> set (listeners_of ?t1 (etype e))"
    using Cons.prems(3,4) by (auto simp: listeners_of_set intro: iffD2 [OF in_set_remove1])
  then have live: "set ls \<subseteq> set (listeners_of t2 (etype ?e3))"
    unfolding e3 using call_listener_mild [OF assms(1), of m ?e1 ?t1 "etype e"] c by auto
  have "\<not> stopImmediatePropagationFlag ?e3"
    using call_listener_mild [OF assms(1), of m ?e1 ?t1] c Cons.prems(1) by simp
  from Cons.IH [OF this e3(2) live] Cons.prems(4) show ?case unfolding step by simp
qed simp

lemma dispatch_all:
  assumes "target_ok t" and "mild script"
  shows "\<exists>e' t'. dispatchEvent script (new_Event now type b c) t =
    Inr (\<not> canceledFlag e', e', t', map lid (listeners_of t type))"
proof -
  let ?e = "new_Event now type b c"
  have "\<not> isl (dispatchEvent script ?e t)"
    by (simp add: dispatchEvent_def new_Event_def Let_def split: prod.split)
  then obtain r e' t' log where d: "dispatchEvent script ?e t = Inr (r, e', t', log)"
    by (metis surj_pair sum.collapse(2))
  have "log = map lid (listeners_of t type)" using d
  proof (cases rule: dispatch_cases)
    case (1 e2)
    then show ?thesis by (simp add: new_Event_def listeners_of_def)
  next
    case (2 e2)
    have "distinct (listeners_of t type)" using assms(1) by (auto simp: target_ok_def distinct_map)
    then show ?thesis
      using 2(4) invoke_loop_all [OF assms(2), of "(at_target ?e t)\<lparr>currentTarget := Some (tid t)\<rparr>" "listeners_of t type" t "[]"]
      by (simp add: at_target_def new_Event_def)
  qed
  moreover have "r = (\<not> canceledFlag e')" using dispatch_result [OF assms(1) d] by (simp add: defaultPrevented_def)
  ultimately show ?thesis using d by blast
qed

text \<open>C27: Dispatching a new event calls every listener of its type, in order, as long as no callback stops the
  propagation at once or removes listeners; listeners that the callbacks add are not called.\<close>

theorem dispatch_calls_all:
  assumes "target_ok t" and "mild script"
  shows "\<exists>e' t'. dispatchEvent script (new_Event now type b c) t =
    Inr (\<not> canceledFlag e', e', t', map lid (listeners_of t type))"
  by (rule dispatch_all [OF assms])

theorem dispatch_calls_all_witness:
  "\<exists>e' t'. dispatchEvent (\<lambda>n. [Add (js ''load'') (Callback (Function 9)) OptionsNull, Throw]) (new_Event 0 (js ''load'') False True)
    example_target = Inr (\<not> canceledFlag e', e', t', [0, 1, 2])"
proof -
  have "map lid (listeners_of example_target (js ''load'')) = [0, 1, 2]" by code_simp
  then show ?thesis
    using dispatch_calls_all [OF example_ok, of "\<lambda>n. [Add (js ''load'') (Callback (Function 9)) OptionsNull, Throw]" 0 "js ''load''" False True]
    by (simp add: mild_def)
qed

end
