(* ===== verification/Mime.thy ===== *)
theory Mime
  imports Prelude
begin

text \<open>
  MIME types of \<open>packages/zero/lib/mime.js\<close>: parsing, the parameters, and writing a type back.  The
  cursor of the parser is modelled by the text after it, which past the end is empty as
  \<open>input[position]\<close> is undefined there.  \<open>toLowerCase\<close>, whose tables are those of Unicode, is the
  parameter \<open>lower\<close>.
\<close>

section \<open>Code points\<close>

text \<open>The range \<open>+-.\<close> of the pattern contains the comma too.\<close>

definition token_char :: "nat \<Rightarrow> bool" where
  "token_char c \<longleftrightarrow> c \<in> set (js ''!#$%&'') \<or> c = 39 \<or> c = 42 \<or> (43 \<le> c \<and> c \<le> 46) \<or> c \<in> set (js ''^_`|~'') \<or>
     (65 \<le> c \<and> c \<le> 90) \<or> (97 \<le> c \<and> c \<le> 122) \<or> (48 \<le> c \<and> c \<le> 57)"

definition quoted_char :: "nat \<Rightarrow> bool" where
  "quoted_char c \<longleftrightarrow> c = 9 \<or> (32 \<le> c \<and> c \<le> 126) \<or> (128 \<le> c \<and> c \<le> 255)"

section \<open>Writing\<close>

definition escape_quotes :: "jsstr \<Rightarrow> jsstr" where
  "escape_quotes v = concat (map (\<lambda>c. if c = 34 \<or> c = 92 then [92, c] else [c]) v)"

definition encode :: "jsstr \<Rightarrow> jsstr" where
  "encode v = (if list_all token_char v then v else [34] @ escape_quotes v @ [34])"

record mime =
  mtype :: jsstr
  subtype :: jsstr
  params :: "(jsstr, jsstr) js_map"

definition write_param :: "jsstr \<times> jsstr \<Rightarrow> jsstr" where
  "write_param kv = (case kv of (key, v) \<Rightarrow> [59] @ key @ [61] @ encode v)"

definition MIMEStringify :: "mime \<Rightarrow> jsstr" where
  "MIMEStringify m = mtype m @ [47] @ subtype m @ concat (map write_param (params m))"

section \<open>Parameters\<close>

definition mime_param_get :: "(jsstr, jsstr) js_map \<Rightarrow> jsstr \<Rightarrow> jsstr option" where
  "mime_param_get ps name = (if jsmap_has ps name then jsmap_get ps name else None)"

definition mime_param_set :: "jsstr \<Rightarrow> jsstr \<Rightarrow> (jsstr, jsstr) js_map \<Rightarrow> (jsstr, jsstr) js_map js_result" where
  "mime_param_set name v ps =
     (let n = trimLeft name in
      if n = [] \<or> \<not> list_all token_char n then Inl OtherError
      else if v = [] \<or> \<not> list_all quoted_char v then Inl OtherError
      else Inr (jsmap_set n v ps))"

section \<open>Parsing\<close>

text \<open>The part of a quoted value after its opening quote: the value and the text at the closing quote.\<close>

fun quoted_value :: "jsstr \<Rightarrow> jsstr \<times> jsstr" where
  "quoted_value [] = ([], [])"
| "quoted_value (c # s) =
     (if c = 34 then ([], c # s)
      else if c = 92 then
        (case s of [] \<Rightarrow> ([92], [])
         | d # s1 \<Rightarrow> (case quoted_value s1 of (v, r) \<Rightarrow> (d # v, r)))
      else (case quoted_value s of (v, r) \<Rightarrow> (c # v, r)))"

definition param_value :: "jsstr \<Rightarrow> jsstr \<times> jsstr" where
  "param_value s =
     (if s = [] then ([], [])
      else if hd s = 34 then quoted_value (tl s)
      else (takeWhile (\<lambda>c. c \<noteq> 59) s, dropWhile (\<lambda>c. c \<noteq> 59) s))"

lemma quoted_value_length: "length (snd (quoted_value s)) \<le> length s"
proof (induction s rule: quoted_value.induct)
  case (2 c s)
  consider "c = 34" | "c = 92" "s = []" | d s1 where "c = 92" "s = d # s1" | "c \<noteq> 34" "c \<noteq> 92"
    by (cases s) auto
  then show ?case
  proof cases
    case (3 d s1)
    then show ?thesis using "2.IH"(1) [of d s1] by (auto split: prod.split)
  next
    case 4
    then show ?thesis using "2.IH"(2) by (auto split: prod.split)
  qed simp_all
qed simp

lemma param_value_length: "length (snd (param_value s)) \<le> length s"
  using quoted_value_length [of "tl s"] length_dropWhile_le [of "\<lambda>c. c \<noteq> 59" s]
  by (auto simp: param_value_def)

definition name_end :: "nat \<Rightarrow> bool" where
  "name_end c \<longleftrightarrow> c = 59 \<or> c = 61"

function parse_params ::
  "(jsstr \<Rightarrow> jsstr) \<Rightarrow> jsstr \<Rightarrow> (jsstr, jsstr) js_map \<Rightarrow> (jsstr, jsstr) js_map js_result" where
  "parse_params lower [] ps = Inr ps"
| "parse_params lower (c # s) ps =
     (let name = lower (takeWhile (\<lambda>c. \<not> name_end c) s);
          (v, r) = param_value (tl (dropWhile (\<lambda>c. \<not> name_end c) s))
      in if name \<noteq> [] \<and> v \<noteq> [] \<and> \<not> jsmap_has ps name
         then js_bind (mime_param_set name v ps) (parse_params lower r)
         else parse_params lower r ps)"
  by pat_completeness auto
termination
proof (relation "measure (\<lambda>(lower, s, ps). length s)")
  fix lower :: "jsstr \<Rightarrow> jsstr" and c :: nat and s :: jsstr and ps qs :: "(jsstr, jsstr) js_map" and name v r x y
  assume "(v, r) = x" and x: "x = param_value (tl (dropWhile (\<lambda>c. \<not> name_end c) s))"
  have "length r \<le> length (tl (dropWhile (\<lambda>c. \<not> name_end c) s))"
    using param_value_length [of "tl (dropWhile (\<lambda>c. \<not> name_end c) s)"] x \<open>(v, r) = x\<close> by (metis snd_conv)
  also have "\<dots> \<le> length s" using length_dropWhile_le [of "\<lambda>c. \<not> name_end c" s] by simp
  finally show "((lower, r, ps), lower, c # s, ps) \<in> measure (\<lambda>(lower, s, ps). length s)"
    and "((lower, r, qs), lower, c # s, ps) \<in> measure (\<lambda>(lower, s, ps). length s)" by simp_all
qed simp_all

definition parse_mime :: "(jsstr \<Rightarrow> jsstr) \<Rightarrow> jsstr \<Rightarrow> mime js_result" where
  "parse_mime lower input =
     (let t = takeWhile (\<lambda>c. c \<noteq> 47) input;
          s = tl (dropWhile (\<lambda>c. c \<noteq> 47) input);
          st = trimLeft (takeWhile (\<lambda>c. c \<noteq> 59) s)
      in js_bind (parse_params lower (dropWhile (\<lambda>c. c \<noteq> 59) s) [])
           (\<lambda>ps. Inr \<lparr>mtype = lower t, subtype = lower st, params = ps\<rparr>))"

section \<open>Setters\<close>

definition set_mtype :: "jsstr \<Rightarrow> mime \<Rightarrow> mime js_result" where
  "set_mtype v m = (let t = trimLeft v in
     if t = [] \<or> \<not> list_all token_char t then Inl OtherError else Inr (m\<lparr>mtype := t\<rparr>))"

definition set_subtype :: "jsstr \<Rightarrow> mime \<Rightarrow> mime js_result" where
  "set_subtype v m = (let t = trimRight v in
     if t = [] \<or> \<not> list_all token_char t then Inl OtherError else Inr (m\<lparr>subtype := t\<rparr>))"

section \<open>The invariant of parameters\<close>

definition param_ok :: "jsstr \<times> jsstr \<Rightarrow> bool" where
  "param_ok kv \<longleftrightarrow> (case kv of (k, v) \<Rightarrow> k \<noteq> [] \<and> list_all token_char k \<and> v \<noteq> [] \<and> list_all quoted_char v)"

definition mime_params_ok :: "(jsstr, jsstr) js_map \<Rightarrow> bool" where
  "mime_params_ok ps \<longleftrightarrow> jsmap_ok ps \<and> list_all param_ok ps"

lemma jsmap_set_entries: "list_all P ps \<Longrightarrow> P (k, v) \<Longrightarrow> list_all P (jsmap_set k v ps)"
  by (induction k v ps rule: jsmap_set.induct) auto

lemma params_set_ok: "mime_params_ok ps \<Longrightarrow> mime_param_set name v ps = Inr ps' \<Longrightarrow> mime_params_ok ps'"
  by (auto simp: mime_params_ok_def mime_param_set_def Let_def param_ok_def jsmap_ok_set split: if_splits
      intro!: jsmap_set_entries)

lemma parse_params_ok: "mime_params_ok ps \<Longrightarrow> parse_params lower s ps = Inr ps' \<Longrightarrow> mime_params_ok ps'"
proof (induction lower s ps rule: parse_params.induct)
  case (2 lower c s ps)
  obtain v r where v: "param_value (tl (dropWhile (\<lambda>c. \<not> name_end c) s)) = (v, r)" by fastforce
  show ?case
  proof (cases "lower (takeWhile (\<lambda>c. \<not> name_end c) s) \<noteq> [] \<and> v \<noteq> [] \<and>
      \<not> jsmap_has ps (lower (takeWhile (\<lambda>c. \<not> name_end c) s))")
    case True
    then obtain ps1 where p: "mime_param_set (lower (takeWhile (\<lambda>c. \<not> name_end c) s)) v ps = Inr ps1"
        "parse_params lower r ps1 = Inr ps'"
      using "2.prems"(2) v by (auto simp: js_bind_Inr)
    from params_set_ok [OF "2.prems"(1) p(1)] "2.IH"(1) [OF refl v [symmetric] refl True] p(2)
    show ?thesis by blast
  next
    case False
    then show ?thesis using "2.IH"(2) [OF refl v [symmetric] refl False] "2.prems" v by (simp add: if_not_P)
  qed
qed simp

section \<open>The round trip\<close>

lemma token_char_not:
  assumes "token_char c"
  shows "c \<noteq> 34" "c \<noteq> 92" "c \<noteq> 59" "c \<noteq> 61" "c \<noteq> 47" "\<not> js_whitespace c" "\<not> name_end c"
  using assms by (auto simp: token_char_def js_whitespace_def name_end_def)

lemma quoted_value_escape: "quoted_value (escape_quotes v @ 34 # r) = (v, 34 # r)"
  by (induction v) (auto simp: escape_quotes_def)

lemma takeWhile_stop: "list_all P xs \<Longrightarrow> \<not> P c \<Longrightarrow> takeWhile P (xs @ c # ys) = xs"
  and dropWhile_stop: "list_all P xs \<Longrightarrow> \<not> P c \<Longrightarrow> dropWhile P (xs @ c # ys) = c # ys"
  by (induction xs) auto

lemma takeWhile_whole: "list_all P xs \<Longrightarrow> takeWhile P xs = xs"
  and dropWhile_whole: "list_all P xs \<Longrightarrow> dropWhile P xs = []"
  by (induction xs) auto

text \<open>A value written by \<open>encode\<close> is read back when it is a token or the last one; \<open>ends r\<close> is the
  text that the next parameter starts with.\<close>

lemma param_value_token:
  assumes "list_all token_char v" and "v \<noteq> []" and "r = [] \<or> hd r = 59"
  shows "param_value (encode v @ r) = (v, r)"
proof -
  have n: "list_all (\<lambda>c. c \<noteq> 59) v" "hd (v @ r) \<noteq> 34"
    using assms token_char_not by (auto simp: list_all_iff)
  show ?thesis
  proof (cases r)
    case Nil
    then show ?thesis using n assms by (simp add: encode_def param_value_def takeWhile_whole dropWhile_whole)
  next
    case (Cons a r')
    then show ?thesis using n assms
      by (simp add: encode_def param_value_def takeWhile_stop dropWhile_stop)
  qed
qed

lemma param_value_encode:
  assumes "v \<noteq> []"
  shows "fst (param_value (encode v)) = v" and "length (snd (param_value (encode v))) \<le> 1"
  using param_value_token [of v "[]"] assms quoted_value_escape [of v "[]"]
  by (auto simp: encode_def param_value_def)

lemma parse_params_rest: "length r \<le> 1 \<Longrightarrow> lower [] = [] \<Longrightarrow> parse_params lower r ps = Inr ps"
  by (cases r) (auto simp: param_value_def Let_def)

lemma jsmap_set_fresh: "\<not> jsmap_has ps k \<Longrightarrow> jsmap_set k v ps = ps @ [(k, v)]"
  by (induction k v ps rule: jsmap_set.induct) (auto simp: jsmap_has_def jsmap_get_def)

lemma params_set_fresh:
  assumes "param_ok (k, v)" and "\<not> jsmap_has ps k"
  shows "mime_param_set k v ps = Inr (ps @ [(k, v)])"
proof -
  have "trimLeft k = k"
    using assms(1) token_char_not by (intro trimLeft_id) (cases k; auto simp: param_ok_def)
  then show ?thesis using assms by (simp add: mime_param_set_def param_ok_def jsmap_set_fresh)
qed

definition plain_values :: "(jsstr, jsstr) js_map \<Rightarrow> bool" where
  "plain_values ps \<longleftrightarrow> list_all (\<lambda>(k, v). list_all token_char v) (butlast ps)"

lemma parse_params_step:
  assumes "param_ok (k, v)" and "lower k = k" and "\<not> jsmap_has ps k" and "param_value (encode v @ r) = (v, r')"
  shows "parse_params lower (write_param (k, v) @ r) ps = parse_params lower r' (ps @ [(k, v)])"
proof -
  have "list_all (\<lambda>c. \<not> name_end c) k" using assms(1) token_char_not by (auto simp: param_ok_def list_all_iff)
  then have "takeWhile (\<lambda>c. \<not> name_end c) (k @ 61 # encode v @ r) = k"
    "dropWhile (\<lambda>c. \<not> name_end c) (k @ 61 # encode v @ r) = 61 # encode v @ r"
    by (simp_all add: takeWhile_stop dropWhile_stop name_end_def)
  then show ?thesis using assms params_set_fresh [OF assms(1,3)]
    by (simp add: write_param_def param_ok_def)
qed

lemma write_params_head: "concat (map write_param ps) = [] \<or> hd (concat (map write_param ps)) = 59"
  by (cases ps) (auto simp: write_param_def)

lemma parse_params_write:
  assumes "mime_params_ok (done_ps @ ps)" and "plain_values ps" and "\<forall>k \<in> fst ` set ps. lower k = k" and "lower [] = []"
  shows "parse_params lower (concat (map write_param ps)) done_ps = Inr (done_ps @ ps)"
  using assms(1-3)
proof (induction ps arbitrary: done_ps)
  case (Cons kv ps)
  obtain k v where kv: "kv = (k, v)" by fastforce
  have ok: "param_ok (k, v)" "lower k = k" "\<not> jsmap_has done_ps k" and v: "v \<noteq> []"
    using Cons.prems by (auto simp: kv mime_params_ok_def jsmap_has_def jsmap_get_def map_of_eq_None_iff param_ok_def)
  show ?case
  proof (cases ps)
    case Nil
    obtain r' where r': "param_value (encode v @ []) = (v, r')" "length r' \<le> 1"
      using param_value_encode [OF v] by (metis append_Nil2 prod.collapse)
    from parse_params_step [of k v lower done_ps "[]" r'] ok r'(1) show ?thesis
      using parse_params_rest [of r' lower] r'(2) assms(4) by (simp add: Nil kv)
  next
    case (Cons p qs)
    have "list_all token_char v" using Cons.prems(2) by (simp add: plain_values_def kv Cons)
    from parse_params_step [of k v lower done_ps, OF ok param_value_token [OF this v write_params_head [of ps]]]
    have "parse_params lower (concat (map write_param (kv # ps))) done_ps =
        parse_params lower (concat (map write_param ps)) (done_ps @ [(k, v)])" by (simp add: kv)
    also have "\<dots> = Inr ((done_ps @ [(k, v)]) @ ps)"
      by (rule Cons.IH) (use Cons.prems in \<open>auto simp: kv plain_values_def Cons\<close>)
    finally show ?thesis by (simp add: kv)
  qed
qed simp

definition mime_ok :: "(jsstr \<Rightarrow> jsstr) \<Rightarrow> mime \<Rightarrow> bool" where
  "mime_ok lower m \<longleftrightarrow> list_all token_char (mtype m) \<and> list_all token_char (subtype m) \<and> mime_params_ok (params m) \<and>
     lower (mtype m) = mtype m \<and> lower (subtype m) = subtype m \<and> (\<forall>k \<in> fst ` set (params m). lower k = k) \<and>
     lower [] = [] \<and> plain_values (params m)"

lemma parse_stringify:
  assumes "mime_ok lower m"
  shows "parse_mime lower (MIMEStringify m) = Inr m"
proof -
  let ?ps = "concat (map write_param (params m))"
  have t: "list_all (\<lambda>c. c \<noteq> 47) (mtype m)" "list_all (\<lambda>c. c \<noteq> 59) (subtype m)"
    using assms token_char_not by (auto simp: mime_ok_def list_all_iff)
  have s: "takeWhile (\<lambda>c. c \<noteq> 59) (subtype m @ ?ps) = subtype m \<and> dropWhile (\<lambda>c. c \<noteq> 59) (subtype m @ ?ps) = ?ps"
  proof (cases ?ps)
    case Nil
    then show ?thesis using t(2) by (simp only: append_Nil2 takeWhile_whole dropWhile_whole)
  next
    case (Cons a l)
    then have "a = 59" using write_params_head [of "params m"] by simp
    then show ?thesis using t(2) unfolding Cons by (simp add: takeWhile_stop dropWhile_stop)
  qed
  have trim: "trimLeft (subtype m) = subtype m"
    using assms token_char_not by (intro trimLeft_id) (cases "subtype m"; auto simp: mime_ok_def)
  have "parse_params lower ?ps [] = Inr (params m)"
    using parse_params_write [of "[]" "params m" lower] assms by (simp add: mime_ok_def)
  moreover have "takeWhile (\<lambda>c. c \<noteq> 47) (MIMEStringify m) = mtype m"
    "tl (dropWhile (\<lambda>c. c \<noteq> 47) (MIMEStringify m)) = subtype m @ ?ps"
    using t(1) by (simp_all add: MIMEStringify_def takeWhile_stop dropWhile_stop)
  ultimately show ?thesis using assms s trim by (simp add: parse_mime_def mime_ok_def)
qed

definition parse_option :: "(jsstr \<Rightarrow> jsstr) \<Rightarrow> jsstr \<Rightarrow> mime option" where
  "parse_option lower s = (case parse_mime lower s of Inl e \<Rightarrow> None | Inr m \<Rightarrow> Some m)"

interpretation mime: codec MIMEStringify "parse_option lower" "mime_ok lower"
  by unfold_locales (simp add: parse_option_def parse_stringify)

text \<open>What a MIME type is under any sequence of calls: the parser and the setters keep the parameters
  named by tokens, once each, with values that can be quoted.\<close>

datatype mime_op = SetType jsstr | SetSubtype jsstr | SetParam jsstr jsstr | DeleteParam jsstr

fun apply_mime_op :: "mime_op \<Rightarrow> mime \<Rightarrow> mime" where
  "apply_mime_op (SetType v) m = (case set_mtype v m of Inl e \<Rightarrow> m | Inr m' \<Rightarrow> m')"
| "apply_mime_op (SetSubtype v) m = (case set_subtype v m of Inl e \<Rightarrow> m | Inr m' \<Rightarrow> m')"
| "apply_mime_op (SetParam k v) m =
     (case mime_param_set k v (params m) of Inl e \<Rightarrow> m | Inr ps \<Rightarrow> m\<lparr>params := ps\<rparr>)"
| "apply_mime_op (DeleteParam k) m = m\<lparr>params := jsmap_delete k (params m)\<rparr>"

lemma params_delete_ok: "mime_params_ok ps \<Longrightarrow> mime_params_ok (jsmap_delete k ps)"
  by (auto simp: mime_params_ok_def jsmap_ok_delete) (simp add: jsmap_delete_def list_all_iff)

lemma apply_mime_op_ok: "mime_params_ok (params m) \<Longrightarrow> mime_params_ok (params (apply_mime_op op m))"
  by (cases op) (auto simp: set_mtype_def set_subtype_def Let_def params_delete_ok split: sum.split
      intro: params_set_ok)

lemma parse_mime_ok: "parse_mime lower s = Inr m \<Longrightarrow> mime_params_ok (params m)"
  using parse_params_ok [of "[]"] by (auto simp: parse_mime_def Let_def js_bind_Inr mime_params_ok_def)


definition example_mime :: mime where
  "example_mime = \<lparr>mtype = js ''text'', subtype = js ''html'',
     params = [(js ''charset'', js ''utf-8''), (js ''title'', js ''a '' @ [34, 92, 34])]\<rparr>"

lemma example_mime_ok: "mime_ok ascii_lower example_mime"
  by code_simp


section \<open>Where the parser differs from its comments and from the standard\<close>

text \<open>After a quoted value the cursor stands at the closing quote, so the next parameter's text is read as the
  value of a parameter without a name and is lost.\<close>

lemma quoted_value_loses_next:
  "parse_mime ascii_lower (js ''a/b;x='' @ [34] @ js ''1 2'' @ [34] @ js '';y=3'') = Inr \<lparr>mtype = js ''a'', subtype = js ''b'', params = [(js ''x'', js ''1 2'')]\<rparr>"
  by code_simp

text \<open>A name is looked up before and stored after its leading space is removed, so the last one wins.\<close>

lemma spaced_duplicate_wins:
  "parse_mime ascii_lower (js ''a/b; x=1; x=2'') = Inr \<lparr>mtype = js ''a'', subtype = js ''b'', params = [(js ''x'', js ''2'')]\<rparr>"
  by code_simp

text \<open>Trailing white space of the subtype stays; leading white space is removed.\<close>

lemma subtype_keeps_trailing_space:
  "parse_mime ascii_lower (js ''a/ b ;x=1'') = Inr \<lparr>mtype = js ''a'', subtype = js ''b '', params = [(js ''x'', js ''1'')]\<rparr>"
  by code_simp

lemma no_type_accepted: "parse_mime ascii_lower [] = Inr \<lparr>mtype = [], subtype = [], params = []\<rparr>"
  by code_simp

end
