(* ===== verification/Encoding.thy ===== *)
theory Encoding
  imports Bytes "HOL-Library.Word"
begin

text \<open>
  Labels, encoders and decoders of \<open>packages/zero/lib/whatwg/encoding.js\<close>.  The native decoder of ICU is a
  parameter: \<open>create\<close> makes its state and \<open>native\<close> decodes bytes with flags, giving a new state and
  either a number, which stands for an error, or a string.  \<open>toLowerCase\<close> is the parameter \<open>lower\<close>.
  The flags are the bits that \<open>packages/zero/src/zero_encoding.cc\<close> exports.
\<close>

section \<open>The table of labels\<close>

definition encodings_1 :: "(string \<times> string) list" where
  "encodings_1 = [
    (''unicode-1-1-utf-8'', ''utf-8''), (''utf8'', ''utf-8''), (''utf-8'', ''utf-8''),
    (''866'', ''ibm866''), (''cp866'', ''ibm866''), (''csibm866'', ''ibm866''), (''ibm866'', ''ibm866''),
    (''csisolatin2'', ''iso-8859-2''), (''iso-8859-2'', ''iso-8859-2''), (''iso-ir-101'', ''iso-8859-2''),
    (''iso8859-2'', ''iso-8859-2''), (''iso88592'', ''iso-8859-2''), (''iso_8859-2'', ''iso-8859-2''),
    (''iso_8859-2:1987'', ''iso-8859-2''), (''l2'', ''iso-8859-2''), (''latin2'', ''iso-8859-2''),
    (''csisolatin3'', ''iso-8859-3''), (''iso-8859-3'', ''iso-8859-3''), (''iso-ir-109'', ''iso-8859-3''),
    (''iso8859-3'', ''iso-8859-3''), (''iso88593'', ''iso-8859-3''), (''iso_8859-3'', ''iso-8859-3''),
    (''iso_8859-3:1988'', ''iso-8859-3''), (''l3'', ''iso-8859-3''), (''latin3'', ''iso-8859-3''),
    (''csisolatin4'', ''iso-8859-4''), (''iso-8859-4'', ''iso-8859-4''), (''iso-ir-110'', ''iso-8859-4''),
    (''iso8859-4'', ''iso-8859-4''), (''iso88594'', ''iso-8859-4''), (''iso_8859-4'', ''iso-8859-4''),
    (''iso_8859-4:1988'', ''iso-8859-4''), (''l4'', ''iso-8859-4''), (''latin4'', ''iso-8859-4''),
    (''csisolatincyrillic'', ''iso-8859-5''), (''cyrillic'', ''iso-8859-5''),
    (''iso-8859-5'', ''iso-8859-5''), (''iso-ir-144'', ''iso-8859-5''), (''iso8859-5'', ''iso-8859-5''),
    (''iso88595'', ''iso-8859-5''), (''iso_8859-5'', ''iso-8859-5''),
    (''iso_8859-5:1988'', ''iso-8859-5''), (''arabic'', ''iso-8859-6''), (''asmo-708'', ''iso-8859-6''),
    (''csiso88596e'', ''iso-8859-6''), (''csiso88596i'', ''iso-8859-6''),
    (''csisolatinarabic'', ''iso-8859-6''), (''ecma-114'', ''iso-8859-6''),
    (''iso-8859-6'', ''iso-8859-6''), (''iso-8859-6-e'', ''iso-8859-6''),
    (''iso-8859-6-i'', ''iso-8859-6''), (''iso-ir-127'', ''iso-8859-6''), (''iso8859-6'', ''iso-8859-6''),
    (''iso88596'', ''iso-8859-6''), (''iso_8859-6'', ''iso-8859-6''),
    (''iso_8859-6:1987'', ''iso-8859-6''), (''csisolatingreek'', ''iso-8859-7''),
    (''ecma-118'', ''iso-8859-7''), (''elot_928'', ''iso-8859-7''), (''greek'', ''iso-8859-7''),
    (''greek8'', ''iso-8859-7''), (''iso-8859-7'', ''iso-8859-7''), (''iso-ir-126'', ''iso-8859-7''),
    (''iso8859-7'', ''iso-8859-7''), (''iso88597'', ''iso-8859-7''), (''iso_8859-7'', ''iso-8859-7''),
    (''iso_8859-7:1987'', ''iso-8859-7''), (''sun_eu_greek'', ''iso-8859-7''),
    (''csiso88598e'', ''iso-8859-8''), (''csisolatinhebrew'', ''iso-8859-8''),
    (''hebrew'', ''iso-8859-8''), (''iso-8859-8'', ''iso-8859-8''), (''iso-8859-8-e'', ''iso-8859-8''),
    (''iso-ir-138'', ''iso-8859-8''), (''iso8859-8'', ''iso-8859-8''), (''iso88598'', ''iso-8859-8''),
    (''iso_8859-8'', ''iso-8859-8''), (''iso_8859-8:1988'', ''iso-8859-8''), (''visual'', ''iso-8859-8''),
    (''csiso88598i'', ''iso-8859-8-i''), (''iso-8859-8-i'', ''iso-8859-8-i''),
    (''logical'', ''iso-8859-8-i''), (''csisolatin6'', ''iso-8859-10''),
    (''iso-8859-10'', ''iso-8859-10''), (''iso-ir-157'', ''iso-8859-10''),
    (''iso8859-10'', ''iso-8859-10''), (''iso885910'', ''iso-8859-10''), (''l6'', ''iso-8859-10''),
    (''latin6'', ''iso-8859-10''), (''iso-8859-13'', ''iso-8859-13''), (''iso8859-13'', ''iso-8859-13''),
    (''iso885913'', ''iso-8859-13''), (''iso-8859-14'', ''iso-8859-14''),
    (''iso8859-14'', ''iso-8859-14''), (''iso885914'', ''iso-8859-14''),
    (''csisolatin9'', ''iso-8859-15''), (''iso-8859-15'', ''iso-8859-15''),
    (''iso8859-15'', ''iso-8859-15''), (''iso885915'', ''iso-8859-15''),
    (''iso_8859-15'', ''iso-8859-15''), (''l9'', ''iso-8859-15''), (''cskoi8r'', ''koi8-r''),
    (''koi'', ''koi8-r''), (''koi8'', ''koi8-r''), (''koi8-r'', ''koi8-r'')]"

definition encodings_2 :: "(string \<times> string) list" where
  "encodings_2 = [
    (''koi8_r'', ''koi8-r''), (''koi8-ru'', ''koi8-u''), (''koi8-u'', ''koi8-u''),
    (''csmacintosh'', ''macintosh''), (''mac'', ''macintosh''), (''macintosh'', ''macintosh''),
    (''x-mac-roman'', ''macintosh''), (''dos-874'', ''windows-874''), (''iso-8859-11'', ''windows-874''),
    (''iso8859-11'', ''windows-874''), (''iso885911'', ''windows-874''), (''tis-620'', ''windows-874''),
    (''windows-874'', ''windows-874''), (''cp1250'', ''windows-1250''),
    (''windows-1250'', ''windows-1250''), (''x-cp1250'', ''windows-1250''), (''cp1251'', ''windows-1251''),
    (''windows-1251'', ''windows-1251''), (''x-cp1251'', ''windows-1251''),
    (''ansi_x3.4-1968'', ''windows-1252''), (''ascii'', ''windows-1252''), (''cp1252'', ''windows-1252''),
    (''cp819'', ''windows-1252''), (''csisolatin1'', ''windows-1252''), (''ibm819'', ''windows-1252''),
    (''iso-8859-1'', ''windows-1252''), (''iso-ir-100'', ''windows-1252''),
    (''iso8859-1'', ''windows-1252''), (''iso88591'', ''windows-1252''),
    (''iso_8859-1'', ''windows-1252''), (''iso_8859-1:1987'', ''windows-1252''),
    (''l1'', ''windows-1252''), (''latin1'', ''windows-1252''), (''us-ascii'', ''windows-1252''),
    (''windows-1252'', ''windows-1252''), (''x-cp1252'', ''windows-1252''), (''cp1253'', ''windows-1253''),
    (''windows-1253'', ''windows-1253''), (''x-cp1253'', ''windows-1253''), (''cp1254'', ''windows-1254''),
    (''csisolatin5'', ''windows-1254''), (''iso-8859-9'', ''windows-1254''),
    (''iso-ir-148'', ''windows-1254''), (''iso8859-9'', ''windows-1254''),
    (''iso88599'', ''windows-1254''), (''iso_8859-9'', ''windows-1254''),
    (''iso_8859-9:1989'', ''windows-1254''), (''l5'', ''windows-1254''), (''latin5'', ''windows-1254''),
    (''windows-1254'', ''windows-1254''), (''x-cp1254'', ''windows-1254''), (''cp1255'', ''windows-1255''),
    (''windows-1255'', ''windows-1255''), (''x-cp1255'', ''windows-1255''), (''cp1256'', ''windows-1256''),
    (''windows-1256'', ''windows-1256''), (''x-cp1256'', ''windows-1256''), (''cp1257'', ''windows-1257''),
    (''windows-1257'', ''windows-1257''), (''x-cp1257'', ''windows-1257''), (''cp1258'', ''windows-1258''),
    (''windows-1258'', ''windows-1258''), (''x-cp1258'', ''windows-1258''),
    (''x-mac-cyrillic'', ''x-mac-cyrillic''), (''x-mac-ukrainian'', ''x-mac-cyrillic''),
    (''chinese'', ''gbk''), (''csgb2312'', ''gbk''), (''csiso58gb231280'', ''gbk''), (''gb2312'', ''gbk''),
    (''gb_2312'', ''gbk''), (''gb_2312-80'', ''gbk''), (''gbk'', ''gbk''), (''iso-ir-58'', ''gbk''),
    (''x-gbk'', ''gbk''), (''gb18030'', ''gb18030''), (''big5'', ''big5''), (''big5-hkscs'', ''big5''),
    (''cn-big5'', ''big5''), (''csbig5'', ''big5''), (''x-x-big5'', ''big5''),
    (''cseucpkdfmtjapanese'', ''euc-jp''), (''euc-jp'', ''euc-jp''), (''x-euc-jp'', ''euc-jp''),
    (''csiso2022jp'', ''iso-2022-jp''), (''iso-2022-jp'', ''iso-2022-jp''),
    (''csshiftjis'', ''shift_jis''), (''ms932'', ''shift_jis''), (''ms_kanji'', ''shift_jis''),
    (''shift-jis'', ''shift_jis''), (''shift_jis'', ''shift_jis''), (''sjis'', ''shift_jis''),
    (''windows-31j'', ''shift_jis''), (''x-sjis'', ''shift_jis''), (''cseuckr'', ''euc-kr''),
    (''csksc56011987'', ''euc-kr''), (''euc-kr'', ''euc-kr''), (''iso-ir-149'', ''euc-kr''),
    (''korean'', ''euc-kr''), (''ks_c_5601-1987'', ''euc-kr''), (''ks_c_5601-1989'', ''euc-kr''),
    (''ksc5601'', ''euc-kr''), (''ksc_5601'', ''euc-kr''), (''windows-949'', ''euc-kr''),
    (''utf-16be'', ''utf-16be''), (''utf-16le'', ''utf-16le''), (''utf-16'', ''utf-16le'')]"

definition encodings :: "(string \<times> string) list" where
  "encodings = encodings_1 @ encodings_2"

text \<open>\<open>encodings.get\<close>: the keys of the map are the labels' code units.\<close>

definition get_encoding :: "jsstr \<Rightarrow> jsstr option" where
  "get_encoding label = map_of (map (\<lambda>(l, e). (js l, js e)) encodings) label"

section \<open>Looking up a label\<close>

definition ascii_space :: "nat \<Rightarrow> bool" where
  "ascii_space c \<longleftrightarrow> c = 9 \<or> c = 10 \<or> c = 12 \<or> c = 13 \<or> c = 32"

function trim_start :: "jsstr \<Rightarrow> nat \<Rightarrow> nat \<Rightarrow> nat" where
  "trim_start label s e = (if s < e \<and> ascii_space (label ! s) then trim_start label (s + 1) e else s)"
  by pat_completeness auto
termination by (relation "measure (\<lambda>(label, s, e). e - s)") auto

fun trim_end :: "jsstr \<Rightarrow> nat \<Rightarrow> nat \<Rightarrow> nat" where
  "trim_end label s e = (if e > s \<and> ascii_space (label ! (e - 1)) then trim_end label s (e - 1) else e)"

declare trim_start.simps [simp del] trim_end.simps [simp del]

definition trimAsciiWhitespace :: "jsstr \<Rightarrow> jsstr" where
  "trimAsciiWhitespace label =
     (let s = trim_start label 0 (length label); e = trim_end label s (length label) in Prelude.slice label s e)"

definition getEncodingFromLabel :: "(jsstr \<Rightarrow> jsstr) \<Rightarrow> jsstr \<Rightarrow> jsstr option" where
  "getEncodingFromLabel lower label =
     (case get_encoding label of
        Some enc \<Rightarrow> Some enc
      | None \<Rightarrow> get_encoding (trimAsciiWhitespace (lower label)))"

section \<open>Decoders\<close>

definition FLAGS_FLUSH :: "32 word" where "FLAGS_FLUSH = 1"
definition FLAGS_FATAL :: "32 word" where "FLAGS_FATAL = 2"
definition FLAGS_IGNORE_BOM :: "32 word" where "FLAGS_IGNORE_BOM = 4"

record 'h text_decoder =
  handle :: 'h
  dflags :: "32 word"
  dencoding :: jsstr

record decoder_options =
  opt_fatal :: bool
  opt_ignoreBOM :: bool

text \<open>\<open>None\<close> is the options argument \<open>null\<close>.\<close>

definition new_TextDecoder ::
  "(jsstr \<Rightarrow> jsstr) \<Rightarrow> (jsstr \<Rightarrow> 32 word \<Rightarrow> 'h) \<Rightarrow> jsstr \<Rightarrow> decoder_options option \<Rightarrow> 'h text_decoder js_result" where
  "new_TextDecoder lower create encoding opts =
     (case getEncodingFromLabel lower encoding of
        None \<Rightarrow> Inl OtherError
      | Some enc \<Rightarrow>
          (let flags = (case opts of None \<Rightarrow> 0
             | Some o1 \<Rightarrow> or (if opt_fatal o1 then FLAGS_FATAL else 0) (if opt_ignoreBOM o1 then FLAGS_IGNORE_BOM else 0))
           in Inr \<lparr>handle = create enc flags, dflags = flags, dencoding = enc\<rparr>))"

definition decoder_fatal :: "'h text_decoder \<Rightarrow> bool" where
  "decoder_fatal d \<longleftrightarrow> and (dflags d) FLAGS_FATAL = FLAGS_FATAL"

definition decoder_ignoreBOM :: "'h text_decoder \<Rightarrow> bool" where
  "decoder_ignoreBOM d \<longleftrightarrow> and (dflags d) FLAGS_IGNORE_BOM = FLAGS_IGNORE_BOM"

text \<open>\<open>stream\<close> is the option of that name, \<open>None\<close> the argument \<open>null\<close>.\<close>

definition decode_text ::
  "('h \<Rightarrow> bytes \<Rightarrow> 32 word \<Rightarrow> 'h \<times> (nat + jsstr)) \<Rightarrow> bytes \<Rightarrow> bool option \<Rightarrow> 'h text_decoder \<Rightarrow> 'h text_decoder \<times> jsstr js_result" where
  "decode_text native input stream d =
     (let flags = (case stream of None \<Rightarrow> 0 | Some b \<Rightarrow> if b then 0 else FLAGS_FLUSH);
          (h, ret) = native (handle d) input flags
      in (d\<lparr>handle := h\<rparr>, case ret of Inl n \<Rightarrow> Inl OtherError | Inr s \<Rightarrow> Inr s))"

definition encoder_encoding :: jsstr where
  "encoder_encoding = js ''utf-8''"

definition encode_text :: "(jsstr \<Rightarrow> bytes) \<Rightarrow> jsstr \<Rightarrow> bytes" where
  "encode_text utf8 input = utf8 input"

section \<open>Labels of the table\<close>

definition label_char :: "char \<Rightarrow> bool" where
  "label_char c \<longleftrightarrow> \<not> ascii_space (of_char c) \<and> of_char c < (128::nat) \<and> \<not> (65 \<le> (of_char c :: nat) \<and> of_char c \<le> (90::nat))"

lemma table_chars: "list_all (\<lambda>(l, e). l \<noteq> [] \<and> list_all label_char l) encodings"
  by code_simp

definition encoding_names :: "string list" where
  "encoding_names = [
    ''utf-8'', ''ibm866'', ''iso-8859-2'', ''iso-8859-3'', ''iso-8859-4'', ''iso-8859-5'', ''iso-8859-6'',
    ''iso-8859-7'', ''iso-8859-8'', ''iso-8859-8-i'', ''iso-8859-10'', ''iso-8859-13'', ''iso-8859-14'',
    ''iso-8859-15'', ''koi8-r'', ''koi8-u'', ''macintosh'', ''windows-874'', ''windows-1250'',
    ''windows-1251'', ''windows-1252'', ''windows-1253'', ''windows-1254'', ''windows-1255'',
    ''windows-1256'', ''windows-1257'', ''windows-1258'', ''x-mac-cyrillic'', ''gbk'', ''gb18030'',
    ''big5'', ''euc-jp'', ''iso-2022-jp'', ''shift_jis'', ''euc-kr'', ''utf-16be'', ''utf-16le'']"

text \<open>Comparisons that stop at the first difference, to evaluate look-ups by rewriting.\<close>

fun same_str :: "string \<Rightarrow> string \<Rightarrow> bool" where
  "same_str [] b \<longleftrightarrow> b = []"
| "same_str (x # a) b \<longleftrightarrow> (case b of [] \<Rightarrow> False | y # b1 \<Rightarrow> if x = y then same_str a b1 else False)"

lemma same_str_eq: "same_str a b \<longleftrightarrow> a = b"
  by (induction a arbitrary: b) (auto split: list.split)

fun some_member :: "string list \<Rightarrow> string \<Rightarrow> bool" where
  "some_member [] k \<longleftrightarrow> False"
| "some_member (x # xs) k \<longleftrightarrow> (if same_str x k then True else some_member xs k)"

lemma some_member_in: "some_member xs k \<longleftrightarrow> k \<in> set xs"
  by (induction xs) (auto simp: same_str_eq)

lemma table_values: "list_all (\<lambda>(l, e). some_member encoding_names e) encodings"
  by code_simp

lemma table_name_rows: "map fst (filter (\<lambda>(l, e). same_str l e) encodings) = encoding_names"
  by code_simp

lemma table_names_once: "list_all (\<lambda>(l, e). if some_member encoding_names l then same_str l e else True) encodings"
  by code_simp

lemma table_names:
  assumes "map_of encodings l = Some e"
  shows "map_of encodings e = Some e"
proof -
  have n: "e \<in> set encoding_names"
    using map_of_SomeD [OF assms] table_values by (auto simp: list_all_iff some_member_in)
  then have "e \<in> fst ` set encodings" unfolding table_name_rows [symmetric] by auto
  then obtain v where v: "map_of encodings e = Some v" by (metis map_of_eq_None_iff option.exhaust)
  have "e = v" using map_of_SomeD [OF v] table_names_once n by (auto simp: list_all_iff some_member_in same_str_eq)
  then show ?thesis using v by simp
qed

lemma js_inject: "js a = js b \<longleftrightarrow> a = b"
  unfolding js_def by (rule inj_map_eq_map) (simp add: inj_def)

lemma map_of_js: "map_of (map (\<lambda>(l, e). (js l, js e)) t) (js l) = map_option js (map_of t l)"
  by (induction t) (auto simp: js_inject)

lemma get_encoding_js: "get_encoding (js l) = map_option js (map_of encodings l)"
  by (simp add: get_encoding_def map_of_js)

lemma get_encoding_key: "get_encoding s = Some e \<Longrightarrow> \<exists>l. s = js l \<and> l \<in> fst ` set encodings"
  unfolding get_encoding_def by (force dest: map_of_SomeD)

definition key_char :: "nat \<Rightarrow> bool" where
  "key_char c \<longleftrightarrow> \<not> ascii_space c \<and> c < 128 \<and> \<not> (65 \<le> c \<and> c \<le> 90)"

lemma key_chars:
  assumes "l \<in> fst ` set encodings"
  shows "js l \<noteq> []" and "list_all key_char (js l)"
proof -
  have "l \<noteq> [] \<and> list_all label_char l" using assms table_chars by (auto simp: list_all_iff)
  then show "js l \<noteq> []" and "list_all key_char (js l)"
    by (auto simp: js_def list_all_iff label_char_def key_char_def)
qed

lemma ascii_lower_key: "list_all key_char s \<Longrightarrow> ascii_lower s = s"
  by (simp add: ascii_lower_def list_all_iff key_char_def map_idI)

section \<open>Trimming\<close>

lemma trim_start_at:
  assumes "s \<le> k" and "k < e" and "\<forall>i. s \<le> i \<and> i < k \<longrightarrow> ascii_space (label ! i)" and "\<not> ascii_space (label ! k)"
  shows "trim_start label s e = k"
  using assms
proof (induction "k - s" arbitrary: s)
  case 0
  then show ?case by (simp add: trim_start.simps [of label s e])
next
  case (Suc n)
  then have "trim_start label (s + 1) e = k" by (intro Suc.hyps(1)) auto
  then show ?case using Suc by (simp add: trim_start.simps [of label s e])
qed

lemma trim_end_at:
  assumes "s < k" and "k \<le> e" and "\<forall>i. k \<le> i \<and> i < e \<longrightarrow> ascii_space (label ! i)" and "\<not> ascii_space (label ! (k - 1))"
  shows "trim_end label s e = k"
  using assms
proof (induction "e - k" arbitrary: e)
  case 0
  then have "e = k" by simp
  then show ?case using 0 by (subst trim_end.simps) simp
next
  case (Suc n)
  then have "trim_end label s (e - 1) = k" by (intro Suc.hyps(1)) auto
  then show ?case using Suc by (simp add: trim_end.simps [of label s e])
qed

lemma trimAsciiWhitespace_middle:
  assumes "list_all ascii_space pre" and "list_all ascii_space post" and "mid \<noteq> []"
    and "\<not> ascii_space (hd mid)" and "\<not> ascii_space (last mid)"
  shows "trimAsciiWhitespace (pre @ mid @ post) = mid"
proof -
  let ?l = "pre @ mid @ post"
  have "trim_start ?l 0 (length ?l) = length pre"
    by (rule trim_start_at) (use assms in \<open>auto simp: nth_append list_all_length hd_conv_nth\<close>)
  moreover have "trim_end ?l (length pre) (length ?l) = length pre + length mid"
  proof (rule trim_end_at)
    show "\<forall>i. length pre + length mid \<le> i \<and> i < length ?l \<longrightarrow> ascii_space (?l ! i)"
    proof (intro allI impI)
      fix i assume i: "length pre + length mid \<le> i \<and> i < length ?l"
      then have "?l ! i = post ! (i - length pre - length mid)"
        using nth_append_right [of pre i "mid @ post"] nth_append_right [of mid "i - length pre" post] i
        by (simp add: diff_diff_left)
      moreover have "i - length pre - length mid < length post" using i unfolding length_append by linarith
      ultimately show "ascii_space (?l ! i)" using assms(2) by (simp only: list_all_length)
    qed
    have "length pre + length mid - 1 = length pre + (length mid - 1)" using assms(3) by (cases mid) auto
    then have "?l ! (length pre + length mid - 1) = last mid" using assms(3) by (simp add: nth_append last_conv_nth)
    then show "\<not> ascii_space (?l ! (length pre + length mid - 1))" using assms(5) by simp
  qed (use assms(3) in auto)
  ultimately show ?thesis by (simp add: trimAsciiWhitespace_def Prelude.slice_def Let_def)
qed

lemma getEncodingFromLabel_variant:
  assumes "lower_law lower" and "map_of encodings l = Some e" and "ascii_lower l' = js l"
    and "list_all ascii_space pre" and "list_all ascii_space post"
  shows "getEncodingFromLabel lower (pre @ l' @ post) = Some (js e)"
proof -
  have l: "l \<in> fst ` set encodings" using assms(2) by (metis map_of_SomeD fst_conv image_eqI)
  note k = key_chars [OF l]
  show ?thesis
  proof (cases "get_encoding (pre @ l' @ post)")
    case None
    have low: "ascii_lower s = s" if "list_all ascii_space s" for s
      using that by (auto simp: ascii_lower_def list_all_iff ascii_space_def intro!: map_idI)
    have "\<forall>c \<in> set l'. c < 128"
    proof
      fix c assume "c \<in> set l'"
      then have "(if 65 \<le> c \<and> c \<le> 90 then c + 32 else c) \<in> set (js l)"
        unfolding assms(3) [symmetric] ascii_lower_def set_map by (rule imageI)
      then have "(if 65 \<le> c \<and> c \<le> 90 then c + 32 else c) < 128" using k(2) by (auto simp: list_all_iff key_char_def)
      then show "c < 128" by (simp split: if_splits)
    qed
    then have "\<forall>c \<in> set (pre @ l' @ post). c < 128" using assms(4,5) by (auto simp: list_all_iff ascii_space_def)
    then have "lower (pre @ l' @ post) = ascii_lower (pre @ l' @ post)" using assms(1) unfolding lower_law_def by blast
    also have "\<dots> = pre @ js l @ post" using low assms(3-5) by (simp add: ascii_lower_def)
    finally have "trimAsciiWhitespace (lower (pre @ l' @ post)) = js l"
      using trimAsciiWhitespace_middle [OF assms(4,5) k(1)] k by (simp add: list_all_iff key_char_def)
    then show ?thesis using None by (simp add: getEncodingFromLabel_def get_encoding_js assms(2))
  next
    case (Some x)
    then obtain m where m: "pre @ l' @ post = js m" "m \<in> fst ` set encodings" using get_encoding_key by blast
    have key: "list_all key_char (pre @ l' @ post)" using key_chars(2) [OF m(2)] m(1) by simp
    have "pre = []" "post = []" using key assms(4,5) by (cases pre; cases post; simp add: key_char_def)+
    moreover have "l' = js l" using key ascii_lower_key assms(3) by simp
    ultimately show ?thesis using Some by (simp add: getEncodingFromLabel_def get_encoding_js assms(2))
  qed
qed

section \<open>Decoders for labels\<close>

lemma flag_bits:
  "and (or (if a then FLAGS_FATAL else 0) (if b then FLAGS_IGNORE_BOM else 0)) FLAGS_FATAL = FLAGS_FATAL \<longleftrightarrow> a"
  "and (or (if a then FLAGS_FATAL else 0) (if b then FLAGS_IGNORE_BOM else 0)) FLAGS_IGNORE_BOM = FLAGS_IGNORE_BOM \<longleftrightarrow> b"
  by (cases a; cases b; simp add: FLAGS_FATAL_def FLAGS_IGNORE_BOM_def)+

lemma new_TextDecoder_label:
  assumes "getEncodingFromLabel lower label = Some enc"
  shows "\<exists>d. new_TextDecoder lower create label (Some o1) = Inr d \<and> dencoding d = enc \<and>
    decoder_fatal d = opt_fatal o1 \<and> decoder_ignoreBOM d = opt_ignoreBOM o1"
  unfolding new_TextDecoder_def assms Let_def option.case
  by (rule exI, intro conjI, rule refl) (simp_all only: text_decoder.simps decoder_fatal_def decoder_ignoreBOM_def flag_bits)

text \<open>A label of the table, in any ASCII case and with any ASCII white space around it, makes a decoder for
  the encoding of that label with the options asked for; and the name it reports is itself a label of
  that encoding.\<close>

theorem label_decoder:
  assumes "lower_law lower" and "map_of encodings l = Some e" and "ascii_lower l' = js l"
    and "list_all ascii_space pre" and "list_all ascii_space post"
  shows "\<exists>d. new_TextDecoder lower create (pre @ l' @ post) (Some o1) = Inr d \<and> dencoding d = js e \<and>
    decoder_fatal d = opt_fatal o1 \<and> decoder_ignoreBOM d = opt_ignoreBOM o1 \<and>
    getEncodingFromLabel lower (dencoding d) = Some (dencoding d)"
proof -
  have "map_of encodings e = Some e"
    using assms(2) by (rule table_names)
  then have "getEncodingFromLabel lower (js e) = Some (js e)" by (simp add: getEncodingFromLabel_def get_encoding_js)
  then show ?thesis using new_TextDecoder_label [OF getEncodingFromLabel_variant [OF assms], of create o1] by auto
qed

theorem label_decoder_witness:
  "\<exists>d. new_TextDecoder ascii_lower (\<lambda>enc flags. ()) (js '' Latin1 '') (Some \<lparr>opt_fatal = True, opt_ignoreBOM = False\<rparr>) = Inr d \<and>
    dencoding d = js ''windows-1252'' \<and> decoder_fatal d"
proof -
  have "map_of encodings ''latin1'' = Some ''windows-1252''" "ascii_lower (js ''Latin1'') = js ''latin1''"
    "list_all ascii_space (js '' '')" by code_simp+
  from label_decoder [OF lower_law_ascii this(1,2) this(3) this(3), of "\<lambda>enc flags. ()" "\<lparr>opt_fatal = True, opt_ignoreBOM = False\<rparr>"]
  show ?thesis by auto
qed

text \<open>A label outside the table is refused.\<close>

lemma unknown_label:
  "get_encoding label = None \<Longrightarrow> get_encoding (trimAsciiWhitespace (lower label)) = None \<Longrightarrow>
    new_TextDecoder lower create label opts = Inl OtherError"
  by (simp add: new_TextDecoder_def getEncodingFromLabel_def)

end
