(* ===== verification/Html.thy ===== *)
theory Html
  imports Bytes
begin

text \<open>
  The template compiler of \<open>src/lib/html/html.js\<close>: the tokenizer, the parser that writes the source of a
  function, and the escaping of literal text.  \<open>dec\<close> is the native decoder of bytes that
  \<open>readString\<close> uses; the ranges it is given lie inside the buffer.  A directive's characters are made one by
  one of bytes.  Reading a file and the plugins are parameters, and compiling the source that is produced
  is left to the engine.
\<close>

section \<open>Escaping literal text\<close>

definition replace_backticks :: "jsstr \<Rightarrow> jsstr" where
  "replace_backticks s = concat (map (\<lambda>c. if c = 96 then js ''&#96;'' else [c]) s)"

text \<open>The pattern \<open>${x}\<close> with a body \<open>x\<close> that is not empty and has no closing brace.\<close>

function replace_variables :: "jsstr \<Rightarrow> jsstr" where
  "replace_variables [] = []"
| "replace_variables (c # s) =
     (let body = takeWhile (\<lambda>c. c \<noteq> 125) (tl s); rest = dropWhile (\<lambda>c. c \<noteq> 125) (tl s)
      in if c = 36 \<and> s \<noteq> [] \<and> hd s = 123 \<and> body \<noteq> [] \<and> rest \<noteq> []
         then js ''&dollar;{'' @ body @ [125] @ replace_variables (tl rest)
         else c # replace_variables s)"
  by pat_completeness auto
termination
proof (relation "measure length")
  fix c s and body rest :: jsstr
  assume rest: "rest = dropWhile (\<lambda>c. c \<noteq> 125) (tl s)"
  have "length (tl rest) \<le> length s"
    using length_dropWhile_le [of "\<lambda>c. c \<noteq> 125" "tl s"] unfolding rest by simp
  then show "(tl rest, c # s) \<in> measure length" by simp
qed simp_all

declare replace_variables.simps(2) [simp del]

definition sanitize :: "jsstr \<Rightarrow> jsstr" where
  "sanitize str = replace_variables (replace_backticks str)"

section \<open>The tokenizer\<close>

record directive =
  dname :: "jsstr option"
  dvalue :: "jsstr option"

datatype token = StringToken jsstr | DirectiveToken directive

text \<open>\<open>start_at\<close> and \<open>end_at\<close> are \<open>start\<close> and \<open>end\<close>; \<open>name_chars\<close> is \<open>name\<close>.\<close>

record tokenizer =
  tokens :: "token list"
  inDirective :: bool
  inName :: bool
  name_chars :: jsstr
  last_char :: "nat option"
  directive_now :: directive
  start_at :: nat
  end_at :: nat

definition no_directive :: directive where
  "no_directive = \<lparr>dname = None, dvalue = None\<rparr>"

definition start_tokenizer :: "token list \<Rightarrow> tokenizer" where
  "start_tokenizer ts = \<lparr>tokens = ts, inDirective = False, inName = False, name_chars = [], last_char = None,
     directive_now = no_directive, start_at = 0, end_at = 0\<rparr>"

definition truthy :: "jsstr option \<Rightarrow> bool" where
  "truthy v \<longleftrightarrow> (case v of None \<Rightarrow> False | Some s \<Rightarrow> s \<noteq> [])"

definition close_directive :: "tokenizer \<Rightarrow> tokenizer" where
  "close_directive t =
     (let d = directive_now t;
          d1 = (if name_chars t = [] then d
                else if truthy (dname d) then d\<lparr>dvalue := Some (name_chars t)\<rparr>
                else d\<lparr>dname := Some (name_chars t)\<rparr>)
      in t\<lparr>name_chars := [], tokens := tokens t @ [DirectiveToken d1], directive_now := d1,
           inDirective := False, start_at := end_at t + 1\<rparr>)"

definition directive_char :: "nat \<Rightarrow> tokenizer \<Rightarrow> tokenizer" where
  "directive_char c t =
     (if c = 125 \<and> last_char t = Some 125 then close_directive t
      else if c \<noteq> 125 then
        (if inName t \<and> c = 32
         then t\<lparr>directive_now := (directive_now t)\<lparr>dname := Some (name_chars t)\<rparr>, name_chars := [], inName := False\<rparr>
         else t\<lparr>name_chars := name_chars t @ [c]\<rparr>)
      else t)"

definition text_char :: "(bytes \<Rightarrow> jsstr) \<Rightarrow> bytes \<Rightarrow> nat \<Rightarrow> tokenizer \<Rightarrow> tokenizer" where
  "text_char dec buf c t =
     (if c = 123 \<and> last_char t = Some 123
      then (if end_at t - start_at t > 2
            then t\<lparr>tokens := tokens t @ [StringToken (dec (slice buf (start_at t) (end_at t - 1)))]\<rparr> else t)
           \<lparr>inDirective := True, directive_now := no_directive, inName := True\<rparr>
      else t)"

definition token_step :: "(bytes \<Rightarrow> jsstr) \<Rightarrow> bytes \<Rightarrow> nat \<Rightarrow> tokenizer \<Rightarrow> tokenizer" where
  "token_step dec buf c t =
     (let t1 = (if inDirective t then directive_char c t else text_char dec buf c t)
      in t1\<lparr>last_char := Some c, end_at := end_at t1 + 1\<rparr>)"

definition tokenize :: "(bytes \<Rightarrow> jsstr) \<Rightarrow> bytes \<Rightarrow> token list \<Rightarrow> token list" where
  "tokenize dec buf ts =
     (let t = fold (token_step dec buf) buf (start_tokenizer ts)
      in if end_at t - start_at t > 0
         then tokens t @ [StringToken (dec (slice buf (start_at t) (end_at t)))] else tokens t)"

section \<open>The parser\<close>

record parser =
  source :: "jsstr list"
  args :: "jsstr option list"
  command :: jsstr
  depth :: int
  this_name :: jsstr
  root :: jsstr

definition new_Parser :: "jsstr \<Rightarrow> parser" where
  "new_Parser r = \<lparr>source = [], args = [], command = [], depth = 0, this_name = js ''this'', root = r\<rparr>"

definition start_parser :: "parser \<Rightarrow> parser" where
  "start_parser p = p\<lparr>source := [js ''let html = '' @ [39, 39]], args := [], command := [], depth := 0, this_name := js ''this''\<rparr>"

definition finish_parser :: "parser \<Rightarrow> parser" where
  "finish_parser p = p\<lparr>source := source p @ [js ''return html'']\<rparr>"

text \<open>A value and a number in a template literal.\<close>

definition value_text :: "jsstr option \<Rightarrow> jsstr" where
  "value_text v = (case v of None \<Rightarrow> js ''undefined'' | Some s \<Rightarrow> s)"

definition int_text :: "int \<Rightarrow> jsstr" where
  "int_text i = (if i < 0 then 45 # to_radix 10 (nat (- i)) else to_radix 10 (nat i))"

definition emit :: "jsstr list \<Rightarrow> parser \<Rightarrow> parser" where
  "emit ls p = p\<lparr>source := source p @ ls\<rparr>"

definition string_line :: "jsstr \<Rightarrow> jsstr" where
  "string_line s = js ''html += String.raw'' @ [96] @ sanitize s @ [96]"

definition loop_variable :: "parser \<Rightarrow> jsstr" where
  "loop_variable p = js ''v'' @ int_text (depth p)"

definition loop_line :: "jsstr \<Rightarrow> jsstr option \<Rightarrow> parser \<Rightarrow> jsstr" where
  "loop_line kind v p =
     js ''for (const '' @ loop_variable p @ kind @
       (if v = Some (js ''this'') then value_text v else this_name p @ js ''.'' @ value_text v) @ js '') {''"

definition parse_each :: "jsstr option \<Rightarrow> parser \<Rightarrow> parser" where
  "parse_each v p =
     (let p1 = p\<lparr>depth := depth p + 1\<rparr>;
          p2 = emit [loop_line (js '' of '') v p1] p1
      in p2\<lparr>this_name := loop_variable p2\<rparr>)"

definition parse_eachField :: "jsstr option \<Rightarrow> parser \<Rightarrow> parser" where
  "parse_eachField v p =
     (let p1 = p\<lparr>depth := depth p + 1\<rparr>;
          p2 = emit [loop_line (js '' in '') v p1,
                     js ''const name = '' @ loop_variable p1,
                     js ''const value = '' @
                       (if v = Some (js ''this'') then value_text v else this_name p1 @ js ''.'' @ value_text v) @
                       js ''['' @ loop_variable p1 @ js '']''] p1
      in p2\<lparr>this_name := []\<rparr>)"

text \<open>A directive \<open>#name\<close> other than \<open>#template\<close>; the command is stored already.\<close>

definition parse_command ::
  "(jsstr \<Rightarrow> (directive \<Rightarrow> parser \<Rightarrow> parser js_result) option) \<Rightarrow> directive \<Rightarrow> parser \<Rightarrow> parser js_result" where
  "parse_command plugins d p =
     (let v = dvalue d in
      if command p = js ''code'' then Inr (emit [js ''html += '' @ value_text v] p)
      else if command p = js ''arg'' then Inr (p\<lparr>args := args p @ [v]\<rparr>)
      else if command p = js ''each'' then Inr (parse_each v p)
      else case plugins (command p) of
             Some f \<Rightarrow> f d p
           | None \<Rightarrow> if command p = js ''eachField'' then Inr (parse_eachField v p) else Inr p)"

definition parse_end :: "jsstr \<Rightarrow> parser \<Rightarrow> parser" where
  "parse_end cmd p =
     (let p1 = (if cmd = js ''each'' then (emit [js ''}''] p)\<lparr>depth := depth p - 1\<rparr> else p);
          p2 = (if cmd = js ''eachField'' then (emit [js ''}''] p1)\<lparr>depth := depth p1 - 1\<rparr> else p1)
      in p2\<lparr>command := [], this_name := js ''this''\<rparr>)"

definition parse_variable :: "jsstr \<Rightarrow> parser \<Rightarrow> parser" where
  "parse_variable name p =
     (if this_name p \<noteq> [] then
        (if name = js ''this'' then emit [js ''html += '' @ this_name p] p
         else if list_ex (\<lambda>arg. arg = Some (hd (js_split 46 name))) (args p) then emit [js ''html += '' @ name] p
         else emit [js ''html += '' @ this_name p @ js ''.'' @ name] p)
      else emit [js ''html += '' @ name] p)"

text \<open>Included templates are read and parsed in place; \<open>None\<close> is an inclusion without end.  A file that
  cannot be read gives \<open>-1\<close>, from which no byte array can be made.\<close>

partial_function (option) parse_tokens ::
  "(bytes \<Rightarrow> jsstr) \<Rightarrow> (jsstr \<Rightarrow> bytes option) \<Rightarrow> (jsstr \<Rightarrow> (directive \<Rightarrow> parser \<Rightarrow> parser js_result) option)
   \<Rightarrow> token list \<Rightarrow> parser \<Rightarrow> parser js_result option" where
  "parse_tokens dec readFileBytes plugins ts p =
     (case ts of
        [] \<Rightarrow> Some (Inr p)
      | StringToken s # rest \<Rightarrow> parse_tokens dec readFileBytes plugins rest (emit [string_line s] p)
      | DirectiveToken d # rest \<Rightarrow>
          (case dname d of
             None \<Rightarrow> Some (Inl TypeError)
           | Some name \<Rightarrow>
               if char_at name 0 = Some 35 then
                 (let p1 = p\<lparr>command := tl name\<rparr> in
                  if command p1 = js ''template'' then
                    (case readFileBytes (root p1 @ value_text (dvalue d)) of
                       None \<Rightarrow> Some (Inl RangeError)
                     | Some buf \<Rightarrow>
                         run_bind (parse_tokens dec readFileBytes plugins (tokenize dec buf []) p1)
                           (\<lambda>p2. parse_tokens dec readFileBytes plugins rest p2))
                  else run_bind (Some (parse_command plugins d p1))
                         (\<lambda>p2. parse_tokens dec readFileBytes plugins rest p2))
               else if char_at name 0 = Some 47
                 then parse_tokens dec readFileBytes plugins rest (parse_end (tl name) p)
               else parse_tokens dec readFileBytes plugins rest (parse_variable name p)))"

definition parse_all ::
  "(bytes \<Rightarrow> jsstr) \<Rightarrow> (jsstr \<Rightarrow> bytes option) \<Rightarrow> (jsstr \<Rightarrow> (directive \<Rightarrow> parser \<Rightarrow> parser js_result) option)
   \<Rightarrow> token list \<Rightarrow> parser \<Rightarrow> parser js_result option" where
  "parse_all dec readFileBytes plugins ts p =
     run_bind (parse_tokens dec readFileBytes plugins ts (start_parser p)) (\<lambda>p1. Some (Inr (finish_parser p1)))"

text \<open>The parser whose source and arguments \<open>compile\<close> hands to the engine.\<close>

definition compile_source ::
  "(bytes \<Rightarrow> jsstr) \<Rightarrow> (jsstr \<Rightarrow> bytes option) \<Rightarrow> (jsstr \<Rightarrow> (directive \<Rightarrow> parser \<Rightarrow> parser js_result) option)
   \<Rightarrow> bytes \<Rightarrow> jsstr \<Rightarrow> parser js_result option" where
  "compile_source dec readFileBytes plugins template r =
     parse_all dec readFileBytes plugins (tokenize dec template []) (new_Parser r)"

section \<open>What the tokenizer reads\<close>

text \<open>Text without two opening braces in a row.\<close>

fun no_open :: "bytes \<Rightarrow> bool" where
  "no_open (a # b # s) \<longleftrightarrow> \<not> (a = 123 \<and> b = 123) \<and> no_open (b # s)"
| "no_open s \<longleftrightarrow> True"

lemma fold_text:
  assumes "\<not> inDirective t" and "no_open l" and "l \<noteq> [] \<longrightarrow> last_char t \<noteq> Some 123 \<or> hd l \<noteq> 123"
  shows "fold (token_step dec buf) l t =
    t\<lparr>last_char := (if l = [] then last_char t else Some (last l)), end_at := end_at t + length l\<rparr>"
  using assms
proof (induction l arbitrary: t)
  case (Cons c l)
  let ?t = "t\<lparr>last_char := Some c, end_at := end_at t + 1\<rparr>"
  have step: "token_step dec buf c t = ?t" using Cons.prems by (auto simp: token_step_def text_char_def)
  have "fold (token_step dec buf) l ?t =
      ?t\<lparr>last_char := (if l = [] then last_char ?t else Some (last l)), end_at := end_at ?t + length l\<rparr>"
    by (rule Cons.IH) (use Cons.prems in \<open>cases l; auto\<close>)+
  then show ?case by (simp add: step)
qed simp

lemma fold_name:
  assumes "inDirective t" and "inName t" and "list_all (\<lambda>c. c \<noteq> 32 \<and> c \<noteq> 125) l"
  shows "fold (token_step dec buf) l t = t\<lparr>name_chars := name_chars t @ l,
    last_char := (if l = [] then last_char t else Some (last l)), end_at := end_at t + length l\<rparr>"
  using assms
proof (induction l arbitrary: t)
  case (Cons c l)
  let ?t = "t\<lparr>name_chars := name_chars t @ [c], last_char := Some c, end_at := end_at t + 1\<rparr>"
  have step: "token_step dec buf c t = ?t" using Cons.prems by (auto simp: token_step_def directive_char_def)
  show ?case using Cons.IH [of ?t] Cons.prems by (simp add: step)
qed simp

lemma fold_value:
  assumes "inDirective t" and "\<not> inName t" and "125 \<notin> set l"
  shows "fold (token_step dec buf) l t = t\<lparr>name_chars := name_chars t @ l,
    last_char := (if l = [] then last_char t else Some (last l)), end_at := end_at t + length l\<rparr>"
  using assms
proof (induction l arbitrary: t)
  case (Cons c l)
  let ?t = "t\<lparr>name_chars := name_chars t @ [c], last_char := Some c, end_at := end_at t + 1\<rparr>"
  have step: "token_step dec buf c t = ?t" using Cons.prems by (auto simp: token_step_def directive_char_def)
  show ?case using Cons.IH [of ?t] Cons.prems by (simp add: step)
qed simp

text \<open>A directive with its optional value, and how it is written.\<close>

type_synonym directive_text = "jsstr \<times> jsstr option"

definition value_chars :: "jsstr option \<Rightarrow> bytes" where
  "value_chars v = (case v of None \<Rightarrow> [] | Some w \<Rightarrow> 32 # w)"

definition write_directive :: "directive_text \<Rightarrow> bytes" where
  "write_directive d = [123, 123] @ fst d @ value_chars (snd d) @ [125, 125]"

definition directive_ok :: "directive_text \<Rightarrow> bool" where
  "directive_ok d \<longleftrightarrow> fst d \<noteq> [] \<and> list_all (\<lambda>c. c \<noteq> 32 \<and> c \<noteq> 125) (fst d) \<and>
     (case snd d of None \<Rightarrow> True | Some w \<Rightarrow> w \<noteq> [] \<and> list_all (\<lambda>c. c \<noteq> 125) w)"

definition directive_token :: "directive_text \<Rightarrow> token" where
  "directive_token d = DirectiveToken \<lparr>dname = Some (fst d), dvalue = snd d\<rparr>"

text \<open>Between two directives.\<close>

definition between :: "nat \<Rightarrow> tokenizer \<Rightarrow> bool" where
  "between i t \<longleftrightarrow> \<not> inDirective t \<and> name_chars t = [] \<and> last_char t \<noteq> Some 123 \<and> start_at t = i \<and> end_at t = i"

lemma fold_open:
  assumes "\<not> inDirective t" and "last_char t \<noteq> Some 123"
  shows "fold (token_step dec buf) [123, 123] t = t\<lparr>inDirective := True, inName := True, directive_now := no_directive,
    tokens := tokens t @ (if end_at t - start_at t > 1 then [StringToken (dec (slice buf (start_at t) (end_at t)))] else []),
    last_char := Some 123, end_at := end_at t + 2\<rparr>"
proof -
  have "end_at t + 1 - start_at t > 2 \<longleftrightarrow> end_at t - start_at t > 1" by linarith
  then show ?thesis using assms by (simp add: token_step_def text_char_def)
qed

lemma fold_inside:
  assumes "inDirective t" and "inName t" and "name_chars t = []" and "directive_now t = no_directive" and "directive_ok d"
  shows "fold (token_step dec buf) (fst d @ value_chars (snd d) @ [125, 125]) t =
    t\<lparr>inName := (snd d = None), directive_now := \<lparr>dname = Some (fst d), dvalue = snd d\<rparr>,
      tokens := tokens t @ [directive_token d], inDirective := False, last_char := Some 125,
      start_at := end_at t + length (fst d) + length (value_chars (snd d)) + 2,
      end_at := end_at t + length (fst d) + length (value_chars (snd d)) + 2\<rparr>"
proof -
  obtain n v where d: "d = (n, v)" by fastforce
  have n: "n \<noteq> []" "list_all (\<lambda>c. c \<noteq> 32 \<and> c \<noteq> 125) n" using assms(5) by (simp_all add: d directive_ok_def)
  then have last: "last n \<noteq> 125" by (auto simp: list_all_iff)
  note name = fold_name [OF assms(1,2) n(2)]
  have same: "t\<lparr>inName := True\<rparr> = t" using assms(2) by (cases t) simp
  show ?thesis
  proof (cases v)
    case None
    then show ?thesis using n last assms
      by (simp add: d name Let_def same value_chars_def token_step_def directive_char_def close_directive_def directive_token_def
          no_directive_def truthy_def)
  next
    case (Some w)
    have w: "w \<noteq> []" "125 \<notin> set w" using assms(5) by (auto simp: d Some directive_ok_def list_all_iff)
    then have lw: "last w \<noteq> 125" using last_in_set by metis
    show ?thesis using n last w lw assms
      by (simp add: d Some name Let_def value_chars_def token_step_def directive_char_def close_directive_def directive_token_def
          no_directive_def truthy_def fold_value)
  qed
qed

definition text_ok :: "bytes \<Rightarrow> bool" where
  "text_ok l \<longleftrightarrow> no_open l \<and> length l \<noteq> 1 \<and> (l = [] \<or> last l \<noteq> 123)"

definition text_token :: "(bytes \<Rightarrow> jsstr) \<Rightarrow> bytes \<Rightarrow> token list" where
  "text_token dec l = (if l = [] then [] else [StringToken (dec l)])"

lemma fold_piece:
  assumes "between (length pre) t" and "text_ok l" and "directive_ok d" and "buf = pre @ l @ write_directive d @ post"
  shows "between (length (pre @ l @ write_directive d)) (fold (token_step dec buf) (l @ write_directive d) t) \<and>
    tokens (fold (token_step dec buf) (l @ write_directive d) t) = tokens t @ text_token dec l @ [directive_token d]"
proof -
  let ?t1 = "t\<lparr>last_char := (if l = [] then last_char t else Some (last l)), end_at := end_at t + length l\<rparr>"
  have t: "\<not> inDirective t" "name_chars t = []" "last_char t \<noteq> Some 123" "start_at t = length pre" "end_at t = length pre"
    using assms(1) by (simp_all add: between_def)
  have f1: "fold (token_step dec buf) l t = ?t1"
    by (rule fold_text) (use t assms(2) in \<open>simp_all add: text_ok_def\<close>)
  have f2: "fold (token_step dec buf) [123, 123] ?t1 = ?t1\<lparr>inDirective := True, inName := True, directive_now := no_directive,
    tokens := tokens ?t1 @ (if end_at ?t1 - start_at ?t1 > 1 then [StringToken (dec (slice buf (start_at ?t1) (end_at ?t1)))] else []),
    last_char := Some 123, end_at := end_at ?t1 + 2\<rparr>" (is "_ = ?t2")
    by (rule fold_open) (use t assms(2) in \<open>auto simp: text_ok_def\<close>)
  have "slice buf (length pre) (length pre + length l) = l" by (simp add: assms(4) slice_def)
  then have tok: "tokens ?t2 = tokens t @ text_token dec l"
    using assms(2) t by (cases l rule: rev_cases) (auto simp: text_token_def text_ok_def)
  have "fold (token_step dec buf) (l @ write_directive d) t =
      fold (token_step dec buf) (fst d @ value_chars (snd d) @ [125, 125]) ?t2"
    unfolding write_directive_def fold_append comp_def f1 f2 ..
  also have "\<dots> = ?t2\<lparr>inName := (snd d = None), directive_now := \<lparr>dname = Some (fst d), dvalue = snd d\<rparr>,
      tokens := tokens ?t2 @ [directive_token d], inDirective := False, last_char := Some 125,
      start_at := end_at ?t2 + length (fst d) + length (value_chars (snd d)) + 2,
      end_at := end_at ?t2 + length (fst d) + length (value_chars (snd d)) + 2\<rparr>"
    by (rule fold_inside) (use t assms(3) in simp_all)
  finally show ?thesis using t tok by (simp add: between_def write_directive_def)
qed

text \<open>A template: pieces of text, each before a directive, and the text after the last one.\<close>

definition write_pieces :: "(bytes \<times> directive_text) list \<Rightarrow> bytes" where
  "write_pieces ps = concat (map (\<lambda>(l, d). l @ write_directive d) ps)"

definition piece_tokens :: "(bytes \<Rightarrow> jsstr) \<Rightarrow> (bytes \<times> directive_text) list \<Rightarrow> token list" where
  "piece_tokens dec ps = concat (map (\<lambda>(l, d). text_token dec l @ [directive_token d]) ps)"

lemma fold_pieces:
  assumes "between (length pre) t" and "list_all (\<lambda>(l, d). text_ok l \<and> directive_ok d) ps" and "buf = pre @ write_pieces ps @ post"
  shows "between (length (pre @ write_pieces ps)) (fold (token_step dec buf) (write_pieces ps) t) \<and>
    tokens (fold (token_step dec buf) (write_pieces ps) t) = tokens t @ piece_tokens dec ps"
  using assms
proof (induction ps arbitrary: pre t)
  case Nil
  then show ?case by (simp add: write_pieces_def piece_tokens_def)
next
  case (Cons p ps)
  obtain l d where p: "p = (l, d)" by (metis surj_pair)
  let ?t = "fold (token_step dec buf) (l @ write_directive d) t"
  have w: "write_pieces (p # ps) = (l @ write_directive d) @ write_pieces ps" by (simp add: p write_pieces_def)
  have buf: "buf = pre @ l @ write_directive d @ write_pieces ps @ post" using Cons.prems(3) by (simp add: w)
  have piece: "between (length (pre @ l @ write_directive d)) ?t \<and> tokens ?t = tokens t @ text_token dec l @ [directive_token d]"
    by (rule fold_piece [OF Cons.prems(1) _ _ buf]) (use Cons.prems(2) in \<open>simp_all add: p\<close>)
  have "between (length ((pre @ l @ write_directive d) @ write_pieces ps)) (fold (token_step dec buf) (write_pieces ps) ?t) \<and>
    tokens (fold (token_step dec buf) (write_pieces ps) ?t) = tokens ?t @ piece_tokens dec ps"
    by (rule Cons.IH) (use piece Cons.prems(2) buf in simp_all)
  then show ?case using piece unfolding w fold_append comp_def by (simp add: p piece_tokens_def)
qed

lemma tokenize_pieces:
  assumes "list_all (\<lambda>(l, d). text_ok l \<and> directive_ok d) ps" and "no_open end_text"
  shows "tokenize dec (write_pieces ps @ end_text) ts = ts @ piece_tokens dec ps @ text_token dec end_text"
proof -
  define buf where "buf = write_pieces ps @ end_text"
  define t where "t = fold (token_step dec buf) (write_pieces ps) (start_tokenizer ts)"
  have b: "between (length (write_pieces ps)) t" "tokens t = ts @ piece_tokens dec ps"
    using fold_pieces [of "[]" "start_tokenizer ts" ps buf end_text dec] assms(1)
    by (simp_all add: between_def start_tokenizer_def buf_def t_def)
  have e: "fold (token_step dec buf) end_text t =
      t\<lparr>last_char := (if end_text = [] then last_char t else Some (last end_text)), end_at := end_at t + length end_text\<rparr>"
    by (rule fold_text) (use b assms(2) in \<open>simp_all add: between_def\<close>)
  have "slice buf (length (write_pieces ps)) (length (write_pieces ps) + length end_text) = end_text"
    by (simp add: buf_def slice_def)
  moreover have "tokenize dec buf ts = (let t = fold (token_step dec buf) end_text t
      in if end_at t - start_at t > 0
         then tokens t @ [StringToken (dec (slice buf (start_at t) (end_at t)))] else tokens t)"
    unfolding tokenize_def t_def by (subst (2) buf_def) simp
  ultimately show ?thesis unfolding e buf_def [symmetric] Let_def
    using b by (simp add: between_def text_token_def)
qed



section \<open>Where the tokenizer loses or repeats text\<close>

text \<open>A single character before a directive is dropped.\<close>

lemma single_character_dropped:
  "tokenize id (js ''a{{x}}'') [] = [DirectiveToken \<lparr>dname = Some (js ''x''), dvalue = None\<rparr>]"
  by code_simp

text \<open>The text before a directive that is not closed comes twice.\<close>

lemma unclosed_directive_repeats:
  "tokenize id (js ''ab{{x'') [] = [StringToken (js ''ab''), StringToken (js ''ab{{x'')]"
  by code_simp

section \<open>What escaping leaves of a text\<close>

text \<open>A text that a template literal would evaluate: \<open>${x}\<close> at its start, or anywhere.\<close>

definition starts_variable :: "jsstr \<Rightarrow> bool" where
  "starts_variable s \<longleftrightarrow> (case s of c # d # t \<Rightarrow> c = 36 \<and> d = 123 \<and>
     takeWhile (\<lambda>c. c \<noteq> 125) t \<noteq> [] \<and> dropWhile (\<lambda>c. c \<noteq> 125) t \<noteq> [] | _ \<Rightarrow> False)"

fun has_variable :: "jsstr \<Rightarrow> bool" where
  "has_variable [] \<longleftrightarrow> False"
| "has_variable (c # s) \<longleftrightarrow> starts_variable (c # s) \<or> has_variable s"

fun has_opening :: "jsstr \<Rightarrow> bool" where
  "has_opening (a # b # s) \<longleftrightarrow> a = 36 \<and> b = 123 \<or> has_opening (b # s)"
| "has_opening s \<longleftrightarrow> False"

text \<open>No \<open>${\<close> stands inside another \<open>${x}\<close>.\<close>

fun not_nested :: "jsstr \<Rightarrow> bool" where
  "not_nested [] \<longleftrightarrow> True"
| "not_nested (c # s) \<longleftrightarrow>
     (if starts_variable (c # s) then \<not> has_opening (takeWhile (\<lambda>c. c \<noteq> 125) (tl s)) else True) \<and> not_nested s"

lemma replace_variables_Cons:
  "replace_variables (c # s) =
    (if starts_variable (c # s)
     then js ''&dollar;{'' @ takeWhile (\<lambda>c. c \<noteq> 125) (tl s) @ [125] @
       replace_variables (tl (dropWhile (\<lambda>c. c \<noteq> 125) (tl s)))
     else c # replace_variables s)"
  by (cases s) (auto simp: replace_variables.simps(2) starts_variable_def Let_def)

lemma has_variable_prefix:
  assumes "\<not> has_opening b" and "\<not> has_variable r" and "b = [] \<or> last b \<noteq> 36 \<or> r = [] \<or> hd r \<noteq> 123"
  shows "\<not> has_variable (b @ r)"
  using assms
proof (induction b)
  case (Cons a b)
  have "\<not> has_variable (b @ r)" using Cons by (cases b) auto
  moreover have "\<not> starts_variable (a # b @ r)"
    using Cons.prems by (cases b; cases r) (auto simp: starts_variable_def)
  ultimately show ?case by simp
qed simp

lemma closing_replaced: "125 \<notin> set s \<Longrightarrow> replace_variables s = s"
proof (induction s)
  case (Cons c s)
  have "\<not> starts_variable (c # s)"
    using Cons.prems by (auto simp: starts_variable_def dropWhile_eq_Nil_conv split: list.splits)
  then show ?case using Cons by (simp add: replace_variables_Cons)
qed simp

lemma not_nested_suffix: "not_nested (a @ b) \<Longrightarrow> not_nested b"
  by (induction a) auto

lemma replace_variables_head:
  "replace_variables (c # s) = c # replace_variables s \<or>
    (\<exists>r. replace_variables (c # s) = js ''&dollar;{'' @ r)"
  unfolding replace_variables_Cons by simp

text \<open>A dollar sign that starts no variable starts none after the replacement.\<close>

lemma kept_starts_nothing:
  assumes "\<not> starts_variable (c # s)"
  shows "\<not> starts_variable (c # replace_variables s)"
proof (cases s)
  case (Cons d t)
  show ?thesis
  proof (cases "c = 36 \<and> d = 123")
    case True
    then have "\<not> starts_variable (d # t)" by (simp add: starts_variable_def split: list.split)
    then have r: "replace_variables s = 123 # replace_variables t" using True by (simp add: Cons replace_variables_Cons)
    from assms True have "takeWhile (\<lambda>c. c \<noteq> 125) t = [] \<or> 125 \<notin> set t"
      by (auto simp: Cons starts_variable_def dropWhile_eq_Nil_conv)
    then show ?thesis
    proof
      assume "takeWhile (\<lambda>c. c \<noteq> 125) t = []"
      then show ?thesis
        by (cases t) (auto simp: r starts_variable_def replace_variables_Cons split: if_splits list.splits)
    next
      assume "125 \<notin> set t"
      then show ?thesis by (auto simp: r closing_replaced starts_variable_def dropWhile_eq_Nil_conv)
    qed
  next
    case False
    then show ?thesis using replace_variables_head [of d t]
      by (auto simp: Cons starts_variable_def split: list.splits)
  qed
qed (simp add: starts_variable_def)

lemma replace_variables_safe: "not_nested s \<Longrightarrow> \<not> has_variable (replace_variables s)"
proof (induction s rule: length_induct)
  case (1 s)
  show ?case
  proof (cases s)
    case (Cons c t)
    show ?thesis
    proof (cases "starts_variable (c # t)")
      case True
      let ?body = "takeWhile (\<lambda>c. c \<noteq> 125) (tl t)" and ?rest = "dropWhile (\<lambda>c. c \<noteq> 125) (tl t)"
      from True obtain u where t: "c = 36" "t = 123 # u" "?rest \<noteq> []"
        by (auto simp: starts_variable_def split: list.splits)
      have body: "\<not> has_opening ?body" using "1.prems" True by (simp add: Cons)
      have u: "u = (?body @ [hd ?rest]) @ tl ?rest" using t by simp
      have "not_nested u" using "1.prems" by (simp add: Cons t(2))
      then have n: "not_nested (tl ?rest)" using not_nested_suffix u by metis
      have "length (tl ?rest) < length s" using length_dropWhile_le [of "\<lambda>c. c \<noteq> 125" u] by (simp add: Cons t(2))
      with n "1.IH" have safe: "\<not> has_variable (replace_variables (tl ?rest))" by blast
      have open1: "\<not> has_opening (js ''&dollar;{'' @ ?body)" using body by (cases ?body) auto
      have "\<not> has_variable ((js ''&dollar;{'' @ ?body) @ 125 # replace_variables (tl ?rest))"
        by (rule has_variable_prefix [OF open1]) (use safe in \<open>simp_all add: starts_variable_def split: list.split\<close>)
      then show ?thesis using True by (simp add: Cons replace_variables_Cons)
    next
      case False
      have "\<not> has_variable (replace_variables t)" using "1.IH" "1.prems" by (simp add: Cons)
      then show ?thesis using False kept_starts_nothing [OF False] by (simp add: Cons replace_variables_Cons)
    qed
  qed simp
qed

text \<open>Replacing the backticks leaves braces and dollar signs alone.\<close>

lemma replace_backticks_simps [simp]:
  "replace_backticks [] = []"
  "replace_backticks (c # s) = (if c = 96 then js ''&#96;'' else [c]) @ replace_backticks s"
  by (simp_all add: replace_backticks_def)

lemma backticks_takeWhile:
  "takeWhile (\<lambda>c. c \<noteq> 125) (replace_backticks s) = replace_backticks (takeWhile (\<lambda>c. c \<noteq> 125) s)"
  "dropWhile (\<lambda>c. c \<noteq> 125) (replace_backticks s) = replace_backticks (dropWhile (\<lambda>c. c \<noteq> 125) s)"
  by (induction s) auto

lemma replace_backticks_Nil: "replace_backticks s = [] \<longleftrightarrow> s = []"
  by (cases s) auto

lemma backticks_opening: "has_opening (replace_backticks s) = has_opening s"
  by (induction s rule: has_opening.induct) auto

lemma backticks_closing: "125 \<in> set (replace_backticks s) \<longleftrightarrow> 125 \<in> set s"
  by (induction s) auto

lemma backticks_starts: "c \<noteq> 96 \<Longrightarrow> starts_variable (c # replace_backticks s) = starts_variable (c # s)"
  by (cases s) (auto simp: starts_variable_def backticks_takeWhile replace_backticks_Nil backticks_closing)

lemma backticks_not_nested: "not_nested (replace_backticks s) = not_nested s"
proof (induction s)
  case (Cons c s)
  have plain: "\<not> starts_variable (a # t)" if "a \<noteq> 36" for a t
    using that by (simp add: starts_variable_def split: list.split)
  show ?case
  proof (cases "c = 96")
    case True
    then show ?thesis using Cons by (simp add: plain)
  next
    case c: False
    show ?thesis
    proof (cases "starts_variable (c # s)")
      case True
      then obtain u where "s = 123 # u" by (auto simp: starts_variable_def split: list.splits)
      then show ?thesis using Cons c backticks_starts [OF c, of s]
        by (simp add: backticks_takeWhile backticks_opening)
    next
      case False
      then show ?thesis using Cons c by (simp add: backticks_starts)
    qed
  qed
qed simp

lemma replace_backticks_none: "96 \<notin> set (replace_backticks s)"
  by (induction s) auto

lemma replace_variables_chars: "set (replace_variables s) \<subseteq> set s \<union> set (js ''&dollar;{}'')"
proof (induction s rule: length_induct)
  case (1 s)
  show ?case
  proof (cases s)
    case (Cons c t)
    let ?rest = "dropWhile (\<lambda>c. c \<noteq> 125) (tl t)"
    have "length (tl ?rest) < length s" using length_dropWhile_le [of "\<lambda>c. c \<noteq> 125" "tl t"] by (simp add: Cons)
    then have "set (replace_variables (tl ?rest)) \<subseteq> set (tl ?rest) \<union> set (js ''&dollar;{}'')" using "1.IH" by blast
    moreover have tl: "set (tl xs) \<subseteq> set xs" for xs :: jsstr by (cases xs) auto
    have "set ?rest \<subseteq> set (tl t)" "set (takeWhile (\<lambda>c. c \<noteq> 125) (tl t)) \<subseteq> set (tl t)"
      by (auto dest: set_dropWhileD set_takeWhileD)
    then have "set (tl ?rest) \<subseteq> set t" "set (takeWhile (\<lambda>c. c \<noteq> 125) (tl t)) \<subseteq> set t"
      using tl [of ?rest] tl [of t] by blast+
    moreover have "set (replace_variables t) \<subseteq> set t \<union> set (js ''&dollar;{}'')" using "1.IH" by (simp add: Cons)
    ultimately show ?thesis unfolding Cons replace_variables_Cons by (auto dest: subsetD)
  qed simp
qed

lemma sanitize_safe: "96 \<notin> set (sanitize s) \<and> (not_nested s \<longrightarrow> \<not> has_variable (sanitize s))"
proof -
  have "96 \<notin> set (sanitize s)"
    using replace_variables_chars [of "replace_backticks s"] replace_backticks_none [of s] by (auto simp: sanitize_def)
  then show ?thesis using replace_variables_safe [of "replace_backticks s"]
    by (simp add: sanitize_def backticks_not_nested)
qed

text \<open>C29: Escaped text contains no backtick, so it cannot end the template literal that the compiler puts it in;
  and unless a \<open>${\<close> stands inside another \<open>${x}\<close> of the text, nothing in it is evaluated.\<close>

theorem sanitize_inert:
  "96 \<notin> set (sanitize s) \<and> (not_nested s \<longrightarrow> \<not> has_variable (sanitize s))"
  by (rule sanitize_safe)

theorem sanitize_inert_witness:
  "sanitize (js ''a ${b} `'') = js ''a &dollar;{b} &#96;'' \<and> \<not> has_variable (sanitize (js ''a ${b} `''))"
proof -
  have "not_nested (js ''a ${b} `'')" by code_simp
  moreover have "sanitize (js ''a ${b} `'') = js ''a &dollar;{b} &#96;''" by code_simp
  ultimately show ?thesis using sanitize_inert [of "js ''a ${b} `''"] by blast
qed

text \<open>A nested variable survives, and the engine evaluates it; a backslash at the end escapes the closing
  backtick.\<close>

lemma nested_variable_survives: "sanitize (js ''${${x}'') = js ''&dollar;{${x}''"
  by code_simp

lemma backslash_stays: "string_line (js ''a'' @ [92]) = js ''html += String.raw'' @ [96] @ js ''a'' @ [92, 96]"
  by code_simp

section \<open>What is compiled\<close>

text \<open>After the end of an inner loop \<open>this\<close> names no longer the variable of the outer loop.\<close>

lemma parse_end_forgets_outer: "this_name (parse_end (js ''each'') p) = js ''this''"
  by (simp add: parse_end_def Let_def)

end
