(* ===== verification/Stream_Base.thy ===== *)
theory Stream_Base
  imports Prelude
begin

text \<open>
  What the streams of \<open>packages/zero/lib/whatwg/streams\<close> share: code that changes a state and may
  throw, promises, numbers, and the queues with sizes of \<open>helpers.js\<close>.  A procedure returns its result
  or the thrown value together with the state it leaves, so what was changed before an exception stays
  changed.
\<close>

section \<open>Procedures\<close>

text \<open>A thrown value or the reason of a rejection: \<open>undefined\<close>, an error, or any other value.\<close>

datatype reason = Undefined | Error js_error | Reason nat

type_synonym ('s, 'a) proc = "'s \<Rightarrow> (reason + 'a) \<times> 's"

definition ret :: "'a \<Rightarrow> ('s, 'a) proc" where
  "ret x s = (Inr x, s)"

definition throw :: "reason \<Rightarrow> ('s, 'a) proc" where
  "throw e s = (Inl e, s)"

definition bindp :: "('s, 'a) proc \<Rightarrow> ('a \<Rightarrow> ('s, 'b) proc) \<Rightarrow> ('s, 'b) proc" where
  "bindp p f s = (case p s of (Inl e, t) \<Rightarrow> (Inl e, t) | (Inr x, t) \<Rightarrow> f x t)"

definition thenp :: "('s, 'a) proc \<Rightarrow> ('s, 'b) proc \<Rightarrow> ('s, 'b) proc" where
  "thenp p q = bindp p (\<lambda>x. q)"

fun seqp :: "('s, unit) proc list \<Rightarrow> ('s, unit) proc" where
  "seqp [] = ret ()"
| "seqp (p # ps) = thenp p (seqp ps)"

definition modify :: "('s \<Rightarrow> 's) \<Rightarrow> ('s, unit) proc" where
  "modify f s = (Inr (), f s)"

text \<open>Code that depends on the state it starts in.\<close>

definition withp :: "('s \<Rightarrow> 'a) \<Rightarrow> ('a \<Rightarrow> ('s, 'b) proc) \<Rightarrow> ('s, 'b) proc" where
  "withp g f s = f (g s) s"

definition ifp :: "('s \<Rightarrow> bool) \<Rightarrow> ('s, 'a) proc \<Rightarrow> ('s, 'a) proc \<Rightarrow> ('s, 'a) proc" where
  "ifp c p q s = (if c s then p s else q s)"

definition whenp :: "('s \<Rightarrow> bool) \<Rightarrow> ('s, unit) proc \<Rightarrow> ('s, unit) proc" where
  "whenp c p = ifp c p (ret ())"

text \<open>\<open>assert\<close> throws a plain \<open>Error\<close>; a call of something that is no function throws a \<open>TypeError\<close>.\<close>

definition assertp :: "('s \<Rightarrow> bool) \<Rightarrow> ('s, unit) proc" where
  "assertp c = ifp c (ret ()) (throw (Error OtherError))"

definition call_undefined :: "('s, 'a) proc" where
  "call_undefined = throw (Error TypeError)"

definition catchp :: "('s, 'a) proc \<Rightarrow> (reason \<Rightarrow> ('s, 'a) proc) \<Rightarrow> ('s, 'a) proc" where
  "catchp p h s = (case p s of (Inl e, t) \<Rightarrow> h e t | (Inr x, t) \<Rightarrow> (Inr x, t))"

text \<open>Running a procedure by rewriting.\<close>

lemmas run_simps = ret_def throw_def bindp_def thenp_def modify_def withp_def ifp_def whenp_def assertp_def call_undefined_def

lemma step_simps:
  "thenp (modify f) q s = q (f s)" "P s \<Longrightarrow> thenp (assertp P) q s = q s" "thenp (ret x) q s = q s"
  "thenp (whenp c p') q s = (if c s then thenp p' q s else q s)" "thenp (thenp a b) q s = thenp a (thenp b q) s"
  by (auto simp: run_simps split: prod.split sum.split)

lemma snd_then_ret [simp]: "snd (thenp p (ret x) s) = snd (p s)"
  by (auto simp: run_simps split: prod.split sum.split)

text \<open>A run that throws no assertion and ends in a state with \<open>I\<close>, normally or not.\<close>

definition safe :: "('s \<Rightarrow> bool) \<Rightarrow> (reason + 'a) \<times> 's \<Rightarrow> bool" where
  "safe I r \<longleftrightarrow> fst r \<noteq> Inl (Error OtherError) \<and> I (snd r)"

lemma safe_Inr [simp]: "safe I (Inr x, t) = I t"
  and safe_Inl [simp]: "safe I (Inl e, t) = (e \<noteq> Error OtherError \<and> I t)"
  by (simp_all add: safe_def)

lemma safe_bind:
  assumes "safe I (p s)" and "\<And>x t. p s = (Inr x, t) \<Longrightarrow> safe I (f x t)"
  shows "safe I (bindp p f s)"
  using assms by (cases "p s"; cases "fst (p s)") (auto simp: bindp_def)

lemma safe_then:
  "safe I (p s) \<Longrightarrow> (\<And>x t. p s = (Inr x, t) \<Longrightarrow> safe I (q t)) \<Longrightarrow> safe I (thenp p q s)"
  unfolding thenp_def by (rule safe_bind)

lemma safe_seq:
  assumes "safe I (p s)" and "\<And>t. I t \<Longrightarrow> safe I (q t)"
  shows "safe I (thenp p q s)"
  by (rule safe_then [of I p s]) (use assms in \<open>auto simp: safe_def\<close>)

lemma safe_mono: "safe I r \<Longrightarrow> (\<And>t. I t \<Longrightarrow> J t) \<Longrightarrow> safe J r"
  by (auto simp: safe_def)

text \<open>A procedure that keeps a property of the state, however it ends.\<close>

definition keeps :: "('s \<Rightarrow> bool) \<Rightarrow> ('s, 'a) proc \<Rightarrow> bool" where
  "keeps I p \<longleftrightarrow> (\<forall>s. I s \<longrightarrow> I (snd (p s)))"

named_theorems keeps_rules

lemma keepsD: "keeps I p \<Longrightarrow> I s \<Longrightarrow> I (snd (p s))"
  by (simp add: keeps_def)

lemma keeps_after: "I (snd (p s)) \<Longrightarrow> keeps I q \<Longrightarrow> I (snd (thenp p q s))"
  by (auto simp: keeps_def thenp_def bindp_def split: prod.split sum.split)

lemma keeps_simple [keeps_rules]:
  "keeps I (ret x)" "keeps I (throw e)" "keeps I call_undefined" "keeps I (assertp c)"
  by (simp_all add: keeps_def run_simps)

lemma keeps_modify [keeps_rules]: "(\<And>s. I s \<Longrightarrow> I (f s)) \<Longrightarrow> keeps I (modify f)"
  by (simp add: keeps_def modify_def)

lemma keeps_bind [keeps_rules]: "keeps I p \<Longrightarrow> (\<And>x. keeps I (f x)) \<Longrightarrow> keeps I (bindp p f)"
  by (force simp: keeps_def bindp_def split: prod.split sum.split)

lemma keeps_then [keeps_rules]: "keeps I p \<Longrightarrow> keeps I q \<Longrightarrow> keeps I (thenp p q)"
  unfolding thenp_def by (rule keeps_bind)

lemma keeps_with [keeps_rules]: "(\<And>x. keeps I (f x)) \<Longrightarrow> keeps I (withp g f)"
  by (simp add: keeps_def withp_def)

lemma keeps_if [keeps_rules]: "keeps I p \<Longrightarrow> keeps I q \<Longrightarrow> keeps I (ifp c p q)"
  by (simp add: keeps_def ifp_def)

lemma keeps_when [keeps_rules]: "keeps I p \<Longrightarrow> keeps I (whenp c p)"
  by (simp add: keeps_def whenp_def ifp_def ret_def)

lemma keeps_cases [keeps_rules]:
  "(b \<Longrightarrow> keeps I p) \<Longrightarrow> (\<not> b \<Longrightarrow> keeps I q) \<Longrightarrow> keeps I (if b then p else q)"
  "keeps I p \<Longrightarrow> (\<And>x. keeps I (f x)) \<Longrightarrow> keeps I (case m of None \<Rightarrow> p | Some x \<Rightarrow> f x)"
  "(\<And>e. keeps I (g e)) \<Longrightarrow> (\<And>x. keeps I (f' x)) \<Longrightarrow> keeps I (case r of Inl e \<Rightarrow> g e | Inr x \<Rightarrow> f' x)"
  "(\<And>x y. keeps I (h x y)) \<Longrightarrow> keeps I (case u of (x, y) \<Rightarrow> h x y)"
  by (auto split: option.split sum.split prod.split)

text \<open>An event of a run returns a promise or nothing.\<close>

definition run_unit :: "('s, 'a) proc \<Rightarrow> ('s, nat option) proc" where
  "run_unit p = thenp p (ret None)"

definition run_promise :: "('s, nat) proc \<Rightarrow> ('s, nat option) proc" where
  "run_promise p = bindp p (\<lambda>i. ret (Some i))"

lemma safe_ret_after: "safe I (p s) \<Longrightarrow> safe I (thenp p (ret x) s)"
  by (rule safe_then) (auto simp: ret_def safe_def)

lemma safe_run_unit: "safe I (p s) \<Longrightarrow> safe I (run_unit p s)"
  unfolding run_unit_def by (rule safe_ret_after)

lemma safe_run_promise: "safe I (p s) \<Longrightarrow> safe I (run_promise p s)"
  unfolding run_promise_def by (rule safe_bind) (auto simp: ret_def safe_def)

lemma keeps_run [keeps_rules]:
  "keeps I p \<Longrightarrow> keeps I (run_unit p)" "keeps I q \<Longrightarrow> keeps I (run_promise q)"
  unfolding run_unit_def run_promise_def by (intro keeps_rules; assumption)+

section \<open>Numbers\<close>

text \<open>Numbers of the strategy: finite ones are integers here, as counts and byte lengths are.\<close>

datatype js_number = NaN | Infinite bool | Finite int

definition IsNonNegativeNumber :: "js_number \<Rightarrow> bool" where
  "IsNonNegativeNumber v = (case v of NaN \<Rightarrow> False | Infinite neg \<Rightarrow> \<not> neg | Finite i \<Rightarrow> \<not> i < 0)"

definition IsFiniteNonNegativeNumber :: "js_number \<Rightarrow> bool" where
  "IsFiniteNonNegativeNumber v =
     (if \<not> IsNonNegativeNumber v then False else if v = Infinite False then False else True)"

definition ValidateAndNormalizeHighWaterMark :: "js_number \<Rightarrow> ('s, js_number) proc" where
  "ValidateAndNormalizeHighWaterMark v =
     (if v = NaN \<or> (case v of Infinite neg \<Rightarrow> neg | Finite i \<Rightarrow> i < 0 | NaN \<Rightarrow> False)
      then throw (Error RangeError) else ret v)"

text \<open>A high water mark minus a total size, and its comparison with zero.\<close>

definition minus_total :: "js_number \<Rightarrow> int \<Rightarrow> js_number" where
  "minus_total v i = (case v of NaN \<Rightarrow> NaN | Infinite neg \<Rightarrow> Infinite neg | Finite h \<Rightarrow> Finite (h - i))"

definition at_most_zero :: "js_number \<Rightarrow> bool" where
  "at_most_zero v = (case v of NaN \<Rightarrow> False | Infinite neg \<Rightarrow> neg | Finite i \<Rightarrow> i \<le> 0)"

definition above_zero :: "js_number \<Rightarrow> bool" where
  "above_zero v = (case v of NaN \<Rightarrow> False | Infinite neg \<Rightarrow> \<not> neg | Finite i \<Rightarrow> 0 < i)"

lemma finite_number: "IsFiniteNonNegativeNumber v \<longleftrightarrow> (\<exists>i \<ge> 0. v = Finite i)"
  by (cases v) (auto simp: IsFiniteNonNegativeNumber_def IsNonNegativeNumber_def)

section \<open>Queues with sizes\<close>

text \<open>The fields \<open>kQueue\<close> and \<open>kQueueTotalSize\<close> of a controller.\<close>

type_synonym 'v sized_queue = "('v \<times> int) list \<times> int"

definition ResetQueue :: "'v sized_queue" where
  "ResetQueue = ([], 0)"

definition EnqueueValueWithSize :: "'v \<Rightarrow> js_number \<Rightarrow> 'v sized_queue \<Rightarrow> 'v sized_queue js_result" where
  "EnqueueValueWithSize v n q =
     (case n of
        Finite i \<Rightarrow> if IsFiniteNonNegativeNumber n then Inr (fst q @ [(v, i)], snd q + i) else Inl RangeError
      | _ \<Rightarrow> Inl RangeError)"

definition DequeueValue :: "'v sized_queue \<Rightarrow> ('v \<times> 'v sized_queue) js_result" where
  "DequeueValue q =
     (case fst q of
        [] \<Rightarrow> Inl OtherError
      | (v, i) # r \<Rightarrow> Inr (v, r, let t = snd q - i in if t < 0 then 0 else t))"

definition PeekQueueValue :: "'v sized_queue \<Rightarrow> 'v js_result" where
  "PeekQueueValue q = (case fst q of [] \<Rightarrow> Inl OtherError | (v, i) # r \<Rightarrow> Inr v)"

text \<open>The total is the sum of the sizes, none of which is negative.\<close>

definition queue_ok :: "'v sized_queue \<Rightarrow> bool" where
  "queue_ok q \<longleftrightarrow> snd q = sum_list (map snd (fst q)) \<and> (\<forall>i \<in> snd ` set (fst q). 0 \<le> i)"

lemma queue_ok_reset [simp]: "queue_ok ResetQueue"
  by (simp add: queue_ok_def ResetQueue_def)

lemma queue_ok_total: "queue_ok q \<Longrightarrow> 0 \<le> snd q"
  by (auto simp: queue_ok_def intro!: sum_list_nonneg)

lemma enqueue_ok: "queue_ok q \<Longrightarrow> EnqueueValueWithSize v n q = Inr q' \<Longrightarrow>
    queue_ok q' \<and> map fst (fst q') = map fst (fst q) @ [v]"
  by (auto simp: EnqueueValueWithSize_def queue_ok_def finite_number split: js_number.splits if_splits)

lemma dequeue_ok:
  assumes "queue_ok q" and "fst q \<noteq> []"
  shows "\<exists>v q'. DequeueValue q = Inr (v, q') \<and> queue_ok q' \<and> map fst (fst q) = v # map fst (fst q')"
proof -
  obtain v i r where q: "fst q = (v, i) # r" using assms(2) by (cases "fst q") auto
  have "0 \<le> sum_list (map snd r)" using assms(1) by (auto simp: queue_ok_def q intro!: sum_list_nonneg)
  moreover have "snd q = i + sum_list (map snd r)" using assms(1) by (simp add: queue_ok_def q)
  ultimately have "DequeueValue q = Inr (v, r, sum_list (map snd r))" by (simp add: DequeueValue_def q)
  then show ?thesis using assms(1) by (simp add: queue_ok_def q)
qed

section \<open>Promises\<close>

datatype 'v promise = Pending | Fulfilled 'v | Rejected reason

text \<open>Promises are numbered in the order they are made; settling a promise that is settled does nothing.\<close>

definition settle :: "nat \<Rightarrow> 'v promise \<Rightarrow> 'v promise list \<Rightarrow> 'v promise list" where
  "settle i v ps = (if i < length ps \<and> ps ! i = Pending then ps[i := v] else ps)"

lemma length_settle [simp]: "length (settle i v ps) = length ps"
  by (simp add: settle_def)

lemma settle_other: "i \<noteq> j \<Longrightarrow> settle i v ps ! j = ps ! j"
  by (simp add: settle_def)

end
