(* ===== verification/Writable.thy ===== *)
theory Writable
  imports Stream_Base
begin

text \<open>
  Writable streams: \<open>packages/zero/lib/whatwg/streams/writable.js\<close>.  The underlying sink is the
  environment: its algorithms are recorded when they are called, and how the promises they return are settled
  comes as a later event.  A sink that calls back into the stream does so at the end of the code that called
  it, so such a call is an event too.  The size function of the strategy is a parameter; it calls nothing of
  the stream, so the test after it whether the writer was released has one outcome.  The brand checks succeed
  for the objects modelled here.  Promises are numbers; the two functions that settle
  a promise of a writer are set and cleared together and are one flag.

  A request is an object with the properties \<open>_resolve\<close> and \<open>_reject\<close>, but it is read through the
  private symbols \<open>kResolve\<close> and \<open>kReject\<close> of \<open>symbols.js\<close>; these are other keys, so the read
  gives \<open>undefined\<close> and the call throws a \<open>TypeError\<close>.
\<close>

section \<open>State\<close>

datatype stream_state = Writable | Erroring | Errored | Closed

datatype promise_state = PendingState | FulfilledState | RejectedState

record writer =
  owns_stream :: bool
  readyPromise :: nat
  readyFns :: bool
  readyState :: promise_state
  closedPromise :: nat
  closedFns :: bool
  closedState :: promise_state

datatype 'c write_record = WriteRecord 'c | CloseRecord

datatype 'c sink_call = SinkWrite 'c | SinkClose | SinkAbort reason

text \<open>An abort request: \<open>kPromise\<close>, and the properties \<open>_reason\<close> and \<open>_wasAlreadyErroring\<close>.\<close>

record abort_request =
  abort_promise :: nat
  prop_reason :: reason
  prop_wasAlreadyErroring :: bool

record 'c writable =
  wstate :: stream_state
  storedError :: reason
  the_writer :: "nat option"
  writeRequests :: "nat list"
  inFlightWriteRequest :: "nat option"
  closeRequest :: "nat option"
  inFlightCloseRequest :: "nat option"
  pendingAbortRequest :: "abort_request option"
  backpressure :: bool
  wqueue :: "'c write_record sized_queue"
  started :: bool
  strategyHWM :: js_number
  writers :: "writer list"
  promises :: "unit promise list"
  sink_calls :: "'c sink_call list"
  start_pending :: bool
  write_pending :: bool
  close_pending :: bool
  abort_pending :: "nat option"

definition InitializeWritableStream :: "js_number \<Rightarrow> 'c writable" where
  "InitializeWritableStream hwm = \<lparr>wstate = Writable, storedError = Undefined, the_writer = None,
     writeRequests = [], inFlightWriteRequest = None, closeRequest = None, inFlightCloseRequest = None,
     pendingAbortRequest = None, backpressure = False, wqueue = ResetQueue, started = False, strategyHWM = hwm,
     writers = [], promises = [], sink_calls = [], start_pending = False, write_pending = False,
     close_pending = False, abort_pending = None\<rparr>"

definition new_promise :: "unit promise \<Rightarrow> ('c writable, nat) proc" where
  "new_promise p s = (Inr (length (promises s)), s\<lparr>promises := promises s @ [p]\<rparr>)"

definition settle_promise :: "nat \<Rightarrow> unit promise \<Rightarrow> ('c writable, unit) proc" where
  "settle_promise i p = modify (\<lambda>s. s\<lparr>promises := settle i p (promises s)\<rparr>)"

definition update_writer :: "nat \<Rightarrow> (writer \<Rightarrow> writer) \<Rightarrow> ('c writable, unit) proc" where
  "update_writer w f = modify (\<lambda>s. s\<lparr>writers := (writers s)[w := f (writers s ! w)]\<rparr>)"

text \<open>\<open>request[kResolve](\<dots>)\<close> and \<open>request[kReject](\<dots>)\<close>.\<close>

definition call_kResolve :: "nat \<Rightarrow> ('c writable, unit) proc" where
  "call_kResolve request = call_undefined"

definition call_kReject :: "nat \<Rightarrow> reason \<Rightarrow> ('c writable, unit) proc" where
  "call_kReject request e = call_undefined"

definition abort_kReason :: "abort_request \<Rightarrow> reason" where
  "abort_kReason a = Undefined"

definition abort_kWasAlreadyErroring :: "abort_request \<Rightarrow> bool option" where
  "abort_kWasAlreadyErroring a = None"

section \<open>The promises of a writer\<close>

definition blank_writer :: writer where
  "blank_writer = \<lparr>owns_stream = True, readyPromise = 0, readyFns = False, readyState = RejectedState,
     closedPromise = 0, closedFns = False, closedState = RejectedState\<rparr>"

text \<open>The writer with a number; the fallback for numbers of no writer is never met.\<close>

definition writer_of :: "'c writable \<Rightarrow> nat \<Rightarrow> writer" where
  "writer_of s w = (if w < length (writers s) then writers s ! w else blank_writer)"

definition defaultWriterClosedPromiseInitialize :: "nat \<Rightarrow> ('c writable, unit) proc" where
  "defaultWriterClosedPromiseInitialize w = bindp (new_promise Pending) (\<lambda>p.
     update_writer w (\<lambda>x. x\<lparr>closedPromise := p, closedFns := True, closedState := PendingState\<rparr>))"

definition defaultWriterClosedPromiseInitializeAsRejected :: "nat \<Rightarrow> reason \<Rightarrow> ('c writable, unit) proc" where
  "defaultWriterClosedPromiseInitializeAsRejected w e = bindp (new_promise (Rejected e)) (\<lambda>p.
     update_writer w (\<lambda>x. x\<lparr>closedPromise := p, closedFns := False, closedState := RejectedState\<rparr>))"

definition defaultWriterClosedPromiseInitializeAsResolved :: "nat \<Rightarrow> ('c writable, unit) proc" where
  "defaultWriterClosedPromiseInitializeAsResolved w = bindp (new_promise (Fulfilled ())) (\<lambda>p.
     update_writer w (\<lambda>x. x\<lparr>closedPromise := p, closedFns := False, closedState := FulfilledState\<rparr>))"

definition defaultWriterClosedPromiseReject :: "nat \<Rightarrow> reason \<Rightarrow> ('c writable, unit) proc" where
  "defaultWriterClosedPromiseReject w e = seqp [
     assertp (\<lambda>s. closedFns (writer_of s w)),
     assertp (\<lambda>s. closedState (writer_of s w) = PendingState),
     withp (\<lambda>s. closedPromise (writer_of s w)) (\<lambda>p. settle_promise p (Rejected e)),
     update_writer w (\<lambda>x. x\<lparr>closedFns := False, closedState := RejectedState\<rparr>)]"

definition defaultWriterClosedPromiseResetToRejected :: "nat \<Rightarrow> reason \<Rightarrow> ('c writable, unit) proc" where
  "defaultWriterClosedPromiseResetToRejected w e = seqp [
     assertp (\<lambda>s. \<not> closedFns (writer_of s w)),
     assertp (\<lambda>s. closedState (writer_of s w) \<noteq> PendingState),
     bindp (new_promise (Rejected e)) (\<lambda>p.
       update_writer w (\<lambda>x. x\<lparr>closedPromise := p, closedState := RejectedState\<rparr>))]"

definition defaultWriterClosedPromiseResolve :: "nat \<Rightarrow> ('c writable, unit) proc" where
  "defaultWriterClosedPromiseResolve w = seqp [
     assertp (\<lambda>s. closedFns (writer_of s w)),
     assertp (\<lambda>s. closedState (writer_of s w) = PendingState),
     withp (\<lambda>s. closedPromise (writer_of s w)) (\<lambda>p. settle_promise p (Fulfilled ())),
     update_writer w (\<lambda>x. x\<lparr>closedFns := False, closedState := FulfilledState\<rparr>)]"

definition defaultWriterReadyPromiseInitialize :: "nat \<Rightarrow> ('c writable, unit) proc" where
  "defaultWriterReadyPromiseInitialize w = bindp (new_promise Pending) (\<lambda>p.
     update_writer w (\<lambda>x. x\<lparr>readyPromise := p, readyFns := True, readyState := PendingState\<rparr>))"

definition defaultWriterReadyPromiseInitializeAsRejected :: "nat \<Rightarrow> reason \<Rightarrow> ('c writable, unit) proc" where
  "defaultWriterReadyPromiseInitializeAsRejected w e = bindp (new_promise (Rejected e)) (\<lambda>p.
     update_writer w (\<lambda>x. x\<lparr>readyPromise := p, readyFns := False, readyState := RejectedState\<rparr>))"

definition defaultWriterReadyPromiseInitializeAsResolved :: "nat \<Rightarrow> ('c writable, unit) proc" where
  "defaultWriterReadyPromiseInitializeAsResolved w = bindp (new_promise (Fulfilled ())) (\<lambda>p.
     update_writer w (\<lambda>x. x\<lparr>readyPromise := p, readyFns := False, readyState := FulfilledState\<rparr>))"

definition defaultWriterReadyPromiseReject :: "nat \<Rightarrow> reason \<Rightarrow> ('c writable, unit) proc" where
  "defaultWriterReadyPromiseReject w e = seqp [
     assertp (\<lambda>s. readyFns (writer_of s w)),
     withp (\<lambda>s. readyPromise (writer_of s w)) (\<lambda>p. settle_promise p (Rejected e)),
     update_writer w (\<lambda>x. x\<lparr>readyFns := False, readyState := RejectedState\<rparr>)]"

definition defaultWriterReadyPromiseReset :: "nat \<Rightarrow> ('c writable, unit) proc" where
  "defaultWriterReadyPromiseReset w = seqp [
     assertp (\<lambda>s. \<not> readyFns (writer_of s w)),
     bindp (new_promise Pending) (\<lambda>p.
       update_writer w (\<lambda>x. x\<lparr>readyPromise := p, readyFns := True, readyState := PendingState\<rparr>))]"

definition defaultWriterReadyPromiseResetToRejected :: "nat \<Rightarrow> reason \<Rightarrow> ('c writable, unit) proc" where
  "defaultWriterReadyPromiseResetToRejected w e = seqp [
     assertp (\<lambda>s. \<not> readyFns (writer_of s w)),
     bindp (new_promise (Rejected e)) (\<lambda>p.
       update_writer w (\<lambda>x. x\<lparr>readyPromise := p, readyState := RejectedState\<rparr>))]"

definition defaultWriterReadyPromiseResolve :: "nat \<Rightarrow> ('c writable, unit) proc" where
  "defaultWriterReadyPromiseResolve w = seqp [
     assertp (\<lambda>s. readyFns (writer_of s w)),
     withp (\<lambda>s. readyPromise (writer_of s w)) (\<lambda>p. settle_promise p (Fulfilled ())),
     update_writer w (\<lambda>x. x\<lparr>readyFns := False, readyState := FulfilledState\<rparr>)]"

definition WritableStreamDefaultWriterEnsureClosedPromiseRejected :: "nat \<Rightarrow> reason \<Rightarrow> ('c writable, unit) proc" where
  "WritableStreamDefaultWriterEnsureClosedPromiseRejected w e =
     ifp (\<lambda>s. closedState (writer_of s w) = PendingState)
       (defaultWriterClosedPromiseReject w e) (defaultWriterClosedPromiseResetToRejected w e)"

definition WritableStreamDefaultWriterEnsureReadyPromiseRejected :: "nat \<Rightarrow> reason \<Rightarrow> ('c writable, unit) proc" where
  "WritableStreamDefaultWriterEnsureReadyPromiseRejected w e =
     ifp (\<lambda>s. readyState (writer_of s w) = PendingState)
       (defaultWriterReadyPromiseReject w e) (defaultWriterReadyPromiseResetToRejected w e)"

section \<open>Operations on the stream\<close>

definition IsWritableStreamLocked :: "'c writable \<Rightarrow> bool" where
  "IsWritableStreamLocked s \<longleftrightarrow> the_writer s \<noteq> None"

definition WritableStreamCloseQueuedOrInFlight :: "'c writable \<Rightarrow> bool" where
  "WritableStreamCloseQueuedOrInFlight s \<longleftrightarrow> \<not> (closeRequest s = None \<and> inFlightCloseRequest s = None)"

definition WritableStreamHasOperationMarkedInFlight :: "'c writable \<Rightarrow> bool" where
  "WritableStreamHasOperationMarkedInFlight s \<longleftrightarrow> \<not> (inFlightWriteRequest s = None \<and> inFlightCloseRequest s = None)"

definition WritableStreamAddWriteRequest :: "('c writable, nat) proc" where
  "WritableStreamAddWriteRequest = thenp (assertp IsWritableStreamLocked) (thenp (assertp (\<lambda>s. wstate s = Writable))
     (bindp (new_promise Pending) (\<lambda>p. thenp (modify (\<lambda>s. s\<lparr>writeRequests := writeRequests s @ [p]\<rparr>)) (ret p))))"

definition WritableStreamMarkCloseRequestInFlight :: "('c writable, unit) proc" where
  "WritableStreamMarkCloseRequestInFlight = seqp [
     assertp (\<lambda>s. inFlightCloseRequest s = None),
     assertp (\<lambda>s. closeRequest s \<noteq> None),
     modify (\<lambda>s. s\<lparr>inFlightCloseRequest := closeRequest s, closeRequest := None\<rparr>)]"

definition WritableStreamMarkFirstWriteRequestInFlight :: "('c writable, unit) proc" where
  "WritableStreamMarkFirstWriteRequestInFlight = seqp [
     assertp (\<lambda>s. inFlightWriteRequest s = None),
     assertp (\<lambda>s. writeRequests s \<noteq> []),
     modify (\<lambda>s. s\<lparr>inFlightWriteRequest := Some (hd (writeRequests s)), writeRequests := tl (writeRequests s)\<rparr>)]"

definition WritableStreamRejectCloseAndClosedPromiseIfNeeded :: "('c writable, unit) proc" where
  "WritableStreamRejectCloseAndClosedPromiseIfNeeded = seqp [
     assertp (\<lambda>s. wstate s = Errored),
     withp closeRequest (\<lambda>c. case c of None \<Rightarrow> ret ()
       | Some r \<Rightarrow> seqp [assertp (\<lambda>s. inFlightCloseRequest s = None),
           withp storedError (call_kReject r),
           modify (\<lambda>s. s\<lparr>closeRequest := None\<rparr>)]),
     withp the_writer (\<lambda>w. case w of None \<Rightarrow> ret ()
       | Some w \<Rightarrow> withp storedError (defaultWriterClosedPromiseReject w))]"

definition WritableStreamUpdateBackpressure :: "bool \<Rightarrow> ('c writable, unit) proc" where
  "WritableStreamUpdateBackpressure b = seqp [
     assertp (\<lambda>s. wstate s = Writable),
     assertp (\<lambda>s. \<not> WritableStreamCloseQueuedOrInFlight s),
     withp (\<lambda>s. (the_writer s, backpressure s)) (\<lambda>(w, old). case w of None \<Rightarrow> ret ()
       | Some w \<Rightarrow> if b \<noteq> old
                   then if b then defaultWriterReadyPromiseReset w else defaultWriterReadyPromiseResolve w
                   else ret ()),
     modify (\<lambda>s. s\<lparr>backpressure := b\<rparr>)]"

fun reject_all :: "nat list \<Rightarrow> reason \<Rightarrow> ('c writable, unit) proc" where
  "reject_all [] e = ret ()"
| "reject_all (r # rs) e = thenp (call_kReject r e) (reject_all rs e)"

definition AbortSteps :: "reason \<Rightarrow> ('c writable, unit) proc" where
  "AbortSteps e = modify (\<lambda>s. s\<lparr>sink_calls := sink_calls s @ [SinkAbort e]\<rparr>)"

definition WritableStreamFinishErroring :: "('c writable, unit) proc" where
  "WritableStreamFinishErroring = seqp [
     assertp (\<lambda>s. wstate s = Erroring),
     assertp (\<lambda>s. \<not> WritableStreamHasOperationMarkedInFlight s),
     modify (\<lambda>s. s\<lparr>wstate := Errored\<rparr>),
     modify (\<lambda>s. s\<lparr>wqueue := ResetQueue\<rparr>),
     withp (\<lambda>s. (writeRequests s, storedError s)) (\<lambda>(rs, e). reject_all rs e),
     modify (\<lambda>s. s\<lparr>writeRequests := []\<rparr>),
     withp pendingAbortRequest (\<lambda>a. case a of
         None \<Rightarrow> WritableStreamRejectCloseAndClosedPromiseIfNeeded
       | Some a \<Rightarrow> thenp (modify (\<lambda>s. s\<lparr>pendingAbortRequest := None\<rparr>))
           (if abort_kWasAlreadyErroring a = Some True
            then thenp (withp storedError (call_kReject (abort_promise a))) WritableStreamRejectCloseAndClosedPromiseIfNeeded
            else thenp (AbortSteps (abort_kReason a)) (modify (\<lambda>s. s\<lparr>abort_pending := Some (abort_promise a)\<rparr>))))]"

definition WritableStreamStartErroring :: "reason \<Rightarrow> ('c writable, unit) proc" where
  "WritableStreamStartErroring e = seqp [
     assertp (\<lambda>s. storedError s = Undefined),
     assertp (\<lambda>s. wstate s = Writable),
     modify (\<lambda>s. s\<lparr>wstate := Erroring, storedError := e\<rparr>),
     withp the_writer (\<lambda>w. case w of None \<Rightarrow> ret ()
       | Some w \<Rightarrow> WritableStreamDefaultWriterEnsureReadyPromiseRejected w e),
     whenp (\<lambda>s. \<not> WritableStreamHasOperationMarkedInFlight s \<and> started s) WritableStreamFinishErroring]"

definition WritableStreamDealWithRejection :: "reason \<Rightarrow> ('c writable, unit) proc" where
  "WritableStreamDealWithRejection e =
     ifp (\<lambda>s. wstate s = Writable) (WritableStreamStartErroring e)
       (seqp [assertp (\<lambda>s. wstate s = Erroring), WritableStreamFinishErroring])"

definition WritableStreamAbort :: "reason \<Rightarrow> ('c writable, nat) proc" where
  "WritableStreamAbort e =
     ifp (\<lambda>s. wstate s = Closed \<or> wstate s = Errored) (new_promise (Fulfilled ()))
     (withp pendingAbortRequest (\<lambda>a. case a of
        Some a \<Rightarrow> ret (abort_promise a)
      | None \<Rightarrow>
          thenp (assertp (\<lambda>s. wstate s = Writable \<or> wstate s = Erroring))
          (withp (\<lambda>s. wstate s = Erroring) (\<lambda>was.
             bindp (new_promise Pending) (\<lambda>p.
               thenp (modify (\<lambda>s. s\<lparr>pendingAbortRequest := Some \<lparr>abort_promise = p,
                   prop_reason = (if was then Undefined else e), prop_wasAlreadyErroring = was\<rparr>\<rparr>))
               (thenp (if was then ret () else WritableStreamStartErroring e) (ret p)))))))"

definition WritableStreamFinishInFlightWrite :: "('c writable, unit) proc" where
  "WritableStreamFinishInFlightWrite = seqp [
     assertp (\<lambda>s. inFlightWriteRequest s \<noteq> None),
     withp inFlightWriteRequest (\<lambda>r. call_kResolve (the r)),
     modify (\<lambda>s. s\<lparr>inFlightWriteRequest := None\<rparr>)]"

definition WritableStreamFinishInFlightWriteWithError :: "reason \<Rightarrow> ('c writable, unit) proc" where
  "WritableStreamFinishInFlightWriteWithError e = seqp [
     assertp (\<lambda>s. inFlightWriteRequest s \<noteq> None),
     withp inFlightWriteRequest (\<lambda>r. call_kReject (the r) e),
     modify (\<lambda>s. s\<lparr>inFlightWriteRequest := None\<rparr>),
     assertp (\<lambda>s. wstate s = Writable \<or> wstate s = Erroring),
     WritableStreamDealWithRejection e]"

definition WritableStreamFinishInFlightClose :: "('c writable, unit) proc" where
  "WritableStreamFinishInFlightClose = seqp [
     assertp (\<lambda>s. inFlightCloseRequest s \<noteq> None),
     withp inFlightCloseRequest (\<lambda>r. call_kResolve (the r)),
     modify (\<lambda>s. s\<lparr>inFlightCloseRequest := None\<rparr>),
     assertp (\<lambda>s. wstate s = Writable \<or> wstate s = Erroring),
     whenp (\<lambda>s. wstate s = Erroring) (seqp [
       modify (\<lambda>s. s\<lparr>storedError := Undefined\<rparr>),
       withp pendingAbortRequest (\<lambda>a. case a of None \<Rightarrow> ret ()
         | Some a \<Rightarrow> thenp (call_kResolve (abort_promise a)) (modify (\<lambda>s. s\<lparr>pendingAbortRequest := None\<rparr>)))]),
     modify (\<lambda>s. s\<lparr>wstate := Closed\<rparr>),
     withp the_writer (\<lambda>w. case w of None \<Rightarrow> ret () | Some w \<Rightarrow> defaultWriterClosedPromiseResolve w),
     assertp (\<lambda>s. pendingAbortRequest s = None),
     assertp (\<lambda>s. storedError s = Undefined)]"

definition WritableStreamFinishInFlightCloseWithError :: "reason \<Rightarrow> ('c writable, unit) proc" where
  "WritableStreamFinishInFlightCloseWithError e = seqp [
     assertp (\<lambda>s. inFlightCloseRequest s \<noteq> None),
     withp inFlightCloseRequest (\<lambda>r. call_kReject (the r) e),
     modify (\<lambda>s. s\<lparr>inFlightCloseRequest := None\<rparr>),
     assertp (\<lambda>s. wstate s = Writable \<or> wstate s = Erroring),
     withp pendingAbortRequest (\<lambda>a. case a of None \<Rightarrow> ret ()
       | Some a \<Rightarrow> thenp (call_kReject (abort_promise a) e) (modify (\<lambda>s. s\<lparr>pendingAbortRequest := None\<rparr>))),
     WritableStreamDealWithRejection e]"

section \<open>The controller\<close>

definition WritableStreamDefaultControllerGetDesiredSize :: "'c writable \<Rightarrow> js_number" where
  "WritableStreamDefaultControllerGetDesiredSize s = minus_total (strategyHWM s) (snd (wqueue s))"

definition WritableStreamDefaultControllerGetBackpressure :: "'c writable \<Rightarrow> bool" where
  "WritableStreamDefaultControllerGetBackpressure s = at_most_zero (WritableStreamDefaultControllerGetDesiredSize s)"

definition dequeue_record :: "('c writable, unit) proc" where
  "dequeue_record = withp wqueue (\<lambda>q. case DequeueValue q of
     Inl e \<Rightarrow> throw (Error e) | Inr (v, q') \<Rightarrow> modify (\<lambda>s. s\<lparr>wqueue := q'\<rparr>))"

definition WritableStreamDefaultControllerProcessClose :: "('c writable, unit) proc" where
  "WritableStreamDefaultControllerProcessClose = seqp [
     WritableStreamMarkCloseRequestInFlight,
     dequeue_record,
     assertp (\<lambda>s. fst (wqueue s) = []),
     modify (\<lambda>s. s\<lparr>sink_calls := sink_calls s @ [SinkClose], close_pending := True\<rparr>)]"

definition WritableStreamDefaultControllerProcessWrite :: "'c \<Rightarrow> ('c writable, unit) proc" where
  "WritableStreamDefaultControllerProcessWrite chunk = seqp [
     WritableStreamMarkFirstWriteRequestInFlight,
     modify (\<lambda>s. s\<lparr>sink_calls := sink_calls s @ [SinkWrite chunk], write_pending := True\<rparr>)]"

definition WritableStreamDefaultControllerAdvanceQueueIfNeeded :: "('c writable, unit) proc" where
  "WritableStreamDefaultControllerAdvanceQueueIfNeeded =
     ifp (\<lambda>s. \<not> started s) (ret ())
     (ifp (\<lambda>s. inFlightWriteRequest s \<noteq> None) (ret ())
     (ifp (\<lambda>s. wstate s = Closed \<or> wstate s = Errored) (ret ())
     (ifp (\<lambda>s. wstate s = Erroring) WritableStreamFinishErroring
     (ifp (\<lambda>s. fst (wqueue s) = []) (ret ())
     (withp wqueue (\<lambda>q. case PeekQueueValue q of
        Inl e \<Rightarrow> throw (Error e)
      | Inr CloseRecord \<Rightarrow> WritableStreamDefaultControllerProcessClose
      | Inr (WriteRecord c) \<Rightarrow> WritableStreamDefaultControllerProcessWrite c))))))"

definition WritableStreamDefaultControllerError :: "reason \<Rightarrow> ('c writable, unit) proc" where
  "WritableStreamDefaultControllerError e = seqp [
     assertp (\<lambda>s. wstate s = Writable), WritableStreamStartErroring e]"

definition WritableStreamDefaultControllerErrorIfNeeded :: "reason \<Rightarrow> ('c writable, unit) proc" where
  "WritableStreamDefaultControllerErrorIfNeeded e =
     whenp (\<lambda>s. wstate s = Writable) (WritableStreamDefaultControllerError e)"

definition WritableStreamDefaultControllerClose :: "('c writable, unit) proc" where
  "WritableStreamDefaultControllerClose = seqp [
     withp wqueue (\<lambda>q. case EnqueueValueWithSize CloseRecord (Finite 0) q of
       Inl e \<Rightarrow> throw (Error e) | Inr q' \<Rightarrow> modify (\<lambda>s. s\<lparr>wqueue := q'\<rparr>)),
     WritableStreamDefaultControllerAdvanceQueueIfNeeded]"

text \<open>The size function: \<open>Inl\<close> is an exception.\<close>

definition WritableStreamDefaultControllerGetChunkSize ::
  "('c \<Rightarrow> reason + js_number) \<Rightarrow> 'c \<Rightarrow> ('c writable, js_number) proc" where
  "WritableStreamDefaultControllerGetChunkSize size_of chunk =
     (case size_of chunk of
        Inr n \<Rightarrow> ret n
      | Inl e \<Rightarrow> thenp (WritableStreamDefaultControllerErrorIfNeeded e) (ret (Finite 1)))"

definition WritableStreamDefaultControllerWrite :: "'c \<Rightarrow> js_number \<Rightarrow> ('c writable, unit) proc" where
  "WritableStreamDefaultControllerWrite chunk n =
     withp wqueue (\<lambda>q. case EnqueueValueWithSize (WriteRecord chunk) n q of
       Inl e \<Rightarrow> WritableStreamDefaultControllerErrorIfNeeded (Error e)
     | Inr q' \<Rightarrow> seqp [
         modify (\<lambda>s. s\<lparr>wqueue := q'\<rparr>),
         whenp (\<lambda>s. \<not> WritableStreamCloseQueuedOrInFlight s \<and> wstate s = Writable)
           (withp WritableStreamDefaultControllerGetBackpressure WritableStreamUpdateBackpressure),
         WritableStreamDefaultControllerAdvanceQueueIfNeeded])"

text \<open>The stream that \<open>SetUpWritableStreamDefaultController\<close> makes, before the start algorithm's
  promise is settled.\<close>

definition SetUpWritableStreamDefaultController :: "('c writable, unit) proc" where
  "SetUpWritableStreamDefaultController = seqp [
     modify (\<lambda>s. s\<lparr>wqueue := ResetQueue, started := False\<rparr>),
     withp WritableStreamDefaultControllerGetBackpressure WritableStreamUpdateBackpressure,
     modify (\<lambda>s. s\<lparr>start_pending := True\<rparr>)]"

text \<open>The start algorithm may throw.\<close>

definition set_up_stream :: "js_number \<Rightarrow> reason option \<Rightarrow> reason + 'c writable" where
  "set_up_stream h start =
     (case SetUpWritableStreamDefaultController (InitializeWritableStream h) of
        (Inl e, s) \<Rightarrow> Inl e
      | (Inr x, s) \<Rightarrow> (case start of Some e \<Rightarrow> Inl e | None \<Rightarrow> Inr s))"

definition CreateWritableStream :: "js_number \<Rightarrow> reason option \<Rightarrow> reason + 'c writable" where
  "CreateWritableStream h start =
     (if IsNonNegativeNumber h then set_up_stream h start else Inl (Error OtherError))"

text \<open>\<open>new WritableStream(sink, strategy)\<close>: \<open>typed\<close> is whether the sink has a \<open>type\<close>, \<open>sizeable\<close> whether the
  strategy's size is undefined or a function, \<open>callable\<close> whether each of the sink's methods is undefined or
  a function.\<close>

definition new_WritableStream ::
  "bool \<Rightarrow> bool \<Rightarrow> js_number option \<Rightarrow> bool \<Rightarrow> reason option \<Rightarrow> reason + 'c writable" where
  "new_WritableStream typed sizeable hwm callable start =
     (if typed then Inl (Error RangeError)
      else if \<not> sizeable then Inl (Error TypeError)
      else
        case ValidateAndNormalizeHighWaterMark (case hwm of None \<Rightarrow> Finite 1 | Some h \<Rightarrow> h) () of
          (Inl e, u) \<Rightarrow> Inl e
        | (Inr h, u) \<Rightarrow> if callable then set_up_stream h start else Inl (Error TypeError))"

section \<open>Writers\<close>

definition rejected :: "js_error \<Rightarrow> ('c writable, nat) proc" where
  "rejected e = new_promise (Rejected (Error e))"

definition new_WritableStreamDefaultWriter :: "('c writable, nat) proc" where
  "new_WritableStreamDefaultWriter =
     ifp IsWritableStreamLocked (throw (Error TypeError))
     (withp (\<lambda>s. length (writers s)) (\<lambda>w.
       thenp (modify (\<lambda>s. s\<lparr>writers := writers s @ [blank_writer], the_writer := Some w\<rparr>))
       (thenp (withp (\<lambda>s. (wstate s, storedError s)) (\<lambda>(st, e). case st of
          Writable \<Rightarrow> seqp [
            ifp (\<lambda>s. \<not> WritableStreamCloseQueuedOrInFlight s \<and> backpressure s)
              (defaultWriterReadyPromiseInitialize w) (defaultWriterReadyPromiseInitializeAsResolved w),
            defaultWriterClosedPromiseInitialize w]
        | Erroring \<Rightarrow> seqp [defaultWriterReadyPromiseInitializeAsRejected w e, defaultWriterClosedPromiseInitialize w]
        | Closed \<Rightarrow> seqp [defaultWriterReadyPromiseInitializeAsResolved w, defaultWriterClosedPromiseInitializeAsResolved w]
        | Errored \<Rightarrow> seqp [defaultWriterReadyPromiseInitializeAsRejected w e, defaultWriterClosedPromiseInitializeAsRejected w e]))
       (ret w))))"

definition WritableStreamDefaultWriterGetDesiredSize :: "'c writable \<Rightarrow> js_number option" where
  "WritableStreamDefaultWriterGetDesiredSize s =
     (if wstate s = Errored \<or> wstate s = Erroring then None
      else if wstate s = Closed then Some (Finite 0)
      else Some (WritableStreamDefaultControllerGetDesiredSize s))"

definition writer_desiredSize :: "nat \<Rightarrow> 'c writable \<Rightarrow> js_number option js_result" where
  "writer_desiredSize w s =
     (if \<not> owns_stream (writer_of s w) then Inl TypeError else Inr (WritableStreamDefaultWriterGetDesiredSize s))"

definition WritableStreamDefaultWriterClose :: "nat \<Rightarrow> ('c writable, nat) proc" where
  "WritableStreamDefaultWriterClose w =
     thenp (assertp (\<lambda>s. owns_stream (writer_of s w)))
     (ifp (\<lambda>s. wstate s = Closed \<or> wstate s = Errored) (rejected TypeError)
     (thenp (assertp (\<lambda>s. wstate s = Writable \<or> wstate s = Erroring))
     (thenp (assertp (\<lambda>s. \<not> WritableStreamCloseQueuedOrInFlight s))
     (withp wstate (\<lambda>st.
       bindp (new_promise Pending) (\<lambda>p.
         thenp (modify (\<lambda>s. s\<lparr>closeRequest := Some p\<rparr>))
         (thenp (whenp (\<lambda>s. backpressure s \<and> st = Writable) (defaultWriterReadyPromiseResolve w))
         (thenp WritableStreamDefaultControllerClose (ret p)))))))))"

definition writer_close :: "nat \<Rightarrow> ('c writable, nat) proc" where
  "writer_close w =
     ifp (\<lambda>s. \<not> owns_stream (writer_of s w)) (rejected TypeError)
     (ifp WritableStreamCloseQueuedOrInFlight (rejected TypeError) (WritableStreamDefaultWriterClose w))"

definition WritableStreamDefaultWriterCloseWithErrorPropagation :: "nat \<Rightarrow> ('c writable, nat) proc" where
  "WritableStreamDefaultWriterCloseWithErrorPropagation w =
     thenp (assertp (\<lambda>s. owns_stream (writer_of s w)))
     (ifp (\<lambda>s. WritableStreamCloseQueuedOrInFlight s \<or> wstate s = Closed) (new_promise (Fulfilled ()))
     (ifp (\<lambda>s. wstate s = Errored) (withp storedError (\<lambda>e. new_promise (Rejected e)))
     (thenp (assertp (\<lambda>s. wstate s = Writable \<or> wstate s = Erroring)) (WritableStreamDefaultWriterClose w))))"

definition writer_abort :: "nat \<Rightarrow> reason \<Rightarrow> ('c writable, nat) proc" where
  "writer_abort w e = ifp (\<lambda>s. \<not> owns_stream (writer_of s w)) (rejected TypeError) (WritableStreamAbort e)"

definition stream_abort :: "reason \<Rightarrow> ('c writable, nat) proc" where
  "stream_abort e = ifp IsWritableStreamLocked (rejected TypeError) (WritableStreamAbort e)"

definition WritableStreamDefaultWriterRelease :: "nat \<Rightarrow> ('c writable, unit) proc" where
  "WritableStreamDefaultWriterRelease w = seqp [
     assertp (\<lambda>s. owns_stream (writer_of s w)),
     assertp (\<lambda>s. the_writer s = Some w),
     WritableStreamDefaultWriterEnsureReadyPromiseRejected w (Error TypeError),
     WritableStreamDefaultWriterEnsureClosedPromiseRejected w (Error TypeError),
     modify (\<lambda>s. s\<lparr>the_writer := None\<rparr>),
     update_writer w (\<lambda>x. x\<lparr>owns_stream := False\<rparr>)]"

definition writer_releaseLock :: "nat \<Rightarrow> ('c writable, unit) proc" where
  "writer_releaseLock w =
     ifp (\<lambda>s. \<not> owns_stream (writer_of s w)) (ret ())
     (seqp [assertp (\<lambda>s. the_writer s \<noteq> None), WritableStreamDefaultWriterRelease w])"

definition WritableStreamDefaultWriterWrite :: "('c \<Rightarrow> reason + js_number) \<Rightarrow> nat \<Rightarrow> 'c \<Rightarrow> ('c writable, nat) proc" where
  "WritableStreamDefaultWriterWrite size_of w chunk =
     thenp (assertp (\<lambda>s. owns_stream (writer_of s w)))
     (bindp (WritableStreamDefaultControllerGetChunkSize size_of chunk) (\<lambda>n.
       ifp (\<lambda>s. wstate s = Errored) (withp storedError (\<lambda>e. new_promise (Rejected e)))
       (ifp (\<lambda>s. WritableStreamCloseQueuedOrInFlight s \<or> wstate s = Closed) (rejected TypeError)
       (ifp (\<lambda>s. wstate s = Erroring) (withp storedError (\<lambda>e. new_promise (Rejected e)))
       (thenp (assertp (\<lambda>s. wstate s = Writable))
       (bindp WritableStreamAddWriteRequest (\<lambda>p.
         thenp (WritableStreamDefaultControllerWrite chunk n) (ret p))))))))"

definition writer_write :: "('c \<Rightarrow> reason + js_number) \<Rightarrow> nat \<Rightarrow> 'c \<Rightarrow> ('c writable, nat) proc" where
  "writer_write size_of w chunk =
     ifp (\<lambda>s. \<not> owns_stream (writer_of s w)) (rejected TypeError) (WritableStreamDefaultWriterWrite size_of w chunk)"

definition controller_error :: "reason \<Rightarrow> ('c writable, unit) proc" where
  "controller_error e = ifp (\<lambda>s. wstate s \<noteq> Writable) (ret ()) (WritableStreamDefaultControllerError e)"

section \<open>Reactions to the sink's promises\<close>

definition start_fulfilled :: "('c writable, unit) proc" where
  "start_fulfilled = seqp [
     assertp (\<lambda>s. wstate s = Writable \<or> wstate s = Erroring),
     modify (\<lambda>s. s\<lparr>started := True\<rparr>),
     WritableStreamDefaultControllerAdvanceQueueIfNeeded]"

definition start_rejected :: "reason \<Rightarrow> ('c writable, unit) proc" where
  "start_rejected e = seqp [
     assertp (\<lambda>s. wstate s = Writable \<or> wstate s = Erroring),
     modify (\<lambda>s. s\<lparr>started := True\<rparr>),
     WritableStreamDealWithRejection e]"

definition write_fulfilled :: "('c writable, unit) proc" where
  "write_fulfilled = thenp WritableStreamFinishInFlightWrite (withp wstate (\<lambda>st. seqp [
     assertp (\<lambda>s. st = Writable \<or> st = Erroring),
     dequeue_record,
     whenp (\<lambda>s. \<not> WritableStreamCloseQueuedOrInFlight s \<and> st = Writable)
       (withp WritableStreamDefaultControllerGetBackpressure WritableStreamUpdateBackpressure),
     WritableStreamDefaultControllerAdvanceQueueIfNeeded]))"

text \<open>The reactions of the abort algorithm's promise hold the request \<open>a\<close>.\<close>

definition abort_fulfilled :: "nat \<Rightarrow> ('c writable, unit) proc" where
  "abort_fulfilled a = thenp (call_kResolve a) WritableStreamRejectCloseAndClosedPromiseIfNeeded"

definition abort_rejected :: "nat \<Rightarrow> reason \<Rightarrow> ('c writable, unit) proc" where
  "abort_rejected a e = thenp (call_kReject a e) WritableStreamRejectCloseAndClosedPromiseIfNeeded"

section \<open>Runs\<close>

datatype 'c w_event =
  GetWriter | WriteChunk nat 'c | CloseWriter nat | CloseWithErrorPropagation nat | AbortWriter nat reason
| AbortStream reason | ReleaseLock nat | ControllerError reason
| StartFulfilled | StartRejected reason | SinkWriteFulfilled | SinkWriteRejected reason
| SinkCloseFulfilled | SinkCloseRejected reason | SinkAbortFulfilled | SinkAbortRejected reason

text \<open>A call returns a promise or nothing; a reaction is consumed when it runs.\<close>

fun w_step :: "('c \<Rightarrow> reason + js_number) \<Rightarrow> 'c w_event \<Rightarrow> ('c writable, nat option) proc" where
  "w_step size_of GetWriter = run_unit new_WritableStreamDefaultWriter"
| "w_step size_of (WriteChunk w c) = run_promise (writer_write size_of w c)"
| "w_step size_of (CloseWriter w) = run_promise (writer_close w)"
| "w_step size_of (CloseWithErrorPropagation w) = run_promise (WritableStreamDefaultWriterCloseWithErrorPropagation w)"
| "w_step size_of (AbortWriter w e) = run_promise (writer_abort w e)"
| "w_step size_of (AbortStream e) = run_promise (stream_abort e)"
| "w_step size_of (ReleaseLock w) = run_unit (writer_releaseLock w)"
| "w_step size_of (ControllerError e) = run_unit (controller_error e)"
| "w_step size_of StartFulfilled = run_unit (thenp (modify (\<lambda>s. s\<lparr>start_pending := False\<rparr>)) start_fulfilled)"
| "w_step size_of (StartRejected e) = run_unit (thenp (modify (\<lambda>s. s\<lparr>start_pending := False\<rparr>)) (start_rejected e))"
| "w_step size_of SinkWriteFulfilled = run_unit (thenp (modify (\<lambda>s. s\<lparr>write_pending := False\<rparr>)) write_fulfilled)"
| "w_step size_of (SinkWriteRejected e) =
     run_unit (thenp (modify (\<lambda>s. s\<lparr>write_pending := False\<rparr>)) (WritableStreamFinishInFlightWriteWithError e))"
| "w_step size_of SinkCloseFulfilled =
     run_unit (thenp (modify (\<lambda>s. s\<lparr>close_pending := False\<rparr>)) WritableStreamFinishInFlightClose)"
| "w_step size_of (SinkCloseRejected e) =
     run_unit (thenp (modify (\<lambda>s. s\<lparr>close_pending := False\<rparr>)) (WritableStreamFinishInFlightCloseWithError e))"
| "w_step size_of SinkAbortFulfilled = run_unit (withp abort_pending (\<lambda>a.
     thenp (modify (\<lambda>s. s\<lparr>abort_pending := None\<rparr>)) (abort_fulfilled (the a))))"
| "w_step size_of (SinkAbortRejected e) = run_unit (withp abort_pending (\<lambda>a.
     thenp (modify (\<lambda>s. s\<lparr>abort_pending := None\<rparr>)) (abort_rejected (the a) e)))"

text \<open>A writer is named by its number once it exists; \<open>CloseWithErrorPropagation\<close> is called by
  \<open>pipeTo\<close>, which holds the writer; a promise of the sink is settled once.\<close>

fun w_enabled :: "'c w_event \<Rightarrow> 'c writable \<Rightarrow> bool" where
  "w_enabled (WriteChunk w c) s \<longleftrightarrow> w < length (writers s)"
| "w_enabled (CloseWriter w) s \<longleftrightarrow> w < length (writers s)"
| "w_enabled (CloseWithErrorPropagation w) s \<longleftrightarrow> w < length (writers s) \<and> owns_stream (writer_of s w)"
| "w_enabled (AbortWriter w e) s \<longleftrightarrow> w < length (writers s)"
| "w_enabled (ReleaseLock w) s \<longleftrightarrow> w < length (writers s)"
| "w_enabled StartFulfilled s \<longleftrightarrow> start_pending s"
| "w_enabled (StartRejected e) s \<longleftrightarrow> start_pending s"
| "w_enabled SinkWriteFulfilled s \<longleftrightarrow> write_pending s"
| "w_enabled (SinkWriteRejected e) s \<longleftrightarrow> write_pending s"
| "w_enabled SinkCloseFulfilled s \<longleftrightarrow> close_pending s"
| "w_enabled (SinkCloseRejected e) s \<longleftrightarrow> close_pending s"
| "w_enabled SinkAbortFulfilled s \<longleftrightarrow> abort_pending s \<noteq> None"
| "w_enabled (SinkAbortRejected e) s \<longleftrightarrow> abort_pending s \<noteq> None"
| "w_enabled ev s \<longleftrightarrow> True"

inductive w_runs :: "('c \<Rightarrow> reason + js_number) \<Rightarrow> 'c writable \<Rightarrow> 'c writable \<Rightarrow> bool"
  for size_of :: "'c \<Rightarrow> reason + js_number" where
  w_refl: "w_runs size_of s s"
| w_snoc: "w_runs size_of s t \<Longrightarrow> w_enabled ev t \<Longrightarrow> w_runs size_of s (snd (w_step size_of ev t))"

definition w_reachable :: "('c \<Rightarrow> reason + js_number) \<Rightarrow> 'c writable \<Rightarrow> bool" where
  "w_reachable size_of t \<longleftrightarrow> (\<exists>s typed sizeable hwm callable start.
     (new_WritableStream typed sizeable hwm callable start = Inr s \<or> (\<exists>h. CreateWritableStream h start = Inr s)) \<and> w_runs size_of s t)"

end
