(* ===== verification/Writable_Safety.thy ===== *)
theory Writable_Safety
  imports Writable
begin

text \<open>The invariant of the writable streams of \<open>packages/zero/lib/whatwg/streams/writable.js\<close> and
  the proof that every enabled event keeps it and that no assertion of the code fails: the facts of each
  operation (\<open>run_\<close> lemmas), then of each reaction, then of each event, then of every reachable state.\<close>


section \<open>The invariant\<close>

definition writer_ok :: "writer \<Rightarrow> bool" where
  "writer_ok x \<longleftrightarrow> (readyFns x \<longleftrightarrow> readyState x = PendingState) \<and> (closedFns x \<longleftrightarrow> closedState x = PendingState)"

text \<open>The writers: who holds the stream, and what its promises are in each state of the stream.\<close>

definition writers_inv :: "'c writable \<Rightarrow> bool" where
  "writers_inv s \<longleftrightarrow>
     (\<forall>w < length (writers s). writer_ok (writers s ! w) \<and> owns_stream (writers s ! w) = (the_writer s = Some w)) \<and>
     (\<forall>w. the_writer s = Some w \<longrightarrow> w < length (writers s) \<and>
       (wstate s = Writable \<longrightarrow> (readyState (writers s ! w) = PendingState) = (backpressure s \<and> \<not> WritableStreamCloseQueuedOrInFlight s)) \<and>
       (wstate s = Writable \<or> wstate s = Erroring \<longrightarrow> closedState (writers s ! w) = PendingState))"

text \<open>The records in the queue are the chunks of the requests, and the close request is the last.\<close>

definition requests_inv :: "'c writable \<Rightarrow> bool" where
  "requests_inv s \<longleftrightarrow>
     (\<exists>ws. map fst (fst (wqueue s)) = map WriteRecord ws @ (if closeRequest s = None then [] else [CloseRecord]) \<and>
       length ws = length (writeRequests s) + (if inFlightWriteRequest s = None then 0 else 1)) \<and>
     (inFlightCloseRequest s \<noteq> None \<longrightarrow> closeRequest s = None \<and> fst (wqueue s) = []) \<and>
     storedError s = Undefined \<and> pendingAbortRequest s = None \<and>
     (\<not> WritableStreamCloseQueuedOrInFlight s \<longrightarrow> backpressure s = WritableStreamDefaultControllerGetBackpressure s)"

text \<open>How often the sink was asked to write or to close.\<close>

fun sink_work :: "'c sink_call list \<Rightarrow> nat" where
  "sink_work [] = 0"
| "sink_work (SinkAbort e # l) = sink_work l"
| "sink_work (SinkWrite c # l) = Suc (sink_work l)"
| "sink_work (SinkClose # l) = Suc (sink_work l)"

lemma sink_work_append [simp]: "sink_work (a @ b) = sink_work a + sink_work b"
  by (induction a rule: sink_work.induct) auto

definition flight_inv :: "'c writable \<Rightarrow> bool" where
  "flight_inv s \<longleftrightarrow>
     (\<not> started s \<longrightarrow> (wstate s = Writable \<or> wstate s = Erroring) \<and> \<not> WritableStreamHasOperationMarkedInFlight s) \<and>
     (start_pending s \<longrightarrow> \<not> started s) \<and>
     (write_pending s \<longrightarrow> inFlightWriteRequest s \<noteq> None) \<and>
     (close_pending s \<longrightarrow> inFlightCloseRequest s \<noteq> None) \<and>
     wstate s \<noteq> Closed \<and> queue_ok (wqueue s) \<and>
     sink_work (sink_calls s) = (if WritableStreamHasOperationMarkedInFlight s then 1 else 0)"

definition w_inv :: "'c writable \<Rightarrow> bool" where
  "w_inv s \<longleftrightarrow> writers_inv s \<and> (wstate s = Writable \<longrightarrow> requests_inv s) \<and> flight_inv s"

lemmas w_inv_defs = w_inv_def writers_inv_def requests_inv_def flight_inv_def writer_ok_def
  WritableStreamCloseQueuedOrInFlight_def WritableStreamHasOperationMarkedInFlight_def
  WritableStreamDefaultControllerGetBackpressure_def WritableStreamDefaultControllerGetDesiredSize_def writer_of_def

section \<open>The writer's promises\<close>

lemmas promise_simps = run_simps new_promise_def settle_promise_def update_writer_def writer_of_def

lemma run_ready_reset: "w < length (writers s) \<Longrightarrow> \<not> readyFns (writers s ! w) \<Longrightarrow> defaultWriterReadyPromiseReset w s =
    (Inr (), s\<lparr>promises := promises s @ [Pending], writers := (writers s)[w := (writers s ! w)
       \<lparr>readyPromise := length (promises s), readyFns := True, readyState := PendingState\<rparr>]\<rparr>)"
  by (simp add: defaultWriterReadyPromiseReset_def promise_simps)

lemma run_ready_resolve: "w < length (writers s) \<Longrightarrow> readyFns (writers s ! w) \<Longrightarrow> defaultWriterReadyPromiseResolve w s =
    (Inr (), s\<lparr>promises := settle (readyPromise (writers s ! w)) (Fulfilled ()) (promises s),
       writers := (writers s)[w := (writers s ! w)\<lparr>readyFns := False, readyState := FulfilledState\<rparr>]\<rparr>)"
  by (simp add: defaultWriterReadyPromiseResolve_def promise_simps)

lemma run_closed_reject: "w < length (writers s) \<Longrightarrow> closedFns (writers s ! w) \<Longrightarrow> closedState (writers s ! w) = PendingState \<Longrightarrow>
    defaultWriterClosedPromiseReject w e s =
    (Inr (), s\<lparr>promises := settle (closedPromise (writers s ! w)) (Rejected e) (promises s),
       writers := (writers s)[w := (writers s ! w)\<lparr>closedFns := False, closedState := RejectedState\<rparr>]\<rparr>)"
  by (simp add: defaultWriterClosedPromiseReject_def promise_simps)

lemma run_ready_reject: "w < length (writers s) \<Longrightarrow> readyFns (writers s ! w) \<Longrightarrow> defaultWriterReadyPromiseReject w e s =
    (Inr (), s\<lparr>promises := settle (readyPromise (writers s ! w)) (Rejected e) (promises s),
       writers := (writers s)[w := (writers s ! w)\<lparr>readyFns := False, readyState := RejectedState\<rparr>]\<rparr>)"
  by (simp add: defaultWriterReadyPromiseReject_def promise_simps)

lemma run_ready_reset_rejected: "w < length (writers s) \<Longrightarrow> \<not> readyFns (writers s ! w) \<Longrightarrow> defaultWriterReadyPromiseResetToRejected w e s =
    (Inr (), s\<lparr>promises := promises s @ [Rejected e],
       writers := (writers s)[w := (writers s ! w)\<lparr>readyPromise := length (promises s), readyState := RejectedState\<rparr>]\<rparr>)"
  by (simp add: defaultWriterReadyPromiseResetToRejected_def promise_simps)

lemma run_closed_reset_rejected:
  "w < length (writers s) \<Longrightarrow> \<not> closedFns (writers s ! w) \<Longrightarrow> closedState (writers s ! w) \<noteq> PendingState \<Longrightarrow>
    defaultWriterClosedPromiseResetToRejected w e s =
    (Inr (), s\<lparr>promises := promises s @ [Rejected e],
       writers := (writers s)[w := (writers s ! w)\<lparr>closedPromise := length (promises s), closedState := RejectedState\<rparr>]\<rparr>)"
  by (simp add: defaultWriterClosedPromiseResetToRejected_def promise_simps)

text \<open>Rejecting the ready or the closed promise changes one writer and the promises.\<close>

lemma run_ensure_ready:
  assumes l: "w < length (writers s)" and "writer_ok (writers s ! w)"
  obtains ps x where "WritableStreamDefaultWriterEnsureReadyPromiseRejected w e s =
      (Inr (), s\<lparr>promises := ps, writers := (writers s)[w := x]\<rparr>)" and "writer_ok x"
    and "readyState x = RejectedState" and "owns_stream x = owns_stream (writers s ! w)"
    and "closedState x = closedState (writers s ! w)"
proof (cases "readyState (writers s ! w) = PendingState")
  case True
  then have f: "readyFns (writers s ! w)" using assms by (simp add: writer_ok_def)
  show ?thesis
    using f True run_ready_reject [OF l f, of e] assms
    by (auto simp: WritableStreamDefaultWriterEnsureReadyPromiseRejected_def ifp_def writer_of_def writer_ok_def
        intro!: that [of "(writers s ! w)\<lparr>readyFns := False, readyState := RejectedState\<rparr>"])
next
  case False
  then have f: "\<not> readyFns (writers s ! w)" using assms by (simp add: writer_ok_def)
  show ?thesis
    using f False run_ready_reset_rejected [OF l f, of e] assms
    by (auto simp: WritableStreamDefaultWriterEnsureReadyPromiseRejected_def ifp_def writer_of_def writer_ok_def
        intro!: that [of "(writers s ! w)\<lparr>readyPromise := length (promises s), readyState := RejectedState\<rparr>"])
qed

lemma run_ensure_closed:
  assumes l: "w < length (writers s)" and "writer_ok (writers s ! w)"
  obtains ps x where "WritableStreamDefaultWriterEnsureClosedPromiseRejected w e s =
      (Inr (), s\<lparr>promises := ps, writers := (writers s)[w := x]\<rparr>)" and "writer_ok x"
    and "closedState x = RejectedState" and "owns_stream x = owns_stream (writers s ! w)"
    and "readyState x = readyState (writers s ! w)"
proof (cases "closedState (writers s ! w) = PendingState")
  case True
  then have f: "closedFns (writers s ! w)" using assms by (simp add: writer_ok_def)
  show ?thesis
    using f True run_closed_reject [OF l f True, of e] assms
    by (auto simp: WritableStreamDefaultWriterEnsureClosedPromiseRejected_def ifp_def writer_of_def writer_ok_def
        intro!: that [of "(writers s ! w)\<lparr>closedFns := False, closedState := RejectedState\<rparr>"])
next
  case False
  then have f: "\<not> closedFns (writers s ! w)" using assms by (simp add: writer_ok_def)
  show ?thesis
    using f False run_closed_reset_rejected [OF l f False, of e] assms
    by (auto simp: WritableStreamDefaultWriterEnsureClosedPromiseRejected_def ifp_def writer_of_def writer_ok_def
        intro!: that [of "(writers s ! w)\<lparr>closedPromise := length (promises s), closedState := RejectedState\<rparr>"])
qed

section \<open>Erroring\<close>

lemma run_reject_all: "reject_all rs e s = (if rs = [] then (Inr (), s) else (Inl (Error TypeError), s))"
  by (cases rs) (simp_all add: call_kReject_def run_simps)

lemma errored_inv:
  "writers_inv s \<Longrightarrow> flight_inv s \<Longrightarrow> started s \<Longrightarrow> wstate s = Erroring \<Longrightarrow> w_inv (s\<lparr>wstate := Errored, wqueue := ResetQueue\<rparr>)"
  by (auto simp: w_inv_defs)

lemma run_finish_erroring:
  assumes "writers_inv s" and "flight_inv s" and "started s" and "wstate s = Erroring"
    and "\<not> WritableStreamHasOperationMarkedInFlight s"
  shows "safe w_inv (WritableStreamFinishErroring s)"
proof -
  let ?t = "s\<lparr>wstate := Errored, wqueue := ResetQueue\<rparr>"
  have t: "w_inv ?t" by (rule errored_inv [OF assms(1-4)])
  have u: "w_inv (?t\<lparr>writeRequests := []\<rparr>)" using t by (auto simp: w_inv_defs)
  have c: "w < length (writers s)" "closedFns (writers s ! w)" "closedState (writers s ! w) = PendingState" if "the_writer s = Some w" for w
    using assms that by (auto simp: writers_inv_def writer_ok_def)
  have d: "w_inv (?t\<lparr>writeRequests := [], promises := ps, writers := (writers s)[w := (writers s ! w)\<lparr>closedFns := False, closedState := RejectedState\<rparr>]\<rparr>)"
    if "the_writer s = Some w" for w ps
    using u that by (auto simp: w_inv_defs nth_list_update)
  have a: "w_inv (?t\<lparr>writeRequests := [], pendingAbortRequest := None, sink_calls := sink_calls s @ [SinkAbort l], abort_pending := p\<rparr>)" for l p
    using u by (auto simp: w_inv_defs)
  have f: "inFlightCloseRequest s = None" using assms(5) by (simp add: WritableStreamHasOperationMarkedInFlight_def)
  show ?thesis
  proof (cases "writeRequests s")
    case (Cons r rs)
    then show ?thesis using assms(4,5) t
      by (simp add: WritableStreamFinishErroring_def WritableStreamHasOperationMarkedInFlight_def run_simps run_reject_all)
  next
    case Nil
    show ?thesis
    proof (cases "pendingAbortRequest s")
      case None
      then show ?thesis using Nil assms(4,5) t u c d f
        by (cases "closeRequest s"; cases "the_writer s")
          (simp_all add: WritableStreamFinishErroring_def WritableStreamHasOperationMarkedInFlight_def run_simps
            run_reject_all WritableStreamRejectCloseAndClosedPromiseIfNeeded_def call_kReject_def run_closed_reject)
    next
      case (Some b)
      then show ?thesis using Nil assms(4,5) a
        by (simp add: WritableStreamFinishErroring_def WritableStreamHasOperationMarkedInFlight_def run_simps
            run_reject_all abort_kWasAlreadyErroring_def AbortSteps_def)
    qed
  qed
qed

lemma run_start_erroring:
  assumes wi: "writers_inv s" and fi: "flight_inv s" and r: "storedError s = Undefined" and "wstate s = Writable"
  shows "safe w_inv (WritableStreamStartErroring e s)"
proof -
  let ?t = "s\<lparr>wstate := Erroring, storedError := e\<rparr>"
  have step: "WritableStreamStartErroring e s = thenp (withp the_writer (\<lambda>w. case w of None \<Rightarrow> ret ()
       | Some w \<Rightarrow> WritableStreamDefaultWriterEnsureReadyPromiseRejected w e))
     (thenp (whenp (\<lambda>s. \<not> WritableStreamHasOperationMarkedInFlight s \<and> started s) WritableStreamFinishErroring) (ret ())) ?t"
    using r assms(4) by (simp add: WritableStreamStartErroring_def run_simps)
  have last: "safe w_inv (thenp (whenp (\<lambda>s. \<not> WritableStreamHasOperationMarkedInFlight s \<and> started s)
      WritableStreamFinishErroring) (ret ()) u)"
    if "writers_inv u" "flight_inv u" "wstate u = Erroring" for u :: "'a writable"
  proof (rule safe_then)
    show "safe w_inv (whenp (\<lambda>s. \<not> WritableStreamHasOperationMarkedInFlight s \<and> started s) WritableStreamFinishErroring u)"
      using that run_finish_erroring [of u] by (auto simp: whenp_def ifp_def ret_def w_inv_def)
    show "safe w_inv (ret () t)"
      if "whenp (\<lambda>s. \<not> WritableStreamHasOperationMarkedInFlight s \<and> started s) WritableStreamFinishErroring u = (Inr x, t)" for x t
      using \<open>safe w_inv (whenp _ _ u)\<close> that by (simp add: ret_def)
  qed
  show ?thesis
  proof (cases "the_writer s")
    case None
    have "writers_inv ?t" "flight_inv ?t" using wi fi None by (auto simp: writers_inv_def flight_inv_def WritableStreamHasOperationMarkedInFlight_def)
    then show ?thesis unfolding step using last [of ?t] None by (simp add: thenp_def bindp_def withp_def ret_def)
  next
    case (Some w)
    then have ok: "w < length (writers ?t)" "writer_ok (writers ?t ! w)" using wi by (auto simp: writers_inv_def)
    obtain ps x where e: "WritableStreamDefaultWriterEnsureReadyPromiseRejected w e ?t = (Inr (), ?t\<lparr>promises := ps, writers := (writers ?t)[w := x]\<rparr>)"
      "writer_ok x" "owns_stream x = owns_stream (writers ?t ! w)" "closedState x = closedState (writers ?t ! w)"
      using run_ensure_ready [OF ok] by metis
    let ?u = "?t\<lparr>promises := ps, writers := (writers ?t)[w := x]\<rparr>"
    have "writers_inv ?u" using wi e(2-4) Some assms(4) by (auto simp: writers_inv_def nth_list_update)
    moreover have "flight_inv ?u" using fi by (auto simp: flight_inv_def WritableStreamHasOperationMarkedInFlight_def)
    ultimately show ?thesis unfolding step using last [of ?u] Some e(1) by (simp add: thenp_def bindp_def withp_def)
  qed
qed

section \<open>The queue\<close>

lemma peek_head: "fst q = (v, i) # r \<Longrightarrow> PeekQueueValue q = Inr v"
  by (simp add: PeekQueueValue_def)

text \<open>Going on with the queue of a writable stream.\<close>

lemma run_process_write:
  assumes "w_inv s" and "wstate s = Writable" and "started s" and "inFlightWriteRequest s = None"
    and "fst (wqueue s) = (WriteRecord c, i) # q"
  shows "safe w_inv (WritableStreamDefaultControllerProcessWrite c s)"
proof -
  obtain ws where ws: "map fst (fst (wqueue s)) = map WriteRecord ws @ (if closeRequest s = None then [] else [CloseRecord])"
    "length ws = length (writeRequests s)" and f: "inFlightCloseRequest s = None"
    using assms(1,2,4,5) by (auto simp: w_inv_def requests_inv_def)
  from ws(1) assms(5) have "ws \<noteq> []" by (cases ws; cases "closeRequest s") auto
  then have ne: "writeRequests s \<noteq> []" using ws(2) by auto
  let ?t = "s\<lparr>inFlightWriteRequest := Some (hd (writeRequests s)), writeRequests := tl (writeRequests s),
    sink_calls := sink_calls s @ [SinkWrite c], write_pending := True\<rparr>"
  have "requests_inv ?t" using assms(1,2) ws ne f
    by (auto simp: w_inv_def requests_inv_def WritableStreamCloseQueuedOrInFlight_def
        WritableStreamDefaultControllerGetBackpressure_def WritableStreamDefaultControllerGetDesiredSize_def intro!: exI [of _ ws])
  moreover have "writers_inv ?t" "flight_inv ?t" using assms by (auto simp: w_inv_defs)
  ultimately have "w_inv ?t" by (simp add: w_inv_def)
  then show ?thesis using assms(4) ne
    by (simp add: WritableStreamDefaultControllerProcessWrite_def WritableStreamMarkFirstWriteRequestInFlight_def run_simps)
qed

lemma run_process_close:
  assumes "w_inv s" and "wstate s = Writable" and "started s" and "inFlightWriteRequest s = None"
    and "fst (wqueue s) = (CloseRecord, i) # q"
  shows "safe w_inv (WritableStreamDefaultControllerProcessClose s)"
proof -
  obtain ws where ws: "map fst (fst (wqueue s)) = map WriteRecord ws @ (if closeRequest s = None then [] else [CloseRecord])"
    "length ws = length (writeRequests s)" and f: "inFlightCloseRequest s = None" and b: "storedError s = Undefined" "pendingAbortRequest s = None"
    using assms(1,2,4,5) by (auto simp: w_inv_def requests_inv_def)
  from ws(1) assms(5) have w: "ws = []" by (cases ws) auto
  then have c: "closeRequest s \<noteq> None" and q: "q = []" using ws(1) assms(5) by (auto split: if_splits)
  obtain v q' where d: "DequeueValue (wqueue s) = Inr (v, q')" "queue_ok q'" "map fst (fst (wqueue s)) = v # map fst (fst q')"
    using dequeue_ok [of "wqueue s"] assms(1,5) by (auto simp: w_inv_def flight_inv_def)
  have e: "fst q' = []" using d(3) assms(5) q by simp
  let ?t = "s\<lparr>inFlightCloseRequest := closeRequest s, closeRequest := None, wqueue := q',
    sink_calls := sink_calls s @ [SinkClose], close_pending := True\<rparr>"
  have "requests_inv ?t" using ws w c e b assms(4)
    by (auto simp: requests_inv_def WritableStreamCloseQueuedOrInFlight_def)
  moreover have "writers_inv ?t" using assms(1,2) c f by (auto simp: w_inv_defs)
  moreover have "flight_inv ?t" using assms(1-4) c d(2) f by (auto simp: w_inv_defs)
  ultimately have "w_inv ?t" by (simp add: w_inv_def)
  then show ?thesis using f c d(1) e
    by (simp add: WritableStreamDefaultControllerProcessClose_def WritableStreamMarkCloseRequestInFlight_def
        dequeue_record_def run_simps)
qed

lemma run_advance:
  assumes "w_inv s" and "wstate s = Erroring \<Longrightarrow> inFlightCloseRequest s = None"
  shows "safe w_inv (WritableStreamDefaultControllerAdvanceQueueIfNeeded s)"
proof (cases "started s \<and> inFlightWriteRequest s = None \<and> wstate s \<noteq> Errored")
  case True
  have nc: "wstate s \<noteq> Closed" using assms(1) by (simp add: w_inv_def flight_inv_def)
  show ?thesis
  proof (cases "wstate s = Erroring")
    case E: True
    have "\<not> WritableStreamHasOperationMarkedInFlight s"
      using True assms(2) [OF E] by (simp add: WritableStreamHasOperationMarkedInFlight_def)
    then show ?thesis using True E assms(1) run_finish_erroring [of s]
      by (simp add: WritableStreamDefaultControllerAdvanceQueueIfNeeded_def run_simps w_inv_def)
  next
    case False
    then have W: "wstate s = Writable" using True nc by (cases "wstate s") auto
    show ?thesis
    proof (cases "fst (wqueue s)")
      case Nil
      then show ?thesis using True W assms(1)
        by (simp add: WritableStreamDefaultControllerAdvanceQueueIfNeeded_def run_simps)
    next
      case (Cons vi q)
      obtain v i where vi: "vi = (v, i)" by fastforce
      have p: "PeekQueueValue (wqueue s) = Inr v" using Cons vi by (simp add: peek_head)
      have st: "started s" "inFlightWriteRequest s = None" using True by simp_all
      show ?thesis
      proof (cases v)
        case (WriteRecord c)
        have "safe w_inv (WritableStreamDefaultControllerProcessWrite c s)"
          by (rule run_process_write [OF assms(1) W st]) (use Cons vi WriteRecord in simp)
        then show ?thesis using True W Cons p WriteRecord
          by (simp add: WritableStreamDefaultControllerAdvanceQueueIfNeeded_def ifp_def withp_def)
      next
        case CloseRecord
        have "safe w_inv (WritableStreamDefaultControllerProcessClose s)"
          by (rule run_process_close [OF assms(1) W st]) (use Cons vi CloseRecord in simp)
        then show ?thesis using True W Cons p CloseRecord
          by (simp add: WritableStreamDefaultControllerAdvanceQueueIfNeeded_def ifp_def withp_def)
      qed
    qed
  qed
next
  case False
  then show ?thesis using assms(1)
    by (auto simp: WritableStreamDefaultControllerAdvanceQueueIfNeeded_def run_simps)
qed

lemma run_error_if_needed:
  assumes "writers_inv s" and "flight_inv s" and "wstate s = Writable \<Longrightarrow> storedError s = Undefined"
    and "wstate s \<noteq> Writable \<Longrightarrow> w_inv s"
  shows "safe w_inv (WritableStreamDefaultControllerErrorIfNeeded e s)"
proof (cases "wstate s = Writable")
  case True
  note r = run_start_erroring [OF assms(1,2) assms(3) [OF True] True, of e]
  have "safe w_inv (thenp (WritableStreamStartErroring e) (ret ()) s)"
    by (rule safe_then [where p = "WritableStreamStartErroring e", OF r]) (use r in \<open>auto simp: ret_def\<close>)
  then show ?thesis using True
    by (simp add: WritableStreamDefaultControllerErrorIfNeeded_def WritableStreamDefaultControllerError_def
        whenp_def ifp_def thenp_def assertp_def bindp_def ret_def)
qed (use assms in \<open>simp add: WritableStreamDefaultControllerErrorIfNeeded_def run_simps\<close>)

lemma w_inv_stored: "w_inv s \<Longrightarrow> wstate s = Writable \<Longrightarrow> storedError s = Undefined"
  by (simp add: w_inv_def requests_inv_def)

lemma w_inv_parts: "w_inv s \<Longrightarrow> writers_inv s" "w_inv s \<Longrightarrow> flight_inv s"
  by (simp_all add: w_inv_def)

lemma run_update_backpressure:
  assumes "writers_inv s" and "wstate s = Writable" and "\<not> WritableStreamCloseQueuedOrInFlight s"
  obtains ps ws where "WritableStreamUpdateBackpressure b s = (Inr (), s\<lparr>promises := ps, writers := ws, backpressure := b\<rparr>)"
    and "writers_inv (s\<lparr>promises := ps, writers := ws, backpressure := b\<rparr>)"
proof (cases "the_writer s = None \<or> b = backpressure s")
  case True
  have "WritableStreamUpdateBackpressure b s = (Inr (), s\<lparr>backpressure := b\<rparr>)"
    using True assms(2,3) by (auto simp: WritableStreamUpdateBackpressure_def run_simps split: option.split)
  moreover have "writers_inv (s\<lparr>backpressure := b\<rparr>)" using True assms(1) by (auto simp: writers_inv_def WritableStreamCloseQueuedOrInFlight_def)
  ultimately show ?thesis using that [of "writers s" "promises s"] by simp
next
  case False
  then obtain w where w: "the_writer s = Some w" "b = (\<not> backpressure s)" by auto
  then have ok: "w < length (writers s)" "writer_ok (writers s ! w)" "(readyState (writers s ! w) = PendingState) = backpressure s"
    using assms by (auto simp: writers_inv_def)
  show ?thesis
  proof (cases b)
    case True
    then have "\<not> readyFns (writers s ! w)" using w ok by (simp add: writer_ok_def)
    note r = run_ready_reset [OF ok(1) this]
    show ?thesis
      by (rule that) (use True w ok assms in \<open>auto simp: WritableStreamUpdateBackpressure_def run_simps r writers_inv_def
          writer_ok_def nth_list_update WritableStreamCloseQueuedOrInFlight_def\<close>)
  next
    case b: False
    then have "readyFns (writers s ! w)" using w ok by (simp add: writer_ok_def)
    note r = run_ready_resolve [OF ok(1) this]
    show ?thesis
      by (rule that) (use b w ok assms in \<open>auto simp: WritableStreamUpdateBackpressure_def run_simps r writers_inv_def
          writer_ok_def nth_list_update WritableStreamCloseQueuedOrInFlight_def\<close>)
  qed
qed

section \<open>Writing and closing\<close>

lemma run_write_tail:
  assumes "w_inv s" and "wstate s = Writable" and "\<not> WritableStreamCloseQueuedOrInFlight s" and "the_writer s \<noteq> None"
  shows "safe w_inv (bindp WritableStreamAddWriteRequest (\<lambda>p. thenp (WritableStreamDefaultControllerWrite c n) (ret p)) s)"
proof -
  let ?t = "s\<lparr>promises := promises s @ [Pending], writeRequests := writeRequests s @ [length (promises s)]\<rparr>"
  have add: "WritableStreamAddWriteRequest s = (Inr (length (promises s)), ?t)"
    using assms(2,4) by (simp add: WritableStreamAddWriteRequest_def IsWritableStreamLocked_def promise_simps)
  have t: "writers_inv ?t" "flight_inv ?t" "storedError ?t = Undefined" "wstate ?t = Writable"
    using assms(1,2) by (auto simp: w_inv_defs)
  have "safe w_inv (WritableStreamDefaultControllerWrite c n ?t)"
  proof (cases "EnqueueValueWithSize (WriteRecord c) n (wqueue s)")
    case (Inl e)
    then show ?thesis using run_error_if_needed [OF t(1,2), of "Error e"] t(3,4)
      by (simp add: WritableStreamDefaultControllerWrite_def withp_def)
  next
    case (Inr q)
    have q: "queue_ok q" "map fst (fst q) = map fst (fst (wqueue s)) @ [WriteRecord c]"
      using enqueue_ok [OF _ Inr] assms(1) by (auto simp: w_inv_def flight_inv_def)
    let ?u = "?t\<lparr>wqueue := q\<rparr>" let ?b = "WritableStreamDefaultControllerGetBackpressure ?u"
    have u: "writers_inv ?u" "flight_inv ?u" "wstate ?u = Writable" "\<not> WritableStreamCloseQueuedOrInFlight ?u"
      using t assms(3) q(1) by (auto simp: writers_inv_def flight_inv_def WritableStreamCloseQueuedOrInFlight_def
          WritableStreamHasOperationMarkedInFlight_def)
    obtain ps ws where up: "WritableStreamUpdateBackpressure ?b ?u = (Inr (), ?u\<lparr>promises := ps, writers := ws, backpressure := ?b\<rparr>)"
      "writers_inv (?u\<lparr>promises := ps, writers := ws, backpressure := ?b\<rparr>)" by (rule run_update_backpressure [OF u(1,3,4)])
    let ?v = "?u\<lparr>promises := ps, writers := ws, backpressure := ?b\<rparr>"
    obtain cs where cs: "map fst (fst (wqueue s)) = map WriteRecord cs" "length cs = length (writeRequests s) + (if inFlightWriteRequest s = None then 0 else 1)"
      "closeRequest s = None" "inFlightCloseRequest s = None" "pendingAbortRequest s = None"
      using assms(1-3) by (auto simp: w_inv_def requests_inv_def WritableStreamCloseQueuedOrInFlight_def)
    have "requests_inv ?v" using cs q(2) t(3)
      by (auto simp: requests_inv_def WritableStreamCloseQueuedOrInFlight_def WritableStreamDefaultControllerGetBackpressure_def
          WritableStreamDefaultControllerGetDesiredSize_def intro!: exI [of _ "cs @ [c]"])
    moreover have "flight_inv ?v" using u(2) by (auto simp: flight_inv_def WritableStreamHasOperationMarkedInFlight_def)
    ultimately have v: "w_inv ?v" using up(2) by (simp add: w_inv_def)
    have "safe w_inv (thenp WritableStreamDefaultControllerAdvanceQueueIfNeeded (ret ()) ?v)"
      by (rule safe_ret_after, rule run_advance [OF v]) (use assms(2) in simp)
    then show ?thesis using Inr u(3,4) up(1)
      by (simp add: WritableStreamDefaultControllerWrite_def withp_def thenp_def bindp_def whenp_def ifp_def modify_def)
  qed
  then show ?thesis using add safe_ret_after [of w_inv "WritableStreamDefaultControllerWrite c n" ?t "length (promises s)"]
    by (simp add: bindp_def)
qed

lemma run_close_tail:
  assumes "w_inv s" and "wstate s = Writable \<or> wstate s = Erroring" and "\<not> WritableStreamCloseQueuedOrInFlight s"
    and w: "the_writer s = Some w"
  shows "safe w_inv (bindp (new_promise Pending) (\<lambda>p. thenp (modify (\<lambda>s. s\<lparr>closeRequest := Some p\<rparr>))
         (thenp (whenp (\<lambda>u. backpressure u \<and> wstate s = Writable) (defaultWriterReadyPromiseResolve w))
         (thenp WritableStreamDefaultControllerClose (ret p)))) s)"
proof -
  let ?p = "length (promises s)"
  let ?t = "s\<lparr>promises := promises s @ [Pending], closeRequest := Some ?p\<rparr>"
  obtain q where q: "EnqueueValueWithSize CloseRecord (Finite 0) (wqueue s) = Inr q"
    by (simp add: EnqueueValueWithSize_def finite_number)
  have q2: "queue_ok q" "map fst (fst q) = map fst (fst (wqueue s)) @ [CloseRecord]"
    using enqueue_ok [OF _ q] assms(1) by (auto simp: w_inv_def flight_inv_def)
  have f: "inFlightCloseRequest s = None" "closeRequest s = None" using assms(3) by (simp_all add: WritableStreamCloseQueuedOrInFlight_def)
  have after: "safe w_inv (thenp WritableStreamDefaultControllerClose (ret ?p) (?t\<lparr>promises := ps, writers := ws\<rparr>))"
    if "writers_inv (?t\<lparr>promises := ps, writers := ws\<rparr>)" for ps ws
  proof -
    let ?v = "?t\<lparr>promises := ps, writers := ws, wqueue := q\<rparr>"
    have "writers_inv ?v" using that by (auto simp: writers_inv_def WritableStreamCloseQueuedOrInFlight_def)
    moreover have "flight_inv ?v" using assms(1) q2(1) by (auto simp: w_inv_defs)
    moreover have "requests_inv ?v" if W: "wstate s = Writable"
    proof -
      have "requests_inv s" using assms(1) W by (simp add: w_inv_def)
      then obtain cs where "map fst (fst (wqueue s)) = map WriteRecord cs"
        "length cs = length (writeRequests s) + (if inFlightWriteRequest s = None then 0 else 1)"
        "storedError s = Undefined" "pendingAbortRequest s = None" using f by (auto simp: requests_inv_def)
      then show ?thesis using q2(2) f
        by (auto simp: requests_inv_def WritableStreamCloseQueuedOrInFlight_def intro!: exI [of _ cs])
    qed
    ultimately have "w_inv ?v" by (simp add: w_inv_def)
    then have "safe w_inv (thenp WritableStreamDefaultControllerAdvanceQueueIfNeeded (ret ()) ?v)"
      using f by (intro safe_ret_after run_advance) simp_all
    then have "safe w_inv (WritableStreamDefaultControllerClose (?t\<lparr>promises := ps, writers := ws\<rparr>))"
      using q by (simp add: WritableStreamDefaultControllerClose_def withp_def thenp_def bindp_def modify_def)
    then show ?thesis by (rule safe_ret_after)
  qed
  show ?thesis
  proof (cases "backpressure s \<and> wstate s = Writable")
    case True
    then have ok: "w < length (writers ?t)" "readyFns (writers ?t ! w)"
      using assms(1,3) w by (auto simp: w_inv_def writers_inv_def writer_ok_def)
    note r = run_ready_resolve [OF ok]
    have "writers_inv (?t\<lparr>promises := settle (readyPromise (writers ?t ! w)) (Fulfilled ()) (promises ?t),
       writers := (writers ?t)[w := (writers ?t ! w)\<lparr>readyFns := False, readyState := FulfilledState\<rparr>]\<rparr>)"
      using assms(1) w ok(1) by (auto simp: w_inv_defs nth_list_update)
    from after [OF this] show ?thesis using True r
      by (simp add: thenp_def bindp_def new_promise_def modify_def whenp_def ifp_def)
  next
    case False
    have "writers_inv (?t\<lparr>promises := promises ?t, writers := writers ?t\<rparr>)"
      using assms(1,2,3) w False by (auto simp: w_inv_defs)
    moreover have "?t\<lparr>promises := promises ?t, writers := writers ?t\<rparr> = ?t" by simp
    ultimately have "safe w_inv (thenp WritableStreamDefaultControllerClose (ret ?p) ?t)" using after by metis
    then show ?thesis using False
      by (auto simp: thenp_def bindp_def new_promise_def modify_def whenp_def ifp_def ret_def)
  qed
qed

section \<open>Every event\<close>

lemma w_inv_new_promise: "w_inv s \<Longrightarrow> w_inv (s\<lparr>promises := promises s @ [p]\<rparr>)"
  by (auto simp: w_inv_defs)

lemma run_new_promise: "w_inv s \<Longrightarrow> safe w_inv (new_promise p s)"
  by (simp add: new_promise_def w_inv_new_promise)

lemma run_rejected: "w_inv s \<Longrightarrow> safe w_inv (rejected e s)"
  unfolding rejected_def by (rule run_new_promise)

lemma w_inv_not_closed: "w_inv s \<Longrightarrow> wstate s \<noteq> Closed"
  by (simp add: w_inv_def flight_inv_def)

lemma owner: "w_inv s \<Longrightarrow> w < length (writers s) \<Longrightarrow> owns_stream (writer_of s w) = (the_writer s = Some w)"
  by (simp add: w_inv_def writers_inv_def writer_of_def)

lemma state_cases:
  assumes "w_inv s"
  obtains "wstate s = Writable" | "wstate s = Erroring" | "wstate s = Errored"
  using w_inv_not_closed [OF assms] by (cases "wstate s") auto

lemma run_close:
  assumes "w_inv s" and "the_writer s = Some w" and "\<not> WritableStreamCloseQueuedOrInFlight s" and "owns_stream (writer_of s w)"
  shows "safe w_inv (WritableStreamDefaultWriterClose w s)"
proof (cases "wstate s = Errored")
  case True
  then show ?thesis using assms run_rejected [OF assms(1)] by (simp add: WritableStreamDefaultWriterClose_def run_simps)
next
  case False
  then have st: "wstate s = Writable \<or> wstate s = Erroring" using state_cases [OF assms(1)] by auto
  have "WritableStreamDefaultWriterClose w s =
      bindp (new_promise Pending) (\<lambda>p. thenp (modify (\<lambda>s. s\<lparr>closeRequest := Some p\<rparr>))
         (thenp (whenp (\<lambda>u. backpressure u \<and> wstate s = Writable) (defaultWriterReadyPromiseResolve w))
         (thenp WritableStreamDefaultControllerClose (ret p)))) s"
    using st assms(3,4) w_inv_not_closed [OF assms(1)] False
    by (simp add: WritableStreamDefaultWriterClose_def thenp_def bindp_def assertp_def ifp_def ret_def withp_def)
  then show ?thesis using run_close_tail [OF assms(1) st assms(3,2)] by simp
qed

lemma run_writer_close: "w_inv s \<Longrightarrow> w < length (writers s) \<Longrightarrow> safe w_inv (writer_close w s)"
  using run_rejected [of s] run_close [of s w] owner [of s w] by (simp add: writer_close_def ifp_def)

lemma run_close_propagation:
  "w_inv s \<Longrightarrow> w < length (writers s) \<Longrightarrow> owns_stream (writer_of s w) \<Longrightarrow>
    safe w_inv (WritableStreamDefaultWriterCloseWithErrorPropagation w s)"
  using run_new_promise [of s] run_close [of s w] owner [of s w] w_inv_not_closed [of s]
  by (cases "wstate s")
    (auto simp: WritableStreamDefaultWriterCloseWithErrorPropagation_def ifp_def withp_def thenp_def bindp_def assertp_def ret_def)

lemma run_get_chunk_size:
  assumes "w_inv s"
  shows "safe w_inv (WritableStreamDefaultControllerGetChunkSize size_of c s)"
proof (cases "size_of c")
  case (Inl e)
  have "safe w_inv (WritableStreamDefaultControllerErrorIfNeeded e s)"
    by (rule run_error_if_needed) (use assms w_inv_parts w_inv_stored in auto)
  then show ?thesis using Inl by (simp add: WritableStreamDefaultControllerGetChunkSize_def safe_ret_after)
qed (use assms in \<open>simp add: WritableStreamDefaultControllerGetChunkSize_def ret_def\<close>)

text \<open>Once a stream is not writable it never is again.\<close>

abbreviation not_writable :: "'c writable \<Rightarrow> bool" where
  "not_writable s \<equiv> wstate s \<noteq> Writable"

lemma keeps_promise_functions [keeps_rules]:
  "keeps not_writable (new_promise p)"
  "keeps not_writable (settle_promise i p)"
  "keeps not_writable (update_writer w f)"
  "keeps not_writable (defaultWriterClosedPromiseReject w e)"
  "keeps not_writable (WritableStreamDefaultWriterEnsureReadyPromiseRejected w e)"
  "keeps not_writable (reject_all rs e)"
  by (simp add: keeps_def new_promise_def settle_promise_def update_writer_def modify_def)+
    (simp add: defaultWriterClosedPromiseReject_def WritableStreamDefaultWriterEnsureReadyPromiseRejected_def
      defaultWriterReadyPromiseReject_def defaultWriterReadyPromiseResetToRejected_def seqp.simps
      keeps_def promise_simps run_reject_all)+

lemma keeps_finish_erroring [keeps_rules]: "keeps not_writable WritableStreamFinishErroring"
  unfolding WritableStreamFinishErroring_def WritableStreamRejectCloseAndClosedPromiseIfNeeded_def AbortSteps_def seqp.simps call_kReject_def
  by (intro keeps_rules; simp)

lemma start_erroring_not_writable:
  assumes "storedError s = Undefined" and "wstate s = Writable"
  shows "not_writable (snd (WritableStreamStartErroring e s))"
proof -
  let ?rest = "thenp (withp the_writer (\<lambda>w. case w of None \<Rightarrow> ret ()
       | Some w \<Rightarrow> WritableStreamDefaultWriterEnsureReadyPromiseRejected w e))
     (thenp (whenp (\<lambda>s. \<not> WritableStreamHasOperationMarkedInFlight s \<and> started s) WritableStreamFinishErroring) (ret ()))"
  have "keeps not_writable ?rest" by (intro keeps_rules)
  from keepsD [OF this, of "s\<lparr>wstate := Erroring, storedError := e\<rparr>"] show ?thesis
    using assms by (simp add: WritableStreamStartErroring_def thenp_def bindp_def assertp_def ifp_def ret_def modify_def)
qed

lemma get_chunk_size_writable:
  assumes "w_inv s" and "WritableStreamDefaultControllerGetChunkSize size_of c s = (Inr n, t)" and "wstate t = Writable"
  shows "t = s"
proof (cases "size_of c")
  case (Inl e)
  show ?thesis
  proof (cases "wstate s = Writable")
    case True
    have "not_writable (snd (WritableStreamStartErroring e s))"
      by (rule start_erroring_not_writable [OF w_inv_stored [OF assms(1) True] True])
    then have "not_writable t" using assms(2) Inl True
      by (auto simp: WritableStreamDefaultControllerGetChunkSize_def WritableStreamDefaultControllerErrorIfNeeded_def
          WritableStreamDefaultControllerError_def run_simps split: prod.splits sum.splits)
    then show ?thesis using assms(3) by simp
  next
    case False
    then show ?thesis using assms(2) Inl
      by (simp add: WritableStreamDefaultControllerGetChunkSize_def WritableStreamDefaultControllerErrorIfNeeded_def run_simps)
  qed
qed (use assms(2) in \<open>simp add: WritableStreamDefaultControllerGetChunkSize_def ret_def\<close>)

lemma run_write:
  assumes "w_inv s" and "w < length (writers s)" and "owns_stream (writer_of s w)"
  shows "safe w_inv (WritableStreamDefaultWriterWrite size_of w c s)"
proof -
  let ?rest = "\<lambda>n. ifp (\<lambda>s. wstate s = Errored) (withp storedError (\<lambda>e. new_promise (Rejected e)))
       (ifp (\<lambda>s. WritableStreamCloseQueuedOrInFlight s \<or> wstate s = Closed) (rejected TypeError)
       (ifp (\<lambda>s. wstate s = Erroring) (withp storedError (\<lambda>e. new_promise (Rejected e)))
       (thenp (assertp (\<lambda>s. wstate s = Writable))
       (bindp WritableStreamAddWriteRequest (\<lambda>p. thenp (WritableStreamDefaultControllerWrite c n) (ret p))))))"
  have "safe w_inv (bindp (WritableStreamDefaultControllerGetChunkSize size_of c) ?rest s)"
  proof (rule safe_bind)
    fix n t assume g: "WritableStreamDefaultControllerGetChunkSize size_of c s = (Inr n, t)"
    have t: "w_inv t" using run_get_chunk_size [OF assms(1), of size_of c] g by simp
    show "safe w_inv (?rest n t)"
    proof (cases "wstate t = Writable \<and> \<not> WritableStreamCloseQueuedOrInFlight t")
      case True
      then have "t = s" using get_chunk_size_writable [OF assms(1) g] by simp
      then have "the_writer t \<noteq> None" using owner [OF assms(1,2)] assms(3) by simp
      then show ?thesis using True run_write_tail [OF t] by (simp add: ifp_def thenp_def bindp_def assertp_def ret_def)
    next
      case False
      then show ?thesis using state_cases [OF t] run_new_promise [OF t] run_rejected [OF t]
        by (auto simp: ifp_def withp_def)
    qed
  qed (rule run_get_chunk_size [OF assms(1)])
  then show ?thesis using assms(3) by (simp add: WritableStreamDefaultWriterWrite_def thenp_def bindp_def assertp_def ifp_def ret_def)
qed

lemma run_writer_write: "w_inv s \<Longrightarrow> w < length (writers s) \<Longrightarrow> safe w_inv (writer_write size_of w c s)"
  using run_rejected [of s] run_write [of s w size_of c] by (simp add: writer_write_def ifp_def)

lemma run_abort:
  assumes "w_inv s"
  shows "safe w_inv (WritableStreamAbort e s)"
proof (cases "wstate s = Errored \<or> pendingAbortRequest s \<noteq> None")
  case True
  then show ?thesis using assms run_new_promise [OF assms] w_inv_not_closed [OF assms]
    by (auto simp: WritableStreamAbort_def ifp_def withp_def ret_def)
next
  case False
  let ?a = "\<lambda>was. Some \<lparr>abort_promise = length (promises s), prop_reason = (if was then Undefined else e), prop_wasAlreadyErroring = was\<rparr>"
  let ?t = "\<lambda>was. s\<lparr>promises := promises s @ [Pending], pendingAbortRequest := ?a was\<rparr>"
  have w: "writers_inv (?t b)" "flight_inv (?t b)" for b using assms by (auto simp: w_inv_defs)
  show ?thesis
  proof (cases "wstate s = Writable")
    case True
    have "safe w_inv (WritableStreamStartErroring e (?t False))"
      by (rule run_start_erroring [OF w]) (use True w_inv_stored [OF assms True] in simp_all)
    then have "safe w_inv (thenp (WritableStreamStartErroring e) (ret (length (promises s))) (?t False))"
      by (rule safe_ret_after)
    then show ?thesis using True False
      by (simp add: WritableStreamAbort_def ifp_def withp_def thenp_def bindp_def assertp_def ret_def new_promise_def modify_def)
  next
    case no: False
    then have E: "wstate s = Erroring" using False w_inv_not_closed [OF assms] by (cases "wstate s") auto
    have "w_inv (?t True)" using w [of True] E by (simp add: w_inv_def)
    then show ?thesis using E False
      by (simp add: WritableStreamAbort_def ifp_def withp_def thenp_def bindp_def assertp_def ret_def new_promise_def modify_def)
  qed
qed

lemma run_release:
  assumes "w_inv s" and "w < length (writers s)"
  shows "safe w_inv (writer_releaseLock w s)"
proof (cases "owns_stream (writer_of s w)")
  case False
  then show ?thesis using assms by (simp add: writer_releaseLock_def run_simps)
next
  case True
  then have tw: "the_writer s = Some w" using owner [OF assms] by simp
  have ok: "w < length (writers s)" "writer_ok (writers s ! w)" using assms by (simp_all add: w_inv_def writers_inv_def)
  obtain ps x where r: "WritableStreamDefaultWriterEnsureReadyPromiseRejected w (Error TypeError) s =
      (Inr (), s\<lparr>promises := ps, writers := (writers s)[w := x]\<rparr>)" "writer_ok x" "owns_stream x = owns_stream (writers s ! w)"
    using run_ensure_ready [OF ok] by metis
  let ?t = "s\<lparr>promises := ps, writers := (writers s)[w := x]\<rparr>"
  have "w < length (writers ?t)" "writer_ok (writers ?t ! w)" using r(2) assms(2) by simp_all
  then obtain qs y where c: "WritableStreamDefaultWriterEnsureClosedPromiseRejected w (Error TypeError) ?t =
      (Inr (), ?t\<lparr>promises := qs, writers := (writers ?t)[w := y]\<rparr>)" "writer_ok y" "owns_stream y = owns_stream (writers ?t ! w)"
    using run_ensure_closed by metis
  let ?u = "?t\<lparr>promises := qs, writers := (writers ?t)[w := y], the_writer := None\<rparr>"
  have "w_inv (?u\<lparr>writers := (writers ?u)[w := (writers ?u ! w)\<lparr>owns_stream := False\<rparr>]\<rparr>)"
    using assms c(2) tw by (auto simp: w_inv_defs nth_list_update)
  then show ?thesis using True tw r(1) c(1)
    by (simp add: writer_releaseLock_def WritableStreamDefaultWriterRelease_def run_simps update_writer_def)
qed

lemma run_get_writer:
  assumes "w_inv s"
  shows "safe w_inv (new_WritableStreamDefaultWriter s)"
proof (cases "the_writer s = None")
  case True
  have n: "(writers s @ [x])[length (writers s) := y] = writers s @ [y]" for x y by simp
  have ok: "w_inv (s\<lparr>the_writer := Some (length (writers s)), promises := ps, writers := writers s @ [x]\<rparr>)"
    if "writer_ok x" "owns_stream x" "wstate s = Writable \<or> wstate s = Erroring \<longrightarrow> closedState x = PendingState"
      "wstate s = Writable \<longrightarrow> (readyState x = PendingState) = (backpressure s \<and> \<not> WritableStreamCloseQueuedOrInFlight s)" for x ps
    using assms that True by (auto simp: w_inv_defs nth_append less_Suc_eq)
  show ?thesis using state_cases [OF assms]
    by cases (auto simp: new_WritableStreamDefaultWriter_def IsWritableStreamLocked_def True promise_simps
      defaultWriterReadyPromiseInitialize_def defaultWriterReadyPromiseInitializeAsResolved_def
      defaultWriterReadyPromiseInitializeAsRejected_def defaultWriterClosedPromiseInitialize_def
      defaultWriterClosedPromiseInitializeAsRejected_def n WritableStreamCloseQueuedOrInFlight_def
      blank_writer_def writer_ok_def intro!: ok)
next
  case False
  then show ?thesis using assms
    by (simp add: new_WritableStreamDefaultWriter_def IsWritableStreamLocked_def ifp_def throw_def)
qed

lemma run_stream_abort: "w_inv s \<Longrightarrow> safe w_inv (stream_abort e s)"
  and run_writer_abort: "w_inv s \<Longrightarrow> safe w_inv (writer_abort w e s)"
  using run_rejected [of s] run_abort [of s e] by (simp_all add: stream_abort_def writer_abort_def ifp_def)

lemma run_controller_error:
  assumes "w_inv s"
  shows "safe w_inv (controller_error e s)"
proof (cases "wstate s = Writable")
  case True
  note r = run_start_erroring [OF w_inv_parts [OF assms] w_inv_stored [OF assms True] True, of e]
  show ?thesis using True safe_ret_after [where p = "WritableStreamStartErroring e" and x = "()", OF r]
    by (simp add: controller_error_def WritableStreamDefaultControllerError_def thenp_def bindp_def assertp_def ifp_def ret_def)
qed (use assms in \<open>simp add: controller_error_def run_simps\<close>)

section \<open>Reactions\<close>

lemma start_facts:
  assumes "w_inv s" and "start_pending s"
  shows "\<not> started s" and "\<not> WritableStreamHasOperationMarkedInFlight s"
    and "wstate s = Writable \<or> wstate s = Erroring" and "w_inv (s\<lparr>start_pending := False, started := True\<rparr>)"
  using assms by (auto simp: w_inv_defs)

lemma run_start_fulfilled:
  assumes "w_inv s" and "start_pending s"
  shows "safe w_inv (start_fulfilled (s\<lparr>start_pending := False\<rparr>))"
proof -
  note f = start_facts [OF assms]
  have "safe w_inv (WritableStreamDefaultControllerAdvanceQueueIfNeeded (s\<lparr>start_pending := False, started := True\<rparr>))"
    by (rule run_advance [OF f(4)]) (use f(2) in \<open>simp add: WritableStreamHasOperationMarkedInFlight_def\<close>)
  from safe_ret_after [where p = WritableStreamDefaultControllerAdvanceQueueIfNeeded and x = "()", OF this] show ?thesis using f(3)
    by (simp add: start_fulfilled_def thenp_def bindp_def assertp_def ifp_def ret_def modify_def)
qed

lemma run_start_rejected:
  assumes "w_inv s" and "start_pending s"
  shows "safe w_inv (start_rejected e (s\<lparr>start_pending := False\<rparr>))"
proof -
  note f = start_facts [OF assms]
  let ?t = "s\<lparr>start_pending := False, started := True\<rparr>"
  have "safe w_inv (WritableStreamDealWithRejection e ?t)"
  proof (cases "wstate s = Writable")
    case True
    then show ?thesis using run_start_erroring [OF w_inv_parts [OF f(4)], of e] w_inv_stored [OF assms(1)]
      by (simp add: WritableStreamDealWithRejection_def ifp_def)
  next
    case False
    then have "safe w_inv (WritableStreamFinishErroring ?t)"
      using f by (intro run_finish_erroring) (auto simp: w_inv_def WritableStreamHasOperationMarkedInFlight_def)
    from safe_ret_after [where p = WritableStreamFinishErroring and x = "()", OF this] show ?thesis using False f(3)
      by (simp add: WritableStreamDealWithRejection_def thenp_def bindp_def assertp_def ifp_def ret_def)
  qed
  from safe_ret_after [where p = "WritableStreamDealWithRejection e" and x = "()", OF this] show ?thesis using f(3)
    by (simp add: start_rejected_def thenp_def bindp_def assertp_def ifp_def ret_def modify_def)
qed

text \<open>The reactions to the other promises of the sink throw at the call of the request's functions.\<close>

lemma reaction_keeps:
  "w_inv s \<Longrightarrow> w_inv (s\<lparr>write_pending := False\<rparr>)" "w_inv s \<Longrightarrow> w_inv (s\<lparr>close_pending := False\<rparr>)"
  "w_inv s \<Longrightarrow> w_inv (s\<lparr>abort_pending := None\<rparr>)"
  by (auto simp: w_inv_defs)

lemma run_reactions:
  "w_inv s \<Longrightarrow> write_pending s \<Longrightarrow> write_fulfilled (s\<lparr>write_pending := False\<rparr>) = (Inl (Error TypeError), s\<lparr>write_pending := False\<rparr>)"
  "w_inv s \<Longrightarrow> write_pending s \<Longrightarrow> WritableStreamFinishInFlightWriteWithError e (s\<lparr>write_pending := False\<rparr>) =
    (Inl (Error TypeError), s\<lparr>write_pending := False\<rparr>)"
  "w_inv s \<Longrightarrow> close_pending s \<Longrightarrow> WritableStreamFinishInFlightClose (s\<lparr>close_pending := False\<rparr>) =
    (Inl (Error TypeError), s\<lparr>close_pending := False\<rparr>)"
  "w_inv s \<Longrightarrow> close_pending s \<Longrightarrow> WritableStreamFinishInFlightCloseWithError e (s\<lparr>close_pending := False\<rparr>) =
    (Inl (Error TypeError), s\<lparr>close_pending := False\<rparr>)"
  "abort_fulfilled a s = (Inl (Error TypeError), s)" "abort_rejected a e s = (Inl (Error TypeError), s)"
  by (auto simp: w_inv_def flight_inv_def write_fulfilled_def WritableStreamFinishInFlightWrite_def
      WritableStreamFinishInFlightWriteWithError_def WritableStreamFinishInFlightClose_def
      WritableStreamFinishInFlightCloseWithError_def abort_fulfilled_def abort_rejected_def
      call_kResolve_def call_kReject_def run_simps)

lemma w_step_safe:
  assumes "w_inv s" and "w_enabled ev s"
  shows "safe w_inv (w_step size_of ev s)"
proof (cases ev)
  case (CloseWithErrorPropagation w)
  then show ?thesis using assms run_close_propagation [of s w] by (simp add: safe_run_promise)
next
  case SinkWriteFulfilled
  then show ?thesis using assms run_reactions(1) [of s] reaction_keeps(1) [of s]
    by (simp add: run_unit_def thenp_def bindp_def modify_def)
next
  case (SinkWriteRejected e)
  then show ?thesis using assms run_reactions(2) [of s e] reaction_keeps(1) [of s]
    by (simp add: run_unit_def thenp_def bindp_def modify_def)
next
  case SinkCloseFulfilled
  then show ?thesis using assms run_reactions(3) [of s] reaction_keeps(2) [of s]
    by (simp add: run_unit_def thenp_def bindp_def modify_def)
next
  case (SinkCloseRejected e)
  then show ?thesis using assms run_reactions(4) [of s e] reaction_keeps(2) [of s]
    by (simp add: run_unit_def thenp_def bindp_def modify_def)
next
  case StartFulfilled
  then have "safe w_inv (thenp (modify (\<lambda>s. s\<lparr>start_pending := False\<rparr>)) start_fulfilled s)"
    using assms run_start_fulfilled [of s] by (simp add: thenp_def bindp_def modify_def)
  then show ?thesis using StartFulfilled by (simp add: safe_run_unit)
next
  case (StartRejected e)
  then have "safe w_inv (thenp (modify (\<lambda>s. s\<lparr>start_pending := False\<rparr>)) (start_rejected e) s)"
    using assms run_start_rejected [of s e] by (simp add: thenp_def bindp_def modify_def)
  then show ?thesis using StartRejected by (simp add: safe_run_unit)
qed (use assms in \<open>auto simp: run_reactions reaction_keeps run_unit_def [of "withp _ _"] withp_def thenp_def bindp_def modify_def
      intro!: safe_run_unit safe_run_promise run_get_writer run_writer_write run_writer_close run_writer_abort
        run_stream_abort run_release run_controller_error\<close>)

lemma set_up_inv: "w_inv (snd (SetUpWritableStreamDefaultController (InitializeWritableStream h)))"
  by (auto simp: ResetQueue_def queue_ok_def SetUpWritableStreamDefaultController_def InitializeWritableStream_def WritableStreamUpdateBackpressure_def
      run_simps w_inv_defs)

lemma new_stream_set_up:
  "new_WritableStream typed sizeable hwm callable start = Inr s \<Longrightarrow> \<exists>h. set_up_stream h start = Inr s"
  "CreateWritableStream h start = Inr s \<Longrightarrow> \<exists>h. set_up_stream h start = Inr s"
  by (auto simp: new_WritableStream_def CreateWritableStream_def split: if_splits prod.splits sum.splits)

lemma set_up_stream_state:
  assumes "set_up_stream h start = Inr s"
  shows "s = snd (SetUpWritableStreamDefaultController (InitializeWritableStream h))"
  using assms by (auto simp: set_up_stream_def split: prod.splits sum.splits option.splits)

text \<open>What holds of a stream that was just set up and is kept by every step holds of the reachable ones.\<close>

lemma w_reachable_induct:
  assumes "w_reachable size_of t"
    and "\<And>h. I (snd (SetUpWritableStreamDefaultController (InitializeWritableStream h)))"
    and "\<And>s ev. I s \<Longrightarrow> w_enabled ev s \<Longrightarrow> I (snd (w_step size_of ev s))"
  shows "I t"
proof -
  obtain s where s: "I s" "w_runs size_of s t"
    using assms(1,2) new_stream_set_up set_up_stream_state unfolding w_reachable_def by metis
  from s(2,1) show ?thesis by (induction rule: w_runs.induct) (auto intro: assms(3))
qed

lemma w_reachable_inv: "w_reachable size_of t \<Longrightarrow> w_inv t"
  by (erule w_reachable_induct) (use set_up_inv w_step_safe in \<open>auto simp: safe_def\<close>)

section \<open>What holds of every reachable stream\<close>

text \<open>The events of a list, one after the other, if each is enabled when it comes.\<close>

primrec w_trace :: "('c \<Rightarrow> reason + js_number) \<Rightarrow> 'c w_event list \<Rightarrow> 'c writable \<Rightarrow> 'c writable option" where
  "w_trace size_of [] s = Some s"
| "w_trace size_of (ev # evs) s = (if w_enabled ev s then w_trace size_of evs (snd (w_step size_of ev s)) else None)"

lemma w_trace_runs: "w_runs size_of r s \<Longrightarrow> w_trace size_of evs s = Some t \<Longrightarrow> w_runs size_of r t"
  by (induction evs arbitrary: s) (auto split: if_splits dest: w_snoc)

lemma w_trace_reachable:
  "new_WritableStream typed sizeable hwm callable start = Inr r \<Longrightarrow> w_trace size_of evs r = Some s \<Longrightarrow> w_reachable size_of s"
  unfolding w_reachable_def using w_trace_runs [OF w_refl] by blast

lemma reachable_backpressure:
  assumes "w_reachable size_of t" and "wstate t = Writable" and "\<not> WritableStreamCloseQueuedOrInFlight t"
  shows "backpressure t = at_most_zero (minus_total (strategyHWM t) (sum_list (map snd (fst (wqueue t)))))"
    and "the_writer t = Some w \<Longrightarrow> (readyState (writer_of t w) = PendingState) = backpressure t"
  using w_reachable_inv [OF assms(1)] assms(2,3)
  by (auto simp: w_inv_def writers_inv_def requests_inv_def flight_inv_def queue_ok_def writer_of_def
      WritableStreamDefaultControllerGetBackpressure_def WritableStreamDefaultControllerGetDesiredSize_def)


lemma trace_example:
  obtains s :: "nat writable" where "w_reachable (\<lambda>c. Inr (Finite 1)) s" and "w_enabled SinkWriteFulfilled s"
    and "wstate s = Writable" and "\<not> WritableStreamCloseQueuedOrInFlight s" and "the_writer s = Some 0"
    and "backpressure s" and "sink_calls s = [SinkWrite 5]"
proof -
  have "case new_WritableStream False True None True None of Inl e \<Rightarrow> False
      | Inr r \<Rightarrow> (case w_trace (\<lambda>c. Inr (Finite 1)) [GetWriter, StartFulfilled, WriteChunk 0 (5 :: nat)] r of None \<Rightarrow> False
         | Some s \<Rightarrow> w_enabled SinkWriteFulfilled s \<and> wstate s = Writable \<and> \<not> WritableStreamCloseQueuedOrInFlight s \<and>
             the_writer s = Some 0 \<and> backpressure s \<and> sink_calls s = [SinkWrite 5])"
    by code_simp
  then show thesis
    by (auto split: sum.splits option.splits simp del: w_trace.simps w_enabled.simps intro: that [OF w_trace_reachable])
qed


text \<open>C31: in every reachable writable stream that is writable and not closing, the backpressure flag says
  whether the high water mark minus the sum of the sizes of the queued chunks is at most zero, and the
  promise \<open>ready\<close> of the writer that holds the stream is pending exactly under backpressure.\<close>

theorem writable_backpressure:
  assumes "w_reachable size_of t" and "wstate t = Writable" and "\<not> WritableStreamCloseQueuedOrInFlight t"
  shows "backpressure t = at_most_zero (minus_total (strategyHWM t) (sum_list (map snd (fst (wqueue t))))) \<and>
    (\<forall>w. the_writer t = Some w \<longrightarrow> (readyState (writer_of t w) = PendingState) = backpressure t)"
  using reachable_backpressure [OF assms] by blast

lemma writable_backpressure_witness:
  "\<exists>s :: nat writable. sink_calls s = [SinkWrite 5] \<and> the_writer s = Some 0 \<and> readyState (writer_of s 0) = PendingState"
  by (rule trace_example) (use writable_backpressure in blast)

text \<open>the sink of a writable stream is asked at most once to write or to close: the request in
  flight is never taken back, since the reaction to the sink's promise throws at the call of the
  function that is not under \<open>kResolve\<close>.\<close>

theorem writable_sink_once:
  assumes "w_reachable size_of t"
  shows "sink_work (sink_calls t) \<le> 1"
  using w_reachable_inv [OF assms] by (simp add: w_inv_def flight_inv_def)

lemma writable_sink_once_witness:
  "\<exists>s :: nat writable. sink_calls s = [SinkWrite 5] \<and> sink_work (sink_calls s) \<le> 1"
  by (rule trace_example) (use writable_sink_once in blast)

end
