(* ===== verification/Writable_Live.thy ===== *)
theory Writable_Live
  imports Writable_Safety
begin

text \<open>The promises that the writable streams of \<open>packages/zero/lib/whatwg/streams/writable.js\<close> never
  settle. A request keeps the functions of its promise under the keys \<open>_resolve\<close> and \<open>_reject\<close>, and
  the code calls them under the symbols \<open>kResolve\<close> and \<open>kReject\<close>, where there is nothing: only a
  writer's own promises can be settled. \<open>never P\<close> says that no promise of \<open>P\<close> is one of those;
  every operation keeps it, so a request made in one step stays pending in every run from there.\<close>

section \<open>Promises out of reach\<close>

definition writer_cannot :: "nat set \<Rightarrow> nat \<Rightarrow> writer \<Rightarrow> bool" where
  "writer_cannot P n x \<longleftrightarrow> (readyFns x \<longrightarrow> readyPromise x < n \<and> readyPromise x \<notin> P) \<and>
     (closedFns x \<longrightarrow> closedPromise x < n \<and> closedPromise x \<notin> P)"

definition never :: "nat set \<Rightarrow> 'c writable \<Rightarrow> bool" where
  "never P s \<longleftrightarrow> (\<forall>p \<in> P. p < length (promises s) \<and> promises s ! p = Pending) \<and>
     (\<forall>w < length (writers s). writer_cannot P (length (promises s)) (writers s ! w))"

lemma never_fields [simp]:
  "never P (s\<lparr>wstate := a\<rparr>) = never P s" "never P (s\<lparr>storedError := b\<rparr>) = never P s"
  "never P (s\<lparr>the_writer := c\<rparr>) = never P s" "never P (s\<lparr>writeRequests := d\<rparr>) = never P s"
  "never P (s\<lparr>inFlightWriteRequest := f\<rparr>) = never P s" "never P (s\<lparr>closeRequest := f\<rparr>) = never P s"
  "never P (s\<lparr>inFlightCloseRequest := f\<rparr>) = never P s" "never P (s\<lparr>pendingAbortRequest := g\<rparr>) = never P s"
  "never P (s\<lparr>backpressure := h\<rparr>) = never P s" "never P (s\<lparr>wqueue := i\<rparr>) = never P s"
  "never P (s\<lparr>started := h\<rparr>) = never P s" "never P (s\<lparr>sink_calls := j\<rparr>) = never P s"
  "never P (s\<lparr>start_pending := h\<rparr>) = never P s" "never P (s\<lparr>write_pending := h\<rparr>) = never P s"
  "never P (s\<lparr>close_pending := h\<rparr>) = never P s" "never P (s\<lparr>abort_pending := f\<rparr>) = never P s"
  by (simp_all add: never_def)

lemma writer_cannot_more: "writer_cannot P n x \<Longrightarrow> n \<le> m \<Longrightarrow> writer_cannot P m x"
  by (auto simp: writer_cannot_def)

lemma writer_cannot_blank: "writer_cannot P n blank_writer"
  by (simp add: writer_cannot_def blank_writer_def)

lemma never_writer_of: "never P s \<Longrightarrow> writer_cannot P (length (promises s)) (writer_of s w)"
  by (simp add: never_def writer_of_def writer_cannot_blank)

lemma never_update:
  "never P s \<Longrightarrow> writer_cannot P (length (promises s)) x \<Longrightarrow> never P (s\<lparr>writers := (writers s)[w := x]\<rparr>)"
  unfolding never_def by (cases "w < length (writers s)") (auto simp: nth_list_update)

lemma change_writer: "(writers s)[w := f (writer_of s w)] = (writers s)[w := f (writers s ! w)]"
  by (cases "w < length (writers s)") (simp_all add: writer_of_def list_update_beyond)

lemma never_change:
  assumes "never P s" and "\<And>n x. writer_cannot P n x \<Longrightarrow> writer_cannot P n (f x)"
  shows "never P (s\<lparr>writers := (writers s)[w := f (writers s ! w)]\<rparr>)"
  using never_update [OF assms(1) assms(2) [OF never_writer_of [OF assms(1)]], of w w] unfolding change_writer .

lemma keeps_never_change:
  "(\<And>n x. writer_cannot P n x \<Longrightarrow> writer_cannot P n (f x)) \<Longrightarrow> keeps (never P) (update_writer w f)"
  unfolding update_writer_def by (rule keeps_modify) (rule never_change)

lemma never_new: "never P s \<Longrightarrow> never P (s\<lparr>promises := promises s @ [q]\<rparr>)"
  by (auto simp: never_def nth_append intro: writer_cannot_more)

lemma never_settle: "never P s \<Longrightarrow> i \<notin> P \<Longrightarrow> never P (s\<lparr>promises := settle i q (promises s)\<rparr>)"
  by (auto simp: never_def) (metis settle_other)

lemma never_new_writer: "never P s \<Longrightarrow> never P (s\<lparr>writers := writers s @ [blank_writer]\<rparr>)"
  by (auto simp: never_def nth_append less_Suc_eq writer_cannot_blank)

text \<open>The promise of a new request is out of reach.\<close>

lemma never_request:
  "never P s \<Longrightarrow> never (insert (length (promises s)) P) (s\<lparr>promises := promises s @ [Pending]\<rparr>)"
  by (auto simp: never_def nth_append writer_cannot_def)

section \<open>The functions on a writer's promises\<close>

lemma keeps_never_new [keeps_rules]: "keeps (never P) (new_promise q)"
  by (simp add: keeps_def new_promise_def never_new)

lemma keeps_never_fresh:
  assumes "\<And>n x. writer_cannot P n x \<Longrightarrow> n \<notin> P \<Longrightarrow> writer_cannot P (Suc n) (f n x)"
  shows "keeps (never P) (bindp (new_promise q) (\<lambda>i. update_writer w (f i)))"
  unfolding keeps_def
proof (intro allI impI)
  fix s assume n: "never P s"
  let ?t = "s\<lparr>promises := promises s @ [q]\<rparr>"
  have "writer_cannot P (length (promises ?t)) (f (length (promises s)) (writer_of s w))"
    using assms [OF never_writer_of [OF n]] n by (auto simp: never_def)
  then have "never P (?t\<lparr>writers := (writers ?t)[w := f (length (promises s)) (writer_of s w)]\<rparr>)"
    by (rule never_update [OF never_new [OF n]])
  then show "never P (snd (bindp (new_promise q) (\<lambda>i. update_writer w (f i)) s))"
    by (cases "w < length (writers s)") (simp_all add: promise_simps writer_of_def list_update_beyond)
qed

lemma keeps_never_settles:
  fixes w :: nat and B :: "writer \<Rightarrow> bool" and i :: "writer \<Rightarrow> nat"
  assumes "\<And>n x. B x \<Longrightarrow> writer_cannot P n x \<Longrightarrow> i x \<notin> P" and "\<And>n x. writer_cannot P n x \<Longrightarrow> writer_cannot P n (f x)"
  shows "keeps (never P) (thenp (assertp (\<lambda>s. B (writer_of s w)))
    (thenp (withp (\<lambda>s. i (writer_of s w)) (\<lambda>j. settle_promise j q)) (thenp (update_writer w f) (ret ()))))"
  unfolding keeps_def
proof (intro allI impI)
  fix s assume n: "never P s"
  show "never P (snd (thenp (assertp (\<lambda>s. B (writer_of s w)))
    (thenp (withp (\<lambda>s. i (writer_of s w)) (\<lambda>j. settle_promise j q)) (thenp (update_writer w f) (ret ()))) s))"
  proof (cases "B (writer_of s w)")
    case True
    let ?t = "s\<lparr>promises := settle (i (writer_of s w)) q (promises s)\<rparr>"
    have t: "never P ?t" by (rule never_settle [OF n assms(1) [OF True never_writer_of [OF n]]])
    have "never P (?t\<lparr>writers := (writers ?t)[w := f (writers ?t ! w)]\<rparr>)"
      by (rule never_change [OF t assms(2)])
    then show ?thesis using True by (simp add: run_simps settle_promise_def update_writer_def)
  qed (use n in \<open>simp add: run_simps\<close>)
qed

lemma keeps_never_ready [keeps_rules]:
  "keeps (never P) (defaultWriterReadyPromiseReject w e)"
  "keeps (never P) (defaultWriterReadyPromiseResolve w)"
  unfolding defaultWriterReadyPromiseReject_def defaultWriterReadyPromiseResolve_def seqp.simps
  by (rule keeps_never_settles [where B = readyFns and i = readyPromise]; simp add: writer_cannot_def)+

lemma keeps_skip_assert:
  "keeps I (thenp (assertp A) q) \<Longrightarrow> keeps I (thenp (assertp A) (thenp (assertp B) q))"
  by (auto simp: keeps_def run_simps split: if_splits)

lemma keeps_never_closed [keeps_rules]:
  "keeps (never P) (defaultWriterClosedPromiseReject w e)"
  "keeps (never P) (defaultWriterClosedPromiseResolve w)"
  unfolding defaultWriterClosedPromiseReject_def defaultWriterClosedPromiseResolve_def seqp.simps
  by (rule keeps_skip_assert, rule keeps_never_settles [where B = closedFns and i = closedPromise]; simp add: writer_cannot_def)+

lemmas writer_promise_defs = defaultWriterReadyPromiseReset_def defaultWriterReadyPromiseResetToRejected_def
  defaultWriterClosedPromiseResetToRejected_def defaultWriterReadyPromiseInitialize_def
  defaultWriterReadyPromiseInitializeAsResolved_def defaultWriterReadyPromiseInitializeAsRejected_def
  defaultWriterClosedPromiseInitialize_def defaultWriterClosedPromiseInitializeAsResolved_def
  defaultWriterClosedPromiseInitializeAsRejected_def

lemma keeps_never_reset [keeps_rules]:
  "keeps (never P) (defaultWriterReadyPromiseReset w)"
  "keeps (never P) (defaultWriterReadyPromiseResetToRejected w e)"
  "keeps (never P) (defaultWriterClosedPromiseResetToRejected w e)"
  "keeps (never P) (defaultWriterReadyPromiseInitialize w)"
  "keeps (never P) (defaultWriterReadyPromiseInitializeAsResolved w)"
  "keeps (never P) (defaultWriterReadyPromiseInitializeAsRejected w e)"
  "keeps (never P) (defaultWriterClosedPromiseInitialize w)"
  "keeps (never P) (defaultWriterClosedPromiseInitializeAsResolved w)"
  "keeps (never P) (defaultWriterClosedPromiseInitializeAsRejected w e)"
  unfolding writer_promise_defs seqp.simps
  by (intro keeps_then keeps_simple keeps_never_fresh; simp add: writer_cannot_def less_Suc_eq)+

section \<open>The operations\<close>

lemma keeps_never_calls [keeps_rules]: "keeps (never P) (call_kResolve r)" "keeps (never P) (call_kReject r e)"
  by (simp_all add: call_kResolve_def call_kReject_def keeps_rules)

lemma keeps_never_reject_all [keeps_rules]: "keeps (never P) (reject_all rs e)"
  by (induction rs) (auto intro!: keeps_rules)

lemma keeps_never_ensure [keeps_rules]:
  "keeps (never P) (WritableStreamDefaultWriterEnsureClosedPromiseRejected w e)"
  "keeps (never P) (WritableStreamDefaultWriterEnsureReadyPromiseRejected w e)"
  unfolding WritableStreamDefaultWriterEnsureClosedPromiseRejected_def
    WritableStreamDefaultWriterEnsureReadyPromiseRejected_def
  by (intro keeps_rules)+

lemma keeps_never_dequeue [keeps_rules]: "keeps (never P) dequeue_record"
  unfolding dequeue_record_def by (intro keeps_rules) simp

lemma keeps_never_marks [keeps_rules]:
  "keeps (never P) WritableStreamAddWriteRequest"
  "keeps (never P) WritableStreamMarkCloseRequestInFlight"
  "keeps (never P) WritableStreamMarkFirstWriteRequestInFlight"
  "keeps (never P) (AbortSteps e)"
  unfolding WritableStreamAddWriteRequest_def WritableStreamMarkCloseRequestInFlight_def
    WritableStreamMarkFirstWriteRequestInFlight_def AbortSteps_def seqp.simps
  by (intro keeps_rules; simp)+

lemma keeps_never_backpressure [keeps_rules]: "keeps (never P) (WritableStreamUpdateBackpressure b)"
  unfolding WritableStreamUpdateBackpressure_def seqp.simps by (intro keeps_rules; simp)

lemma keeps_never_reject_close [keeps_rules]: "keeps (never P) WritableStreamRejectCloseAndClosedPromiseIfNeeded"
  unfolding WritableStreamRejectCloseAndClosedPromiseIfNeeded_def seqp.simps by (intro keeps_rules; simp)

lemma keeps_never_finish_erroring [keeps_rules]: "keeps (never P) WritableStreamFinishErroring"
  unfolding WritableStreamFinishErroring_def seqp.simps by (intro keeps_rules; simp)

lemma keeps_never_erroring [keeps_rules]:
  "keeps (never P) (WritableStreamStartErroring e)"
  unfolding WritableStreamStartErroring_def seqp.simps by (intro keeps_rules; simp)

lemma keeps_never_rejection [keeps_rules]: "keeps (never P) (WritableStreamDealWithRejection e)"
  unfolding WritableStreamDealWithRejection_def seqp.simps by (intro keeps_rules)

lemma keeps_never_abort [keeps_rules]: "keeps (never P) (WritableStreamAbort e)"
  unfolding WritableStreamAbort_def by (intro keeps_rules; simp)

lemma keeps_never_in_flight [keeps_rules]:
  "keeps (never P) WritableStreamFinishInFlightWrite"
  "keeps (never P) (WritableStreamFinishInFlightWriteWithError e)"
  "keeps (never P) WritableStreamFinishInFlightClose"
  "keeps (never P) (WritableStreamFinishInFlightCloseWithError e)"
  unfolding WritableStreamFinishInFlightWrite_def WritableStreamFinishInFlightWriteWithError_def
    WritableStreamFinishInFlightClose_def WritableStreamFinishInFlightCloseWithError_def seqp.simps
  by (intro keeps_rules; simp)+

lemma keeps_never_process [keeps_rules]:
  "keeps (never P) WritableStreamDefaultControllerProcessClose"
  "keeps (never P) (WritableStreamDefaultControllerProcessWrite c)"
  unfolding WritableStreamDefaultControllerProcessClose_def WritableStreamDefaultControllerProcessWrite_def seqp.simps
  by (intro keeps_rules; simp)+

lemma keeps_record [keeps_rules]:
  "(\<And>c. keeps I (f c)) \<Longrightarrow> keeps I p \<Longrightarrow> keeps I (case r of WriteRecord c \<Rightarrow> f c | CloseRecord \<Rightarrow> p)"
  by (cases r) auto

lemma keeps_never_advance [keeps_rules]: "keeps (never P) WritableStreamDefaultControllerAdvanceQueueIfNeeded"
  unfolding WritableStreamDefaultControllerAdvanceQueueIfNeeded_def by (intro keeps_rules)

lemma keeps_never_error [keeps_rules]:
  "keeps (never P) (WritableStreamDefaultControllerError e)"
  "keeps (never P) (WritableStreamDefaultControllerErrorIfNeeded e)"
  unfolding WritableStreamDefaultControllerErrorIfNeeded_def WritableStreamDefaultControllerError_def seqp.simps
  by (intro keeps_rules)+

lemma keeps_never_controller [keeps_rules]:
  "keeps (never P) WritableStreamDefaultControllerClose"
  "keeps (never P) (WritableStreamDefaultControllerGetChunkSize size_of c)"
  "keeps (never P) (WritableStreamDefaultControllerWrite c n)"
  unfolding WritableStreamDefaultControllerClose_def WritableStreamDefaultControllerGetChunkSize_def
    WritableStreamDefaultControllerWrite_def seqp.simps
  by (intro keeps_rules; simp)+

lemma keeps_never_writer_close [keeps_rules]: "keeps (never P) (WritableStreamDefaultWriterClose w)"
  unfolding WritableStreamDefaultWriterClose_def rejected_def by (intro keeps_rules; simp)

lemma keeps_never_disown [keeps_rules]:
  "keeps (never P) (update_writer w (\<lambda>x. x\<lparr>owns_stream := False\<rparr>))"
  by (rule keeps_never_change) (simp add: writer_cannot_def)

lemma keeps_rejected [keeps_rules]: "keeps (never P) (rejected e)"
  unfolding rejected_def by (rule keeps_rules)

lemma keeps_never_write [keeps_rules]: "keeps (never P) (writer_write size_of w c)"
  unfolding writer_write_def WritableStreamDefaultWriterWrite_def by (intro keeps_rules)

lemma keeps_never_close [keeps_rules]: "keeps (never P) (writer_close w)"
  unfolding writer_close_def by (intro keeps_rules)

lemma keeps_never_propagation [keeps_rules]: "keeps (never P) (WritableStreamDefaultWriterCloseWithErrorPropagation w)"
  unfolding WritableStreamDefaultWriterCloseWithErrorPropagation_def by (intro keeps_rules)

lemma keeps_never_aborts [keeps_rules]: "keeps (never P) (writer_abort w e)" "keeps (never P) (stream_abort e)"
  unfolding writer_abort_def stream_abort_def by (intro keeps_rules)+

lemma keeps_never_release [keeps_rules]: "keeps (never P) (writer_releaseLock w)"
  unfolding writer_releaseLock_def WritableStreamDefaultWriterRelease_def seqp.simps by (intro keeps_rules) simp

lemma keeps_never_controller_error [keeps_rules]: "keeps (never P) (controller_error e)"
  unfolding controller_error_def by (intro keeps_rules)

lemma keeps_never_get_writer [keeps_rules]: "keeps (never P) new_WritableStreamDefaultWriter"
proof -
  have m: "keeps (never P) (modify (\<lambda>s. s\<lparr>writers := writers s @ [blank_writer], the_writer := Some w\<rparr>))" for w
    by (rule keeps_modify) (simp add: never_new_writer)
  have c: "keeps I (case st of Writable \<Rightarrow> a | Erroring \<Rightarrow> b | Closed \<Rightarrow> c | Errored \<Rightarrow> d)"
    if "keeps I a" "keeps I b" "keeps I c" "keeps I d" for I :: "'c writable \<Rightarrow> bool" and st and a b c d :: "('c writable, unit) proc"
    using that by (cases st) simp_all
  show ?thesis unfolding new_WritableStreamDefaultWriter_def seqp.simps by (intro keeps_rules m c)
qed

section \<open>Steps and runs\<close>

lemma keeps_never_reactions [keeps_rules]:
  "keeps (never P) start_fulfilled" "keeps (never P) (start_rejected e)" "keeps (never P) write_fulfilled"
  "keeps (never P) (abort_fulfilled a)" "keeps (never P) (abort_rejected a e)"
  unfolding start_fulfilled_def start_rejected_def write_fulfilled_def abort_fulfilled_def abort_rejected_def seqp.simps
  by (intro keeps_rules; simp)+

lemma keeps_never_step: "keeps (never P) (w_step size_of ev)"
  by (cases ev) (simp_all, (intro keeps_rules; simp)+)

lemma never_runs: "w_runs size_of s t \<Longrightarrow> never P s \<Longrightarrow> never P t"
  by (induction rule: w_runs.induct) (auto dest: keepsD [OF keeps_never_step])

lemma never_set_up: "never {} (snd (SetUpWritableStreamDefaultController (InitializeWritableStream h)))"
  by (auto simp: SetUpWritableStreamDefaultController_def InitializeWritableStream_def
      WritableStreamUpdateBackpressure_def run_simps never_def)

lemma never_reachable: "w_reachable size_of s \<Longrightarrow> never {} s"
  by (erule w_reachable_induct) (use never_set_up keepsD [OF keeps_never_step] in blast)+

section \<open>A request stays pending\<close>

text \<open>A procedure whose pending result is out of reach.\<close>

definition requests :: "('c writable, nat) proc \<Rightarrow> bool" where
  "requests p \<longleftrightarrow> (\<forall>s i t. never {} s \<longrightarrow> p s = (Inr i, t) \<longrightarrow> promises t ! i = Pending \<longrightarrow> never {i} t)"

lemma requests_if: "requests p \<Longrightarrow> requests q \<Longrightarrow> requests (ifp c p q)"
  by (simp add: requests_def ifp_def)

lemma requests_with: "(\<And>x. requests (f x)) \<Longrightarrow> requests (withp g f)"
  unfolding requests_def withp_def by blast

lemma requests_bind:
  assumes "keeps (never {}) p" and "\<And>x. requests (f x)"
  shows "requests (bindp p f)"
  unfolding requests_def
proof (intro allI impI)
  fix s i t
  assume n: "never {} s" and r: "bindp p f s = (Inr i, t)" and "promises t ! i = Pending"
  obtain x u where "p s = (Inr x, u)" "f x u = (Inr i, t)"
    using r by (auto simp: bindp_def split: prod.splits sum.splits)
  then show "never {i} t" using assms(2) keepsD [OF assms(1) n] \<open>promises t ! i = Pending\<close>
    by (fastforce simp: requests_def)
qed

lemma requests_then: "keeps (never {}) p \<Longrightarrow> requests q \<Longrightarrow> requests (thenp p q)"
  unfolding thenp_def by (rule requests_bind)

lemma requests_settled: "q \<noteq> Pending \<Longrightarrow> requests (new_promise q)"
  by (auto simp: requests_def new_promise_def)

lemma requests_pending:
  assumes "\<And>i P. keeps (never P) (f i)"
  shows "requests (bindp (new_promise Pending) (\<lambda>i. thenp (f i) (ret i)))"
  unfolding requests_def
proof (intro allI impI)
  fix s i t
  assume n: "never {} s" and r: "bindp (new_promise Pending) (\<lambda>i. thenp (f i) (ret i)) s = (Inr i, t)"
  let ?u = "s\<lparr>promises := promises s @ [Pending]\<rparr>"
  have "i = length (promises s)" "t = snd (f i ?u)"
    using r by (auto simp: new_promise_def run_simps split: prod.splits sum.splits)
  then show "never {i} t" using keepsD [OF assms never_request [OF n]] by simp
qed

lemma requests_cases:
  "(\<And>e. requests (g e)) \<Longrightarrow> (\<And>x. requests (f x)) \<Longrightarrow> requests (case r of Inl e \<Rightarrow> g e | Inr x \<Rightarrow> f x)"
  by (cases r) simp_all

lemmas requests_rules = requests_if requests_with requests_then requests_settled requests_pending

lemma requests_rejected: "requests (rejected e)"
  unfolding rejected_def by (rule requests_settled) simp

text \<open>\<open>WritableStreamAddWriteRequest\<close> and what follows it.\<close>

lemma bind_assoc: "bindp (bindp p f) g = bindp p (\<lambda>x. bindp (f x) g)"
  by (auto simp: bindp_def fun_eq_iff split: prod.split sum.split)

lemma ret_bind: "bindp (ret x) f = f x"
  by (simp add: bindp_def ret_def fun_eq_iff)

lemma requests_write: "requests (writer_write size_of w c)"
proof -
  have "requests (bindp WritableStreamAddWriteRequest (\<lambda>p. thenp (WritableStreamDefaultControllerWrite c n) (ret p)))" for n
  proof -
    have "bindp WritableStreamAddWriteRequest (\<lambda>p. thenp (WritableStreamDefaultControllerWrite c n) (ret p)) =
      thenp (assertp IsWritableStreamLocked) (thenp (assertp (\<lambda>s. wstate s = Writable))
       (bindp (new_promise Pending) (\<lambda>p.
         thenp (thenp (modify (\<lambda>s. s\<lparr>writeRequests := writeRequests s @ [p]\<rparr>)) (WritableStreamDefaultControllerWrite c n)) (ret p))))"
      by (simp add: WritableStreamAddWriteRequest_def thenp_def bind_assoc ret_bind)
    moreover have "requests \<dots>" by (intro requests_then requests_pending keeps_rules) simp
    ultimately show ?thesis by simp
  qed
  then show ?thesis unfolding writer_write_def WritableStreamDefaultWriterWrite_def
    by (intro requests_if requests_then requests_with requests_rejected
        requests_bind [where p = "WritableStreamDefaultControllerGetChunkSize size_of c"] requests_settled keeps_rules)
      simp_all
qed

lemma requests_close: "requests (writer_close w)"
proof -
  have "requests (bindp (new_promise Pending) (\<lambda>p. thenp (modify (\<lambda>s. s\<lparr>closeRequest := Some p\<rparr>))
      (thenp (whenp f (defaultWriterReadyPromiseResolve w)) (thenp WritableStreamDefaultControllerClose (ret p)))))"
    for f :: "'a writable \<Rightarrow> bool"
  proof -
    have "requests (bindp (new_promise Pending) (\<lambda>p. thenp (thenp (modify (\<lambda>s. s\<lparr>closeRequest := Some p\<rparr>))
      (thenp (whenp f (defaultWriterReadyPromiseResolve w)) WritableStreamDefaultControllerClose)) (ret p)))"
      by (intro requests_pending keeps_rules) simp
    then show ?thesis by (simp add: thenp_def bind_assoc)
  qed
  then show ?thesis unfolding writer_close_def WritableStreamDefaultWriterClose_def
    by (intro requests_if requests_with requests_then requests_rejected keeps_rules) simp_all
qed

lemma requests_run:
  assumes "requests p" and "never {} s" and "run_promise p s = (Inr (Some i), t)" and "promises t ! i = Pending"
  shows "never {i} t"
proof -
  have "p s = (Inr i, t)" using assms(3) by (auto simp: run_promise_def run_simps split: prod.splits sum.splits)
  then show ?thesis using assms(1,2,4) by (simp add: requests_def)
qed

lemma request_hangs:
  assumes "w_reachable size_of s" and "ev = WriteChunk w c \<or> ev = CloseWriter w"
    and "w_step size_of ev s = (Inr (Some i), t)" and "promises t ! i = Pending" and "w_runs size_of t u"
  shows "promises u ! i = Pending"
proof -
  have "never {i} t"
    using assms(2)
  proof
    assume "ev = WriteChunk w c"
    then show ?thesis using requests_run [OF requests_write never_reachable [OF assms(1)]] assms(3,4) by simp
  next
    assume "ev = CloseWriter w"
    then show ?thesis using requests_run [OF requests_close never_reachable [OF assms(1)]] assms(3,4) by simp
  qed
  from never_runs [OF assms(5) this] show ?thesis by (simp add: never_def)
qed

text \<open>C32: the promise that \<open>write\<close> or \<open>close\<close> of a writer returns for a request that the stream
  takes (it is pending then) is never settled: it is pending after every further run of calls and
  reactions, also those in which the sink fulfils what it was asked.\<close>

theorem writable_request_hangs:
  assumes "w_reachable size_of s" and "ev = WriteChunk w c \<or> ev = CloseWriter w"
    and "w_step size_of ev s = (Inr (Some i), t)" and "promises t ! i = Pending" and "w_runs size_of t u"
  shows "promises u ! i = Pending"
  by (rule request_hangs [OF assms])

lemma writable_request_hangs_witness:
  "\<exists>s (t :: nat writable) u i. w_step (\<lambda>c. Inr (Finite 1)) (WriteChunk 0 5) s = (Inr (Some i), t) \<and>
     w_trace (\<lambda>c. Inr (Finite 1)) [SinkWriteFulfilled, ReleaseLock 0] t = Some u \<and> promises u ! i = Pending"
proof -
  let ?f = "\<lambda>c :: nat. Inr (Finite 1)"
  have "case new_WritableStream False True None True None of Inl e \<Rightarrow> False
      | Inr r \<Rightarrow> (case w_trace ?f [GetWriter, StartFulfilled] r of None \<Rightarrow> False
         | Some s \<Rightarrow> (let x = w_step ?f (WriteChunk 0 5) s in fst x = Inr (Some 2) \<and> promises (snd x) ! 2 = Pending \<and>
              w_trace ?f [SinkWriteFulfilled, ReleaseLock 0] (snd x) \<noteq> None))"
    by code_simp
  then obtain r s u where r: "new_WritableStream False True None True None = Inr r" "w_trace ?f [GetWriter, StartFulfilled] r = Some s"
    and x: "fst (w_step ?f (WriteChunk 0 5) s) = Inr (Some 2)" "promises (snd (w_step ?f (WriteChunk 0 5) s)) ! 2 = Pending"
    and t: "w_trace ?f [SinkWriteFulfilled, ReleaseLock 0] (snd (w_step ?f (WriteChunk 0 5) s)) = Some u"
    by (auto split: sum.splits option.splits simp: Let_def simp del: w_trace.simps w_step.simps)
  have s: "w_step ?f (WriteChunk 0 5) s = (Inr (Some 2), snd (w_step ?f (WriteChunk 0 5) s))"
    using x(1) by (metis prod.collapse)
  from writable_request_hangs [OF w_trace_reachable [OF r] _ s x(2) w_trace_runs [OF w_refl t]] s t show ?thesis by blast
qed

end
