(* ===== verification/Readable.thy ===== *)
theory Readable
  imports Stream_Base
begin

text \<open>
  Readable streams with a default controller: \<open>packages/zero/lib/whatwg/streams/readable.js\<close>.  The underlying
  source is the environment: its algorithms are recorded when they are called, how the promises they return
  are settled comes as a later event, and a source that calls its controller does so at the end of the code
  that called it, so such a call is an event too.  The size function of the strategy is a parameter.  The brand
  checks succeed for the objects modelled here.  Promises are numbers; the two functions that settle the
  promise \<open>closed\<close> of a reader are set and cleared together and are one flag.

  As in the writable streams, a read request has the properties \<open>_resolve\<close> and \<open>_reject\<close>.  Closing the
  stream reads \<open>_resolve\<close>; fulfilling a read with a chunk and failing it read the symbols \<open>kResolve\<close>
  and \<open>kReject\<close>, where there is nothing, so that these calls throw a \<open>TypeError\<close>.
\<close>

section \<open>State\<close>

datatype readable_state = IsReadable | IsClosed | IsErrored

text \<open>What a promise is fulfilled with: \<open>{ value, done: false }\<close>, \<open>{ value: undefined, done: true }\<close> or
  \<open>undefined\<close>.\<close>

datatype 'c read_result = Chunk 'c | Done | NoValue

record reader =
  owns_source :: bool
  reader_closed :: nat
  reader_fns :: bool
  read_requests :: "nat list"

datatype source_call = SourcePull | SourceCancel reason

record 'c readable =
  rstate :: readable_state
  the_reader :: "nat option"
  rstored :: reason
  disturbed :: bool
  rqueue :: "'c sized_queue"
  rstarted :: bool
  close_requested :: bool
  pull_again :: bool
  pulling :: bool
  rHWM :: js_number
  readers :: "reader list"
  rpromises :: "'c read_result promise list"
  source_calls :: "source_call list"
  rstart_pending :: bool
  pull_pending :: bool
  cancel_pending :: "nat option"

definition InitializeReadableStream :: "js_number \<Rightarrow> 'c readable" where
  "InitializeReadableStream hwm = \<lparr>rstate = IsReadable, the_reader = None, rstored = Undefined, disturbed = False,
     rqueue = ResetQueue, rstarted = False, close_requested = False, pull_again = False, pulling = False, rHWM = hwm,
     readers = [], rpromises = [], source_calls = [], rstart_pending = False, pull_pending = False,
     cancel_pending = None\<rparr>"

definition read_promise :: "'c read_result promise \<Rightarrow> ('c readable, nat) proc" where
  "read_promise p s = (Inr (length (rpromises s)), s\<lparr>rpromises := rpromises s @ [p]\<rparr>)"

definition settle_read :: "nat \<Rightarrow> 'c read_result promise \<Rightarrow> ('c readable, unit) proc" where
  "settle_read i p = modify (\<lambda>s. s\<lparr>rpromises := settle i p (rpromises s)\<rparr>)"

definition update_reader :: "nat \<Rightarrow> (reader \<Rightarrow> reader) \<Rightarrow> ('c readable, unit) proc" where
  "update_reader r f = modify (\<lambda>s. s\<lparr>readers := (readers s)[r := f (readers s ! r)]\<rparr>)"

definition blank_reader :: reader where
  "blank_reader = \<lparr>owns_source = True, reader_closed = 0, reader_fns = False, read_requests = []\<rparr>"

definition reader_of :: "'c readable \<Rightarrow> nat \<Rightarrow> reader" where
  "reader_of s r = (if r < length (readers s) then readers s ! r else blank_reader)"

text \<open>\<open>readRequest[kResolve](\<dots>)\<close> and \<open>readRequest[kReject](\<dots>)\<close>.\<close>

definition read_kResolve :: "nat \<Rightarrow> 'c read_result \<Rightarrow> ('c readable, unit) proc" where
  "read_kResolve request v = call_undefined"

definition read_kReject :: "nat \<Rightarrow> reason \<Rightarrow> ('c readable, unit) proc" where
  "read_kReject request e = call_undefined"

section \<open>The promise of a reader\<close>

definition defaultReaderClosedPromiseInitialize :: "nat \<Rightarrow> ('c readable, unit) proc" where
  "defaultReaderClosedPromiseInitialize r = bindp (read_promise Pending) (\<lambda>p.
     update_reader r (\<lambda>x. x\<lparr>reader_closed := p, reader_fns := True\<rparr>))"

definition defaultReaderClosedPromiseInitializeAsRejected :: "nat \<Rightarrow> reason \<Rightarrow> ('c readable, unit) proc" where
  "defaultReaderClosedPromiseInitializeAsRejected r e = bindp (read_promise (Rejected e)) (\<lambda>p.
     update_reader r (\<lambda>x. x\<lparr>reader_closed := p, reader_fns := False\<rparr>))"

definition defaultReaderClosedPromiseInitializeAsResolved :: "nat \<Rightarrow> ('c readable, unit) proc" where
  "defaultReaderClosedPromiseInitializeAsResolved r = bindp (read_promise (Fulfilled NoValue)) (\<lambda>p.
     update_reader r (\<lambda>x. x\<lparr>reader_closed := p, reader_fns := False\<rparr>))"

definition defaultReaderClosedPromiseReject :: "nat \<Rightarrow> reason \<Rightarrow> ('c readable, unit) proc" where
  "defaultReaderClosedPromiseReject r e = seqp [
     assertp (\<lambda>s. reader_fns (reader_of s r)),
     withp (\<lambda>s. reader_closed (reader_of s r)) (\<lambda>p. settle_read p (Rejected e)),
     update_reader r (\<lambda>x. x\<lparr>reader_fns := False\<rparr>)]"

definition defaultReaderClosedPromiseResetToRejected :: "nat \<Rightarrow> reason \<Rightarrow> ('c readable, unit) proc" where
  "defaultReaderClosedPromiseResetToRejected r e = seqp [
     assertp (\<lambda>s. \<not> reader_fns (reader_of s r)),
     bindp (read_promise (Rejected e)) (\<lambda>p. update_reader r (\<lambda>x. x\<lparr>reader_closed := p\<rparr>))]"

definition defaultReaderClosedPromiseResolve :: "nat \<Rightarrow> ('c readable, unit) proc" where
  "defaultReaderClosedPromiseResolve r = seqp [
     assertp (\<lambda>s. reader_fns (reader_of s r)),
     withp (\<lambda>s. reader_closed (reader_of s r)) (\<lambda>p. settle_read p (Fulfilled NoValue)),
     update_reader r (\<lambda>x. x\<lparr>reader_fns := False\<rparr>)]"

section \<open>Operations on the stream\<close>

definition IsReadableStreamLocked :: "'c readable \<Rightarrow> bool" where
  "IsReadableStreamLocked s \<longleftrightarrow> the_reader s \<noteq> None"

definition ReadableStreamGetNumReadRequests :: "'c readable \<Rightarrow> nat" where
  "ReadableStreamGetNumReadRequests s = length (read_requests (reader_of s (the (the_reader s))))"

text \<open>The test of \<open>ShouldCallPull\<close> and \<open>Enqueue\<close> for reads that wait.\<close>

definition reads_wait :: "'c readable \<Rightarrow> bool" where
  "reads_wait s \<longleftrightarrow> IsReadableStreamLocked s \<and> 0 < ReadableStreamGetNumReadRequests s"

definition ReadableStreamAddReadRequest :: "('c readable, nat) proc" where
  "ReadableStreamAddReadRequest = withp the_reader (\<lambda>r. thenp (assertp (\<lambda>s. r \<noteq> None)) (thenp (assertp (\<lambda>s. rstate s = IsReadable))
     (bindp (read_promise Pending) (\<lambda>p.
       thenp (update_reader (the r) (\<lambda>x. x\<lparr>read_requests := read_requests x @ [p]\<rparr>)) (ret p)))))"

fun resolve_reads :: "nat list \<Rightarrow> ('c readable, unit) proc" where
  "resolve_reads [] = ret ()"
| "resolve_reads (i # rs) = thenp (settle_read i (Fulfilled Done)) (resolve_reads rs)"

fun reject_reads :: "nat list \<Rightarrow> reason \<Rightarrow> ('c readable, unit) proc" where
  "reject_reads [] e = ret ()"
| "reject_reads (i # rs) e = thenp (read_kReject i e) (reject_reads rs e)"

definition ReadableStreamClose :: "('c readable, unit) proc" where
  "ReadableStreamClose = seqp [
     assertp (\<lambda>s. rstate s = IsReadable),
     modify (\<lambda>s. s\<lparr>rstate := IsClosed\<rparr>),
     withp the_reader (\<lambda>r. case r of None \<Rightarrow> ret ()
       | Some r \<Rightarrow> seqp [
           withp (\<lambda>s. read_requests (reader_of s r)) resolve_reads,
           update_reader r (\<lambda>x. x\<lparr>read_requests := []\<rparr>),
           defaultReaderClosedPromiseResolve r])]"

definition ReadableStreamError :: "reason \<Rightarrow> ('c readable, unit) proc" where
  "ReadableStreamError e = seqp [
     assertp (\<lambda>s. rstate s = IsReadable),
     modify (\<lambda>s. s\<lparr>rstate := IsErrored, rstored := e\<rparr>),
     withp the_reader (\<lambda>r. case r of None \<Rightarrow> ret ()
       | Some r \<Rightarrow> seqp [
           withp (\<lambda>s. read_requests (reader_of s r)) (\<lambda>rs. reject_reads rs e),
           update_reader r (\<lambda>x. x\<lparr>read_requests := []\<rparr>),
           defaultReaderClosedPromiseReject r e])]"

definition ReadableStreamFulfillReadRequest :: "'c \<Rightarrow> ('c readable, unit) proc" where
  "ReadableStreamFulfillReadRequest chunk = withp the_reader (\<lambda>r. case r of None \<Rightarrow> call_undefined
     | Some r \<Rightarrow> withp (\<lambda>s. read_requests (reader_of s r)) (\<lambda>rs. seqp [
         assertp (\<lambda>s. rs \<noteq> []),
         update_reader r (\<lambda>x. x\<lparr>read_requests := tl rs\<rparr>),
         read_kResolve (hd rs) (Chunk chunk)]))"

text \<open>The promise of \<open>cancel\<close> follows the one of the source's cancel algorithm.\<close>

definition CancelSteps :: "reason \<Rightarrow> ('c readable, nat) proc" where
  "CancelSteps e = thenp (modify (\<lambda>s. s\<lparr>rqueue := ResetQueue, source_calls := source_calls s @ [SourceCancel e]\<rparr>))
     (bindp (read_promise Pending) (\<lambda>p. thenp (modify (\<lambda>s. s\<lparr>cancel_pending := Some p\<rparr>)) (ret p)))"

definition ReadableStreamCancel :: "reason \<Rightarrow> ('c readable, nat) proc" where
  "ReadableStreamCancel e = thenp (modify (\<lambda>s. s\<lparr>disturbed := True\<rparr>))
     (ifp (\<lambda>s. rstate s = IsClosed) (read_promise (Fulfilled NoValue))
     (ifp (\<lambda>s. rstate s = IsErrored) (withp rstored (\<lambda>e. read_promise (Rejected e)))
     (thenp ReadableStreamClose (CancelSteps e))))"

section \<open>The default controller\<close>

definition ReadableStreamDefaultControllerGetDesiredSize :: "'c readable \<Rightarrow> js_number option" where
  "ReadableStreamDefaultControllerGetDesiredSize s =
     (if rstate s = IsErrored then None
      else if rstate s = IsClosed then Some (Finite 0)
      else Some (minus_total (rHWM s) (snd (rqueue s))))"

definition ReadableStreamDefaultControllerCanCloseOrEnqueue :: "'c readable \<Rightarrow> bool" where
  "ReadableStreamDefaultControllerCanCloseOrEnqueue s \<longleftrightarrow> \<not> close_requested s \<and> rstate s = IsReadable"

definition ReadableStreamDefaultControllerShouldCallPull :: "('c readable, bool) proc" where
  "ReadableStreamDefaultControllerShouldCallPull =
     ifp (\<lambda>s. \<not> ReadableStreamDefaultControllerCanCloseOrEnqueue s) (ret False)
     (ifp (\<lambda>s. \<not> rstarted s) (ret False)
     (ifp reads_wait (ret True)
     (withp ReadableStreamDefaultControllerGetDesiredSize (\<lambda>d.
        thenp (assertp (\<lambda>s. d \<noteq> None)) (ret (above_zero (the d)))))))"

definition ReadableStreamDefaultControllerCallPullIfNeeded :: "('c readable, unit) proc" where
  "ReadableStreamDefaultControllerCallPullIfNeeded = bindp ReadableStreamDefaultControllerShouldCallPull (\<lambda>b.
     if \<not> b then ret ()
     else ifp pulling (modify (\<lambda>s. s\<lparr>pull_again := True\<rparr>)) (seqp [
       assertp (\<lambda>s. \<not> pull_again s),
       modify (\<lambda>s. s\<lparr>pulling := True\<rparr>),
       modify (\<lambda>s. s\<lparr>source_calls := source_calls s @ [SourcePull], pull_pending := True\<rparr>)]))"

definition ReadableStreamDefaultControllerHasBackpressure :: "('c readable, bool) proc" where
  "ReadableStreamDefaultControllerHasBackpressure = bindp ReadableStreamDefaultControllerShouldCallPull (\<lambda>b. ret (\<not> b))"

definition ReadableStreamDefaultControllerError :: "reason \<Rightarrow> ('c readable, unit) proc" where
  "ReadableStreamDefaultControllerError e =
     ifp (\<lambda>s. rstate s \<noteq> IsReadable) (ret ())
       (seqp [modify (\<lambda>s. s\<lparr>rqueue := ResetQueue\<rparr>), ReadableStreamError e])"

definition ReadableStreamDefaultControllerClose :: "('c readable, unit) proc" where
  "ReadableStreamDefaultControllerClose = seqp [
     assertp ReadableStreamDefaultControllerCanCloseOrEnqueue,
     modify (\<lambda>s. s\<lparr>close_requested := True\<rparr>),
     whenp (\<lambda>s. fst (rqueue s) = []) ReadableStreamClose]"

text \<open>The size function: \<open>Inl\<close> is an exception.\<close>

definition ReadableStreamDefaultControllerEnqueue :: "('c \<Rightarrow> reason + js_number) \<Rightarrow> 'c \<Rightarrow> ('c readable, unit) proc" where
  "ReadableStreamDefaultControllerEnqueue size_of chunk = seqp [
     assertp ReadableStreamDefaultControllerCanCloseOrEnqueue,
     ifp reads_wait (ReadableStreamFulfillReadRequest chunk)
       (case size_of chunk of
          Inl e \<Rightarrow> thenp (ReadableStreamDefaultControllerError e) (throw e)
        | Inr n \<Rightarrow> withp rqueue (\<lambda>q. case EnqueueValueWithSize chunk n q of
            Inl e \<Rightarrow> thenp (ReadableStreamDefaultControllerError (Error e)) (throw (Error e))
          | Inr q' \<Rightarrow> modify (\<lambda>s. s\<lparr>rqueue := q'\<rparr>))),
     ReadableStreamDefaultControllerCallPullIfNeeded]"

definition PullSteps :: "('c readable, nat) proc" where
  "PullSteps = withp rqueue (\<lambda>q.
     if fst q \<noteq> [] then
       case DequeueValue q of
         Inl e \<Rightarrow> throw (Error e)
       | Inr (chunk, q') \<Rightarrow>
           thenp (modify (\<lambda>s. s\<lparr>rqueue := q'\<rparr>))
           (thenp (ifp (\<lambda>s. close_requested s \<and> fst (rqueue s) = []) ReadableStreamClose
                     ReadableStreamDefaultControllerCallPullIfNeeded)
             (read_promise (Fulfilled (Chunk chunk))))
     else bindp ReadableStreamAddReadRequest (\<lambda>p. thenp ReadableStreamDefaultControllerCallPullIfNeeded (ret p)))"

definition source_close :: "('c readable, unit) proc" where
  "source_close = ifp (\<lambda>s. \<not> ReadableStreamDefaultControllerCanCloseOrEnqueue s) (throw (Error TypeError))
     ReadableStreamDefaultControllerClose"

definition source_enqueue :: "('c \<Rightarrow> reason + js_number) \<Rightarrow> 'c \<Rightarrow> ('c readable, unit) proc" where
  "source_enqueue size_of chunk = ifp (\<lambda>s. \<not> ReadableStreamDefaultControllerCanCloseOrEnqueue s) (throw (Error TypeError))
     (ReadableStreamDefaultControllerEnqueue size_of chunk)"

definition source_error :: "reason \<Rightarrow> ('c readable, unit) proc" where
  "source_error e = ReadableStreamDefaultControllerError e"

section \<open>Readers\<close>

definition read_rejected :: "js_error \<Rightarrow> ('c readable, nat) proc" where
  "read_rejected e = read_promise (Rejected (Error e))"

definition ReadableStreamReaderGenericInitialize :: "nat \<Rightarrow> ('c readable, unit) proc" where
  "ReadableStreamReaderGenericInitialize r =
     thenp (modify (\<lambda>s. s\<lparr>readers := readers s @ [blank_reader], the_reader := Some r\<rparr>))
     (withp (\<lambda>s. (rstate s, rstored s)) (\<lambda>(st, e). case st of
         IsReadable \<Rightarrow> defaultReaderClosedPromiseInitialize r
       | IsClosed \<Rightarrow> defaultReaderClosedPromiseInitializeAsResolved r
       | IsErrored \<Rightarrow> defaultReaderClosedPromiseInitializeAsRejected r e))"

definition new_ReadableStreamDefaultReader :: "('c readable, nat) proc" where
  "new_ReadableStreamDefaultReader =
     ifp IsReadableStreamLocked (throw (Error TypeError))
     (withp (\<lambda>s. length (readers s)) (\<lambda>r. thenp (seqp [
       ReadableStreamReaderGenericInitialize r,
       update_reader r (\<lambda>x. x\<lparr>read_requests := []\<rparr>)]) (ret r)))"

text \<open>\<open>getReader({ mode })\<close>: a reader into buffers needs a byte stream.\<close>

definition getReader :: "jsstr option \<Rightarrow> ('c readable, nat) proc" where
  "getReader mode =
     (case mode of
        None \<Rightarrow> new_ReadableStreamDefaultReader
      | Some m \<Rightarrow> if m = js ''byob'' then throw (Error TypeError) else throw (Error RangeError))"

definition ReadableStreamDefaultReaderRead :: "nat \<Rightarrow> ('c readable, nat) proc" where
  "ReadableStreamDefaultReaderRead r =
     thenp (assertp (\<lambda>s. owns_source (reader_of s r)))
     (thenp (modify (\<lambda>s. s\<lparr>disturbed := True\<rparr>))
     (ifp (\<lambda>s. rstate s = IsClosed) (read_promise (Fulfilled Done))
     (ifp (\<lambda>s. rstate s = IsErrored) (withp rstored (\<lambda>e. read_promise (Rejected e)))
     (thenp (assertp (\<lambda>s. rstate s = IsReadable)) PullSteps))))"

definition reader_read :: "nat \<Rightarrow> ('c readable, nat) proc" where
  "reader_read r = ifp (\<lambda>s. \<not> owns_source (reader_of s r)) (read_rejected TypeError) (ReadableStreamDefaultReaderRead r)"

definition ReadableStreamReaderGenericCancel :: "nat \<Rightarrow> reason \<Rightarrow> ('c readable, nat) proc" where
  "ReadableStreamReaderGenericCancel r e =
     thenp (assertp (\<lambda>s. owns_source (reader_of s r))) (ReadableStreamCancel e)"

definition reader_cancel :: "nat \<Rightarrow> reason \<Rightarrow> ('c readable, nat) proc" where
  "reader_cancel r e = ifp (\<lambda>s. \<not> owns_source (reader_of s r)) (read_rejected TypeError) (ReadableStreamReaderGenericCancel r e)"

definition stream_cancel :: "reason \<Rightarrow> ('c readable, nat) proc" where
  "stream_cancel e = ifp IsReadableStreamLocked (read_rejected TypeError) (ReadableStreamCancel e)"

definition ReadableStreamReaderGenericRelease :: "nat \<Rightarrow> ('c readable, unit) proc" where
  "ReadableStreamReaderGenericRelease r = seqp [
     assertp (\<lambda>s. owns_source (reader_of s r)),
     assertp (\<lambda>s. the_reader s = Some r),
     ifp (\<lambda>s. rstate s = IsReadable)
       (defaultReaderClosedPromiseReject r (Error TypeError))
       (defaultReaderClosedPromiseResetToRejected r (Error TypeError)),
     modify (\<lambda>s. s\<lparr>the_reader := None\<rparr>),
     update_reader r (\<lambda>x. x\<lparr>owns_source := False\<rparr>)]"

definition reader_releaseLock :: "nat \<Rightarrow> ('c readable, unit) proc" where
  "reader_releaseLock r =
     ifp (\<lambda>s. \<not> owns_source (reader_of s r)) (ret ())
     (ifp (\<lambda>s. 0 < length (read_requests (reader_of s r))) (throw (Error TypeError))
       (ReadableStreamReaderGenericRelease r))"

section \<open>Making a stream\<close>

definition SetUpReadableStreamDefaultController :: "'c readable \<Rightarrow> 'c readable" where
  "SetUpReadableStreamDefaultController s = s\<lparr>rqueue := ResetQueue, rstarted := False, close_requested := False,
     pull_again := False, pulling := False, rstart_pending := True\<rparr>"

text \<open>The start algorithm may throw.\<close>

definition set_up_readable :: "js_number \<Rightarrow> reason option \<Rightarrow> reason + 'c readable" where
  "set_up_readable h start =
     (case start of Some e \<Rightarrow> Inl e | None \<Rightarrow> Inr (SetUpReadableStreamDefaultController (InitializeReadableStream h)))"

definition CreateReadableStream :: "js_number \<Rightarrow> reason option \<Rightarrow> reason + 'c readable" where
  "CreateReadableStream h start =
     (if IsNonNegativeNumber h then set_up_readable h start else Inl (Error OtherError))"

text \<open>\<open>new ReadableStream(source, strategy)\<close> for a source whose \<open>type\<close> is not \<open>bytes\<close>: \<open>typed\<close> is whether
  it has a \<open>type\<close>, \<open>sizeable\<close> whether the strategy's size is undefined or a function, \<open>callable\<close> whether each of
  the source's methods is undefined or a function.\<close>

definition new_ReadableStream ::
  "bool \<Rightarrow> bool \<Rightarrow> js_number option \<Rightarrow> bool \<Rightarrow> reason option \<Rightarrow> reason + 'c readable" where
  "new_ReadableStream typed sizeable hwm callable start =
     (if typed then Inl (Error RangeError)
      else if \<not> sizeable then Inl (Error TypeError)
      else
        case ValidateAndNormalizeHighWaterMark (case hwm of None \<Rightarrow> Finite 1 | Some h \<Rightarrow> h) () of
          (Inl e, u) \<Rightarrow> Inl e
        | (Inr h, u) \<Rightarrow> if callable then set_up_readable h start else Inl (Error TypeError))"

section \<open>Reactions to the source's promises\<close>

definition source_started :: "('c readable, unit) proc" where
  "source_started = seqp [
     modify (\<lambda>s. s\<lparr>rstarted := True\<rparr>),
     assertp (\<lambda>s. \<not> pulling s),
     assertp (\<lambda>s. \<not> pull_again s),
     ReadableStreamDefaultControllerCallPullIfNeeded]"

definition pull_fulfilled :: "('c readable, unit) proc" where
  "pull_fulfilled = seqp [
     modify (\<lambda>s. s\<lparr>pulling := False\<rparr>),
     whenp pull_again (seqp [
       modify (\<lambda>s. s\<lparr>pull_again := False\<rparr>),
       ReadableStreamDefaultControllerCallPullIfNeeded])]"

section \<open>Runs\<close>

datatype 'c r_event =
  GetReader "jsstr option" | ReadChunk nat | CancelReader nat reason | CancelStream reason | ReleaseReader nat
| EnqueueChunk 'c | CloseSource | ErrorSource reason
| SourceStarted | SourceStartFailed reason | PullFulfilled | PullRejected reason
| CancelFulfilled | CancelRejected reason

fun r_step :: "('c \<Rightarrow> reason + js_number) \<Rightarrow> 'c r_event \<Rightarrow> ('c readable, nat option) proc" where
  "r_step size_of (GetReader mode) = run_unit (getReader mode)"
| "r_step size_of (ReadChunk r) = run_promise (reader_read r)"
| "r_step size_of (CancelReader r e) = run_promise (reader_cancel r e)"
| "r_step size_of (CancelStream e) = run_promise (stream_cancel e)"
| "r_step size_of (ReleaseReader r) = run_unit (reader_releaseLock r)"
| "r_step size_of (EnqueueChunk c) = run_unit (source_enqueue size_of c)"
| "r_step size_of CloseSource = run_unit source_close"
| "r_step size_of (ErrorSource e) = run_unit (source_error e)"
| "r_step size_of SourceStarted = run_unit (thenp (modify (\<lambda>s. s\<lparr>rstart_pending := False\<rparr>)) source_started)"
| "r_step size_of (SourceStartFailed e) =
     run_unit (thenp (modify (\<lambda>s. s\<lparr>rstart_pending := False\<rparr>)) (ReadableStreamDefaultControllerError e))"
| "r_step size_of PullFulfilled = run_unit (thenp (modify (\<lambda>s. s\<lparr>pull_pending := False\<rparr>)) pull_fulfilled)"
| "r_step size_of (PullRejected e) =
     run_unit (thenp (modify (\<lambda>s. s\<lparr>pull_pending := False\<rparr>)) (ReadableStreamDefaultControllerError e))"
| "r_step size_of CancelFulfilled = run_unit (withp cancel_pending (\<lambda>p.
     thenp (modify (\<lambda>s. s\<lparr>cancel_pending := None\<rparr>)) (settle_read (the p) (Fulfilled NoValue))))"
| "r_step size_of (CancelRejected e) = run_unit (withp cancel_pending (\<lambda>p.
     thenp (modify (\<lambda>s. s\<lparr>cancel_pending := None\<rparr>)) (settle_read (the p) (Rejected e))))"

text \<open>A reader is named by its number once it exists; a promise of the source is settled once.\<close>

fun r_enabled :: "'c r_event \<Rightarrow> 'c readable \<Rightarrow> bool" where
  "r_enabled (ReadChunk r) s \<longleftrightarrow> r < length (readers s)"
| "r_enabled (CancelReader r e) s \<longleftrightarrow> r < length (readers s)"
| "r_enabled (ReleaseReader r) s \<longleftrightarrow> r < length (readers s)"
| "r_enabled SourceStarted s \<longleftrightarrow> rstart_pending s"
| "r_enabled (SourceStartFailed e) s \<longleftrightarrow> rstart_pending s"
| "r_enabled PullFulfilled s \<longleftrightarrow> pull_pending s"
| "r_enabled (PullRejected e) s \<longleftrightarrow> pull_pending s"
| "r_enabled CancelFulfilled s \<longleftrightarrow> cancel_pending s \<noteq> None"
| "r_enabled (CancelRejected e) s \<longleftrightarrow> cancel_pending s \<noteq> None"
| "r_enabled ev s \<longleftrightarrow> True"

text \<open>A run from a state, with its events and what each of them returned.\<close>

inductive r_runs :: "('c \<Rightarrow> reason + js_number) \<Rightarrow> 'c readable \<Rightarrow> ('c r_event \<times> (reason + nat option)) list \<Rightarrow> 'c readable \<Rightarrow> bool"
  for size_of :: "'c \<Rightarrow> reason + js_number" where
  r_refl: "r_runs size_of s [] s"
| r_snoc: "r_runs size_of s h t \<Longrightarrow> r_enabled ev t \<Longrightarrow> r_step size_of ev t = (res, u) \<Longrightarrow> r_runs size_of s (h @ [(ev, res)]) u"

definition r_history :: "('c \<Rightarrow> reason + js_number) \<Rightarrow> ('c r_event \<times> (reason + nat option)) list \<Rightarrow> 'c readable \<Rightarrow> bool" where
  "r_history size_of h t \<longleftrightarrow> (\<exists>s typed sizeable hwm callable start.
     (new_ReadableStream typed sizeable hwm callable start = Inr s \<or> (\<exists>n. CreateReadableStream n start = Inr s)) \<and> r_runs size_of s h t)"

end
