(* ===== verification/Readable_Safety.thy ===== *)
theory Readable_Safety
  imports Readable
begin

text \<open>The invariant of the readable streams of \<open>packages/zero/lib/whatwg/streams/readable.js\<close> and the
  proof that every enabled event keeps it and that no assertion of the code fails.\<close>

section \<open>The invariant\<close>

text \<open>The readers: who holds the stream, and whether it can still settle its promise \<open>closed\<close>.\<close>

definition readers_inv :: "'c readable \<Rightarrow> bool" where
  "readers_inv s \<longleftrightarrow>
     (\<forall>r < length (readers s). owns_source (readers s ! r) = (the_reader s = Some r)) \<and>
     (\<forall>r. the_reader s = Some r \<longrightarrow> r < length (readers s) \<and>
       (rstate s = IsReadable \<longrightarrow> reader_fns (readers s ! r)) \<and>
       (rstate s \<noteq> IsReadable \<longrightarrow> read_requests (readers s ! r) = [] \<longrightarrow> \<not> reader_fns (readers s ! r)))"

text \<open>The source is asked for more only after its start, and not again before it has answered.\<close>

definition pull_inv :: "'c readable \<Rightarrow> bool" where
  "pull_inv s \<longleftrightarrow> (pull_again s \<longrightarrow> pulling s) \<and> (pulling s \<longrightarrow> rstarted s) \<and> (pull_pending s \<longrightarrow> pulling s) \<and>
     (rstart_pending s \<longrightarrow> \<not> rstarted s)"

definition source_inv :: "'c readable \<Rightarrow> bool" where
  "source_inv s \<longleftrightarrow> queue_ok (rqueue s) \<and> (rstate s \<noteq> IsReadable \<longrightarrow> fst (rqueue s) = []) \<and>
     (rstate s = IsReadable \<longrightarrow> close_requested s \<longrightarrow> fst (rqueue s) \<noteq> [])"

definition r_inv :: "'c readable \<Rightarrow> bool" where
  "r_inv s \<longleftrightarrow> readers_inv s \<and> pull_inv s \<and> source_inv s"

lemmas r_inv_defs = r_inv_def readers_inv_def pull_inv_def source_inv_def
lemmas read_simps = run_simps read_promise_def settle_read_def update_reader_def reader_of_def

section \<open>The operations\<close>

lemma rs_should_pull: "ReadableStreamDefaultControllerShouldCallPull s =
    (Inr (ReadableStreamDefaultControllerCanCloseOrEnqueue s \<and> rstarted s \<and>
       (reads_wait s \<or> above_zero (minus_total (rHWM s) (snd (rqueue s))))), s)"
  by (auto simp: ReadableStreamDefaultControllerShouldCallPull_def ReadableStreamDefaultControllerCanCloseOrEnqueue_def
      ReadableStreamDefaultControllerGetDesiredSize_def run_simps)

lemma rs_call_pull: "r_inv s \<Longrightarrow> safe r_inv (ReadableStreamDefaultControllerCallPullIfNeeded s)"
  by (auto simp: ReadableStreamDefaultControllerCallPullIfNeeded_def rs_should_pull run_simps r_inv_defs
      ReadableStreamDefaultControllerCanCloseOrEnqueue_def)

lemma rs_resolve_reads:
  "resolve_reads rs s = (Inr (), s\<lparr>rpromises := fold (\<lambda>i. settle i (Fulfilled Done)) rs (rpromises s)\<rparr>)"
  by (induction rs arbitrary: s) (simp_all add: read_simps)

lemma rs_reject_reads: "reject_reads rs e s = (if rs = [] then Inr () else Inl (Error TypeError), s)"
  by (cases rs) (simp_all add: read_kReject_def run_simps)

text \<open>Closing settles the reads that wait; failing throws when one waits.\<close>

lemma rs_close:
  assumes "readers_inv s" and "rstate s = IsReadable"
  obtains ps rs where "ReadableStreamClose s = (Inr (), s\<lparr>rstate := IsClosed, rpromises := ps, readers := rs\<rparr>)"
    and "readers_inv (s\<lparr>rstate := IsClosed, rpromises := ps, readers := rs\<rparr>)" and "length rs = length (readers s)"
proof (cases "the_reader s")
  case None
  have "s\<lparr>rstate := IsClosed\<rparr> = s\<lparr>rstate := IsClosed, rpromises := rpromises s, readers := readers s\<rparr>" by simp
  then show thesis using assms None that [where ps = "rpromises s" and rs = "readers s"]
    by (simp add: ReadableStreamClose_def read_simps readers_inv_def)
next
  case (Some r)
  let ?rs = "(readers s)[r := (readers s ! r)\<lparr>read_requests := [], reader_fns := False\<rparr>]"
  have "r < length (readers s)" "reader_fns (readers s ! r)" using assms Some by (simp_all add: readers_inv_def)
  then show thesis using assms Some
    by (intro that [where rs = ?rs and ps = "settle (reader_closed (readers s ! r)) (Fulfilled NoValue)
          (fold (\<lambda>i. settle i (Fulfilled Done)) (read_requests (readers s ! r)) (rpromises s))"])
      (auto simp: ReadableStreamClose_def read_simps rs_resolve_reads defaultReaderClosedPromiseResolve_def readers_inv_def nth_list_update)
qed

lemma rs_error:
  assumes "readers_inv s" and "rstate s = IsReadable"
  obtains res ps rs where "ReadableStreamError e s = (res, s\<lparr>rstate := IsErrored, rstored := e, rpromises := ps, readers := rs\<rparr>)"
    and "res \<noteq> Inl (Error OtherError)" and "length rs = length (readers s)"
    and "readers_inv (s\<lparr>rstate := IsErrored, rstored := e, rpromises := ps, readers := rs\<rparr>)"
proof (cases "the_reader s")
  case None
  then show thesis using assms that [where res = "Inr ()" and ps = "rpromises s" and rs = "readers s"]
    by (simp add: ReadableStreamError_def read_simps readers_inv_def)
next
  case (Some r)
  let ?rs = "(readers s)[r := (readers s ! r)\<lparr>read_requests := [], reader_fns := False\<rparr>]"
  have r: "r < length (readers s)" "reader_fns (readers s ! r)" using assms Some by (simp_all add: readers_inv_def)
  show thesis
  proof (cases "read_requests (readers s ! r) = []")
    case True
    then show thesis using r assms Some
      by (intro that [where res = "Inr ()" and ps = "settle (reader_closed (readers s ! r)) (Rejected e) (rpromises s)" and rs = ?rs])
        (auto simp: ReadableStreamError_def read_simps rs_reject_reads defaultReaderClosedPromiseReject_def readers_inv_def nth_list_update)
  next
    case False
    then show thesis using r assms Some
      by (intro that [where res = "Inl (Error TypeError)" and ps = "rpromises s" and rs = "readers s"])
        (auto simp: ReadableStreamError_def read_simps rs_reject_reads readers_inv_def)
  qed
qed

lemma rs_controller_error:
  assumes "readers_inv s" and "pull_inv s" and "source_inv s"
  shows "safe r_inv (ReadableStreamDefaultControllerError e s)"
proof (cases "rstate s = IsReadable")
  case True
  let ?t = "s\<lparr>rqueue := ResetQueue\<rparr>"
  have "readers_inv ?t" "rstate ?t = IsReadable" using assms True by (simp_all add: readers_inv_def)
  then obtain res ps rs where r: "ReadableStreamError e ?t = (res, ?t\<lparr>rstate := IsErrored, rstored := e, rpromises := ps, readers := rs\<rparr>)"
    "res \<noteq> Inl (Error OtherError)" "readers_inv (?t\<lparr>rstate := IsErrored, rstored := e, rpromises := ps, readers := rs\<rparr>)"
    using rs_error by metis
  then have "r_inv (?t\<lparr>rstate := IsErrored, rstored := e, rpromises := ps, readers := rs\<rparr>)"
    using assms(2) by (simp add: r_inv_def pull_inv_def source_inv_def) (simp add: ResetQueue_def)
  then show ?thesis using r True by (cases res) (simp_all add: ReadableStreamDefaultControllerError_def run_simps)
next
  case False
  then show ?thesis using assms by (simp add: ReadableStreamDefaultControllerError_def run_simps r_inv_def)
qed

lemma rs_cancel:
  assumes "r_inv s"
  shows "safe r_inv (ReadableStreamCancel e s)"
proof (cases "rstate s")
  case IsReadable
  let ?t = "s\<lparr>disturbed := True\<rparr>"
  have "readers_inv ?t" "rstate ?t = IsReadable" using assms IsReadable by (simp_all add: r_inv_def readers_inv_def)
  then obtain ps rs where r: "ReadableStreamClose ?t = (Inr (), ?t\<lparr>rstate := IsClosed, rpromises := ps, readers := rs\<rparr>)"
    "readers_inv (?t\<lparr>rstate := IsClosed, rpromises := ps, readers := rs\<rparr>)"
    using rs_close by metis
  then show ?thesis using IsReadable assms
    by (simp add: ReadableStreamCancel_def CancelSteps_def read_simps r_inv_defs) (simp add: ResetQueue_def)
qed (use assms in \<open>auto simp: ReadableStreamCancel_def read_simps r_inv_defs\<close>)

lemma rs_source_close:
  assumes "r_inv s"
  shows "safe r_inv (source_close s)"
proof (cases "ReadableStreamDefaultControllerCanCloseOrEnqueue s")
  case True
  let ?t = "s\<lparr>close_requested := True\<rparr>"
  have "readers_inv ?t" "rstate ?t = IsReadable"
    using assms True by (simp_all add: r_inv_def readers_inv_def ReadableStreamDefaultControllerCanCloseOrEnqueue_def)
  then obtain ps rs where "ReadableStreamClose ?t = (Inr (), ?t\<lparr>rstate := IsClosed, rpromises := ps, readers := rs\<rparr>)"
    "readers_inv (?t\<lparr>rstate := IsClosed, rpromises := ps, readers := rs\<rparr>)"
    using rs_close by metis
  then show ?thesis using True assms
    by (auto simp: source_close_def ReadableStreamDefaultControllerClose_def run_simps r_inv_defs)
qed (use assms in \<open>simp add: source_close_def run_simps\<close>)

lemma rs_enqueue:
  assumes "r_inv s" and "\<And>e. size_of c = Inl e \<Longrightarrow> e \<noteq> Error OtherError"
  shows "safe r_inv (source_enqueue size_of c s)"
proof (cases "ReadableStreamDefaultControllerCanCloseOrEnqueue s")
  case True
  have e: "safe r_inv (ReadableStreamDefaultControllerError e s)" for e
    using rs_controller_error [of s e] assms(1) by (simp add: r_inv_def)
  have t: "safe r_inv (thenp (ReadableStreamDefaultControllerError e) (throw e) s)" if "e \<noteq> Error OtherError" for e
    using e [of e] that by (auto simp: run_simps safe_def split: prod.splits sum.splits)
  have p: "safe r_inv (thenp ReadableStreamDefaultControllerCallPullIfNeeded (ret ()) t)" if "r_inv t" for t
    by (rule safe_ret_after) (rule rs_call_pull [OF that])
  show ?thesis
  proof (cases "reads_wait s")
    case True
    then obtain r where "the_reader s = Some r" "read_requests (reader_of s r) \<noteq> []"
      by (auto simp: reads_wait_def IsReadableStreamLocked_def ReadableStreamGetNumReadRequests_def)
    then show ?thesis using True \<open>ReadableStreamDefaultControllerCanCloseOrEnqueue s\<close> assms(1)
      by (auto simp: source_enqueue_def ReadableStreamDefaultControllerEnqueue_def ReadableStreamFulfillReadRequest_def
          read_kResolve_def read_simps r_inv_defs nth_list_update ReadableStreamDefaultControllerCanCloseOrEnqueue_def)
  next
    case False
    have q: "safe r_inv (withp rqueue (\<lambda>q. case EnqueueValueWithSize c n q of
            Inl e \<Rightarrow> thenp (ReadableStreamDefaultControllerError (Error e)) (throw (Error e))
          | Inr q' \<Rightarrow> modify (\<lambda>s. s\<lparr>rqueue := q'\<rparr>)) s)" for n
    proof (cases "EnqueueValueWithSize c n (rqueue s)")
      case (Inl e)
      then have "e = RangeError" by (auto simp: EnqueueValueWithSize_def split: js_number.splits if_splits)
      then show ?thesis using Inl t [of "Error RangeError"] by (simp add: withp_def)
    next
      case (Inr q')
      then show ?thesis using assms(1) enqueue_ok [OF _ Inr] True by (auto simp: r_inv_defs ReadableStreamDefaultControllerCanCloseOrEnqueue_def withp_def modify_def)
    qed
    have "safe r_inv ((case size_of c of
          Inl e \<Rightarrow> thenp (ReadableStreamDefaultControllerError e) (throw e)
        | Inr n \<Rightarrow> withp rqueue (\<lambda>q. case EnqueueValueWithSize c n q of
            Inl e \<Rightarrow> thenp (ReadableStreamDefaultControllerError (Error e)) (throw (Error e))
          | Inr q' \<Rightarrow> modify (\<lambda>s. s\<lparr>rqueue := q'\<rparr>))) s)" (is "safe r_inv (?body s)")
      using t assms(2) q by (cases "size_of c") simp_all
    then have "safe r_inv (thenp ?body (thenp ReadableStreamDefaultControllerCallPullIfNeeded (ret ())) s)"
      by (rule safe_seq) (rule p)
    then show ?thesis using True False
      by (simp add: source_enqueue_def ReadableStreamDefaultControllerEnqueue_def ifp_def assertp_def ret_def thenp_def bindp_def safe_def)
  qed
qed (use assms in \<open>simp add: source_enqueue_def run_simps\<close>)

lemma rs_pull_steps:
  assumes "r_inv s" and "rstate s = IsReadable" and "the_reader s \<noteq> None"
  shows "safe r_inv (PullSteps s)"
proof (cases "fst (rqueue s) = []")
  case True
  obtain r where r: "the_reader s = Some r" "r < length (readers s)" using assms by (auto simp: r_inv_def readers_inv_def)
  let ?p = "length (rpromises s)"
  let ?t = "s\<lparr>rpromises := rpromises s @ [Pending],
      readers := (readers s)[r := (readers s ! r)\<lparr>read_requests := read_requests (readers s ! r) @ [?p]\<rparr>]\<rparr>"
  have a: "ReadableStreamAddReadRequest s = (Inr ?p, ?t)"
    using assms(2) r by (simp add: ReadableStreamAddReadRequest_def read_simps)
  have "r_inv ?t" using assms r by (auto simp: r_inv_defs nth_list_update)
  from safe_ret_after [where p = ReadableStreamDefaultControllerCallPullIfNeeded and x = ?p, OF rs_call_pull [OF this]]
  show ?thesis using True by (simp add: PullSteps_def withp_def bindp_def a)
next
  case False
  then obtain c q' where d: "DequeueValue (rqueue s) = Inr (c, q')" "queue_ok q'"
    using dequeue_ok [of "rqueue s"] assms(1) by (auto simp: r_inv_def source_inv_def)
  let ?t = "s\<lparr>rqueue := q'\<rparr>"
  have c: "safe r_inv (ifp (\<lambda>s. close_requested s \<and> fst (rqueue s) = []) ReadableStreamClose ReadableStreamDefaultControllerCallPullIfNeeded ?t)"
  proof (cases "close_requested s \<and> fst q' = []")
    case True
    have "readers_inv ?t" "rstate ?t = IsReadable" using assms by (simp_all add: r_inv_def readers_inv_def)
    then obtain ps rs where "ReadableStreamClose ?t = (Inr (), ?t\<lparr>rstate := IsClosed, rpromises := ps, readers := rs\<rparr>)"
      "readers_inv (?t\<lparr>rstate := IsClosed, rpromises := ps, readers := rs\<rparr>)"
      using rs_close by metis
    then show ?thesis using True assms d by (simp add: ifp_def r_inv_defs)
  next
    case False
    then have "r_inv ?t" using assms d by (auto simp: r_inv_defs)
    then show ?thesis using False rs_call_pull [of ?t] by (auto simp: ifp_def)
  qed
  have "safe r_inv (read_promise (Fulfilled (Chunk c)) u)" if "r_inv u" for u
    using that by (simp add: read_promise_def r_inv_defs)
  then have "safe r_inv (thenp (ifp (\<lambda>s. close_requested s \<and> fst (rqueue s) = []) ReadableStreamClose
      ReadableStreamDefaultControllerCallPullIfNeeded) (read_promise (Fulfilled (Chunk c))) ?t)"
    by (rule safe_seq [where p = "ifp (\<lambda>s. close_requested s \<and> fst (rqueue s) = []) ReadableStreamClose
      ReadableStreamDefaultControllerCallPullIfNeeded", OF c])
  then show ?thesis using False d(1) by (simp add: PullSteps_def withp_def modify_def thenp_def [of "modify _"] bindp_def [of "modify _"])
qed

section \<open>Readers\<close>

lemma reader_owner:
  assumes "r_inv s" and "r < length (readers s)" and "owns_source (reader_of s r)"
  shows "the_reader s = Some r"
  using assms by (auto simp: r_inv_def readers_inv_def reader_of_def)

lemma rs_read:
  assumes "r_inv s" and "r < length (readers s)"
  shows "safe r_inv (reader_read r s)"
proof (cases "owns_source (reader_of s r)")
  case True
  let ?t = "s\<lparr>disturbed := True\<rparr>"
  have t: "r_inv ?t" "the_reader ?t = Some r" using assms(1) reader_owner [OF assms True] by (simp_all add: r_inv_defs)
  show ?thesis
  proof (cases "rstate s")
    case IsReadable
    then show ?thesis using True rs_pull_steps [OF t(1)] t(2)
      by (simp add: reader_read_def ReadableStreamDefaultReaderRead_def run_simps)
  qed (use True t(1) in \<open>simp_all add: reader_read_def ReadableStreamDefaultReaderRead_def run_simps read_promise_def r_inv_defs\<close>)
qed (use assms in \<open>simp add: reader_read_def read_rejected_def read_promise_def ifp_def r_inv_defs\<close>)

lemma rs_cancels: 
  "r_inv s \<Longrightarrow> safe r_inv (reader_cancel r e s)" "r_inv s \<Longrightarrow> safe r_inv (stream_cancel e s)"
  using rs_cancel [of s e]
  by (auto simp: reader_cancel_def stream_cancel_def ReadableStreamReaderGenericCancel_def read_rejected_def
      read_promise_def run_simps r_inv_defs)

lemma rs_get_reader: "r_inv s \<Longrightarrow> safe r_inv (getReader mode s)"
  by (cases "rstate s"; cases "the_reader s")
    (auto simp: getReader_def new_ReadableStreamDefaultReader_def ReadableStreamReaderGenericInitialize_def
      IsReadableStreamLocked_def defaultReaderClosedPromiseInitialize_def defaultReaderClosedPromiseInitializeAsResolved_def
      defaultReaderClosedPromiseInitializeAsRejected_def read_simps r_inv_defs nth_append less_Suc_eq blank_reader_def
      list_update_append split: option.split)

lemma rs_release:
  assumes "r_inv s" and "r < length (readers s)"
  shows "safe r_inv (reader_releaseLock r s)"
proof (cases "owns_source (reader_of s r)")
  case True
  then have "the_reader s = Some r" using reader_owner [OF assms] by simp
  then show ?thesis using assms True
    by (cases "rstate s = IsReadable")
      (auto simp: reader_releaseLock_def ReadableStreamReaderGenericRelease_def defaultReaderClosedPromiseReject_def
        defaultReaderClosedPromiseResetToRejected_def read_simps r_inv_defs nth_list_update)
qed (use assms in \<open>simp add: reader_releaseLock_def run_simps\<close>)

section \<open>Steps\<close>

lemma rs_started:
  assumes "r_inv s" and "rstart_pending s"
  shows "safe r_inv (source_started (s\<lparr>rstart_pending := False\<rparr>))"
proof -
  let ?t = "s\<lparr>rstart_pending := False, rstarted := True\<rparr>"
  have "r_inv ?t" "\<not> pulling s" "\<not> pull_again s" using assms by (auto simp: r_inv_defs)
  then show ?thesis using safe_ret_after [where p = ReadableStreamDefaultControllerCallPullIfNeeded and x = "()", OF rs_call_pull [of ?t]]
    by (simp add: source_started_def step_simps)
qed

lemma rs_pull_fulfilled:
  assumes "r_inv s" and "pull_pending s"
  shows "safe r_inv (pull_fulfilled (s\<lparr>pull_pending := False\<rparr>))"
proof (cases "pull_again s")
  case True
  let ?t = "s\<lparr>pull_pending := False, pulling := False, pull_again := False\<rparr>"
  have "r_inv ?t" using assms by (auto simp: r_inv_defs)
  from rs_call_pull [OF this] have "safe r_inv (thenp ReadableStreamDefaultControllerCallPullIfNeeded (thenp (ret ()) (ret ())) ?t)"
    by (rule safe_seq) (simp add: run_simps)
  then show ?thesis using True by (simp add: pull_fulfilled_def step_simps)
next
  case False
  then show ?thesis using assms by (auto simp: pull_fulfilled_def run_simps r_inv_defs)
qed

lemma r_inv_fields:
  "r_inv s \<Longrightarrow> r_inv (s\<lparr>rstart_pending := False\<rparr>)" "r_inv s \<Longrightarrow> r_inv (s\<lparr>pull_pending := False\<rparr>)"
  "r_inv s \<Longrightarrow> r_inv (s\<lparr>cancel_pending := p\<rparr>)" "r_inv s \<Longrightarrow> r_inv (s\<lparr>rpromises := ps\<rparr>)"
  by (auto simp: r_inv_defs)

lemma r_inv_error: "r_inv s \<Longrightarrow> safe r_inv (ReadableStreamDefaultControllerError e s)"
  by (rule rs_controller_error) (simp_all add: r_inv_def)

lemma r_step_safe:
  assumes "r_inv s" and "r_enabled ev s" and "\<And>c e. size_of c = Inl e \<Longrightarrow> e \<noteq> Error OtherError"
  shows "safe r_inv (r_step size_of ev s)"
proof (cases ev)
  case SourceStarted
  then have "safe r_inv (thenp (modify (\<lambda>s. s\<lparr>rstart_pending := False\<rparr>)) source_started s)"
    using assms rs_started [of s] by (simp add: thenp_def bindp_def modify_def)
  then show ?thesis using SourceStarted by (simp add: safe_run_unit)
next
  case PullFulfilled
  then have "safe r_inv (thenp (modify (\<lambda>s. s\<lparr>pull_pending := False\<rparr>)) pull_fulfilled s)"
    using assms rs_pull_fulfilled [of s] by (simp add: thenp_def bindp_def modify_def)
  then show ?thesis using PullFulfilled by (simp add: safe_run_unit)
next
  case (SourceStartFailed e)
  have "safe r_inv (thenp (modify (\<lambda>s. s\<lparr>rstart_pending := False\<rparr>)) (ReadableStreamDefaultControllerError e) s)"
    using r_inv_error [OF r_inv_fields(1) [OF assms(1)]] by (simp add: thenp_def bindp_def modify_def)
  then show ?thesis using SourceStartFailed by (simp add: safe_run_unit)
next
  case (PullRejected e)
  have "safe r_inv (thenp (modify (\<lambda>s. s\<lparr>pull_pending := False\<rparr>)) (ReadableStreamDefaultControllerError e) s)"
    using r_inv_error [OF r_inv_fields(2) [OF assms(1)]] by (simp add: thenp_def bindp_def modify_def)
  then show ?thesis using PullRejected by (simp add: safe_run_unit)
next
  case CancelFulfilled
  then show ?thesis using assms(1) by (simp add: run_unit_def settle_read_def run_simps r_inv_fields)
next
  case (CancelRejected e)
  then show ?thesis using assms(1) by (simp add: run_unit_def settle_read_def run_simps r_inv_fields)
qed (use assms in \<open>auto simp: source_error_def intro!: safe_run_unit safe_run_promise rs_get_reader rs_read rs_cancels rs_release
      rs_enqueue rs_source_close r_inv_error\<close>)

section \<open>Reachable streams\<close>

lemma new_readable_set_up:
  assumes "new_ReadableStream typed sizeable hwm callable start = Inr s \<or> CreateReadableStream n start = Inr s"
  obtains h where "s = SetUpReadableStreamDefaultController (InitializeReadableStream h)"
  using assms by (auto simp: new_ReadableStream_def CreateReadableStream_def set_up_readable_def
      split: if_splits prod.splits sum.splits option.splits)

lemma r_inv_new: "r_inv (SetUpReadableStreamDefaultController (InitializeReadableStream h))"
  by (auto simp: SetUpReadableStreamDefaultController_def InitializeReadableStream_def r_inv_defs ResetQueue_def queue_ok_def)

text \<open>What holds of a new stream and is kept by every step with its history.\<close>

lemma r_history_induct [consumes 1, case_names new step]:
  assumes "r_history size_of h t"
    and "\<And>n. J [] (SetUpReadableStreamDefaultController (InitializeReadableStream n))"
    and "\<And>h s ev res t. J h s \<Longrightarrow> r_enabled ev s \<Longrightarrow> r_step size_of ev s = (res, t) \<Longrightarrow> J (h @ [(ev, res)]) t"
  shows "J h t"
proof -
  obtain s where s: "J [] s" "r_runs size_of s h t"
    using assms(1,2) unfolding r_history_def by (metis new_readable_set_up)
  from s(2,1) show ?thesis by (induction rule: r_runs.induct) (auto intro: assms(3))
qed

lemma r_history_inv:
  assumes "r_history size_of h t" and "\<And>c e. size_of c = Inl e \<Longrightarrow> e \<noteq> Error OtherError"
  shows "r_inv t"
  using assms(1)
proof (induction rule: r_history_induct)
  case (step h s ev res t)
  then show ?case using r_step_safe [OF _ _ assms(2), of s ev size_of] by (simp add: safe_def)
qed (rule r_inv_new)

text \<open>The events of a list, one after the other, if each is enabled when it comes.\<close>

fun r_trace :: "('c \<Rightarrow> reason + js_number) \<Rightarrow> 'c r_event list \<Rightarrow> 'c readable \<Rightarrow>
    (('c r_event \<times> (reason + nat option)) list \<times> 'c readable) option" where
  "r_trace size_of [] s = Some ([], s)"
| "r_trace size_of (ev # evs) s = (if \<not> r_enabled ev s then None else
     (case r_step size_of ev s of (res, t) \<Rightarrow>
       (case r_trace size_of evs t of None \<Rightarrow> None | Some (h, u) \<Rightarrow> Some ((ev, res) # h, u))))"

lemma r_trace_runs: "r_runs size_of r g s \<Longrightarrow> r_trace size_of evs s = Some (h, t) \<Longrightarrow> r_runs size_of r (g @ h) t"
proof (induction evs arbitrary: g s h)
  case (Cons ev evs)
  obtain res u where e: "r_step size_of ev s = (res, u)" by (cases "r_step size_of ev s")
  with Cons.prems obtain h' where h: "r_enabled ev s" "r_trace size_of evs u = Some (h', t)" "h = (ev, res) # h'"
    by (auto split: if_splits option.splits)
  from Cons.IH [OF r_snoc [OF Cons.prems(1) h(1) e] h(2)] show ?case using h(3) by simp
qed simp

lemma r_trace_history:
  "new_ReadableStream typed sizeable hwm callable start = Inr r \<Longrightarrow> r_trace size_of evs r = Some (h, s) \<Longrightarrow> r_history size_of h s"
  unfolding r_history_def using r_trace_runs [OF r_refl, of size_of evs r h s] by (simp only: append_Nil) blast


lemma read_example:
  obtains h and s :: "nat readable" where "r_history (\<lambda>c. Inr (Finite 1)) h s" and "r_enabled PullFulfilled s"
    and "source_calls s = [SourcePull]" and "rstate s = IsReadable"
    and "rpromises s = [Pending, Fulfilled (Chunk 5)]" and "rqueue s = ([(6, 1)], 1)"
proof -
  have "case new_ReadableStream False True (Some (Finite 2)) True None of Inl e \<Rightarrow> False
      | Inr r \<Rightarrow> (case r_trace (\<lambda>c. Inr (Finite 1)) [SourceStarted, GetReader None, EnqueueChunk (5 :: nat), EnqueueChunk 6, ReadChunk 0] r
         of None \<Rightarrow> False
         | Some p \<Rightarrow> r_enabled PullFulfilled (snd p) \<and> source_calls (snd p) = [SourcePull] \<and> rstate (snd p) = IsReadable \<and>
             rpromises (snd p) = [Pending, Fulfilled (Chunk 5)] \<and> rqueue (snd p) = ([(6, 1)], 1))"
    by code_simp
  then show thesis
    by (auto split: sum.splits option.splits simp del: r_trace.simps r_enabled.simps intro: that [OF r_trace_history])
qed


end
