(* ===== verification/Readable_Fifo.thy ===== *)
theory Readable_Fifo
  imports Readable_Safety
begin

text \<open>Readable streams as queues: what the operations of \<open>packages/zero/lib/whatwg/streams/readable.js\<close> do to
  the chunks in the queue and to those the reads have delivered.  The operations on readers are proved once, in
  the locale \<open>stream_view\<close>, to keep whatever depends only on these and on the state.\<close>

section \<open>What was read\<close>

text \<open>The chunks of a list of promises, in the order in which the promises were made.\<close>

definition chunks_of :: "'c read_result promise list \<Rightarrow> 'c list" where
  "chunks_of ps = concat (map (\<lambda>p. case p of Fulfilled (Chunk c) \<Rightarrow> [c] | _ \<Rightarrow> []) ps)"

definition delivered :: "'c readable \<Rightarrow> 'c list" where
  "delivered s = chunks_of (rpromises s)"

definition queued :: "'c readable \<Rightarrow> 'c list" where
  "queued s = map fst (fst (rqueue s))"

definition no_chunk :: "'c read_result promise \<Rightarrow> bool" where
  "no_chunk p \<longleftrightarrow> (case p of Fulfilled (Chunk c) \<Rightarrow> False | _ \<Rightarrow> True)"

lemma no_chunk_simps [simp]:
  "no_chunk Pending" "no_chunk (Rejected e)" "no_chunk (Fulfilled Done)" "no_chunk (Fulfilled NoValue)"
  by (simp_all add: no_chunk_def)

lemma chunks_of_append [simp]: "chunks_of (ps @ qs) = chunks_of ps @ chunks_of qs"
  by (simp add: chunks_of_def)

lemma chunks_of_single [simp]: "chunks_of [Fulfilled (Chunk c)] = [c]" "no_chunk p \<Longrightarrow> chunks_of [p] = []"
  by (auto simp: chunks_of_def no_chunk_def split: promise.splits read_result.splits)

lemma chunks_of_settle [simp]:
  assumes "no_chunk p"
  shows "chunks_of (settle i p ps) = chunks_of ps"
proof (cases "i < length ps \<and> ps ! i = Pending")
  case True
  then have "chunks_of ps = chunks_of (take i ps @ [Pending] @ drop (Suc i) ps)" by (metis append_Cons append_Nil id_take_nth_drop)
  moreover have "settle i p ps = take i ps @ [p] @ drop (Suc i) ps" using True by (simp add: settle_def upd_conv_take_nth_drop)
  ultimately show ?thesis using assms by (auto simp: chunks_of_def no_chunk_def split: promise.splits read_result.splits)
qed (auto simp: settle_def)

text \<open>The operations on readers touch neither the queue nor the state nor what was read: they keep every
  property of these three.\<close>

locale stream_view =
  fixes I :: "'c readable \<Rightarrow> bool"
  assumes view: "I s \<Longrightarrow> rstate t = rstate s \<Longrightarrow> rqueue t = rqueue s \<Longrightarrow> delivered t = delivered s \<Longrightarrow> I t"
begin

lemma keeps_view: "(\<And>s. rstate (f s) = rstate s \<and> rqueue (f s) = rqueue s \<and> rpromises (f s) = rpromises s) \<Longrightarrow> keeps I (modify f)"
  by (rule keeps_modify) (auto intro: view simp: delivered_def)

lemma keeps_promise: "no_chunk p \<Longrightarrow> keeps I (read_promise p)"
  unfolding keeps_def read_promise_def by (auto intro: view simp: delivered_def)

lemma keeps_settle: "no_chunk p \<Longrightarrow> keeps I (settle_read i p)"
  unfolding settle_read_def by (rule keeps_modify) (auto intro: view simp: delivered_def)

lemma keeps_reader: "keeps I (update_reader r f)"
  unfolding update_reader_def by (rule keeps_view) simp

lemmas view_rules = keeps_promise keeps_settle keeps_reader no_chunk_simps keeps_rules

lemma keeps_closed_promise:
  "keeps I (defaultReaderClosedPromiseInitialize r)" "keeps I (defaultReaderClosedPromiseInitializeAsRejected r e)"
  "keeps I (defaultReaderClosedPromiseInitializeAsResolved r)" "keeps I (defaultReaderClosedPromiseReject r e)"
  "keeps I (defaultReaderClosedPromiseResetToRejected r e)" "keeps I (defaultReaderClosedPromiseResolve r)"
  unfolding defaultReaderClosedPromiseInitialize_def defaultReaderClosedPromiseInitializeAsRejected_def
    defaultReaderClosedPromiseInitializeAsResolved_def defaultReaderClosedPromiseReject_def
    defaultReaderClosedPromiseResetToRejected_def defaultReaderClosedPromiseResolve_def seqp.simps
  by (intro view_rules)+

lemma keeps_reads: "keeps I (resolve_reads rs)" "keeps I (reject_reads rs e)"
  by (induction rs) (auto intro!: view_rules simp: read_kReject_def)

lemma keeps_add_request: "keeps I ReadableStreamAddReadRequest"
  unfolding ReadableStreamAddReadRequest_def by (intro view_rules)

lemma keeps_fulfil: "keeps I (ReadableStreamFulfillReadRequest c)"
  unfolding ReadableStreamFulfillReadRequest_def seqp.simps read_kResolve_def by (intro view_rules)

lemma keeps_should_pull: "keeps I ReadableStreamDefaultControllerShouldCallPull"
  by (simp add: keeps_def rs_should_pull)

lemma keeps_call_pull: "keeps I ReadableStreamDefaultControllerCallPullIfNeeded"
  unfolding ReadableStreamDefaultControllerCallPullIfNeeded_def seqp.simps
  by (intro keeps_bind keeps_should_pull keeps_cases keeps_if keeps_then keeps_simple keeps_view; simp)

lemma keeps_read_rejected: "keeps I (read_rejected e)"
  unfolding read_rejected_def by (intro view_rules)

lemma keeps_state_case:
  "keeps I a \<Longrightarrow> keeps I b \<Longrightarrow> keeps I c \<Longrightarrow> keeps I (case st of IsReadable \<Rightarrow> a | IsClosed \<Rightarrow> b | IsErrored \<Rightarrow> c)"
  by (cases st) simp_all

lemma keeps_get_reader: "keeps I (getReader mode)"
proof -
  have m: "keeps I (modify (\<lambda>s. s\<lparr>readers := readers s @ [blank_reader], the_reader := Some r\<rparr>))" for r
    by (rule keeps_view) simp
  show ?thesis unfolding getReader_def new_ReadableStreamDefaultReader_def ReadableStreamReaderGenericInitialize_def seqp.simps
    by (intro m keeps_closed_promise keeps_state_case view_rules)
qed

lemma keeps_release: "keeps I (reader_releaseLock r)"
proof -
  have m: "keeps I (modify (\<lambda>s. s\<lparr>the_reader := None\<rparr>))" by (rule keeps_view) simp
  show ?thesis unfolding reader_releaseLock_def ReadableStreamReaderGenericRelease_def seqp.simps
    by (intro m keeps_closed_promise view_rules)
qed

lemma keeps_source:
  "keeps I source_started" "keeps I pull_fulfilled"
  unfolding source_started_def pull_fulfilled_def seqp.simps
  by (intro keeps_call_pull keeps_when keeps_then keeps_simple keeps_view; simp)+

end

text \<open>Two such properties: the stream is over, and the stream has this queue as long as it is not over.\<close>

definition over :: "'c list \<Rightarrow> 'c readable \<Rightarrow> bool" where
  "over d s \<longleftrightarrow> delivered s = d \<and> rstate s \<noteq> IsReadable"

definition holds_queue :: "'c list \<Rightarrow> 'c list \<Rightarrow> 'c readable \<Rightarrow> bool" where
  "holds_queue d q s \<longleftrightarrow> delivered s = d \<and> (rstate s = IsReadable \<longrightarrow> queued s = q)"

interpretation ov: stream_view "over d" for d
  by unfold_locales (simp add: over_def)

interpretation hq: stream_view "holds_queue d q" for d q
  by unfold_locales (simp add: holds_queue_def queued_def)

lemma over_holds: "over d s \<Longrightarrow> holds_queue d q s"
  by (simp add: over_def holds_queue_def)

text \<open>Closing and failing end the stream and deliver nothing.\<close>

lemma close_over:
  assumes "rstate s = IsReadable"
  shows "over (delivered s) (snd (ReadableStreamClose s))"
proof -
  have "keeps (over d) (withp the_reader (\<lambda>r. case r of None \<Rightarrow> ret ()
       | Some r \<Rightarrow> seqp [
           withp (\<lambda>s. read_requests (reader_of s r)) resolve_reads,
           update_reader r (\<lambda>x. x\<lparr>read_requests := []\<rparr>),
           defaultReaderClosedPromiseResolve r]))" for d :: "'a list"
    unfolding seqp.simps by (intro ov.keeps_closed_promise ov.keeps_reads ov.view_rules)
  from keepsD [OF this, of "delivered s" "s\<lparr>rstate := IsClosed\<rparr>"] show ?thesis
    using assms unfolding ReadableStreamClose_def seqp.simps by (simp add: step_simps over_def delivered_def)
qed

lemma error_over:
  assumes "rstate s = IsReadable"
  shows "over (delivered s) (snd (ReadableStreamError e s))"
proof -
  have "keeps (over d) (withp the_reader (\<lambda>r. case r of None \<Rightarrow> ret ()
       | Some r \<Rightarrow> seqp [
           withp (\<lambda>s. read_requests (reader_of s r)) (\<lambda>rs. reject_reads rs e),
           update_reader r (\<lambda>x. x\<lparr>read_requests := []\<rparr>),
           defaultReaderClosedPromiseReject r e]))" for d :: "'a list"
    unfolding seqp.simps by (intro ov.keeps_closed_promise ov.keeps_reads ov.view_rules)
  from keepsD [OF this, of "delivered s" "s\<lparr>rstate := IsErrored, rstored := e\<rparr>"] show ?thesis
    using assms unfolding ReadableStreamError_def seqp.simps by (simp add: step_simps over_def delivered_def)
qed

lemma holds_controller_error: "keeps (holds_queue d q) (ReadableStreamDefaultControllerError e)"
  unfolding keeps_def
proof (intro allI impI)
  fix s :: "'a readable" assume h: "holds_queue d q s"
  show "holds_queue d q (snd (ReadableStreamDefaultControllerError e s))"
  proof (cases "rstate s = IsReadable")
    case True
    then have "over d (snd (ReadableStreamError e (s\<lparr>rqueue := ResetQueue\<rparr>)))"
      using error_over [of "s\<lparr>rqueue := ResetQueue\<rparr>" e] h by (simp add: holds_queue_def delivered_def)
    from over_holds [OF this] show ?thesis using True
      by (simp add: ReadableStreamDefaultControllerError_def ifp_def step_simps)
  qed (use h in \<open>simp add: ReadableStreamDefaultControllerError_def run_simps\<close>)
qed

lemma holds_close: "keeps (holds_queue d q) ReadableStreamClose"
  unfolding keeps_def
proof (intro allI impI)
  fix s :: "'a readable" assume h: "holds_queue d q s"
  show "holds_queue d q (snd (ReadableStreamClose s))"
  proof (cases "rstate s = IsReadable")
    case True
    from over_holds [OF close_over [OF this]] show ?thesis using h by (simp add: holds_queue_def)
  next
    case False
    then show ?thesis using h by (simp add: ReadableStreamClose_def run_simps)
  qed
qed

lemma over_cancel_steps: "keeps (over d) (CancelSteps e)"
  unfolding CancelSteps_def
  by (intro keeps_then keeps_bind keeps_simple ov.keeps_promise keeps_modify) (simp_all add: over_def delivered_def)

lemma holds_cancel: "keeps (holds_queue d q) (ReadableStreamCancel e)"
  unfolding ReadableStreamCancel_def
proof (rule keeps_then)
  show "keeps (holds_queue d q) (modify (\<lambda>s. s\<lparr>disturbed := True\<rparr>))" by (rule hq.keeps_view) simp
  have p: "holds_queue d q (snd (read_promise x s))" if "holds_queue d q s" "no_chunk x" for x and s :: "'a readable"
    using keepsD [OF hq.keeps_promise] that by blast
  have c: "holds_queue d q (snd (thenp ReadableStreamClose (CancelSteps e) s))" if h: "holds_queue d q s" "rstate s = IsReadable" for s :: "'a readable"
    using over_holds [OF keeps_after [where p = ReadableStreamClose, OF close_over [OF h(2)] over_cancel_steps]] h(1)
    by (simp add: holds_queue_def)
  show "keeps (holds_queue d q) (ifp (\<lambda>s. rstate s = IsClosed) (read_promise (Fulfilled NoValue))
     (ifp (\<lambda>s. rstate s = IsErrored) (withp rstored (\<lambda>e. read_promise (Rejected e)))
     (thenp ReadableStreamClose (CancelSteps e))))"
    unfolding keeps_def
  proof (intro allI impI)
    fix s :: "'a readable" assume h: "holds_queue d q s"
    show "holds_queue d q (snd (ifp (\<lambda>s. rstate s = IsClosed) (read_promise (Fulfilled NoValue))
     (ifp (\<lambda>s. rstate s = IsErrored) (withp rstored (\<lambda>e. read_promise (Rejected e)))
     (thenp ReadableStreamClose (CancelSteps e))) s))"
      using p [OF h] c [OF h] by (cases "rstate s") (simp_all add: ifp_def withp_def)
  qed
qed

lemma holds_source_close: "keeps (holds_queue d q) source_close"
proof -
  have "keeps (holds_queue d q) (modify (\<lambda>s. s\<lparr>close_requested := True\<rparr>))" by (rule hq.keeps_view) simp
  then show ?thesis unfolding source_close_def ReadableStreamDefaultControllerClose_def seqp.simps
    by (intro holds_close keeps_if keeps_then keeps_when keeps_simple)
qed

section \<open>First in, first out\<close>

text \<open>The chunks that the source put in without an exception.\<close>

fun accepted_chunks :: "('c r_event \<times> (reason + nat option)) list \<Rightarrow> 'c list" where
  "accepted_chunks [] = []"
| "accepted_chunks ((EnqueueChunk c, Inr x) # h) = c # accepted_chunks h"
| "accepted_chunks (_ # h) = accepted_chunks h"

lemma accepted_chunks_append: "accepted_chunks (h @ h') = accepted_chunks h @ accepted_chunks h'"
  by (induction h rule: accepted_chunks.induct) simp_all

lemma call_pull_returns: "r_inv s \<Longrightarrow> fst (ReadableStreamDefaultControllerCallPullIfNeeded s) = Inr ()"
  by (auto simp: ReadableStreamDefaultControllerCallPullIfNeeded_def rs_should_pull run_simps r_inv_defs)

lemma throws_then: "isl (fst (p s)) \<Longrightarrow> isl (fst (thenp p q s)) \<and> snd (thenp p q s) = snd (p s)"
  by (auto simp: run_simps split: prod.split sum.split)

lemma throw_then: "isl (fst (thenp p (throw e) s))" "snd (thenp p (throw e) s) = snd (p s)"
  by (auto simp: run_simps split: prod.split sum.split)

lemma fulfil_throws: "isl (fst (ReadableStreamFulfillReadRequest c s))"
  by (auto simp: ReadableStreamFulfillReadRequest_def read_kResolve_def update_reader_def run_simps split: option.split)

text \<open>Putting a chunk in: at the end of the queue, or not at all and then with an exception.\<close>

definition put_chunk :: "('c \<Rightarrow> reason + js_number) \<Rightarrow> 'c \<Rightarrow> ('c readable, unit) proc" where
  "put_chunk size_of chunk = ifp reads_wait (ReadableStreamFulfillReadRequest chunk)
       (case size_of chunk of
          Inl e \<Rightarrow> thenp (ReadableStreamDefaultControllerError e) (throw e)
        | Inr n \<Rightarrow> withp rqueue (\<lambda>q. case EnqueueValueWithSize chunk n q of
            Inl e \<Rightarrow> thenp (ReadableStreamDefaultControllerError (Error e)) (throw (Error e))
          | Inr q' \<Rightarrow> modify (\<lambda>s. s\<lparr>rqueue := q'\<rparr>)))"

lemma put_chunk_cases:
  "isl (fst (put_chunk size_of c s)) \<and> (holds_queue d q s \<longrightarrow> holds_queue d q (snd (put_chunk size_of c s))) \<or>
   (\<exists>n q'. put_chunk size_of c s = (Inr (), s\<lparr>rqueue := q'\<rparr>) \<and> EnqueueValueWithSize c n (rqueue s) = Inr q')"
proof (cases "reads_wait s")
  case True
  then show ?thesis using fulfil_throws [of c s] keepsD [OF hq.keeps_fulfil, of d q s c] by (simp add: put_chunk_def ifp_def)
next
  case False
  note e = keepsD [OF holds_controller_error, of d q s]
  show ?thesis
  proof (cases "size_of c")
    case (Inl x)
    then show ?thesis using False e by (simp add: put_chunk_def ifp_def throw_then)
  next
    case (Inr n)
    then show ?thesis using False e
      by (cases "EnqueueValueWithSize c n (rqueue s)") (auto simp: put_chunk_def ifp_def withp_def modify_def throw_then)
  qed
qed

lemma holds_enqueue:
  assumes "r_inv s" and "holds_queue d q s" and "source_enqueue size_of c s = (res, t)"
  shows "holds_queue d (if isl res then q else q @ [c]) t"
proof (cases "ReadableStreamDefaultControllerCanCloseOrEnqueue s")
  case can: True
  have e: "source_enqueue size_of c s =
      thenp (put_chunk size_of c) (thenp ReadableStreamDefaultControllerCallPullIfNeeded (ret ())) s"
    using can by (simp add: source_enqueue_def ReadableStreamDefaultControllerEnqueue_def put_chunk_def ifp_def step_simps)
  from put_chunk_cases [of size_of c s d q] show ?thesis
  proof
    assume "isl (fst (put_chunk size_of c s)) \<and> (holds_queue d q s \<longrightarrow> holds_queue d q (snd (put_chunk size_of c s)))"
    then show ?thesis using assms(2,3) e
      throws_then [of "put_chunk size_of c" s "thenp ReadableStreamDefaultControllerCallPullIfNeeded (ret ())"] by simp
  next
    assume "\<exists>n q'. put_chunk size_of c s = (Inr (), s\<lparr>rqueue := q'\<rparr>) \<and> EnqueueValueWithSize c n (rqueue s) = Inr q'"
    then obtain n q' where p: "put_chunk size_of c s = (Inr (), s\<lparr>rqueue := q'\<rparr>)" and n: "EnqueueValueWithSize c n (rqueue s) = Inr q'"
      by blast
    let ?t = "s\<lparr>rqueue := q'\<rparr>"
    have "r_inv ?t" using can assms(1) enqueue_ok [OF _ n]
      by (auto simp: r_inv_defs ReadableStreamDefaultControllerCanCloseOrEnqueue_def)
    then have "fst (ReadableStreamDefaultControllerCallPullIfNeeded ?t) = Inr ()" by (rule call_pull_returns)
    moreover have "holds_queue d (q @ [c]) ?t" using can assms(1,2) enqueue_ok [OF _ n]
      by (simp add: r_inv_def source_inv_def holds_queue_def delivered_def queued_def ReadableStreamDefaultControllerCanCloseOrEnqueue_def)
    note keepsD [OF hq.keeps_call_pull this]
    moreover have "source_enqueue size_of c s = thenp ReadableStreamDefaultControllerCallPullIfNeeded (ret ()) ?t"
      by (simp add: e thenp_def [of "put_chunk _ _"] bindp_def [of "put_chunk _ _"] p)
    ultimately show ?thesis using assms(3) by (auto simp: run_simps split: prod.splits)
  qed
next
  case False
  then show ?thesis using assms by (auto simp: source_enqueue_def run_simps)
qed

text \<open>Reading: the first chunk of the queue, or none.\<close>

lemma holds_pull_steps:
  assumes "r_inv s" and "rstate s = IsReadable" and "holds_queue d q s" and "PullSteps s = (res, t)"
  shows "\<exists>d' q'. d' @ q' = d @ q \<and> holds_queue d' q' t"
proof (cases "fst (rqueue s) = []")
  case True
  have "keeps (holds_queue d q) (bindp ReadableStreamAddReadRequest (\<lambda>p. thenp ReadableStreamDefaultControllerCallPullIfNeeded (ret p)))"
    by (intro hq.keeps_add_request hq.keeps_call_pull hq.view_rules)
  from keepsD [OF this assms(3)] show ?thesis using True assms(4) by (auto simp: PullSteps_def withp_def)
next
  case False
  then obtain c q' where d: "DequeueValue (rqueue s) = Inr (c, q')" "queue_ok q'" "queued s = c # map fst (fst q')"
    using dequeue_ok [of "rqueue s"] assms(1) by (auto simp: r_inv_def source_inv_def queued_def)
  let ?t = "s\<lparr>rqueue := q'\<rparr>" and ?p = "ifp (\<lambda>s. close_requested s \<and> fst (rqueue s) = []) ReadableStreamClose ReadableStreamDefaultControllerCallPullIfNeeded"
  have q: "q = c # map fst (fst q')" using assms(2,3) d(3) by (simp add: holds_queue_def)
  have h: "holds_queue d (map fst (fst q')) ?t" using assms(3) by (simp add: holds_queue_def delivered_def queued_def)
  have f: "fst (?p ?t) = Inr ()"
  proof (cases "close_requested s \<and> fst q' = []")
    case True
    have "readers_inv ?t" "rstate ?t = IsReadable" using assms by (simp_all add: r_inv_def readers_inv_def)
    then have "fst (ReadableStreamClose ?t) = Inr ()" using rs_close [of ?t] by (metis fst_conv)
    then show ?thesis using True by (simp add: ifp_def)
  next
    case False
    then have "r_inv ?t" using assms d by (auto simp: r_inv_defs)
    from call_pull_returns [OF this] show ?thesis using False by (auto simp: ifp_def)
  qed
  have "keeps (holds_queue d (map fst (fst q'))) ?p" by (intro keeps_if holds_close hq.keeps_call_pull)
  from keepsD [OF this h] have u: "holds_queue d (map fst (fst q')) (snd (?p ?t))" .
  have "PullSteps s = thenp ?p (read_promise (Fulfilled (Chunk c))) ?t" using False d(1) by (simp add: PullSteps_def withp_def step_simps)
  also have "\<dots> = read_promise (Fulfilled (Chunk c)) (snd (?p ?t))"
    using f by (cases "?p ?t") (simp add: thenp_def bindp_def)
  finally have "t = (snd (?p ?t))\<lparr>rpromises := rpromises (snd (?p ?t)) @ [Fulfilled (Chunk c)]\<rparr>"
    using assms(4) by (simp add: read_promise_def)
  then have "holds_queue (d @ [c]) (map fst (fst q')) t" using u by (simp add: holds_queue_def delivered_def queued_def)
  then show ?thesis using q by (metis append.assoc append_Cons append_Nil)
qed

lemma holds_read:
  assumes "r_inv s" and "holds_queue d q s" and "reader_read r s = (res, t)"
  shows "\<exists>d' q'. d' @ q' = d @ q \<and> holds_queue d' q' t"
proof (cases "owns_source (reader_of s r) \<and> rstate s = IsReadable")
  case True
  let ?t = "s\<lparr>disturbed := True\<rparr>"
  have "r_inv ?t" "holds_queue d q ?t" using assms by (simp_all add: r_inv_defs holds_queue_def queued_def delivered_def)
  then show ?thesis using True holds_pull_steps [of ?t d q res t] assms(3)
    by (simp add: reader_read_def ReadableStreamDefaultReaderRead_def ifp_def step_simps)
next
  case False
  have p: "holds_queue d q (snd (read_promise x u))" if "no_chunk x" "holds_queue d q u" for x u
    using keepsD [OF hq.keeps_promise] that by blast
  have m: "holds_queue d q (s\<lparr>disturbed := True\<rparr>)" using assms(2) by (simp add: holds_queue_def queued_def delivered_def)
  have "holds_queue d q (snd (reader_read r s))"
    using False p [OF _ m] p [OF _ assms(2)]
    by (cases "rstate s") (auto simp: reader_read_def read_rejected_def ReadableStreamDefaultReaderRead_def ifp_def withp_def step_simps)
  then show ?thesis using assms(3) by auto
qed

lemma holds_other:
  assumes "\<And>r. ev \<noteq> ReadChunk r" and "\<And>c. ev \<noteq> EnqueueChunk c"
  shows "keeps (holds_queue d q) (r_step size_of ev)"
proof -
  have f: "keeps (holds_queue d q) (modify (\<lambda>s. s\<lparr>rstart_pending := b\<rparr>))"
    "keeps (holds_queue d q) (modify (\<lambda>s. s\<lparr>pull_pending := b\<rparr>))"
    "keeps (holds_queue d q) (modify (\<lambda>s. s\<lparr>cancel_pending := p\<rparr>))" for b p by (rule hq.keeps_view; simp)+
  note rules = f keeps_run keeps_then keeps_with keeps_if keeps_simple hq.keeps_get_reader hq.keeps_release hq.keeps_source
    hq.keeps_settle hq.keeps_read_rejected no_chunk_simps holds_cancel holds_source_close holds_controller_error
  show ?thesis
    by (cases ev) (use assms in \<open>simp_all add: reader_cancel_def stream_cancel_def ReadableStreamReaderGenericCancel_def source_error_def\<close>,
      (intro rules)+)
qed

lemma holds_step:
  assumes "r_inv s" and "holds_queue d q s" and "r_step size_of ev s = (res, t)"
  shows "\<exists>d' q'. d' @ q' = d @ q @ accepted_chunks [(ev, res)] \<and> holds_queue d' q' t"
proof (cases ev)
  case (ReadChunk r)
  obtain x u where "reader_read r s = (x, u)" by (cases "reader_read r s")
  moreover have "t = u" using assms(3) calculation ReadChunk by (auto simp: run_promise_def run_simps split: sum.splits)
  ultimately show ?thesis using holds_read [OF assms(1,2)] ReadChunk by simp
next
  case (EnqueueChunk c)
  obtain x u where e: "source_enqueue size_of c s = (x, u)" by (cases "source_enqueue size_of c s")
  have "t = u" "isl res = isl x" using assms(3) e EnqueueChunk by (auto simp: run_unit_def run_simps split: sum.splits)
  moreover have "accepted_chunks [(EnqueueChunk c, res)] = (if isl res then [] else [c])" by (cases res) simp_all
  ultimately show ?thesis using holds_enqueue [OF assms(1,2) e] EnqueueChunk
    by (intro exI [of _ d] exI [of _ "if isl res then q else q @ [c]"]) auto
qed (use assms keepsD [OF holds_other [of ev d q size_of] assms(2)] in \<open>force+\<close>)

text \<open>The chunks put in are those read, in order, and then those in the queue.\<close>

lemma history_fifo:
  assumes "r_history size_of h t" and "\<And>c e. size_of c = Inl e \<Longrightarrow> e \<noteq> Error OtherError"
  shows "\<exists>rest. accepted_chunks h = delivered t @ rest \<and> (rstate t = IsReadable \<longrightarrow> rest = queued t)"
proof -
  have "r_inv t \<and> (\<exists>d q. accepted_chunks h = d @ q \<and> holds_queue d q t)"
    using assms(1)
  proof (induction rule: r_history_induct)
    case (new n)
    have "holds_queue [] [] (SetUpReadableStreamDefaultController (InitializeReadableStream n))"
      by (simp add: holds_queue_def delivered_def queued_def SetUpReadableStreamDefaultController_def InitializeReadableStream_def
          ResetQueue_def chunks_of_def)
    then show ?case by (simp add: r_inv_new)
  next
    case (step h s ev res t)
    then obtain d q where "accepted_chunks h = d @ q" "holds_queue d q s" by blast
    moreover have "r_inv t" using step r_step_safe [OF _ step(2) assms(2), of size_of] by (simp add: safe_def)
    moreover obtain d' q' where "d' @ q' = d @ q @ accepted_chunks [(ev, res)]" "holds_queue d' q' t"
      using holds_step [of s d q size_of ev res t] step calculation by blast
    ultimately show ?case by (metis accepted_chunks_append append.assoc)
  qed
  then show ?thesis by (auto simp: holds_queue_def)
qed

text \<open>C35: a readable stream refines a queue: after every history the chunks that the source put in without an
  exception are those that the reads delivered, in the order of the reads, and then, as long as the
  stream is readable, those in its queue; cancelling and failing drop the rest.\<close>

theorem readable_fifo:
  assumes "r_history size_of h t" and "\<And>c e. size_of c = Inl e \<Longrightarrow> e \<noteq> Error OtherError"
  shows "\<exists>rest. accepted_chunks h = delivered t @ rest \<and> (rstate t = IsReadable \<longrightarrow> rest = map fst (fst (rqueue t)))"
  using history_fifo [OF assms] by (simp add: queued_def)

lemma readable_fifo_witness:
  "\<exists>h (s :: nat readable). rpromises s = [Pending, Fulfilled (Chunk 5)] \<and> accepted_chunks h = [5, 6 :: nat]"
proof (rule read_example)
  fix h and s :: "nat readable"
  assume s: "r_history (\<lambda>c. Inr (Finite 1)) h s" "rstate s = IsReadable" "rpromises s = [Pending, Fulfilled (Chunk 5)]" "rqueue s = ([(6, 1)], 1)"
  have "accepted_chunks h = [5, 6]" using readable_fifo [OF s(1)] s(2-4) by (auto simp: delivered_def chunks_of_def)
  then show ?thesis using s(3) by blast
qed

end
