(* ===== verification/Readable_Live.thy ===== *)
theory Readable_Live
  imports Readable_Fifo
begin

text \<open>What becomes of the reads that wait in \<open>packages/zero/lib/whatwg/streams/readable.js\<close>: only closing the stream
  settles them.\<close>

section \<open>Reads that wait\<close>

text \<open>The promises of \<open>P\<close> are not settled but by closing the stream: no reader's promise \<open>closed\<close> and no
  promise of \<open>cancel\<close> that can still be settled is one of them.\<close>

definition reader_cannot :: "nat set \<Rightarrow> nat \<Rightarrow> reader \<Rightarrow> bool" where
  "reader_cannot P n x \<longleftrightarrow> (reader_fns x \<longrightarrow> reader_closed x < n \<and> reader_closed x \<notin> P)"

definition no_value :: "nat set \<Rightarrow> 'c readable \<Rightarrow> bool" where
  "no_value P s \<longleftrightarrow>
     (\<forall>p \<in> P. p < length (rpromises s) \<and> (rpromises s ! p = Pending \<or> rpromises s ! p = Fulfilled Done)) \<and>
     (\<forall>r < length (readers s). reader_cannot P (length (rpromises s)) (readers s ! r)) \<and>
     (\<forall>p. cancel_pending s = Some p \<longrightarrow> p < length (rpromises s) \<and> p \<notin> P)"

lemma no_value_fields [simp]:
  "no_value P (s\<lparr>rstate := a\<rparr>) = no_value P s" "no_value P (s\<lparr>the_reader := b\<rparr>) = no_value P s"
  "no_value P (s\<lparr>rstored := c\<rparr>) = no_value P s" "no_value P (s\<lparr>disturbed := d\<rparr>) = no_value P s"
  "no_value P (s\<lparr>rqueue := e\<rparr>) = no_value P s" "no_value P (s\<lparr>rstarted := d\<rparr>) = no_value P s"
  "no_value P (s\<lparr>close_requested := d\<rparr>) = no_value P s" "no_value P (s\<lparr>pull_again := d\<rparr>) = no_value P s"
  "no_value P (s\<lparr>pulling := d\<rparr>) = no_value P s" "no_value P (s\<lparr>source_calls := f\<rparr>) = no_value P s"
  "no_value P (s\<lparr>rstart_pending := d\<rparr>) = no_value P s" "no_value P (s\<lparr>pull_pending := d\<rparr>) = no_value P s"
  by (simp_all add: no_value_def)

lemma reader_cannot_more: "reader_cannot P n x \<Longrightarrow> n \<le> m \<Longrightarrow> reader_cannot P m x"
  by (auto simp: reader_cannot_def)

lemma reader_cannot_blank: "reader_cannot P n blank_reader"
  by (simp add: reader_cannot_def blank_reader_def)

lemma no_value_reader: "no_value P s \<Longrightarrow> reader_cannot P (length (rpromises s)) (reader_of s r)"
  by (simp add: no_value_def reader_of_def reader_cannot_blank)

lemma no_value_update:
  "no_value P s \<Longrightarrow> (r < length (readers s) \<Longrightarrow> reader_cannot P (length (rpromises s)) x) \<Longrightarrow> no_value P (s\<lparr>readers := (readers s)[r := x]\<rparr>)"
  unfolding no_value_def by (cases "r < length (readers s)") (auto simp: nth_list_update)

lemma no_value_new: "no_value P s \<Longrightarrow> no_value P (s\<lparr>rpromises := rpromises s @ [q]\<rparr>)"
  by (auto simp: no_value_def nth_append intro: reader_cannot_more)

lemma no_value_new_reader: "no_value P s \<Longrightarrow> no_value P (s\<lparr>readers := readers s @ [blank_reader]\<rparr>)"
  by (auto simp: no_value_def nth_append less_Suc_eq reader_cannot_blank)

lemma settle_nth: "settle i q ps ! j = (if i = j \<and> j < length ps \<and> ps ! j = Pending then q else ps ! j)"
  by (auto simp: settle_def nth_list_update)

lemma no_value_settle: "no_value P s \<Longrightarrow> i \<notin> P \<or> q = Fulfilled Done \<Longrightarrow> no_value P (s\<lparr>rpromises := settle i q (rpromises s)\<rparr>)"
  by (auto simp: no_value_def settle_nth)

lemma no_value_request:
  "no_value P s \<Longrightarrow> no_value (insert (length (rpromises s)) P) (s\<lparr>rpromises := rpromises s @ [Pending]\<rparr>)"
  by (auto simp: no_value_def nth_append reader_cannot_def)

lemma keeps_nv_new [keeps_rules]: "keeps (no_value P) (read_promise q)"
  by (simp add: keeps_def read_promise_def no_value_new)

lemma keeps_nv_change:
  "(\<And>n x. reader_cannot P n x \<Longrightarrow> reader_cannot P n (f x)) \<Longrightarrow> keeps (no_value P) (update_reader r f)"
  unfolding update_reader_def by (rule keeps_modify, rule no_value_update) (auto simp: no_value_def)

lemma keeps_nv_fresh:
  assumes "\<And>n x. reader_cannot P n x \<Longrightarrow> n \<notin> P \<Longrightarrow> reader_cannot P (Suc n) (f n x)"
  shows "keeps (no_value P) (bindp (read_promise q) (\<lambda>i. update_reader r (f i)))"
  unfolding keeps_def
proof (intro allI impI)
  fix s :: "'a readable" assume n: "no_value P s"
  let ?t = "s\<lparr>rpromises := rpromises s @ [q]\<rparr>"
  have "reader_cannot P (length (rpromises ?t)) (f (length (rpromises s)) (readers s ! r))" if "r < length (readers s)"
    using assms [of "length (rpromises s)" "readers s ! r"] n that by (auto simp: no_value_def)
  from no_value_update [OF no_value_new [OF n] this]
  show "no_value P (snd (bindp (read_promise q) (\<lambda>i. update_reader r (f i)) s))"
    by (simp add: read_simps)
qed

lemma keeps_nv_settles:
  "keeps (no_value P) (thenp (assertp (\<lambda>s. reader_fns (reader_of s r)))
    (thenp (withp (\<lambda>s. reader_closed (reader_of s r)) (\<lambda>j. settle_read j q)) p))" if "keeps (no_value P) p"
  unfolding keeps_def
proof (intro allI impI)
  fix s :: "'a readable" assume n: "no_value P s"
  show "no_value P (snd (thenp (assertp (\<lambda>s. reader_fns (reader_of s r)))
    (thenp (withp (\<lambda>s. reader_closed (reader_of s r)) (\<lambda>j. settle_read j q)) p) s))"
  proof (cases "reader_fns (reader_of s r)")
    case True
    then have "reader_closed (reader_of s r) \<notin> P" using no_value_reader [OF n, of r] by (simp add: reader_cannot_def)
    then have "no_value P (s\<lparr>rpromises := settle (reader_closed (reader_of s r)) q (rpromises s)\<rparr>)"
      using no_value_settle [OF n] by blast
    from keepsD [OF that this] show ?thesis using True by (simp add: step_simps settle_read_def withp_def thenp_def [of "withp _ _"] bindp_def [of "withp _ _"] modify_def)
  qed (use n in \<open>simp add: run_simps\<close>)
qed

lemma keeps_nv_closed [keeps_rules]:
  "keeps (no_value P) (defaultReaderClosedPromiseReject r e)" "keeps (no_value P) (defaultReaderClosedPromiseResolve r)"
  unfolding defaultReaderClosedPromiseReject_def defaultReaderClosedPromiseResolve_def seqp.simps
  by (intro keeps_nv_settles keeps_nv_change keeps_then keeps_simple; simp add: reader_cannot_def)+

lemma keeps_nv_reset [keeps_rules]:
  "keeps (no_value P) (defaultReaderClosedPromiseInitialize r)" "keeps (no_value P) (defaultReaderClosedPromiseInitializeAsRejected r e)"
  "keeps (no_value P) (defaultReaderClosedPromiseInitializeAsResolved r)" "keeps (no_value P) (defaultReaderClosedPromiseResetToRejected r e)"
  unfolding defaultReaderClosedPromiseInitialize_def defaultReaderClosedPromiseInitializeAsRejected_def
    defaultReaderClosedPromiseInitializeAsResolved_def defaultReaderClosedPromiseResetToRejected_def seqp.simps
  by (intro keeps_nv_fresh keeps_then keeps_simple; simp add: reader_cannot_def less_Suc_eq)+

lemma keeps_nv_requests [keeps_rules]: "keeps (no_value P) (update_reader r (\<lambda>x. x\<lparr>read_requests := f x\<rparr>))"
  "keeps (no_value P) (update_reader r (\<lambda>x. x\<lparr>owns_source := b\<rparr>))"
  by (rule keeps_nv_change; simp add: reader_cannot_def)+

lemma keeps_nv_done: "keeps (no_value P) (settle_read i (Fulfilled Done))"
  unfolding settle_read_def by (rule keeps_modify) (simp add: no_value_settle)

lemma keeps_nv_reads [keeps_rules]: "keeps (no_value P) (resolve_reads rs)" "keeps (no_value P) (reject_reads rs e)"
  by (induction rs) (auto intro!: keeps_nv_done keeps_rules simp: read_kReject_def)

lemma keeps_nv_stream [keeps_rules]:
  "keeps (no_value P) ReadableStreamClose" "keeps (no_value P) (ReadableStreamError e)"
  "keeps (no_value P) (ReadableStreamFulfillReadRequest c)"
  unfolding ReadableStreamClose_def ReadableStreamError_def ReadableStreamFulfillReadRequest_def read_kResolve_def seqp.simps
  by (intro keeps_rules; simp)+

lemma keeps_nv_cancel_steps [keeps_rules]: "keeps (no_value P) (CancelSteps e)"
  unfolding keeps_def
  by (auto simp: CancelSteps_def read_simps no_value_def nth_append intro: reader_cannot_more)

lemma keeps_nv_cancel [keeps_rules]: "keeps (no_value P) (ReadableStreamCancel e)"
  unfolding ReadableStreamCancel_def by (intro keeps_rules) simp

lemma keeps_nv_should [keeps_rules]: "keeps (no_value P) ReadableStreamDefaultControllerShouldCallPull"
  by (simp add: keeps_def rs_should_pull)

lemma keeps_nv_pull [keeps_rules]: "keeps (no_value P) ReadableStreamDefaultControllerCallPullIfNeeded"
  unfolding ReadableStreamDefaultControllerCallPullIfNeeded_def seqp.simps by (intro keeps_rules; simp)

lemma keeps_nv_error [keeps_rules]: "keeps (no_value P) (ReadableStreamDefaultControllerError e)"
  unfolding ReadableStreamDefaultControllerError_def seqp.simps by (intro keeps_rules; simp)

lemma keeps_nv_source [keeps_rules]:
  "keeps (no_value P) source_close" "keeps (no_value P) (source_enqueue size_of c)" "keeps (no_value P) (source_error e)"
  "keeps (no_value P) source_started" "keeps (no_value P) pull_fulfilled"
  unfolding source_close_def ReadableStreamDefaultControllerClose_def source_enqueue_def
    ReadableStreamDefaultControllerEnqueue_def source_error_def source_started_def pull_fulfilled_def seqp.simps
  by (intro keeps_rules; simp)+

lemma keeps_nv_add [keeps_rules]: "keeps (no_value P) ReadableStreamAddReadRequest"
  unfolding ReadableStreamAddReadRequest_def by (intro keeps_rules)

lemma keeps_nv_pull_steps [keeps_rules]: "keeps (no_value P) PullSteps"
  unfolding PullSteps_def by (intro keeps_rules; simp)

lemma keeps_nv_reader [keeps_rules]:
  "keeps (no_value P) (reader_read r)" "keeps (no_value P) (reader_cancel r e)" "keeps (no_value P) (stream_cancel e)"
  "keeps (no_value P) (reader_releaseLock r)"
  unfolding reader_read_def ReadableStreamDefaultReaderRead_def reader_cancel_def ReadableStreamReaderGenericCancel_def
    stream_cancel_def reader_releaseLock_def ReadableStreamReaderGenericRelease_def read_rejected_def seqp.simps
  by (intro keeps_rules; simp)+

lemma keeps_nv_get_reader [keeps_rules]: "keeps (no_value P) (getReader mode)"
proof -
  have m: "keeps (no_value P) (modify (\<lambda>s. s\<lparr>readers := readers s @ [blank_reader], the_reader := Some r\<rparr>))" for r
    by (rule keeps_modify) (simp add: no_value_new_reader)
  have c: "keeps (no_value P) (case st of IsReadable \<Rightarrow> a | IsClosed \<Rightarrow> b | IsErrored \<Rightarrow> c)"
    if "keeps (no_value P) a" "keeps (no_value P) b" "keeps (no_value P) c" for st and a b c :: "('c readable, unit) proc"
    using that by (cases st) simp_all
  show ?thesis unfolding getReader_def new_ReadableStreamDefaultReader_def ReadableStreamReaderGenericInitialize_def seqp.simps
    by (intro m c keeps_rules)
qed

lemma nv_cancelled:
  assumes "no_value P s" and "cancel_pending s \<noteq> None"
  shows "no_value P (snd (withp cancel_pending (\<lambda>p. thenp (modify (\<lambda>s. s\<lparr>cancel_pending := None\<rparr>)) (settle_read (the p) q)) s))"
proof -
  obtain p where p: "cancel_pending s = Some p" "p \<notin> P" using assms by (auto simp: no_value_def)
  have "no_value P (s\<lparr>cancel_pending := None\<rparr>)" using assms(1) by (simp add: no_value_def)
  from no_value_settle [OF this, of p q] p show ?thesis by (simp add: withp_def step_simps settle_read_def modify_def)
qed

lemma keeps_nv_step:
  assumes "no_value P s" and "r_enabled ev s"
  shows "no_value P (snd (r_step size_of ev s))"
proof (cases "(\<exists>e. ev = CancelRejected e) \<or> ev = CancelFulfilled")
  case True
  then show ?thesis using assms(2) nv_cancelled [OF assms(1)] by (auto simp: run_unit_def simp del: not_None_eq)
next
  case False
  then have "keeps (no_value P) (r_step size_of ev)" by (cases ev) (simp_all, (intro keeps_rules; simp)+)
  from keepsD [OF this assms(1)] show ?thesis .
qed

lemma nv_runs: "r_runs size_of s h t \<Longrightarrow> no_value P s \<Longrightarrow> no_value P t"
proof (induction rule: r_runs.induct)
  case (r_snoc s h t ev res u)
  then show ?case using keeps_nv_step [of P t ev size_of] by simp
qed

lemma nv_history: "r_history size_of h t \<Longrightarrow> no_value {} t"
proof (induction rule: r_history_induct)
  case (new n)
  show ?case by (simp add: no_value_def SetUpReadableStreamDefaultController_def InitializeReadableStream_def)
next
  case (step h s ev res t)
  then show ?case using keeps_nv_step [of "{}" s ev size_of] by simp
qed

text \<open>The promise of a read that is pending when \<open>read\<close> returns it.\<close>

lemma then_promise: "thenp p (read_promise q) s = (Inr i, t) \<Longrightarrow> rpromises t ! i = q"
  by (auto simp: run_simps read_promise_def split: prod.splits sum.splits)

lemma promise_returned: "read_promise q s = (Inr i, t) \<Longrightarrow> rpromises t ! i = q"
  by (auto simp: read_promise_def)

lemma read_empty:
  assumes "reader_read r s = (Inr i, t)" and "rpromises t ! i = Pending"
  shows "owns_source (reader_of s r) \<and> rstate s = IsReadable \<and> fst (rqueue s) = []"
proof (rule ccontr)
  assume n: "\<not> ?thesis"
  have "\<exists>q. q \<noteq> Pending \<and> rpromises t ! i = q"
  proof (cases "owns_source (reader_of s r) \<and> rstate s = IsReadable")
    case True
    then obtain c q' where "thenp (ifp (\<lambda>s. close_requested s \<and> fst (rqueue s) = []) ReadableStreamClose
        ReadableStreamDefaultControllerCallPullIfNeeded) (read_promise (Fulfilled (Chunk c)))
        (s\<lparr>disturbed := True, rqueue := q'\<rparr>) = (Inr i, t)"
      using n assms(1) by (cases "DequeueValue (rqueue s)")
        (auto simp: reader_read_def ReadableStreamDefaultReaderRead_def PullSteps_def ifp_def withp_def step_simps throw_def)
    from then_promise [OF this] show ?thesis by simp
  next
    case False
    then have "\<exists>q u. q \<noteq> Pending \<and> read_promise q u = (Inr i, t)"
      using assms(1) by (cases "rstate s")
        (auto simp: reader_read_def read_rejected_def ReadableStreamDefaultReaderRead_def ifp_def withp_def step_simps split: if_splits)
    then show ?thesis using promise_returned by blast
  qed
  then show False using assms(2) by simp
qed

lemma read_pending:
  assumes "no_value {} s" and "reader_read r s = (Inr i, t)" and "rpromises t ! i = Pending"
  shows "no_value {i} t"
proof -
  let ?s = "s\<lparr>disturbed := True\<rparr>"
  note e = read_empty [OF assms(2,3)]
  then have "bindp ReadableStreamAddReadRequest (\<lambda>p. thenp ReadableStreamDefaultControllerCallPullIfNeeded (ret p)) ?s = (Inr i, t)"
    using assms(2) by (simp add: reader_read_def ReadableStreamDefaultReaderRead_def PullSteps_def ifp_def withp_def step_simps)
  then obtain r' where a: "the_reader s = Some r'"
    and b: "bindp (read_promise Pending) (\<lambda>p. thenp (update_reader r' (\<lambda>x. x\<lparr>read_requests := read_requests x @ [p]\<rparr>))
      (thenp ReadableStreamDefaultControllerCallPullIfNeeded (ret p))) ?s = (Inr i, t)"
    using e by (cases "the_reader s")
      (auto simp: ReadableStreamAddReadRequest_def withp_def thenp_def bindp_def assertp_def ifp_def throw_def ret_def split: prod.splits sum.splits)
  let ?u = "?s\<lparr>rpromises := rpromises s @ [Pending]\<rparr>"
  have i: "i = length (rpromises s)" and t: "t = snd (thenp (update_reader r' (\<lambda>x. x\<lparr>read_requests := read_requests x @ [i]\<rparr>))
      ReadableStreamDefaultControllerCallPullIfNeeded ?u)"
    using b by (auto simp: read_promise_def thenp_def bindp_def ret_def split: prod.splits sum.splits)
  have "keeps (no_value {i}) (thenp (update_reader r' (\<lambda>x. x\<lparr>read_requests := read_requests x @ [i]\<rparr>))
      ReadableStreamDefaultControllerCallPullIfNeeded)"
    by (intro keeps_rules)
  from keepsD [OF this, of ?u] show ?thesis using assms(1) no_value_request [of "{}" ?s] by (simp add: i t)
qed

lemma read_gets_no_chunk:
  assumes "r_history size_of h s" and "r_step size_of (ReadChunk r) s = (Inr (Some i), t)" and "rpromises t ! i = Pending"
    and "r_runs size_of t h' u"
  shows "rpromises u ! i = Pending \<or> rpromises u ! i = Fulfilled Done"
proof -
  have "reader_read r s = (Inr i, t)" using assms(2) by (auto simp: run_promise_def run_simps split: prod.splits sum.splits)
  from nv_runs [OF assms(4) read_pending [OF nv_history [OF assms(1)] this assms(3)]] show ?thesis by (simp add: no_value_def)
qed

text \<open>C40: a read of an empty queue never gets a chunk: the promise that is pending when \<open>read\<close> returns it is
  in every later state still pending, or fulfilled with the end of the stream.\<close>

theorem readable_read_waits:
  assumes "r_history size_of h s" and "r_step size_of (ReadChunk r) s = (Inr (Some i), t)" and "rpromises t ! i = Pending"
    and "r_runs size_of t h' u"
  shows "rpromises u ! i = Pending \<or> rpromises u ! i = Fulfilled Done"
  by (rule read_gets_no_chunk [OF assms])

lemma readable_read_waits_witness:
  "\<exists>s (t :: nat readable) h u. r_step (\<lambda>c. Inr (Finite 1)) (ReadChunk 0) s = (Inr (Some 1), t) \<and>
     r_trace (\<lambda>c. Inr (Finite 1)) [EnqueueChunk 5, CloseSource] t = Some (h, u) \<and>
     (rpromises u ! 1 = Pending \<or> rpromises u ! 1 = Fulfilled Done)"
proof -
  let ?f = "\<lambda>c :: nat. Inr (Finite 1)"
  have "case new_ReadableStream False True None True None of Inl e \<Rightarrow> False
      | Inr r \<Rightarrow> (case r_trace ?f [GetReader None, SourceStarted] r of None \<Rightarrow> False
         | Some p \<Rightarrow> (let x = r_step ?f (ReadChunk 0) (snd p) in fst x = Inr (Some 1) \<and> rpromises (snd x) ! 1 = Pending \<and>
              r_trace ?f [EnqueueChunk 5, CloseSource] (snd x) \<noteq> None))"
    by code_simp
  then obtain r h s h' u where r: "new_ReadableStream False True None True None = Inr r" "r_trace ?f [GetReader None, SourceStarted] r = Some (h, s)"
    and x: "fst (r_step ?f (ReadChunk 0) s) = Inr (Some 1)" "rpromises (snd (r_step ?f (ReadChunk 0) s)) ! 1 = Pending"
    and t: "r_trace ?f [EnqueueChunk 5, CloseSource] (snd (r_step ?f (ReadChunk 0) s)) = Some (h', u)"
    by (auto split: sum.splits option.splits simp: Let_def simp del: r_trace.simps r_step.simps)
  have s: "r_step ?f (ReadChunk 0) s = (Inr (Some 1), snd (r_step ?f (ReadChunk 0) s))"
    using x(1) by (metis prod.collapse)
  have "r_runs ?f (snd (r_step ?f (ReadChunk 0) s)) h' u" using r_trace_runs [OF r_refl t] by simp
  from readable_read_waits [OF r_trace_history [OF r] s x(2) this] s t show ?thesis by blast
qed

end
