(* ===== verification/Byte_Stream.thy ===== *)
theory Byte_Stream
  imports Readable "HOL-Library.Word"
begin

text \<open>
  Readable byte streams: the byte controller, its requests and the readers into buffers of
  \<open>packages/zero/lib/whatwg/streams/readable.js\<close>.  The underlying source is the environment, as for the
  streams of theory \<open>Readable\<close>.  A buffer is the list of its bytes; a transfer moves the content, so an
  entry of the queue and a descriptor own theirs.  The one buffer that is shared is the one of the first
  descriptor: the source holds a view of it and may write into it whenever it likes, which is an event of its
  own.  The source is taken not to enqueue that buffer itself.  The constructor of a view is represented by its element
  size, and allocation of a buffer succeeds.

  The requests of a reader are its \<open>kReadRequests\<close> or \<open>kReadIntoRequests\<close>; as for the other
  streams, they are settled through \<open>kResolve\<close> and \<open>kReject\<close>, which are no properties of theirs.
\<close>

section \<open>State\<close>

type_synonym buffer = "8 word list"

record bview =
  vbuffer :: buffer
  voffset :: nat
  vlength :: nat
  velement :: nat

record queue_entry =
  ebuffer :: buffer
  eoffset :: nat
  elength :: nat

datatype reader_kind = DefaultKind | ByobKind

record pull_into =
  pbuffer :: buffer
  poffset :: nat
  plength :: nat
  pfilled :: nat
  pelement :: nat
  preader :: reader_kind

text \<open>\<open>{ value: view, done: false }\<close>, \<open>{ value: view, done: true }\<close>, \<open>{ value: undefined, done: true }\<close> and
  \<open>undefined\<close>.\<close>

datatype byte_result = Filled bview | EmptyView bview | AtEnd | NoResult

record byte_reader =
  kind :: reader_kind
  owns_stream :: bool
  bclosed :: nat
  bfns :: bool
  requests :: "nat list"

text \<open>The view of a request to fill a buffer: where it lies, and whether its buffer was transferred away.\<close>

record byob_view =
  request_id :: nat
  request_offset :: nat
  request_length :: nat
  request_detached :: bool

record byte_stream =
  bstate :: readable_state
  breader :: "nat option"
  bstored :: reason
  bdisturbed :: bool
  bqueue :: "queue_entry list"
  btotal :: nat
  bstarted :: bool
  bclose_requested :: bool
  bpull_again :: bool
  bpulling :: bool
  bHWM :: js_number
  pending_pull_intos :: "pull_into list"
  byob_request :: "byob_view option"
  byob_count :: nat
  auto_allocate :: "nat option"
  breaders :: "byte_reader list"
  bpromises :: "byte_result promise list"
  bsource_calls :: "source_call list"
  bstart_pending :: bool
  bpull_pending :: bool
  bcancel_pending :: "nat option"

definition InitializeReadableStreamB :: byte_stream where
  "InitializeReadableStreamB = \<lparr>bstate = IsReadable, breader = None, bstored = Undefined, bdisturbed = False,
     bqueue = [], btotal = 0, bstarted = False, bclose_requested = False, bpull_again = False, bpulling = False,
     bHWM = Finite 0, pending_pull_intos = [], byob_request = None, byob_count = 0, auto_allocate = None,
     breaders = [], bpromises = [], bsource_calls = [], bstart_pending = False, bpull_pending = False,
     bcancel_pending = None\<rparr>"

definition byte_promise :: "byte_result promise \<Rightarrow> (byte_stream, nat) proc" where
  "byte_promise p s = (Inr (length (bpromises s)), s\<lparr>bpromises := bpromises s @ [p]\<rparr>)"

definition settle_byte :: "nat \<Rightarrow> byte_result promise \<Rightarrow> (byte_stream, unit) proc" where
  "settle_byte i p = modify (\<lambda>s. s\<lparr>bpromises := settle i p (bpromises s)\<rparr>)"

definition update_breader :: "nat \<Rightarrow> (byte_reader \<Rightarrow> byte_reader) \<Rightarrow> (byte_stream, unit) proc" where
  "update_breader r f = modify (\<lambda>s. s\<lparr>breaders := (breaders s)[r := f (breaders s ! r)]\<rparr>)"

definition blank_breader :: "reader_kind \<Rightarrow> byte_reader" where
  "blank_breader k = \<lparr>kind = k, owns_stream = True, bclosed = 0, bfns = False, requests = []\<rparr>"

definition breader_of :: "byte_stream \<Rightarrow> nat \<Rightarrow> byte_reader" where
  "breader_of s r = (if r < length (breaders s) then breaders s ! r else blank_breader DefaultKind)"

text \<open>The bytes a view shows.\<close>

definition view_bytes :: "bview \<Rightarrow> 8 word list" where
  "view_bytes v = take (vlength v) (drop (voffset v) (vbuffer v))"

section \<open>The promise of a reader\<close>

definition byteReaderClosedPromiseInitialize :: "nat \<Rightarrow> byte_result promise \<Rightarrow> bool \<Rightarrow> (byte_stream, unit) proc" where
  "byteReaderClosedPromiseInitialize r v fns = bindp (byte_promise v) (\<lambda>p.
     update_breader r (\<lambda>x. x\<lparr>bclosed := p, bfns := fns\<rparr>))"

definition byteReaderClosedPromiseSettle :: "nat \<Rightarrow> byte_result promise \<Rightarrow> (byte_stream, unit) proc" where
  "byteReaderClosedPromiseSettle r v = seqp [
     assertp (\<lambda>s. bfns (breader_of s r)),
     withp (\<lambda>s. bclosed (breader_of s r)) (\<lambda>p. settle_byte p v),
     update_breader r (\<lambda>x. x\<lparr>bfns := False\<rparr>)]"

definition byteReaderClosedPromiseReset :: "nat \<Rightarrow> reason \<Rightarrow> (byte_stream, unit) proc" where
  "byteReaderClosedPromiseReset r e = seqp [
     assertp (\<lambda>s. \<not> bfns (breader_of s r)),
     bindp (byte_promise (Rejected e)) (\<lambda>p. update_breader r (\<lambda>x. x\<lparr>bclosed := p\<rparr>))]"

section \<open>Operations on the stream\<close>

definition has_reader :: "reader_kind \<Rightarrow> byte_stream \<Rightarrow> bool" where
  "has_reader k s = (case breader s of None \<Rightarrow> False | Some r \<Rightarrow> kind (breader_of s r) = k)"

definition ReadableStreamHasDefaultReader :: "byte_stream \<Rightarrow> bool" where
  "ReadableStreamHasDefaultReader = has_reader DefaultKind"

definition ReadableStreamHasBYOBReader :: "byte_stream \<Rightarrow> bool" where
  "ReadableStreamHasBYOBReader = has_reader ByobKind"

text \<open>The number of requests of the reader, whose kind the callers have tested.\<close>

definition num_requests :: "byte_stream \<Rightarrow> nat" where
  "num_requests s = length (requests (breader_of s (the (breader s))))"

definition push_request :: "(byte_stream, nat) proc" where
  "push_request = withp breader (\<lambda>r. bindp (byte_promise Pending) (\<lambda>p.
     thenp (update_breader (the r) (\<lambda>x. x\<lparr>requests := requests x @ [p]\<rparr>)) (ret p)))"

definition ReadableStreamAddReadIntoRequest :: "(byte_stream, nat) proc" where
  "ReadableStreamAddReadIntoRequest =
     thenp (assertp ReadableStreamHasBYOBReader)
     (thenp (assertp (\<lambda>s. bstate s = IsReadable \<or> bstate s = IsClosed)) push_request)"

definition ReadableStreamAddReadRequestB :: "(byte_stream, nat) proc" where
  "ReadableStreamAddReadRequestB =
     thenp (assertp ReadableStreamHasDefaultReader) (thenp (assertp (\<lambda>s. bstate s = IsReadable)) push_request)"

text \<open>\<open>request[kResolve](\<dots>)\<close> and \<open>request[kReject](\<dots>)\<close>.\<close>

definition request_kResolve :: "nat \<Rightarrow> byte_result \<Rightarrow> (byte_stream, unit) proc" where
  "request_kResolve request v = call_undefined"

definition request_kReject :: "nat \<Rightarrow> reason \<Rightarrow> (byte_stream, unit) proc" where
  "request_kReject request e = call_undefined"

fun resolve_requests :: "nat list \<Rightarrow> (byte_stream, unit) proc" where
  "resolve_requests [] = ret ()"
| "resolve_requests (i # rs) = thenp (settle_byte i (Fulfilled AtEnd)) (resolve_requests rs)"

fun reject_requests :: "nat list \<Rightarrow> reason \<Rightarrow> (byte_stream, unit) proc" where
  "reject_requests [] e = ret ()"
| "reject_requests (i # rs) e = thenp (request_kReject i e) (reject_requests rs e)"

definition clear_requests :: "nat \<Rightarrow> (byte_stream, unit) proc" where
  "clear_requests r = update_breader r (\<lambda>x. x\<lparr>requests := []\<rparr>)"

definition ReadableStreamCloseB :: "(byte_stream, unit) proc" where
  "ReadableStreamCloseB = seqp [
     assertp (\<lambda>s. bstate s = IsReadable),
     modify (\<lambda>s. s\<lparr>bstate := IsClosed\<rparr>),
     withp breader (\<lambda>r. case r of None \<Rightarrow> ret ()
       | Some r \<Rightarrow> seqp [
           whenp (\<lambda>s. kind (breader_of s r) = DefaultKind)
             (seqp [withp (\<lambda>s. requests (breader_of s r)) resolve_requests, clear_requests r]),
           byteReaderClosedPromiseSettle r (Fulfilled NoResult)])]"

text \<open>Both kinds of readers reject their requests and forget them.\<close>

definition ReadableStreamErrorB :: "reason \<Rightarrow> (byte_stream, unit) proc" where
  "ReadableStreamErrorB e = seqp [
     assertp (\<lambda>s. bstate s = IsReadable),
     modify (\<lambda>s. s\<lparr>bstate := IsErrored, bstored := e\<rparr>),
     withp breader (\<lambda>r. case r of None \<Rightarrow> ret ()
       | Some r \<Rightarrow> seqp [
           withp (\<lambda>s. requests (breader_of s r)) (\<lambda>rs. reject_requests rs e),
           clear_requests r,
           byteReaderClosedPromiseSettle r (Rejected e)])]"

text \<open>A reader of the other kind has no requests of this one: reading the length of \<open>undefined\<close> throws.\<close>

definition fulfill_request :: "reader_kind \<Rightarrow> bview \<Rightarrow> bool \<Rightarrow> (byte_stream, unit) proc" where
  "fulfill_request k chunk fin =
     ifp (\<lambda>s. \<not> has_reader k s) call_undefined
     (withp (\<lambda>s. the (breader s)) (\<lambda>r. withp (\<lambda>s. requests (breader_of s r)) (\<lambda>rs. seqp [
       assertp (\<lambda>s. rs \<noteq> []),
       update_breader r (\<lambda>x. x\<lparr>requests := tl rs\<rparr>),
       request_kResolve (hd rs) (if fin then EmptyView chunk else Filled chunk)])))"

definition ReadableStreamFulfillReadIntoRequest :: "bview \<Rightarrow> bool \<Rightarrow> (byte_stream, unit) proc" where
  "ReadableStreamFulfillReadIntoRequest = fulfill_request ByobKind"

definition ReadableStreamFulfillReadRequestB :: "bview \<Rightarrow> bool \<Rightarrow> (byte_stream, unit) proc" where
  "ReadableStreamFulfillReadRequestB = fulfill_request DefaultKind"

definition byte_ResetQueue :: "byte_stream \<Rightarrow> byte_stream" where
  "byte_ResetQueue s = s\<lparr>bqueue := [], btotal := 0\<rparr>"

definition byte_CancelSteps :: "reason \<Rightarrow> (byte_stream, nat) proc" where
  "byte_CancelSteps e =
     thenp (modify (\<lambda>s. case pending_pull_intos s of [] \<Rightarrow> s
       | d # ds \<Rightarrow> s\<lparr>pending_pull_intos := d\<lparr>pfilled := 0\<rparr> # ds\<rparr>))
     (thenp (modify byte_ResetQueue)
     (thenp (modify (\<lambda>s. s\<lparr>bsource_calls := bsource_calls s @ [SourceCancel e]\<rparr>))
     (bindp (byte_promise Pending) (\<lambda>p. thenp (modify (\<lambda>s. s\<lparr>bcancel_pending := Some p\<rparr>)) (ret p)))))"

definition ReadableStreamCancelB :: "reason \<Rightarrow> (byte_stream, nat) proc" where
  "ReadableStreamCancelB e = thenp (modify (\<lambda>s. s\<lparr>bdisturbed := True\<rparr>))
     (ifp (\<lambda>s. bstate s = IsClosed) (byte_promise (Fulfilled NoResult))
     (ifp (\<lambda>s. bstate s = IsErrored) (withp bstored (\<lambda>e. byte_promise (Rejected e)))
     (thenp ReadableStreamCloseB (byte_CancelSteps e))))"

section \<open>The byte controller\<close>

definition ReadableByteStreamControllerGetDesiredSize :: "byte_stream \<Rightarrow> js_number option" where
  "ReadableByteStreamControllerGetDesiredSize s =
     (if bstate s = IsErrored then None
      else if bstate s = IsClosed then Some (Finite 0)
      else Some (minus_total (bHWM s) (int (btotal s))))"

definition ReadableByteStreamControllerShouldCallPull :: "(byte_stream, bool) proc" where
  "ReadableByteStreamControllerShouldCallPull =
     ifp (\<lambda>s. bstate s \<noteq> IsReadable) (ret False)
     (ifp bclose_requested (ret False)
     (ifp (\<lambda>s. \<not> bstarted s) (ret False)
     (ifp (\<lambda>s. ReadableStreamHasDefaultReader s \<and> 0 < num_requests s) (ret True)
     (ifp (\<lambda>s. ReadableStreamHasBYOBReader s \<and> 0 < num_requests s) (ret True)
     (withp ReadableByteStreamControllerGetDesiredSize (\<lambda>d.
       thenp (assertp (\<lambda>s. d \<noteq> None)) (ret (above_zero (the d)))))))))"

definition ReadableByteStreamControllerCallPullIfNeeded :: "(byte_stream, unit) proc" where
  "ReadableByteStreamControllerCallPullIfNeeded = bindp ReadableByteStreamControllerShouldCallPull (\<lambda>b.
     if \<not> b then ret ()
     else ifp bpulling (modify (\<lambda>s. s\<lparr>bpull_again := True\<rparr>)) (seqp [
       assertp (\<lambda>s. \<not> bpull_again s),
       modify (\<lambda>s. s\<lparr>bpulling := True\<rparr>),
       modify (\<lambda>s. s\<lparr>bsource_calls := bsource_calls s @ [SourcePull], bpull_pending := True\<rparr>)]))"

definition ReadableByteStreamControllerInvalidateBYOBRequest :: "(byte_stream, unit) proc" where
  "ReadableByteStreamControllerInvalidateBYOBRequest = modify (\<lambda>s. s\<lparr>byob_request := None\<rparr>)"

definition ReadableByteStreamControllerClearPendingPullIntos :: "(byte_stream, unit) proc" where
  "ReadableByteStreamControllerClearPendingPullIntos = seqp [
     ReadableByteStreamControllerInvalidateBYOBRequest, modify (\<lambda>s. s\<lparr>pending_pull_intos := []\<rparr>)]"

definition ReadableByteStreamControllerError :: "reason \<Rightarrow> (byte_stream, unit) proc" where
  "ReadableByteStreamControllerError e = ifp (\<lambda>s. bstate s \<noteq> IsReadable) (ret ()) (seqp [
     ReadableByteStreamControllerClearPendingPullIntos, modify byte_ResetQueue, ReadableStreamErrorB e])"

definition ReadableByteStreamControllerConvertPullIntoDescriptor :: "pull_into \<Rightarrow> (byte_stream, bview) proc" where
  "ReadableByteStreamControllerConvertPullIntoDescriptor d =
     thenp (assertp (\<lambda>s. pfilled d \<le> plength d))
     (thenp (assertp (\<lambda>s. pfilled d mod pelement d = 0))
     (ret \<lparr>vbuffer = pbuffer d, voffset = poffset d, vlength = pfilled d div pelement d * pelement d, velement = pelement d\<rparr>))"

definition ReadableByteStreamControllerCommitPullIntoDescriptor :: "pull_into \<Rightarrow> (byte_stream, unit) proc" where
  "ReadableByteStreamControllerCommitPullIntoDescriptor d =
     thenp (assertp (\<lambda>s. bstate s \<noteq> IsErrored))
     (withp (\<lambda>s. bstate s = IsClosed) (\<lambda>fin.
       thenp (whenp (\<lambda>s. fin) (assertp (\<lambda>s. pfilled d = 0)))
       (bindp (ReadableByteStreamControllerConvertPullIntoDescriptor d) (\<lambda>v.
         case preader d of
           DefaultKind \<Rightarrow> ReadableStreamFulfillReadRequestB v fin
         | ByobKind \<Rightarrow> ReadableStreamFulfillReadIntoRequest v fin))))"

definition ReadableByteStreamControllerEnqueueChunkToQueue :: "buffer \<Rightarrow> nat \<Rightarrow> nat \<Rightarrow> (byte_stream, unit) proc" where
  "ReadableByteStreamControllerEnqueueChunkToQueue b i n = modify (\<lambda>s. s\<lparr>
     bqueue := bqueue s @ [\<lparr>ebuffer = b, eoffset = i, elength = n\<rparr>], btotal := btotal s + n\<rparr>)"

text \<open>A descriptor is the first pending one or one that is not pending yet; its changes are stored.\<close>

definition store_head :: "bool \<Rightarrow> pull_into \<Rightarrow> (byte_stream, unit) proc" where
  "store_head first d = whenp (\<lambda>s. first) (modify (\<lambda>s. s\<lparr>pending_pull_intos := d # tl (pending_pull_intos s)\<rparr>))"

definition ReadableByteStreamControllerFillHeadPullIntoDescriptor ::
  "bool \<Rightarrow> nat \<Rightarrow> pull_into \<Rightarrow> (byte_stream, pull_into) proc" where
  "ReadableByteStreamControllerFillHeadPullIntoDescriptor first n d =
     thenp (assertp (\<lambda>s. pending_pull_intos s = [] \<or> first))
     (thenp ReadableByteStreamControllerInvalidateBYOBRequest
     (thenp (store_head first (d\<lparr>pfilled := pfilled d + n\<rparr>)) (ret (d\<lparr>pfilled := pfilled d + n\<rparr>))))"

definition ArrayBufferCopy :: "buffer \<Rightarrow> nat \<Rightarrow> buffer \<Rightarrow> nat \<Rightarrow> nat \<Rightarrow> buffer" where
  "ArrayBufferCopy dest i src j n = take i dest @ take n (drop j src) @ drop (i + n) dest"

text \<open>The bytes that are taken of the first entry of the queue.\<close>

definition take_from_head :: "nat \<Rightarrow> queue_entry list \<Rightarrow> queue_entry list" where
  "take_from_head n q =
     (if elength (hd q) = n then tl q
      else (hd q)\<lparr>eoffset := eoffset (hd q) + n, elength := elength (hd q) - n\<rparr> # tl q)"

text \<open>One pass of the loop of \<open>FillPullIntoDescriptorFromQueue\<close>.\<close>

definition fill_pass :: "bool \<Rightarrow> nat \<Rightarrow> pull_into \<Rightarrow> (byte_stream, pull_into) proc" where
  "fill_pass first n d = withp (\<lambda>s. hd (bqueue s)) (\<lambda>h.
     thenp (modify (\<lambda>s. s\<lparr>bqueue := take_from_head n (bqueue s), btotal := btotal s - n\<rparr>))
     (ReadableByteStreamControllerFillHeadPullIntoDescriptor first n
       (d\<lparr>pbuffer := ArrayBufferCopy (pbuffer d) (poffset d + pfilled d) (ebuffer h) (eoffset h) n\<rparr>)))"

lemma fill_pass_eq: "fill_pass first n d s =
    (let d' = d\<lparr>pbuffer := ArrayBufferCopy (pbuffer d) (poffset d + pfilled d) (ebuffer (hd (bqueue s))) (eoffset (hd (bqueue s))) n\<rparr>;
         t = s\<lparr>bqueue := take_from_head n (bqueue s), btotal := btotal s - n\<rparr> in
     if pending_pull_intos s \<noteq> [] \<and> \<not> first then (Inl (Error OtherError), t)
     else (Inr (d'\<lparr>pfilled := pfilled d + n\<rparr>), t\<lparr>byob_request := None, pending_pull_intos :=
       (if first then d'\<lparr>pfilled := pfilled d + n\<rparr> # tl (pending_pull_intos s) else pending_pull_intos s)\<rparr>))"
  by (simp add: fill_pass_def ReadableByteStreamControllerFillHeadPullIntoDescriptor_def
      ReadableByteStreamControllerInvalidateBYOBRequest_def store_head_def run_simps Let_def)

lemma fill_pass_shrinks:
  assumes "fill_pass first (min k (elength (hd (bqueue s)))) d s = (Inr d', t)" and "bqueue s \<noteq> []" and "0 < k"
  shows "k - min k (elength (hd (bqueue s))) + length (bqueue t) < k + length (bqueue s)"
proof -
  obtain h q where h: "bqueue s = h # q" using assms(2) by (cases "bqueue s") auto
  then have "bqueue t = take_from_head (min k (elength h)) (h # q)"
    using assms(1) by (auto simp: fill_pass_eq Let_def split: if_splits)
  then show ?thesis using h assms(3) by (auto simp: take_from_head_def min_def split: if_splits)
qed

function fill_loop :: "bool \<Rightarrow> nat \<Rightarrow> pull_into \<Rightarrow> (byte_stream, pull_into) proc" where
  "fill_loop first k d s =
     (if k = 0 then ret d s
      else if bqueue s = [] then call_undefined s
      else case fill_pass first (min k (elength (hd (bqueue s)))) d s of
          (Inl e, t) \<Rightarrow> (Inl e, t)
        | (Inr d', t) \<Rightarrow> fill_loop first (k - min k (elength (hd (bqueue s)))) d' t)"
  by pat_completeness auto
termination
  by (relation "measure (\<lambda>(first, k, d, s). k + length (bqueue s))") (auto dest!: fill_pass_shrinks [OF sym])

declare fill_loop.simps [simp del]

definition ReadableByteStreamControllerFillPullIntoDescriptorFromQueue ::
  "bool \<Rightarrow> pull_into \<Rightarrow> (byte_stream, bool \<times> pull_into) proc" where
  "ReadableByteStreamControllerFillPullIntoDescriptorFromQueue first d = withp btotal (\<lambda>total.
     let aligned = pfilled d - pfilled d mod pelement d;
         most = min total (plength d - pfilled d);
         filled = pfilled d + most;
         most_aligned = filled - filled mod pelement d;
         ready = aligned < most_aligned;
         k = (if ready then most_aligned - pfilled d else most) in
     bindp (fill_loop first k d) (\<lambda>d'.
       thenp (whenp (\<lambda>s. \<not> ready) (seqp [
           assertp (\<lambda>s. btotal s = 0), assertp (\<lambda>s. 0 < pfilled d'), assertp (\<lambda>s. pfilled d' < pelement d')]))
         (ret (ready, d'))))"

definition ReadableByteStreamControllerShiftPendingPullInto :: "(byte_stream, pull_into) proc" where
  "ReadableByteStreamControllerShiftPendingPullInto = withp (\<lambda>s. hd (pending_pull_intos s)) (\<lambda>d.
     thenp (modify (\<lambda>s. s\<lparr>pending_pull_intos := tl (pending_pull_intos s)\<rparr>))
     (thenp ReadableByteStreamControllerInvalidateBYOBRequest (ret d)))"

definition ReadableByteStreamControllerHandleQueueDrain :: "(byte_stream, unit) proc" where
  "ReadableByteStreamControllerHandleQueueDrain =
     thenp (assertp (\<lambda>s. bstate s = IsReadable))
     (ifp (\<lambda>s. btotal s = 0 \<and> bclose_requested s) ReadableStreamCloseB ReadableByteStreamControllerCallPullIfNeeded)"

text \<open>A pass of the loop of \<open>ProcessPullIntoDescriptorsUsingQueue\<close>.\<close>

definition process_pass :: "(byte_stream, unit) proc" where
  "process_pass = withp (\<lambda>s. hd (pending_pull_intos s)) (\<lambda>d.
     bindp (ReadableByteStreamControllerFillPullIntoDescriptorFromQueue True d) (\<lambda>(ready, d').
       whenp (\<lambda>s. ready) (thenp ReadableByteStreamControllerShiftPendingPullInto
         (ReadableByteStreamControllerCommitPullIntoDescriptor d'))))"

text \<open>Fulfilling a request never returns, and a descriptor that is not ready has emptied the queue: the loop
  ends after one pass.\<close>

lemma fulfill_throws: "fulfill_request k v fin s \<noteq> (Inr u, t)"
  by (auto simp: fulfill_request_def request_kResolve_def update_breader_def run_simps)

lemma commit_throws: "ReadableByteStreamControllerCommitPullIntoDescriptor d s \<noteq> (Inr u, t)"
  using fulfill_throws
  by (auto simp: ReadableByteStreamControllerCommitPullIntoDescriptor_def ReadableStreamFulfillReadRequestB_def
      ReadableStreamFulfillReadIntoRequest_def run_simps split: prod.splits sum.splits reader_kind.splits if_splits)

lemma process_pass_empties:
  assumes "process_pass s = (Inr u, t)"
  shows "btotal t = 0"
proof -
  obtain r d' t' where f: "ReadableByteStreamControllerFillPullIntoDescriptorFromQueue True (hd (pending_pull_intos s)) s = (Inr (r, d'), t')"
    using assms by (auto simp: process_pass_def withp_def bindp_def split: prod.splits sum.splits)
  have "\<not> r" using assms f commit_throws
    by (auto simp: process_pass_def withp_def bindp_def thenp_def whenp_def ifp_def split: prod.splits sum.splits if_splits)
  then have "t' = t" using assms f by (simp add: process_pass_def run_simps)
  then show ?thesis using f \<open>\<not> r\<close>
    by (auto simp: ReadableByteStreamControllerFillPullIntoDescriptorFromQueue_def run_simps Let_def split: prod.splits sum.splits if_splits)
qed

function process_loop :: "(byte_stream, unit) proc" where
  "process_loop s =
     (if pending_pull_intos s = [] then (Inr (), s)
      else if btotal s = 0 then (Inr (), s)
      else case process_pass s of (Inl e, t) \<Rightarrow> (Inl e, t) | (Inr u, t) \<Rightarrow> process_loop t)"
  by pat_completeness auto
termination
  by (relation "measure (\<lambda>s. if btotal s = 0 then 0 else 1)") (auto dest!: process_pass_empties [OF sym])

declare process_loop.simps [simp del]

definition ReadableByteStreamControllerProcessPullIntoDescriptorsUsingQueue :: "(byte_stream, unit) proc" where
  "ReadableByteStreamControllerProcessPullIntoDescriptorsUsingQueue =
     thenp (assertp (\<lambda>s. \<not> bclose_requested s)) process_loop"

definition push_pull_into :: "pull_into \<Rightarrow> (byte_stream, unit) proc" where
  "push_pull_into d = modify (\<lambda>s. s\<lparr>pending_pull_intos := pending_pull_intos s @ [d]\<rparr>)"

definition ReadableByteStreamControllerPullInto :: "bview \<Rightarrow> (byte_stream, nat) proc" where
  "ReadableByteStreamControllerPullInto view =
     (let d = \<lparr>pbuffer = vbuffer view, poffset = voffset view, plength = vlength view, pfilled = 0,
               pelement = velement view, preader = ByobKind\<rparr>;
          wait = (\<lambda>d. thenp (push_pull_into d) (bindp ReadableStreamAddReadIntoRequest (\<lambda>p.
            thenp ReadableByteStreamControllerCallPullIfNeeded (ret p)))) in
      ifp (\<lambda>s. pending_pull_intos s \<noteq> []) (thenp (push_pull_into d) ReadableStreamAddReadIntoRequest)
      (ifp (\<lambda>s. bstate s = IsClosed) (byte_promise (Fulfilled (EmptyView (view\<lparr>vlength := 0\<rparr>))))
      (ifp (\<lambda>s. 0 < btotal s)
        (bindp (ReadableByteStreamControllerFillPullIntoDescriptorFromQueue False d) (\<lambda>(ready, d').
          if ready then
            bindp (ReadableByteStreamControllerConvertPullIntoDescriptor d') (\<lambda>v.
              thenp ReadableByteStreamControllerHandleQueueDrain (byte_promise (Fulfilled (Filled v))))
          else ifp bclose_requested
            (thenp (ReadableByteStreamControllerError (Error TypeError)) (byte_promise (Rejected (Error TypeError))))
            (wait d')))
        (wait d))))"

definition byte_PullSteps :: "(byte_stream, nat) proc" where
  "byte_PullSteps =
     thenp (assertp ReadableStreamHasDefaultReader)
     (ifp (\<lambda>s. 0 < btotal s)
       (thenp (assertp (\<lambda>s. num_requests s = 0))
       (withp (\<lambda>s. hd (bqueue s)) (\<lambda>h.
         thenp (modify (\<lambda>s. s\<lparr>bqueue := tl (bqueue s), btotal := btotal s - elength h\<rparr>))
         (thenp ReadableByteStreamControllerHandleQueueDrain
         (byte_promise (Fulfilled (Filled \<lparr>vbuffer = ebuffer h, voffset = eoffset h, vlength = elength h, velement = 1\<rparr>)))))))
       (thenp (withp auto_allocate (\<lambda>a. case a of None \<Rightarrow> ret ()
          | Some n \<Rightarrow> push_pull_into \<lparr>pbuffer = replicate n 0, poffset = 0, plength = n, pfilled = 0, pelement = 1,
              preader = DefaultKind\<rparr>))
       (bindp ReadableStreamAddReadRequestB (\<lambda>p. thenp ReadableByteStreamControllerCallPullIfNeeded (ret p)))))"

text \<open>The loop of \<open>RespondInClosedState\<close>, whose number of passes is the number of requests at most.\<close>

fun respond_closed_loop :: "nat \<Rightarrow> (byte_stream, unit) proc" where
  "respond_closed_loop 0 = ret ()"
| "respond_closed_loop (Suc n) = whenp (\<lambda>s. 0 < num_requests s)
     (thenp (bindp (ifp (\<lambda>s. pending_pull_intos s = []) (thenp ReadableByteStreamControllerInvalidateBYOBRequest call_undefined)
         ReadableByteStreamControllerShiftPendingPullInto) ReadableByteStreamControllerCommitPullIntoDescriptor)
       (respond_closed_loop n))"

definition ReadableByteStreamControllerRespondInClosedState :: "pull_into \<Rightarrow> (byte_stream, unit) proc" where
  "ReadableByteStreamControllerRespondInClosedState d = seqp [
     modify (\<lambda>s. s\<lparr>byob_request := map_option (\<lambda>v. v\<lparr>request_detached := True\<rparr>) (byob_request s)\<rparr>),
     assertp (\<lambda>s. pfilled d = 0),
     whenp ReadableStreamHasBYOBReader (withp num_requests respond_closed_loop)]"

definition ReadableByteStreamControllerRespondInReadableState :: "nat \<Rightarrow> pull_into \<Rightarrow> (byte_stream, unit) proc" where
  "ReadableByteStreamControllerRespondInReadableState n d =
     ifp (\<lambda>s. plength d < pfilled d + n) (throw (Error RangeError))
     (bindp (ReadableByteStreamControllerFillHeadPullIntoDescriptor True n d) (\<lambda>d.
       if pfilled d < pelement d then ret ()
       else thenp ReadableByteStreamControllerShiftPendingPullInto
         (let remainder = pfilled d mod pelement d; last = poffset d + pfilled d in seqp [
           whenp (\<lambda>s. 0 < remainder) (ReadableByteStreamControllerEnqueueChunkToQueue
             (take remainder (drop (last - remainder) (pbuffer d))) 0 remainder),
           ReadableByteStreamControllerCommitPullIntoDescriptor (d\<lparr>pfilled := pfilled d - remainder\<rparr>),
           ReadableByteStreamControllerProcessPullIntoDescriptorsUsingQueue])))"

definition ReadableByteStreamControllerRespondInternal :: "nat \<Rightarrow> (byte_stream, unit) proc" where
  "ReadableByteStreamControllerRespondInternal n = withp (\<lambda>s. hd (pending_pull_intos s)) (\<lambda>d. seqp [
     ifp (\<lambda>s. bstate s = IsClosed)
       (if n \<noteq> 0 then throw (Error TypeError) else ReadableByteStreamControllerRespondInClosedState d)
       (thenp (assertp (\<lambda>s. bstate s = IsReadable)) (ReadableByteStreamControllerRespondInReadableState n d)),
     ReadableByteStreamControllerCallPullIfNeeded])"

definition ReadableByteStreamControllerRespond :: "js_number \<Rightarrow> (byte_stream, unit) proc" where
  "ReadableByteStreamControllerRespond n =
     (if \<not> IsFiniteNonNegativeNumber n then throw (Error RangeError)
      else thenp (assertp (\<lambda>s. pending_pull_intos s \<noteq> []))
        (ReadableByteStreamControllerRespondInternal (case n of Finite i \<Rightarrow> nat i | _ \<Rightarrow> 0)))"

definition ReadableByteStreamControllerRespondWithNewView :: "bview \<Rightarrow> (byte_stream, unit) proc" where
  "ReadableByteStreamControllerRespondWithNewView v =
     thenp (assertp (\<lambda>s. pending_pull_intos s \<noteq> []))
     (withp (\<lambda>s. hd (pending_pull_intos s)) (\<lambda>d.
       if poffset d + pfilled d \<noteq> voffset v then throw (Error RangeError)
       else if plength d \<noteq> vlength v then throw (Error RangeError)
       else thenp (store_head True (d\<lparr>pbuffer := vbuffer v\<rparr>))
         (ReadableByteStreamControllerRespondInternal (vlength v))))"

definition ReadableByteStreamControllerClose :: "(byte_stream, unit) proc" where
  "ReadableByteStreamControllerClose =
     thenp (assertp (\<lambda>s. \<not> bclose_requested s))
     (thenp (assertp (\<lambda>s. bstate s = IsReadable))
     (ifp (\<lambda>s. 0 < btotal s) (modify (\<lambda>s. s\<lparr>bclose_requested := True\<rparr>))
     (ifp (\<lambda>s. pending_pull_intos s \<noteq> [] \<and> 0 < pfilled (hd (pending_pull_intos s)))
       (thenp (ReadableByteStreamControllerError (Error TypeError)) (throw (Error TypeError)))
       ReadableStreamCloseB)))"

definition ReadableByteStreamControllerEnqueue :: "bview \<Rightarrow> (byte_stream, unit) proc" where
  "ReadableByteStreamControllerEnqueue chunk =
     (let to_queue = ReadableByteStreamControllerEnqueueChunkToQueue (vbuffer chunk) (voffset chunk) (vlength chunk) in seqp [
       assertp (\<lambda>s. \<not> bclose_requested s),
       assertp (\<lambda>s. bstate s = IsReadable),
       ifp ReadableStreamHasDefaultReader
         (ifp (\<lambda>s. num_requests s = 0) to_queue
           (thenp (assertp (\<lambda>s. bqueue s = [])) (ReadableStreamFulfillReadRequestB (chunk\<lparr>velement := 1\<rparr>) False)))
       (ifp ReadableStreamHasBYOBReader
         (thenp to_queue ReadableByteStreamControllerProcessPullIntoDescriptorsUsingQueue)
         (thenp (assertp (\<lambda>s. breader s = None)) to_queue)),
       ReadableByteStreamControllerCallPullIfNeeded])"

section \<open>What the source calls\<close>

definition byobRequest :: "(byte_stream, unit) proc" where
  "byobRequest = whenp (\<lambda>s. byob_request s = None \<and> pending_pull_intos s \<noteq> []) (withp (\<lambda>s. hd (pending_pull_intos s)) (\<lambda>d.
     modify (\<lambda>s. s\<lparr>byob_request := Some \<lparr>request_id = byob_count s, request_offset = poffset d + pfilled d,
       request_length = plength d - pfilled d, request_detached = False\<rparr>, byob_count := Suc (byob_count s)\<rparr>)))"

text \<open>A request that is not the controller's any more has been invalidated.\<close>

definition request_check :: "nat \<Rightarrow> bool \<Rightarrow> (byte_stream, unit) proc \<Rightarrow> (byte_stream, unit) proc" where
  "request_check i own_buffer p = withp byob_request (\<lambda>q.
     if map_option request_id q \<noteq> Some i then throw (Error TypeError)
     else if own_buffer \<and> request_detached (the q) then throw (Error TypeError)
     else p)"

definition request_respond :: "nat \<Rightarrow> js_number \<Rightarrow> (byte_stream, unit) proc" where
  "request_respond i n = request_check i True (ReadableByteStreamControllerRespond n)"

definition request_respondWithNewView :: "nat \<Rightarrow> bview \<Rightarrow> (byte_stream, unit) proc" where
  "request_respondWithNewView i v = request_check i False (ReadableByteStreamControllerRespondWithNewView v)"

definition byte_close :: "(byte_stream, unit) proc" where
  "byte_close = ifp bclose_requested (throw (Error TypeError))
     (ifp (\<lambda>s. bstate s \<noteq> IsReadable) (throw (Error TypeError)) ReadableByteStreamControllerClose)"

definition byte_enqueue :: "bview \<Rightarrow> (byte_stream, unit) proc" where
  "byte_enqueue chunk = ifp bclose_requested (throw (Error TypeError))
     (ifp (\<lambda>s. bstate s \<noteq> IsReadable) (throw (Error TypeError)) (ReadableByteStreamControllerEnqueue chunk))"

section \<open>Readers\<close>

definition ReadableStreamReaderGenericInitializeB :: "reader_kind \<Rightarrow> nat \<Rightarrow> (byte_stream, unit) proc" where
  "ReadableStreamReaderGenericInitializeB k r =
     thenp (modify (\<lambda>s. s\<lparr>breaders := breaders s @ [blank_breader k], breader := Some r\<rparr>))
     (withp (\<lambda>s. (bstate s, bstored s)) (\<lambda>(st, e). case st of
         IsReadable \<Rightarrow> byteReaderClosedPromiseInitialize r Pending True
       | IsClosed \<Rightarrow> byteReaderClosedPromiseInitialize r (Fulfilled NoResult) False
       | IsErrored \<Rightarrow> byteReaderClosedPromiseInitialize r (Rejected e) False))"

text \<open>\<open>getReader({ mode })\<close>: a default reader or one into buffers.\<close>

definition new_byte_reader :: "reader_kind \<Rightarrow> (byte_stream, unit) proc" where
  "new_byte_reader k = ifp (\<lambda>s. breader s \<noteq> None) (throw (Error TypeError))
     (withp (\<lambda>s. length (breaders s)) (ReadableStreamReaderGenericInitializeB k))"

definition byte_getReader :: "jsstr option \<Rightarrow> (byte_stream, unit) proc" where
  "byte_getReader mode =
     (case mode of
        None \<Rightarrow> new_byte_reader DefaultKind
      | Some m \<Rightarrow> if m = js ''byob'' then new_byte_reader ByobKind else throw (Error RangeError))"

definition ReadableStreamDefaultReaderReadB :: "nat \<Rightarrow> (byte_stream, nat) proc" where
  "ReadableStreamDefaultReaderReadB r =
     thenp (assertp (\<lambda>s. owns_stream (breader_of s r)))
     (thenp (modify (\<lambda>s. s\<lparr>bdisturbed := True\<rparr>))
     (ifp (\<lambda>s. bstate s = IsClosed) (byte_promise (Fulfilled AtEnd))
     (ifp (\<lambda>s. bstate s = IsErrored) (withp bstored (\<lambda>e. byte_promise (Rejected e)))
     (thenp (assertp (\<lambda>s. bstate s = IsReadable)) byte_PullSteps))))"

definition ReadableStreamBYOBReaderRead :: "nat \<Rightarrow> bview \<Rightarrow> (byte_stream, nat) proc" where
  "ReadableStreamBYOBReaderRead r v =
     thenp (assertp (\<lambda>s. owns_stream (breader_of s r)))
     (thenp (modify (\<lambda>s. s\<lparr>bdisturbed := True\<rparr>))
     (ifp (\<lambda>s. bstate s = IsErrored) (withp bstored (\<lambda>e. byte_promise (Rejected e)))
     (ReadableByteStreamControllerPullInto v)))"

definition if_owner :: "nat \<Rightarrow> (byte_stream, nat) proc \<Rightarrow> (byte_stream, nat) proc" where
  "if_owner r p = ifp (\<lambda>s. \<not> owns_stream (breader_of s r)) (byte_promise (Rejected (Error TypeError))) p"

definition byte_read :: "nat \<Rightarrow> (byte_stream, nat) proc" where
  "byte_read r = if_owner r (ReadableStreamDefaultReaderReadB r)"

definition byob_read :: "nat \<Rightarrow> bview \<Rightarrow> (byte_stream, nat) proc" where
  "byob_read r v = if_owner r
     (if vlength v = 0 then byte_promise (Rejected (Error TypeError)) else ReadableStreamBYOBReaderRead r v)"

definition byte_cancel :: "nat \<Rightarrow> reason \<Rightarrow> (byte_stream, nat) proc" where
  "byte_cancel r e = if_owner r (thenp (assertp (\<lambda>s. owns_stream (breader_of s r))) (ReadableStreamCancelB e))"

definition byte_stream_cancel :: "reason \<Rightarrow> (byte_stream, nat) proc" where
  "byte_stream_cancel e = ifp (\<lambda>s. breader s \<noteq> None) (byte_promise (Rejected (Error TypeError))) (ReadableStreamCancelB e)"

definition ReadableStreamReaderGenericReleaseB :: "nat \<Rightarrow> (byte_stream, unit) proc" where
  "ReadableStreamReaderGenericReleaseB r = seqp [
     assertp (\<lambda>s. owns_stream (breader_of s r)),
     assertp (\<lambda>s. breader s = Some r),
     ifp (\<lambda>s. bstate s = IsReadable)
       (byteReaderClosedPromiseSettle r (Rejected (Error TypeError)))
       (byteReaderClosedPromiseReset r (Error TypeError)),
     modify (\<lambda>s. s\<lparr>breader := None\<rparr>),
     update_breader r (\<lambda>x. x\<lparr>owns_stream := False\<rparr>)]"

definition byte_releaseLock :: "nat \<Rightarrow> (byte_stream, unit) proc" where
  "byte_releaseLock r =
     ifp (\<lambda>s. \<not> owns_stream (breader_of s r)) (ret ())
     (ifp (\<lambda>s. 0 < length (requests (breader_of s r))) (throw (Error TypeError))
       (ReadableStreamReaderGenericReleaseB r))"

section \<open>Making a stream\<close>

definition SetUpReadableByteStreamController :: "js_number \<Rightarrow> nat option \<Rightarrow> byte_stream \<Rightarrow> byte_stream" where
  "SetUpReadableByteStreamController h auto s = byte_ResetQueue (s\<lparr>bpull_again := False, bpulling := False,
     byob_request := None, bclose_requested := False, bstarted := False, bHWM := h, auto_allocate := auto,
     pending_pull_intos := [], bstart_pending := True\<rparr>)"

text \<open>\<open>autoAllocateChunkSize\<close>, if there is one, has to be a positive integer.\<close>

definition auto_ok :: "js_number option \<Rightarrow> bool" where
  "auto_ok auto = (case auto of None \<Rightarrow> True | Some (Finite i) \<Rightarrow> 0 < i | _ \<Rightarrow> False)"

definition auto_size :: "js_number option \<Rightarrow> nat option" where
  "auto_size auto = (case auto of Some (Finite i) \<Rightarrow> Some (nat i) | _ \<Rightarrow> None)"

text \<open>The start algorithm may throw.\<close>

definition set_up_bytes :: "js_number \<Rightarrow> js_number option \<Rightarrow> reason option \<Rightarrow> reason + byte_stream" where
  "set_up_bytes h auto start =
     (case start of Some e \<Rightarrow> Inl e
      | None \<Rightarrow> Inr (SetUpReadableByteStreamController h (auto_size auto) InitializeReadableStreamB))"

definition CreateReadableByteStream :: "js_number \<Rightarrow> js_number option \<Rightarrow> reason option \<Rightarrow> reason + byte_stream" where
  "CreateReadableByteStream h auto start =
     (if \<not> IsNonNegativeNumber h then Inl (Error OtherError)
      else if \<not> auto_ok auto then Inl (Error OtherError)
      else set_up_bytes h auto start)"

text \<open>\<open>new ReadableStream(source, strategy)\<close> for a source of type \<open>bytes\<close>: \<open>sized\<close> is whether the strategy
  has a size, \<open>callable\<close> whether each of the source's methods is undefined or a function.\<close>

definition new_byte_stream ::
  "bool \<Rightarrow> js_number option \<Rightarrow> bool \<Rightarrow> js_number option \<Rightarrow> reason option \<Rightarrow> reason + byte_stream" where
  "new_byte_stream sized hwm callable auto start =
     (if sized then Inl (Error RangeError)
      else
        case ValidateAndNormalizeHighWaterMark (case hwm of None \<Rightarrow> Finite 0 | Some h \<Rightarrow> h) () of
          (Inl e, u) \<Rightarrow> Inl e
        | (Inr h, u) \<Rightarrow>
            if \<not> callable then Inl (Error TypeError)
            else if \<not> auto_ok auto then Inl (Error RangeError)
            else set_up_bytes h auto start)"

section \<open>Reactions to the source's promises\<close>

definition byte_source_started :: "(byte_stream, unit) proc" where
  "byte_source_started = seqp [
     modify (\<lambda>s. s\<lparr>bstarted := True\<rparr>),
     assertp (\<lambda>s. \<not> bpulling s),
     assertp (\<lambda>s. \<not> bpull_again s),
     ReadableByteStreamControllerCallPullIfNeeded]"

definition byte_pull_fulfilled :: "(byte_stream, unit) proc" where
  "byte_pull_fulfilled = seqp [
     modify (\<lambda>s. s\<lparr>bpulling := False\<rparr>),
     whenp bpull_again (seqp [
       modify (\<lambda>s. s\<lparr>bpull_again := False\<rparr>),
       ReadableByteStreamControllerCallPullIfNeeded])]"

section \<open>Runs\<close>

datatype b_event =
  GetByteReader "jsstr option" | ReadBytes nat | ReadInto nat bview | CancelByteReader nat reason | CancelBytes reason
| ReleaseByteReader nat | EnqueueBytes bview | CloseBytes | ErrorBytes reason | GetRequest | RespondBytes nat js_number
| RespondView nat bview | SourceWrites buffer | BytesStarted | BytesStartFailed reason | BytesPulled
| BytesPullFailed reason | BytesCancelled | BytesCancelFailed reason

definition settle_cancel :: "byte_result promise \<Rightarrow> (byte_stream, unit) proc" where
  "settle_cancel v = withp bcancel_pending (\<lambda>p.
     thenp (modify (\<lambda>s. s\<lparr>bcancel_pending := None\<rparr>)) (settle_byte (the p) v))"

fun b_step :: "b_event \<Rightarrow> (byte_stream, nat option) proc" where
  "b_step (GetByteReader mode) = run_unit (byte_getReader mode)"
| "b_step (ReadBytes r) = run_promise (byte_read r)"
| "b_step (ReadInto r v) = run_promise (byob_read r v)"
| "b_step (CancelByteReader r e) = run_promise (byte_cancel r e)"
| "b_step (CancelBytes e) = run_promise (byte_stream_cancel e)"
| "b_step (ReleaseByteReader r) = run_unit (byte_releaseLock r)"
| "b_step (EnqueueBytes v) = run_unit (byte_enqueue v)"
| "b_step CloseBytes = run_unit byte_close"
| "b_step (ErrorBytes e) = run_unit (ReadableByteStreamControllerError e)"
| "b_step GetRequest = run_unit byobRequest"
| "b_step (RespondBytes i n) = run_unit (request_respond i n)"
| "b_step (RespondView i v) = run_unit (request_respondWithNewView i v)"
| "b_step (SourceWrites b) = run_unit (withp (\<lambda>s. hd (pending_pull_intos s)) (\<lambda>d. store_head True (d\<lparr>pbuffer := b\<rparr>)))"
| "b_step BytesStarted = run_unit (thenp (modify (\<lambda>s. s\<lparr>bstart_pending := False\<rparr>)) byte_source_started)"
| "b_step (BytesStartFailed e) =
     run_unit (thenp (modify (\<lambda>s. s\<lparr>bstart_pending := False\<rparr>)) (ReadableByteStreamControllerError e))"
| "b_step BytesPulled = run_unit (thenp (modify (\<lambda>s. s\<lparr>bpull_pending := False\<rparr>)) byte_pull_fulfilled)"
| "b_step (BytesPullFailed e) =
     run_unit (thenp (modify (\<lambda>s. s\<lparr>bpull_pending := False\<rparr>)) (ReadableByteStreamControllerError e))"
| "b_step BytesCancelled = run_unit (settle_cancel (Fulfilled NoResult))"
| "b_step (BytesCancelFailed e) = run_unit (settle_cancel (Rejected e))"

text \<open>A view lies in its buffer and holds a whole number of elements.\<close>

definition view_ok :: "bview \<Rightarrow> bool" where
  "view_ok v \<longleftrightarrow> voffset v + vlength v \<le> length (vbuffer v) \<and> 0 < velement v \<and> vlength v mod velement v = 0"

fun b_enabled :: "b_event \<Rightarrow> byte_stream \<Rightarrow> bool" where
  "b_enabled (ReadBytes r) s \<longleftrightarrow> r < length (breaders s) \<and> kind (breaders s ! r) = DefaultKind"
| "b_enabled (ReadInto r v) s \<longleftrightarrow> r < length (breaders s) \<and> kind (breaders s ! r) = ByobKind \<and> view_ok v"
| "b_enabled (CancelByteReader r e) s \<longleftrightarrow> r < length (breaders s)"
| "b_enabled (ReleaseByteReader r) s \<longleftrightarrow> r < length (breaders s)"
| "b_enabled (EnqueueBytes v) s \<longleftrightarrow> view_ok v"
| "b_enabled (RespondView i v) s \<longleftrightarrow> view_ok v"
| "b_enabled (SourceWrites b) s \<longleftrightarrow> pending_pull_intos s \<noteq> [] \<and> length b = length (pbuffer (hd (pending_pull_intos s)))"
| "b_enabled BytesStarted s \<longleftrightarrow> bstart_pending s"
| "b_enabled (BytesStartFailed e) s \<longleftrightarrow> bstart_pending s"
| "b_enabled BytesPulled s \<longleftrightarrow> bpull_pending s"
| "b_enabled (BytesPullFailed e) s \<longleftrightarrow> bpull_pending s"
| "b_enabled BytesCancelled s \<longleftrightarrow> bcancel_pending s \<noteq> None"
| "b_enabled (BytesCancelFailed e) s \<longleftrightarrow> bcancel_pending s \<noteq> None"
| "b_enabled ev s \<longleftrightarrow> True"

inductive b_runs :: "byte_stream \<Rightarrow> (b_event \<times> (reason + nat option)) list \<Rightarrow> byte_stream \<Rightarrow> bool" where
  b_refl: "b_runs s [] s"
| b_snoc: "b_runs s h t \<Longrightarrow> b_enabled ev t \<Longrightarrow> b_step ev t = (res, u) \<Longrightarrow> b_runs s (h @ [(ev, res)]) u"

text \<open>The runs of a stream whose source has the given \<open>autoAllocateChunkSize\<close>.\<close>

definition b_history :: "js_number option \<Rightarrow> (b_event \<times> (reason + nat option)) list \<Rightarrow> byte_stream \<Rightarrow> bool" where
  "b_history auto h t \<longleftrightarrow> (\<exists>s sized hwm callable start.
     (new_byte_stream sized hwm callable auto start = Inr s \<or> (\<exists>n. CreateReadableByteStream n auto start = Inr s)) \<and> b_runs s h t)"

end
