(* ===== verification/Byte_Safety.thy ===== *)
theory Byte_Safety
  imports Byte_Stream
begin

text \<open>The invariant of the byte streams of \<open>packages/zero/lib/whatwg/streams/readable.js\<close>: what filling a
  descriptor from the queue does, and the proof that no assertion of the code fails in a run whose source asks
  for no buffers of its own and enqueues no empty chunk.  The last section shows what happens when it does.\<close>

section \<open>The bytes of a queue\<close>

definition entry_ok :: "queue_entry \<Rightarrow> bool" where
  "entry_ok h \<longleftrightarrow> 0 < elength h \<and> eoffset h + elength h \<le> length (ebuffer h)"

definition entry_bytes :: "queue_entry \<Rightarrow> 8 word list" where
  "entry_bytes h = take (elength h) (drop (eoffset h) (ebuffer h))"

definition queue_bytes :: "queue_entry list \<Rightarrow> 8 word list" where
  "queue_bytes q = concat (map entry_bytes q)"

definition bytes_ok :: "byte_stream \<Rightarrow> bool" where
  "bytes_ok s \<longleftrightarrow> list_all entry_ok (bqueue s) \<and> btotal s = length (queue_bytes (bqueue s))"

lemma queue_bytes_simps [simp]: "queue_bytes [] = []" "queue_bytes (h # q) = entry_bytes h @ queue_bytes q"
  "queue_bytes (q @ q') = queue_bytes q @ queue_bytes q'"
  by (simp_all add: queue_bytes_def)

lemma length_entry_bytes [simp]: "entry_ok h \<Longrightarrow> length (entry_bytes h) = elength h"
  by (auto simp: entry_ok_def entry_bytes_def)

lemma queue_bytes_Nil: "list_all entry_ok q \<Longrightarrow> queue_bytes q = [] \<longleftrightarrow> q = []"
  by (cases q) (auto simp: entry_ok_def entry_bytes_def)

lemma take_from_head_bytes:
  assumes "list_all entry_ok (h # q)" and "n \<le> elength h"
  shows "list_all entry_ok (take_from_head n (h # q))"
    and "queue_bytes (take_from_head n (h # q)) = drop n (queue_bytes (h # q))"
  using assms by (auto simp: take_from_head_def entry_ok_def entry_bytes_def drop_take add.commute)

lemma take_head_bytes:
  assumes "list_all entry_ok (h # q)" and "n \<le> elength h"
  shows "take n (drop (eoffset h) (ebuffer h)) = take n (queue_bytes (h # q))"
proof -
  have "n \<le> length (ebuffer h) - eoffset h" using assms by (auto simp: entry_ok_def)
  then show ?thesis using assms by (simp add: entry_bytes_def min_def)
qed

text \<open>Writing bytes into a buffer.\<close>

definition put_bytes :: "nat \<Rightarrow> 8 word list \<Rightarrow> buffer \<Rightarrow> buffer" where
  "put_bytes i bs b = take i b @ bs @ drop (i + length bs) b"

lemma length_put_bytes [simp]: "i + length bs \<le> length b \<Longrightarrow> length (put_bytes i bs b) = length b"
  by (simp add: put_bytes_def)

lemma put_bytes_Nil [simp]: "put_bytes i [] b = b"
  by (simp add: put_bytes_def)

lemma put_bytes_append:
  "i + length xs + length ys \<le> length b \<Longrightarrow> put_bytes (i + length xs) ys (put_bytes i xs b) = put_bytes i (xs @ ys) b"
  by (simp add: put_bytes_def ac_simps)

lemma take_put_bytes: "i + length bs \<le> length b \<Longrightarrow> take (length bs) (drop i (put_bytes i bs b)) = bs"
  by (simp add: put_bytes_def)

lemma copy_put_bytes: "j + n \<le> length src \<Longrightarrow> ArrayBufferCopy b i src j n = put_bytes i (take n (drop j src)) b"
  by (simp add: ArrayBufferCopy_def put_bytes_def)

section \<open>Filling a descriptor\<close>

text \<open>What \<open>k\<close> bytes of a queue make of a descriptor.\<close>

definition filled_with :: "8 word list \<Rightarrow> pull_into \<Rightarrow> pull_into" where
  "filled_with bs d = d\<lparr>pbuffer := put_bytes (poffset d + pfilled d) bs (pbuffer d), pfilled := pfilled d + length bs\<rparr>"

lemma filled_with_Nil [simp]: "filled_with [] d = d"
  by (simp add: filled_with_def)

lemma filled_with_append: "poffset d + pfilled d + length xs + length ys \<le> length (pbuffer d) \<Longrightarrow>
    filled_with ys (filled_with xs d) = filled_with (xs @ ys) d"
  using put_bytes_append [of "poffset d + pfilled d" xs ys "pbuffer d"]
  by (simp add: filled_with_def add.assoc)

lemma fill_pass_takes:
  assumes "list_all entry_ok (bqueue s)" and "bqueue s = h # q" and "n \<le> elength h"
    and "if first then pending_pull_intos s = d # ds else pending_pull_intos s = []"
  shows "fill_pass first n d s = (Inr (filled_with (take n (queue_bytes (bqueue s))) d),
      s\<lparr>bqueue := take_from_head n (h # q), btotal := btotal s - n, byob_request := None,
        pending_pull_intos := (if first then filled_with (take n (queue_bytes (bqueue s))) d # ds else [])\<rparr>)"
proof -
  have h: "list_all entry_ok (h # q)" "eoffset h + n \<le> length (ebuffer h)" "length (take n (drop (eoffset h) (ebuffer h))) = n"
    using assms(1-3) by (auto simp: entry_ok_def)
  have "filled_with (take n (queue_bytes (bqueue s))) d = filled_with (take n (drop (eoffset h) (ebuffer h))) d"
    using take_head_bytes [OF h(1) assms(3)] assms(2) by simp
  also have "\<dots> = d\<lparr>pbuffer := ArrayBufferCopy (pbuffer d) (poffset d + pfilled d) (ebuffer h) (eoffset h) n, pfilled := pfilled d + n\<rparr>"
    unfolding copy_put_bytes [OF h(2)] by (simp only: filled_with_def h(3))
  finally show ?thesis using assms(2,4) by (cases first) (simp_all add: fill_pass_eq Let_def)
qed

lemma fill_loop_takes:
  assumes "list_all entry_ok (bqueue s)" and "k \<le> length (queue_bytes (bqueue s))"
    and "poffset d + pfilled d + k \<le> length (pbuffer d)"
    and "if first then pending_pull_intos s = d # ds else pending_pull_intos s = []"
  shows "\<exists>q. fill_loop first k d s = (Inr (filled_with (take k (queue_bytes (bqueue s))) d),
        s\<lparr>bqueue := q, btotal := btotal s - k, byob_request := (if k = 0 then byob_request s else None),
          pending_pull_intos := (if first then filled_with (take k (queue_bytes (bqueue s))) d # ds else [])\<rparr>) \<and>
      list_all entry_ok q \<and> queue_bytes q = drop k (queue_bytes (bqueue s))"
  using assms
proof (induction first k d s rule: fill_loop.induct)
  case (1 first k d s)
  show ?case
  proof (cases "k = 0")
    case True
    have "s = s\<lparr>pending_pull_intos := (if first then d # ds else [])\<rparr>" using 1(5) by simp
    then show ?thesis using True 1(2)
      by (intro exI [of _ "bqueue s"]) (cases first; simp add: fill_loop.simps [of _ 0] ret_def)
  next
    case False
    then obtain h q0 where q: "bqueue s = h # q0" using 1(3) by (cases "bqueue s") auto
    have h: "entry_ok h" using 1(2) by (simp add: q)
    define n where "n = min k (elength h)"
    define bs where "bs = queue_bytes (bqueue s)"
    define d1 where "d1 = filled_with (take n bs) d"
    define t where "t = s\<lparr>bqueue := take_from_head n (h # q0), btotal := btotal s - n, byob_request := None,
      pending_pull_intos := (if first then d1 # ds else [])\<rparr>"
    have n: "0 < n" "n \<le> k" "n \<le> elength h" using False h by (auto simp: entry_ok_def n_def)
    have len: "length (take n bs) = n" using n 1(3) by (simp add: bs_def)
    have pass: "fill_pass first (min k (elength (hd (bqueue s)))) d s = (Inr d1, t)"
      using fill_pass_takes [OF 1(2) q n(3) 1(5)] by (simp add: q d1_def t_def n_def bs_def)
    have q1: "list_all entry_ok (bqueue t)" "queue_bytes (bqueue t) = drop n bs"
      using take_from_head_bytes [of h q0 n] 1(2) n by (simp_all add: q t_def bs_def)
    have k: "k - n \<le> length (queue_bytes (bqueue t))" using q1(2) 1(3) by (simp add: bs_def)
    have d1: "poffset d1 + pfilled d1 + (k - n) \<le> length (pbuffer d1)"
      using 1(4) len n(2) by (simp add: d1_def filled_with_def)
    have p: "if first then pending_pull_intos t = d1 # ds else pending_pull_intos t = []" by (simp add: t_def)
    have min: "min k (elength (hd (bqueue s))) = n" by (simp add: q n_def)
    have "filled_with (take (k - n) (drop n bs)) d1 = filled_with (take n bs @ take (k - n) (drop n bs)) d"
      unfolding d1_def by (rule filled_with_append) (use 1(3,4) len n(2) in \<open>simp add: bs_def\<close>)
    then have f: "filled_with (take (k - n) (drop n bs)) d1 = filled_with (take k bs) d"
      using take_add [of n "k - n" bs] n(2) by simp
    obtain q' where l: "fill_loop first (k - n) d1 t = (Inr (filled_with (take k bs) d),
        t\<lparr>bqueue := q', btotal := btotal t - (k - n), byob_request := (if k - n = 0 then byob_request t else None),
          pending_pull_intos := (if first then filled_with (take k bs) d # ds else [])\<rparr>)"
      and r: "list_all entry_ok q'" "queue_bytes q' = drop (k - n) (drop n bs)"
      using "1.IH" [OF False _ pass [symmetric] refl, unfolded min, OF _ q1(1) k d1 p] q unfolding q1(2) f by auto
    have "fill_loop first k d s = fill_loop first (k - n) d1 t"
      using False pass by (subst fill_loop.simps) (simp add: q n_def)
    then show ?thesis using l r False n(2) unfolding bs_def [symmetric] by (intro exI [of _ q']) (simp add: t_def)
  qed
qed

text \<open>A descriptor that waits for bytes: it lies in its buffer, and has room for an element it has not filled.\<close>

definition desc_ok :: "pull_into \<Rightarrow> bool" where
  "desc_ok d \<longleftrightarrow> poffset d + plength d \<le> length (pbuffer d) \<and> pfilled d < pelement d \<and> 0 < plength d \<and>
     plength d mod pelement d = 0"

lemma desc_ok_room: "desc_ok d \<Longrightarrow> pelement d \<le> plength d"
  by (auto simp: desc_ok_def intro: dvd_imp_le)

text \<open>The number of bytes it takes of a queue of \<open>tot\<close> bytes: as many as give whole elements, if they do.\<close>

definition fill_ready :: "pull_into \<Rightarrow> nat \<Rightarrow> bool" where
  "fill_ready d tot \<longleftrightarrow> pelement d \<le> pfilled d + tot"

definition fill_count :: "pull_into \<Rightarrow> nat \<Rightarrow> nat" where
  "fill_count d tot =
     (if fill_ready d tot
      then let f = min (pfilled d + tot) (plength d) in f - f mod pelement d - pfilled d
      else tot)"

lemma aligned_below: "0 < (e :: nat) \<Longrightarrow> e \<le> f \<Longrightarrow> e \<le> f - f mod e"
proof -
  assume "0 < e" "e \<le> f"
  then have "e * 1 \<le> e * (f div e)" by (intro mult_le_mono2) (simp add: Suc_le_eq div_greater_zero_iff)
  then show "e \<le> f - f mod e" by (simp add: minus_mod_eq_mult_div)
qed

lemma fill_count:
  assumes "desc_ok d" and "0 < tot"
  shows "0 < fill_count d tot" and "fill_count d tot \<le> tot" and "pfilled d + fill_count d tot \<le> plength d"
    and "fill_ready d tot \<Longrightarrow> (pfilled d + fill_count d tot) mod pelement d = 0 \<and> pelement d \<le> pfilled d + fill_count d tot"
    and "\<not> fill_ready d tot \<Longrightarrow> pfilled d + fill_count d tot < pelement d"
proof -
  let ?e = "pelement d" and ?f = "min (pfilled d + tot) (plength d)"
  have d: "pfilled d < ?e" "?e \<le> plength d" using assms(1) desc_ok_room by (auto simp: desc_ok_def)
  have r: "?e \<le> ?f - ?f mod ?e" if "fill_ready d tot"
    using that d by (intro aligned_below) (auto simp: fill_ready_def)
  have c: "pfilled d + fill_count d tot = ?f - ?f mod ?e" if "fill_ready d tot"
    using r [OF that] d that by (simp add: fill_count_def Let_def)
  show "0 < fill_count d tot" "fill_count d tot \<le> tot"
    using r c d assms(2) by (cases "fill_ready d tot"; force simp: fill_count_def fill_ready_def)+
  have "pfilled d + fill_count d tot \<le> ?f" if "fill_ready d tot" unfolding c [OF that] by (rule diff_le_self)
  then show "pfilled d + fill_count d tot \<le> plength d"
    using d by (cases "fill_ready d tot") (auto simp: fill_count_def fill_ready_def)
  show "(pfilled d + fill_count d tot) mod ?e = 0 \<and> ?e \<le> pfilled d + fill_count d tot" if "fill_ready d tot"
    unfolding c [OF that] using r [OF that] by (simp add: minus_mod_eq_mult_div)
  show "pfilled d + fill_count d tot < ?e" if "\<not> fill_ready d tot"
    using that by (simp add: fill_count_def fill_ready_def)
qed

lemma fill_takes:
  assumes "bytes_ok s" and "0 < btotal s" and "desc_ok d"
    and "if first then pending_pull_intos s = d # ds else pending_pull_intos s = []"
  defines "bs \<equiv> take (fill_count d (btotal s)) (queue_bytes (bqueue s))"
  shows "\<exists>q. ReadableByteStreamControllerFillPullIntoDescriptorFromQueue first d s =
        (Inr (fill_ready d (btotal s), filled_with bs d),
         s\<lparr>bqueue := q, btotal := btotal s - fill_count d (btotal s), byob_request := None,
           pending_pull_intos := (if first then filled_with bs d # ds else [])\<rparr>) \<and>
      list_all entry_ok q \<and> queue_bytes q = drop (fill_count d (btotal s)) (queue_bytes (bqueue s))"
proof -
  let ?k = "fill_count d (btotal s)" and ?tot = "btotal s"
  note k = fill_count [OF assms(3,2)]
  have d: "pfilled d < pelement d" "pelement d \<le> plength d" "poffset d + plength d \<le> length (pbuffer d)"
    using assms(3) desc_ok_room by (auto simp: desc_ok_def)
  have b: "list_all entry_ok (bqueue s)" "?tot = length (queue_bytes (bqueue s))" using assms(1) by (auto simp: bytes_ok_def)
  let ?f = "pfilled d + min ?tot (plength d - pfilled d)"
  have f: "?f = min (pfilled d + ?tot) (plength d)" using d by auto
  have ready: "0 < ?f - ?f mod pelement d \<longleftrightarrow> fill_ready d ?tot"
  proof (cases "fill_ready d ?tot")
    case True
    then have "pelement d \<le> ?f - ?f mod pelement d" using d by (intro aligned_below) (auto simp: fill_ready_def)
    then show ?thesis using True d by simp
  qed (use d in \<open>auto simp: fill_ready_def\<close>)
  have most: "min ?tot (plength d - pfilled d) = ?tot" if "\<not> fill_ready d ?tot"
    using that d by (auto simp: fill_ready_def)
  obtain q where l: "fill_loop first ?k d s = (Inr (filled_with bs d),
        s\<lparr>bqueue := q, btotal := ?tot - ?k, byob_request := None,
          pending_pull_intos := (if first then filled_with bs d # ds else [])\<rparr>)"
      and r: "list_all entry_ok q" "queue_bytes q = drop ?k (queue_bytes (bqueue s))"
    using fill_loop_takes [OF b(1), of ?k d first ds] k(1-3) b(2) d(3) assms(4) unfolding bs_def by auto
  have bs: "length bs = ?k" using k(2) b(2) by (simp add: bs_def)
  have e: "ReadableByteStreamControllerFillPullIntoDescriptorFromQueue first d s =
      bindp (fill_loop first ?k d) (\<lambda>d'. thenp (whenp (\<lambda>s. \<not> fill_ready d ?tot) (seqp [
         assertp (\<lambda>s. btotal s = 0), assertp (\<lambda>s. 0 < pfilled d'), assertp (\<lambda>s. pfilled d' < pelement d')]))
       (ret (fill_ready d ?tot, d'))) s"
    using ready most d(1) unfolding ReadableByteStreamControllerFillPullIntoDescriptorFromQueue_def withp_def Let_def
    by (cases "fill_ready d ?tot") (simp_all add: f fill_count_def Let_def)
  have "\<not> fill_ready d ?tot \<Longrightarrow> ?k = ?tot" by (simp add: fill_count_def)
  then show ?thesis unfolding e using l r k(1,5) bs by (intro exI [of _ q]) (simp add: run_simps filled_with_def)
qed

section \<open>The invariant\<close>

definition breaders_inv :: "byte_stream \<Rightarrow> bool" where
  "breaders_inv s \<longleftrightarrow>
     (\<forall>r < length (breaders s). owns_stream (breaders s ! r) = (breader s = Some r)) \<and>
     (\<forall>r. breader s = Some r \<longrightarrow> r < length (breaders s) \<and>
       (bstate s = IsReadable \<longrightarrow> bfns (breaders s ! r)) \<and>
       (bstate s = IsClosed \<longrightarrow> \<not> bfns (breaders s ! r)) \<and>
       (bstate s = IsErrored \<longrightarrow> requests (breaders s ! r) = [] \<longrightarrow> \<not> bfns (breaders s ! r)))"

definition bpull_inv :: "byte_stream \<Rightarrow> bool" where
  "bpull_inv s \<longleftrightarrow> (bpull_again s \<longrightarrow> bpulling s) \<and> (bpulling s \<longrightarrow> bstarted s) \<and> (bpull_pending s \<longrightarrow> bpulling s) \<and>
     (bstart_pending s \<longrightarrow> \<not> bstarted s)"

text \<open>There is a descriptor for each request of a reader into buffers, in the same order, and only the first
  one holds bytes.\<close>

definition pending_inv :: "byte_stream \<Rightarrow> bool" where
  "pending_inv s \<longleftrightarrow>
     (if bstate s = IsErrored then pending_pull_intos s = []
      else length (pending_pull_intos s) = (if has_reader ByobKind s then num_requests s else 0)) \<and>
     list_all (\<lambda>d. desc_ok d \<and> preader d = ByobKind) (pending_pull_intos s) \<and>
     list_all (\<lambda>d. pfilled d = 0) (tl (pending_pull_intos s)) \<and>
     (bstate s = IsClosed \<longrightarrow> list_all (\<lambda>d. pfilled d = 0) (pending_pull_intos s)) \<and>
     (byob_request s \<noteq> None \<longrightarrow> pending_pull_intos s \<noteq> [])"

text \<open>A default reader waits only when there are no bytes.\<close>

definition bqueue_inv :: "byte_stream \<Rightarrow> bool" where
  "bqueue_inv s \<longleftrightarrow> bytes_ok s \<and> auto_allocate s = None \<and>
     (bstate s = IsReadable \<longrightarrow> has_reader DefaultKind s \<longrightarrow> 0 < num_requests s \<longrightarrow> btotal s = 0)"

definition b_inv :: "byte_stream \<Rightarrow> bool" where
  "b_inv s \<longleftrightarrow> breaders_inv s \<and> bpull_inv s \<and> pending_inv s \<and> bqueue_inv s"

lemmas b_inv_defs = b_inv_def breaders_inv_def bpull_inv_def pending_inv_def bqueue_inv_def
lemmas byte_simps = run_simps byte_promise_def settle_byte_def update_breader_def breader_of_def
lemmas kind_simps = ReadableStreamHasDefaultReader_def ReadableStreamHasBYOBReader_def
lemmas reader_simps = has_reader_def num_requests_def breader_of_def

text \<open>Each part of it depends on a few fields only.\<close>

lemma has_reader_frame [simp]:
  "has_reader k (s\<lparr>bstate := x0\<rparr>) = has_reader k s"
  "has_reader k (s\<lparr>bstored := x2\<rparr>) = has_reader k s"
  "has_reader k (s\<lparr>bdisturbed := x3\<rparr>) = has_reader k s"
  "has_reader k (s\<lparr>bqueue := x4\<rparr>) = has_reader k s"
  "has_reader k (s\<lparr>btotal := x5\<rparr>) = has_reader k s"
  "has_reader k (s\<lparr>bstarted := x6\<rparr>) = has_reader k s"
  "has_reader k (s\<lparr>bclose_requested := x7\<rparr>) = has_reader k s"
  "has_reader k (s\<lparr>bpull_again := x8\<rparr>) = has_reader k s"
  "has_reader k (s\<lparr>bpulling := x9\<rparr>) = has_reader k s"
  "has_reader k (s\<lparr>pending_pull_intos := x10\<rparr>) = has_reader k s"
  "has_reader k (s\<lparr>byob_request := x11\<rparr>) = has_reader k s"
  "has_reader k (s\<lparr>byob_count := x12\<rparr>) = has_reader k s"
  "has_reader k (s\<lparr>bpromises := x14\<rparr>) = has_reader k s"
  "has_reader k (s\<lparr>bsource_calls := x15\<rparr>) = has_reader k s"
  "has_reader k (s\<lparr>bstart_pending := x16\<rparr>) = has_reader k s"
  "has_reader k (s\<lparr>bpull_pending := x17\<rparr>) = has_reader k s"
  "has_reader k (s\<lparr>bcancel_pending := x18\<rparr>) = has_reader k s"
  by (simp_all add: has_reader_def breader_of_def split: option.split)

lemma num_requests_frame [simp]:
  "num_requests (s\<lparr>bstate := x0\<rparr>) = num_requests s"
  "num_requests (s\<lparr>bstored := x2\<rparr>) = num_requests s"
  "num_requests (s\<lparr>bdisturbed := x3\<rparr>) = num_requests s"
  "num_requests (s\<lparr>bqueue := x4\<rparr>) = num_requests s"
  "num_requests (s\<lparr>btotal := x5\<rparr>) = num_requests s"
  "num_requests (s\<lparr>bstarted := x6\<rparr>) = num_requests s"
  "num_requests (s\<lparr>bclose_requested := x7\<rparr>) = num_requests s"
  "num_requests (s\<lparr>bpull_again := x8\<rparr>) = num_requests s"
  "num_requests (s\<lparr>bpulling := x9\<rparr>) = num_requests s"
  "num_requests (s\<lparr>pending_pull_intos := x10\<rparr>) = num_requests s"
  "num_requests (s\<lparr>byob_request := x11\<rparr>) = num_requests s"
  "num_requests (s\<lparr>byob_count := x12\<rparr>) = num_requests s"
  "num_requests (s\<lparr>bpromises := x14\<rparr>) = num_requests s"
  "num_requests (s\<lparr>bsource_calls := x15\<rparr>) = num_requests s"
  "num_requests (s\<lparr>bstart_pending := x16\<rparr>) = num_requests s"
  "num_requests (s\<lparr>bpull_pending := x17\<rparr>) = num_requests s"
  "num_requests (s\<lparr>bcancel_pending := x18\<rparr>) = num_requests s"
  by (simp_all add: num_requests_def breader_of_def)

lemma bytes_ok_frame [simp]:
  "bytes_ok (s\<lparr>bstate := x0\<rparr>) = bytes_ok s" "bytes_ok (s\<lparr>breader := x1\<rparr>) = bytes_ok s"
  "bytes_ok (s\<lparr>bstored := x2\<rparr>) = bytes_ok s" "bytes_ok (s\<lparr>bdisturbed := x3\<rparr>) = bytes_ok s"
  "bytes_ok (s\<lparr>bstarted := x6\<rparr>) = bytes_ok s"
  "bytes_ok (s\<lparr>bclose_requested := x7\<rparr>) = bytes_ok s"
  "bytes_ok (s\<lparr>bpull_again := x8\<rparr>) = bytes_ok s"
  "bytes_ok (s\<lparr>bpulling := x9\<rparr>) = bytes_ok s"
  "bytes_ok (s\<lparr>pending_pull_intos := x10\<rparr>) = bytes_ok s"
  "bytes_ok (s\<lparr>byob_request := x11\<rparr>) = bytes_ok s"
  "bytes_ok (s\<lparr>byob_count := x12\<rparr>) = bytes_ok s"
  "bytes_ok (s\<lparr>breaders := x13\<rparr>) = bytes_ok s"
  "bytes_ok (s\<lparr>bpromises := x14\<rparr>) = bytes_ok s"
  "bytes_ok (s\<lparr>bsource_calls := x15\<rparr>) = bytes_ok s"
  "bytes_ok (s\<lparr>bstart_pending := x16\<rparr>) = bytes_ok s"
  "bytes_ok (s\<lparr>bpull_pending := x17\<rparr>) = bytes_ok s"
  "bytes_ok (s\<lparr>bcancel_pending := x18\<rparr>) = bytes_ok s"
  by (simp_all add: bytes_ok_def)

lemma breaders_inv_frame [simp]:
  "breaders_inv (s\<lparr>bstored := x2\<rparr>) = breaders_inv s"
  "breaders_inv (s\<lparr>bdisturbed := x3\<rparr>) = breaders_inv s"
  "breaders_inv (s\<lparr>bqueue := x4\<rparr>) = breaders_inv s"
  "breaders_inv (s\<lparr>btotal := x5\<rparr>) = breaders_inv s"
  "breaders_inv (s\<lparr>bstarted := x6\<rparr>) = breaders_inv s"
  "breaders_inv (s\<lparr>bclose_requested := x7\<rparr>) = breaders_inv s"
  "breaders_inv (s\<lparr>bpull_again := x8\<rparr>) = breaders_inv s"
  "breaders_inv (s\<lparr>bpulling := x9\<rparr>) = breaders_inv s"
  "breaders_inv (s\<lparr>pending_pull_intos := x10\<rparr>) = breaders_inv s"
  "breaders_inv (s\<lparr>byob_request := x11\<rparr>) = breaders_inv s"
  "breaders_inv (s\<lparr>byob_count := x12\<rparr>) = breaders_inv s"
  "breaders_inv (s\<lparr>bpromises := x14\<rparr>) = breaders_inv s"
  "breaders_inv (s\<lparr>bsource_calls := x15\<rparr>) = breaders_inv s"
  "breaders_inv (s\<lparr>bstart_pending := x16\<rparr>) = breaders_inv s"
  "breaders_inv (s\<lparr>bpull_pending := x17\<rparr>) = breaders_inv s"
  "breaders_inv (s\<lparr>bcancel_pending := x18\<rparr>) = breaders_inv s"
  by (simp_all add: breaders_inv_def)

lemma bpull_inv_frame [simp]:
  "bpull_inv (s\<lparr>bstate := x0\<rparr>) = bpull_inv s" "bpull_inv (s\<lparr>breader := x1\<rparr>) = bpull_inv s"
  "bpull_inv (s\<lparr>bstored := x2\<rparr>) = bpull_inv s"
  "bpull_inv (s\<lparr>bdisturbed := x3\<rparr>) = bpull_inv s"
  "bpull_inv (s\<lparr>bqueue := x4\<rparr>) = bpull_inv s" "bpull_inv (s\<lparr>btotal := x5\<rparr>) = bpull_inv s"
  "bpull_inv (s\<lparr>bclose_requested := x7\<rparr>) = bpull_inv s"
  "bpull_inv (s\<lparr>pending_pull_intos := x10\<rparr>) = bpull_inv s"
  "bpull_inv (s\<lparr>byob_request := x11\<rparr>) = bpull_inv s"
  "bpull_inv (s\<lparr>byob_count := x12\<rparr>) = bpull_inv s"
  "bpull_inv (s\<lparr>breaders := x13\<rparr>) = bpull_inv s"
  "bpull_inv (s\<lparr>bpromises := x14\<rparr>) = bpull_inv s"
  "bpull_inv (s\<lparr>bsource_calls := x15\<rparr>) = bpull_inv s"
  "bpull_inv (s\<lparr>bcancel_pending := x18\<rparr>) = bpull_inv s"
  by (simp_all add: bpull_inv_def)

lemma pending_inv_frame [simp]:
  "pending_inv (s\<lparr>bstored := x2\<rparr>) = pending_inv s"
  "pending_inv (s\<lparr>bdisturbed := x3\<rparr>) = pending_inv s"
  "pending_inv (s\<lparr>bqueue := x4\<rparr>) = pending_inv s"
  "pending_inv (s\<lparr>btotal := x5\<rparr>) = pending_inv s"
  "pending_inv (s\<lparr>bstarted := x6\<rparr>) = pending_inv s"
  "pending_inv (s\<lparr>bclose_requested := x7\<rparr>) = pending_inv s"
  "pending_inv (s\<lparr>bpull_again := x8\<rparr>) = pending_inv s"
  "pending_inv (s\<lparr>bpulling := x9\<rparr>) = pending_inv s"
  "pending_inv (s\<lparr>byob_count := x12\<rparr>) = pending_inv s"
  "pending_inv (s\<lparr>bpromises := x14\<rparr>) = pending_inv s"
  "pending_inv (s\<lparr>bsource_calls := x15\<rparr>) = pending_inv s"
  "pending_inv (s\<lparr>bstart_pending := x16\<rparr>) = pending_inv s"
  "pending_inv (s\<lparr>bpull_pending := x17\<rparr>) = pending_inv s"
  "pending_inv (s\<lparr>bcancel_pending := x18\<rparr>) = pending_inv s"
  by (simp_all add: pending_inv_def)

lemma bqueue_inv_frame [simp]:
  "bqueue_inv (s\<lparr>bstored := x2\<rparr>) = bqueue_inv s"
  "bqueue_inv (s\<lparr>bdisturbed := x3\<rparr>) = bqueue_inv s"
  "bqueue_inv (s\<lparr>bstarted := x6\<rparr>) = bqueue_inv s"
  "bqueue_inv (s\<lparr>bclose_requested := x7\<rparr>) = bqueue_inv s"
  "bqueue_inv (s\<lparr>bpull_again := x8\<rparr>) = bqueue_inv s"
  "bqueue_inv (s\<lparr>bpulling := x9\<rparr>) = bqueue_inv s"
  "bqueue_inv (s\<lparr>pending_pull_intos := x10\<rparr>) = bqueue_inv s"
  "bqueue_inv (s\<lparr>byob_request := x11\<rparr>) = bqueue_inv s"
  "bqueue_inv (s\<lparr>byob_count := x12\<rparr>) = bqueue_inv s"
  "bqueue_inv (s\<lparr>bpromises := x14\<rparr>) = bqueue_inv s"
  "bqueue_inv (s\<lparr>bsource_calls := x15\<rparr>) = bqueue_inv s"
  "bqueue_inv (s\<lparr>bstart_pending := x16\<rparr>) = bqueue_inv s"
  "bqueue_inv (s\<lparr>bpull_pending := x17\<rparr>) = bqueue_inv s"
  "bqueue_inv (s\<lparr>bcancel_pending := x18\<rparr>) = bqueue_inv s"
  by (simp_all add: bqueue_inv_def)

section \<open>The operations\<close>

lemma bs_should_pull: "\<exists>b. ReadableByteStreamControllerShouldCallPull s = (Inr b, s) \<and> (b \<longrightarrow> bstate s = IsReadable \<and> bstarted s)"
  by (auto simp: ReadableByteStreamControllerShouldCallPull_def ReadableByteStreamControllerGetDesiredSize_def run_simps)

lemma bs_call_pull:
  assumes "b_inv s"
  shows "safe b_inv (ReadableByteStreamControllerCallPullIfNeeded s)"
proof -
  obtain b where b: "ReadableByteStreamControllerShouldCallPull s = (Inr b, s)" "b \<longrightarrow> bstarted s" using bs_should_pull by blast
  then show ?thesis using assms
    by (auto simp: ReadableByteStreamControllerCallPullIfNeeded_def run_simps b_inv_def bpull_inv_def)
qed

lemma bs_resolve_requests:
  "resolve_requests rs s = (Inr (), s\<lparr>bpromises := fold (\<lambda>i. settle i (Fulfilled AtEnd)) rs (bpromises s)\<rparr>)"
  by (induction rs arbitrary: s) (simp_all add: byte_simps)

lemma bs_reject_requests: "reject_requests rs e s = (if rs = [] then Inr () else Inl (Error TypeError), s)"
  by (cases rs) (simp_all add: request_kReject_def run_simps)

lemma bs_close:
  assumes "breaders_inv s" and "bstate s = IsReadable"
  obtains ps rs where "ReadableStreamCloseB s = (Inr (), s\<lparr>bstate := IsClosed, bpromises := ps, breaders := rs\<rparr>)"
    and "breaders_inv (s\<lparr>bstate := IsClosed, bpromises := ps, breaders := rs\<rparr>)"
    and "has_reader ByobKind (s\<lparr>bstate := IsClosed, bpromises := ps, breaders := rs\<rparr>) = has_reader ByobKind s"
    and "has_reader ByobKind s \<Longrightarrow> num_requests (s\<lparr>bstate := IsClosed, bpromises := ps, breaders := rs\<rparr>) = num_requests s"
proof (cases "breader s")
  case None
  then show thesis using assms that [where ps = "bpromises s" and rs = "breaders s"]
    by (simp add: ReadableStreamCloseB_def byte_simps breaders_inv_def reader_simps)
next
  case (Some r)
  let ?x = "breaders s ! r"
  let ?rs = "(breaders s)[r := ?x\<lparr>requests := (if kind ?x = DefaultKind then [] else requests ?x), bfns := False\<rparr>]"
  have "r < length (breaders s)" "bfns ?x" using assms Some by (simp_all add: breaders_inv_def)
  then show thesis using assms Some
    by (intro that [where rs = ?rs and ps = "settle (bclosed ?x) (Fulfilled NoResult)
          (if kind ?x = DefaultKind then fold (\<lambda>i. settle i (Fulfilled AtEnd)) (requests ?x) (bpromises s) else bpromises s)"])
      (auto simp: ReadableStreamCloseB_def byte_simps bs_resolve_requests clear_requests_def byteReaderClosedPromiseSettle_def
        breaders_inv_def nth_list_update has_reader_def num_requests_def)
qed

lemma bs_error:
  assumes "breaders_inv s" and "bstate s = IsReadable"
  obtains res ps rs where "ReadableStreamErrorB e s = (res, s\<lparr>bstate := IsErrored, bstored := e, bpromises := ps, breaders := rs\<rparr>)"
    and "res \<noteq> Inl (Error OtherError)"
    and "breaders_inv (s\<lparr>bstate := IsErrored, bstored := e, bpromises := ps, breaders := rs\<rparr>)"
proof (cases "breader s")
  case None
  then show thesis using assms that [where res = "Inr ()" and ps = "bpromises s" and rs = "breaders s"]
    by (simp add: ReadableStreamErrorB_def byte_simps breaders_inv_def)
next
  case (Some r)
  let ?x = "breaders s ! r"
  let ?rs = "(breaders s)[r := ?x\<lparr>requests := [], bfns := False\<rparr>]"
  have r: "r < length (breaders s)" "bfns ?x" using assms Some by (simp_all add: breaders_inv_def)
  show thesis
  proof (cases "requests ?x = []")
    case True
    then show thesis using r assms Some
      by (intro that [where res = "Inr ()" and ps = "settle (bclosed ?x) (Rejected e) (bpromises s)" and rs = ?rs])
        (auto simp: ReadableStreamErrorB_def byte_simps bs_reject_requests clear_requests_def byteReaderClosedPromiseSettle_def
          breaders_inv_def nth_list_update)
  next
    case False
    then show thesis using r assms Some
      by (intro that [where res = "Inl (Error TypeError)" and ps = "bpromises s" and rs = "breaders s"])
        (auto simp: ReadableStreamErrorB_def byte_simps bs_reject_requests breaders_inv_def)
  qed
qed

lemma bytes_ok_empty: "bqueue s = [] \<Longrightarrow> btotal s = 0 \<Longrightarrow> bytes_ok s"
  by (simp add: bytes_ok_def)

lemma bs_controller_error:
  assumes "b_inv s"
  shows "safe b_inv (ReadableByteStreamControllerError e s)"
proof (cases "bstate s = IsReadable")
  case True
  let ?t = "s\<lparr>byob_request := None, pending_pull_intos := [], bqueue := [], btotal := 0\<rparr>"
  have "breaders_inv ?t" "bstate ?t = IsReadable" using assms True by (simp_all add: b_inv_def breaders_inv_def)
  then obtain res ps rs where r: "ReadableStreamErrorB e ?t = (res, ?t\<lparr>bstate := IsErrored, bstored := e, bpromises := ps, breaders := rs\<rparr>)"
    "res \<noteq> Inl (Error OtherError)" "breaders_inv (?t\<lparr>bstate := IsErrored, bstored := e, bpromises := ps, breaders := rs\<rparr>)"
    using bs_error by metis
  then have "b_inv (?t\<lparr>bstate := IsErrored, bstored := e, bpromises := ps, breaders := rs\<rparr>)"
    using assms by (simp add: b_inv_def bpull_inv_def pending_inv_def bqueue_inv_def bytes_ok_empty)
  then show ?thesis using r True
    by (cases res) (simp_all add: ReadableByteStreamControllerError_def ReadableByteStreamControllerClearPendingPullIntos_def
      ReadableByteStreamControllerInvalidateBYOBRequest_def byte_ResetQueue_def run_simps)
qed (use assms in \<open>simp add: ReadableByteStreamControllerError_def run_simps\<close>)

text \<open>Taking the first descriptor and answering the first request ends in a \<open>TypeError\<close>.\<close>

lemma bs_commit:
  assumes "breader s = Some r" and "r < length (breaders s)" and "kind (breaders s ! r) = ByobKind" and "requests (breaders s ! r) \<noteq> []"
    and "preader d = ByobKind" and "pfilled d \<le> plength d" and "pfilled d mod pelement d = 0"
    and "bstate s = IsReadable \<or> bstate s = IsClosed \<and> pfilled d = 0"
  shows "ReadableByteStreamControllerCommitPullIntoDescriptor d s = (Inl (Error TypeError),
      s\<lparr>breaders := (breaders s)[r := (breaders s ! r)\<lparr>requests := tl (requests (breaders s ! r))\<rparr>]\<rparr>)"
  using assms
  by (auto simp: ReadableByteStreamControllerCommitPullIntoDescriptor_def ReadableByteStreamControllerConvertPullIntoDescriptor_def
      ReadableStreamFulfillReadIntoRequest_def fulfill_request_def request_kResolve_def byte_simps has_reader_def)

lemma pending_reader:
  assumes "b_inv s" and "pending_pull_intos s = d # ds"
  obtains r where "breader s = Some r" and "r < length (breaders s)" and "kind (breaders s ! r) = ByobKind"
    and "requests (breaders s ! r) \<noteq> []" and "length (requests (breaders s ! r)) = Suc (length ds)"
    and "bstate s = IsReadable \<or> bstate s = IsClosed" and "desc_ok d" and "preader d = ByobKind"
proof -
  from assms have "bstate s \<noteq> IsErrored" "has_reader ByobKind s" "num_requests s = Suc (length ds)"
    "desc_ok d" "preader d = ByobKind"
    by (auto simp: b_inv_def pending_inv_def split: if_splits)
  moreover from this obtain r where "breader s = Some r" "kind (breader_of s r) = ByobKind"
    by (auto simp: has_reader_def split: option.splits)
  moreover have "r < length (breaders s)" using assms(1) \<open>breader s = Some r\<close> by (simp add: b_inv_def breaders_inv_def)
  ultimately show thesis
    by (intro that [of r]) (auto simp: num_requests_def breader_of_def intro: readable_state.exhaust)
qed

lemma b_inv_pop:
  assumes "b_inv s" and "pending_pull_intos s = d # ds" and "breader s = Some r" and "list_all entry_ok q"
  shows "b_inv (s\<lparr>bqueue := q, btotal := length (queue_bytes q), pending_pull_intos := ds, byob_request := None,
      breaders := (breaders s)[r := (breaders s ! r)\<lparr>requests := tl (requests (breaders s ! r))\<rparr>]\<rparr>)" (is "b_inv ?t")
proof -
  obtain r' where r: "breader s = Some r'" "r' < length (breaders s)" "kind (breaders s ! r') = ByobKind"
    "length (requests (breaders s ! r')) = Suc (length ds)" "bstate s = IsReadable \<or> bstate s = IsClosed"
    using pending_reader [OF assms(1,2)] by blast
  have "r' = r" using r(1) assms(3) by simp
  note r = r [unfolded this]
  have "breaders_inv ?t" using assms(1) r by (auto simp: b_inv_def breaders_inv_def nth_list_update)
  moreover have "pending_inv ?t"
    using assms(1,2) r by (cases ds) (auto simp: b_inv_def pending_inv_def has_reader_def num_requests_def breader_of_def)
  moreover have "bqueue_inv ?t"
    using assms(1,4) r by (auto simp: b_inv_def bqueue_inv_def bytes_ok_def has_reader_def breader_of_def)
  moreover have "bpull_inv ?t" using assms(1) by (simp add: b_inv_def)
  ultimately show ?thesis by (simp add: b_inv_def)
qed

lemma bs_pop_commit:
  assumes "b_inv s" and "pending_pull_intos s = d # ds" and "list_all entry_ok q"
    and "preader d' = ByobKind" and "pfilled d' \<le> plength d'" and "pfilled d' mod pelement d' = 0"
    and "bstate s = IsReadable \<or> bstate s = IsClosed \<and> pfilled d' = 0"
  obtains t where "ReadableByteStreamControllerCommitPullIntoDescriptor d'
      (s\<lparr>bqueue := q, btotal := length (queue_bytes q), pending_pull_intos := ds, byob_request := None\<rparr>) = (Inl (Error TypeError), t)"
    and "b_inv t"
proof -
  obtain r where r: "breader s = Some r" "r < length (breaders s)" "kind (breaders s ! r) = ByobKind" "requests (breaders s ! r) \<noteq> []"
    using pending_reader [OF assms(1,2)] by blast
  show thesis
    by (rule that [OF _ b_inv_pop [OF assms(1,2) r(1) assms(3)]]) (use bs_commit [of _ r d'] r assms(4-7) in simp)
qed

lemma filled_ok:
  assumes "desc_ok d" and "0 < tot" and "length bs = fill_count d tot"
  shows "pfilled (filled_with bs d) \<le> plength (filled_with bs d)" and "preader (filled_with bs d) = preader d"
    and "fill_ready d tot \<Longrightarrow> pfilled (filled_with bs d) mod pelement (filled_with bs d) = 0"
    and "\<not> fill_ready d tot \<Longrightarrow> desc_ok (filled_with bs d)"
  using fill_count [OF assms(1,2)] assms(1,3) by (auto simp: filled_with_def desc_ok_def)

lemma bs_process:
  assumes "b_inv s" and "bstate s = IsReadable"
  shows "safe b_inv (process_loop s)"
proof (cases "pending_pull_intos s = [] \<or> btotal s = 0")
  case True
  then show ?thesis using assms(1) by (subst process_loop.simps) auto
next
  case False
  then obtain d ds where d: "pending_pull_intos s = d # ds" by (cases "pending_pull_intos s") auto
  have ok: "bytes_ok s" "desc_ok d" "preader d = ByobKind" "0 < btotal s"
    using assms(1) d False by (auto simp: b_inv_def pending_inv_def bqueue_inv_def)
  let ?k = "fill_count d (btotal s)"
  let ?d = "filled_with (take ?k (queue_bytes (bqueue s))) d"
  have k: "0 < ?k" "?k \<le> btotal s" using fill_count [OF ok(2,4)] by auto
  then have len: "length (take ?k (queue_bytes (bqueue s))) = ?k" using ok(1) by (simp add: bytes_ok_def)
  obtain q where f: "ReadableByteStreamControllerFillPullIntoDescriptorFromQueue True d s = (Inr (fill_ready d (btotal s), ?d),
         s\<lparr>bqueue := q, btotal := btotal s - ?k, byob_request := None, pending_pull_intos := ?d # ds\<rparr>)"
      and q: "list_all entry_ok q" "queue_bytes q = drop ?k (queue_bytes (bqueue s))"
    using fill_takes [OF ok(1,4,2), of True ds] d by auto
  have tot: "btotal s - ?k = length (queue_bytes q)" using q(2) ok(1) by (simp add: bytes_ok_def)
  note fo = filled_ok [OF ok(2,4) len]
  have step: "process_loop s = (case process_pass s of (Inl e, t) \<Rightarrow> (Inl e, t) | (Inr u, t) \<Rightarrow> process_loop t)"
    using False by (subst process_loop.simps) auto
  show ?thesis
  proof (cases "fill_ready d (btotal s)")
    case True
    obtain t where "ReadableByteStreamControllerCommitPullIntoDescriptor ?d
        (s\<lparr>bqueue := q, btotal := length (queue_bytes q), pending_pull_intos := ds, byob_request := None\<rparr>) = (Inl (Error TypeError), t)"
      and "b_inv t"
      using bs_pop_commit [OF assms(1) d q(1), of ?d] fo True ok(3) assms(2) by auto
    then have "process_pass s = (Inl (Error TypeError), t)"
      using f d True tot by (simp add: process_pass_def ReadableByteStreamControllerShiftPendingPullInto_def
          ReadableByteStreamControllerInvalidateBYOBRequest_def run_simps)
    then show ?thesis using step \<open>b_inv t\<close> by simp
  next
    case False
    let ?t = "s\<lparr>bqueue := q, btotal := btotal s - ?k, byob_request := None, pending_pull_intos := ?d # ds\<rparr>"
    have "b_inv ?t"
      using assms d fo False q(1) tot ok(3)
      by (auto simp: b_inv_def pending_inv_def bqueue_inv_def bytes_ok_def breaders_inv_def split: if_splits)
    moreover have "btotal ?t = 0" using False by (simp add: fill_count_def)
    moreover have "process_pass s = (Inr (), ?t)" using f d False by (simp add: process_pass_def run_simps)
    moreover have "process_loop ?t = (Inr (), ?t)" using \<open>btotal ?t = 0\<close> by (subst process_loop.simps) simp
    ultimately show ?thesis unfolding step by simp
  qed
qed

text \<open>Closing a stream whose descriptors hold no bytes keeps the invariant.\<close>

lemma bs_close_empty:
  assumes "b_inv s" and "bstate s = IsReadable" and "list_all (\<lambda>d. pfilled d = 0) (pending_pull_intos s)"
  obtains t where "ReadableStreamCloseB s = (Inr (), t)" and "b_inv t"
proof -
  have "breaders_inv s" using assms(1) by (simp add: b_inv_def)
  from bs_close [OF this assms(2)] obtain ps rs where
    c: "ReadableStreamCloseB s = (Inr (), s\<lparr>bstate := IsClosed, bpromises := ps, breaders := rs\<rparr>)"
      "breaders_inv (s\<lparr>bstate := IsClosed, bpromises := ps, breaders := rs\<rparr>)"
      "has_reader ByobKind (s\<lparr>bstate := IsClosed, bpromises := ps, breaders := rs\<rparr>) = has_reader ByobKind s"
      "has_reader ByobKind s \<Longrightarrow> num_requests (s\<lparr>bstate := IsClosed, bpromises := ps, breaders := rs\<rparr>) = num_requests s"
    by blast
  let ?t = "s\<lparr>bstate := IsClosed, bpromises := ps, breaders := rs\<rparr>"
  have "pending_inv ?t" using assms c(3,4) by (simp add: b_inv_def pending_inv_def)
  moreover have "bpull_inv ?t" "bqueue_inv ?t" using assms(1) by (simp_all add: b_inv_def bpull_inv_def bqueue_inv_def bytes_ok_def)
  ultimately show thesis using c(1,2) that by (simp add: b_inv_def)
qed

section \<open>What the source calls\<close>

text \<open>A source that writes into the first buffer, by a view or by bytes of its own.\<close>

lemma b_inv_head:
  assumes "b_inv s" and "pending_pull_intos s = d # ds" and "desc_ok d'" and "preader d' = ByobKind"
    and "bstate s = IsReadable \<or> pfilled d' = 0"
  shows "b_inv (s\<lparr>pending_pull_intos := d' # ds\<rparr>)" and "b_inv (s\<lparr>byob_request := None, pending_pull_intos := d' # ds\<rparr>)"
  using assms by (auto simp: b_inv_def pending_inv_def split: if_splits)

lemma swap_updates:
  "s\<lparr>pending_pull_intos := ds, byob_request := x, bqueue := q, btotal := n\<rparr>
     = s\<lparr>bqueue := q, btotal := n, pending_pull_intos := ds, byob_request := (x :: byob_view option)\<rparr>"
  by simp

lemma bs_respond_readable:
  assumes "b_inv s" and "pending_pull_intos s = d # ds" and "bstate s = IsReadable"
  shows "safe b_inv (ReadableByteStreamControllerRespondInReadableState n d s)"
proof (cases "plength d < pfilled d + n")
  case True
  then show ?thesis using assms(1) by (simp add: ReadableByteStreamControllerRespondInReadableState_def run_simps)
next
  case False
  let ?d = "d\<lparr>pfilled := pfilled d + n\<rparr>"
  let ?rem = "pfilled ?d mod pelement d"
  let ?bs = "take ?rem (drop (poffset d + pfilled ?d - ?rem) (pbuffer d))"
  let ?e = "\<lparr>ebuffer = ?bs, eoffset = 0, elength = ?rem\<rparr>"
  have d: "desc_ok d" "preader d = ByobKind" "bytes_ok s" using assms by (auto simp: b_inv_def pending_inv_def bqueue_inv_def)
  show ?thesis
  proof (cases "pfilled ?d < pelement d")
    case True
    have "desc_ok ?d" using d(1) True by (simp add: desc_ok_def)
    then have "b_inv (s\<lparr>byob_request := None, pending_pull_intos := ?d # ds\<rparr>)"
      using b_inv_head(2) [OF assms(1,2)] assms(3) d(2) by simp
    then show ?thesis using False True assms(2)
      by (simp add: ReadableByteStreamControllerRespondInReadableState_def ReadableByteStreamControllerFillHeadPullIntoDescriptor_def
          ReadableByteStreamControllerInvalidateBYOBRequest_def store_head_def run_simps)
  next
    case ready: False
    define q where "q = (if 0 < ?rem then bqueue s @ [?e] else bqueue s)"
    have "?rem \<le> pfilled ?d" by (rule mod_less_eq_dividend)
    moreover have "poffset d + pfilled ?d \<le> length (pbuffer d)" using d(1) False by (simp add: desc_ok_def)
    ultimately have "?rem \<le> length (pbuffer d) - (poffset d + pfilled ?d - ?rem)" by linarith
    then have len: "length ?bs = ?rem" by simp
    then have q: "list_all entry_ok q" "length (queue_bytes q) = (if 0 < ?rem then btotal s + ?rem else btotal s)"
      using d(3) by (auto simp: q_def bytes_ok_def entry_ok_def entry_bytes_def)
    let ?d' = "?d\<lparr>pfilled := pfilled ?d - ?rem\<rparr>"
    have m: "pfilled ?d' mod pelement ?d' = 0" by (simp add: minus_mod_eq_mult_div)
    have l: "preader ?d' = ByobKind" "pfilled ?d' \<le> plength ?d'" using False d(2) by simp_all
    obtain t where t: "ReadableByteStreamControllerCommitPullIntoDescriptor ?d'
      (s\<lparr>bqueue := q, btotal := length (queue_bytes q), pending_pull_intos := ds, byob_request := None\<rparr>) = (Inl (Error TypeError), t)"
      "b_inv t" by (rule bs_pop_commit [OF assms(1,2) q(1) l m]) (use assms(3) in blast)+
    have c: "ReadableByteStreamControllerCommitPullIntoDescriptor ?d' (s\<lparr>byob_request := None, pending_pull_intos := ds,
        byob_request := None, bqueue := q, btotal := (if 0 < ?rem then btotal s + ?rem else btotal s)\<rparr>) = (Inl (Error TypeError), t)"
      using t(1) unfolding q(2) by (simp add: swap_updates)
    have "s\<lparr>bqueue := bqueue s, btotal := btotal s\<rparr> = s" by simp
    then have "s\<lparr>byob_request := None, pending_pull_intos := ds, byob_request := None, bqueue := bqueue s, btotal := btotal s\<rparr>
        = s\<lparr>byob_request := None, pending_pull_intos := ds, byob_request := None\<rparr>" by simp
    then have "ReadableByteStreamControllerRespondInReadableState n d s = (Inl (Error TypeError), t)"
      using False ready assms(2) c
      by (cases "0 < ?rem") (simp_all add: ReadableByteStreamControllerRespondInReadableState_def
          ReadableByteStreamControllerFillHeadPullIntoDescriptor_def ReadableByteStreamControllerShiftPendingPullInto_def
          ReadableByteStreamControllerEnqueueChunkToQueue_def
          ReadableByteStreamControllerInvalidateBYOBRequest_def store_head_def run_simps q_def Let_def)
    then show ?thesis using t(2) by simp
  qed
qed

lemma bs_respond_closed:
  assumes "b_inv s" and "pending_pull_intos s = d # ds" and "bstate s = IsClosed"
  shows "safe b_inv (ReadableByteStreamControllerRespondInClosedState d s)"
proof -
  let ?s = "s\<lparr>byob_request := map_option (\<lambda>v. v\<lparr>request_detached := True\<rparr>) (byob_request s)\<rparr>"
  have i: "b_inv ?s" "pending_pull_intos ?s = d # ds" using assms by (auto simp: b_inv_def pending_inv_def)
  have d: "pfilled d = 0" "preader d = ByobKind" "bytes_ok s" "has_reader ByobKind s" "num_requests s = Suc (length ds)"
    using assms by (auto simp: b_inv_def pending_inv_def bqueue_inv_def split: if_splits)
  obtain t where "ReadableByteStreamControllerCommitPullIntoDescriptor d
      (?s\<lparr>bqueue := bqueue s, btotal := length (queue_bytes (bqueue s)), pending_pull_intos := ds, byob_request := None\<rparr>)
        = (Inl (Error TypeError), t)" "b_inv t"
    using bs_pop_commit [OF i, of "bqueue s" d] d assms(3) by (auto simp: bytes_ok_def)
  moreover have "?s\<lparr>bqueue := bqueue s, btotal := length (queue_bytes (bqueue s)), pending_pull_intos := ds, byob_request := None\<rparr>
     = s\<lparr>pending_pull_intos := ds, byob_request := None\<rparr>" using d(3) by (simp add: bytes_ok_def)
  ultimately have "ReadableByteStreamControllerRespondInClosedState d s = (Inl (Error TypeError), t)"
    using assms(2) d by (simp add: ReadableByteStreamControllerRespondInClosedState_def kind_simps run_simps
      ReadableByteStreamControllerShiftPendingPullInto_def ReadableByteStreamControllerInvalidateBYOBRequest_def)
  then show ?thesis using \<open>b_inv t\<close> by simp
qed

lemma bs_respond_internal:
  assumes "b_inv s" and "pending_pull_intos s \<noteq> []"
  shows "safe b_inv (ReadableByteStreamControllerRespondInternal n s)"
proof -
  obtain d ds where d: "pending_pull_intos s = d # ds" using assms(2) by (cases "pending_pull_intos s") auto
  have st: "bstate s = IsReadable \<or> bstate s = IsClosed" using pending_reader [OF assms(1) d] by blast
  have "safe b_inv (ifp (\<lambda>s. bstate s = IsClosed)
       (if n \<noteq> 0 then throw (Error TypeError) else ReadableByteStreamControllerRespondInClosedState d)
       (thenp (assertp (\<lambda>s. bstate s = IsReadable)) (ReadableByteStreamControllerRespondInReadableState n d)) s)"
    using st bs_respond_closed [OF assms(1) d] bs_respond_readable [OF assms(1) d] assms(1)
    by (auto simp: ifp_def throw_def step_simps)
  then have "safe b_inv (seqp [ifp (\<lambda>s. bstate s = IsClosed)
       (if n \<noteq> 0 then throw (Error TypeError) else ReadableByteStreamControllerRespondInClosedState d)
       (thenp (assertp (\<lambda>s. bstate s = IsReadable)) (ReadableByteStreamControllerRespondInReadableState n d)),
     ReadableByteStreamControllerCallPullIfNeeded] s)"
    unfolding seqp.simps by (rule safe_seq) (intro safe_ret_after bs_call_pull)
  then show ?thesis using d by (simp only: ReadableByteStreamControllerRespondInternal_def withp_def list.sel)
qed

lemma request_pending: "b_inv s \<Longrightarrow> map_option request_id (byob_request s) = Some i \<Longrightarrow> pending_pull_intos s \<noteq> []"
  by (auto simp: b_inv_def pending_inv_def)

lemma bs_respond:
  assumes "b_inv s"
  shows "safe b_inv (request_respond i n s)"
proof (cases "map_option request_id (byob_request s) = Some i")
  case True
  then have "pending_pull_intos s \<noteq> []" using request_pending [OF assms] by simp
  then show ?thesis using assms bs_respond_internal [OF assms]
    by (auto simp: request_respond_def request_check_def ReadableByteStreamControllerRespond_def withp_def throw_def step_simps)
qed (use assms in \<open>simp add: request_respond_def request_check_def withp_def throw_def\<close>)

lemma bs_respond_view:
  assumes "b_inv s" and "view_ok v"
  shows "safe b_inv (request_respondWithNewView i v s)"
proof (cases "map_option request_id (byob_request s) = Some i")
  case True
  then obtain d ds where d: "pending_pull_intos s = d # ds" using request_pending [OF assms(1)] by (cases "pending_pull_intos s") auto
  show ?thesis
  proof (cases "poffset d + pfilled d = voffset v \<and> plength d = vlength v")
    case match: True
    let ?s = "s\<lparr>pending_pull_intos := d\<lparr>pbuffer := vbuffer v\<rparr> # ds\<rparr>"
    have st: "bstate s = IsReadable \<or> bstate s = IsClosed" using pending_reader [OF assms(1) d] by blast
    have "desc_ok d" "preader d = ByobKind" "bstate s = IsReadable \<or> pfilled d = 0"
      using st assms(1) d by (auto simp: b_inv_def pending_inv_def)
    then have "b_inv ?s" using assms(2) match by (intro b_inv_head(1) [OF assms(1) d]) (auto simp: view_ok_def desc_ok_def)
    then have "safe b_inv (ReadableByteStreamControllerRespondInternal (vlength v) ?s)" by (rule bs_respond_internal) simp
    then show ?thesis using True d match
      by (auto simp: request_respondWithNewView_def request_check_def ReadableByteStreamControllerRespondWithNewView_def
          withp_def step_simps store_head_def)
  qed (use True d assms(1) in \<open>auto simp: request_respondWithNewView_def request_check_def
      ReadableByteStreamControllerRespondWithNewView_def withp_def step_simps throw_def\<close>)
qed (use assms in \<open>simp add: request_respondWithNewView_def request_check_def withp_def throw_def\<close>)

lemma bs_request: "b_inv s \<Longrightarrow> safe b_inv (byobRequest s)"
  by (auto simp: byobRequest_def run_simps b_inv_def pending_inv_def)

lemma bs_source_close:
  assumes "b_inv s"
  shows "safe b_inv (byte_close s)"
proof (cases "bclose_requested s \<or> bstate s \<noteq> IsReadable")
  case False
  note open_ = this
  show ?thesis
  proof (cases "0 < btotal s")
    case True
    then have "b_inv (s\<lparr>bclose_requested := True\<rparr>)" using assms by (simp add: b_inv_def)
    then show ?thesis using True False by (simp add: byte_close_def ReadableByteStreamControllerClose_def run_simps)
  next
    case False
    show ?thesis
    proof (cases "pending_pull_intos s \<noteq> [] \<and> 0 < pfilled (hd (pending_pull_intos s))")
      case True
      have "safe b_inv (thenp (ReadableByteStreamControllerError (Error TypeError)) (throw (Error TypeError)) s)"
        by (rule safe_seq [where p = "ReadableByteStreamControllerError (Error TypeError)", OF bs_controller_error [OF assms]])
          (simp add: throw_def)
      then show ?thesis using True False open_
        by (simp add: byte_close_def ReadableByteStreamControllerClose_def ifp_def step_simps)
    next
      case filled: False
      have "list_all (\<lambda>d. pfilled d = 0) (pending_pull_intos s)"
        using assms filled by (cases "pending_pull_intos s") (auto simp: b_inv_def pending_inv_def)
      then obtain t where "ReadableStreamCloseB s = (Inr (), t)" "b_inv t" using bs_close_empty [OF assms] open_ by auto
      then show ?thesis using filled False open_
        by (auto simp: byte_close_def ReadableByteStreamControllerClose_def run_simps)
    qed
  qed
qed (use assms in \<open>auto simp: byte_close_def run_simps\<close>)

lemma reader_kind_cases: "breader s \<noteq> None \<Longrightarrow> has_reader DefaultKind s \<or> has_reader ByobKind s"
  by (auto simp: has_reader_def intro: reader_kind.exhaust)

lemma reader_kinds: "has_reader DefaultKind s \<Longrightarrow> \<not> has_reader ByobKind s"
  by (auto simp: has_reader_def split: option.splits)

text \<open>A default reader that waits is answered by throwing.\<close>

lemma bs_fulfill_default:
  assumes "b_inv s" and "bstate s = IsReadable" and "has_reader DefaultKind s" and "0 < num_requests s"
  shows "safe b_inv (ReadableStreamFulfillReadRequestB v False s)"
proof -
  obtain r where r: "breader s = Some r" "kind (breader_of s r) = DefaultKind" using assms(3) by (auto simp: has_reader_def split: option.splits)
  then have "r < length (breaders s)" using assms(1) by (simp add: b_inv_def breaders_inv_def)
  let ?t = "s\<lparr>breaders := (breaders s)[r := (breaders s ! r)\<lparr>requests := tl (requests (breaders s ! r))\<rparr>]\<rparr>"
  have "breaders_inv ?t" using assms(1,2) r(1) \<open>r < _\<close> by (auto simp: b_inv_def breaders_inv_def nth_list_update)
  moreover have "\<not> has_reader ByobKind ?t" using r \<open>r < _\<close> by (simp add: has_reader_def breader_of_def)
  then have "pending_inv ?t" using assms(1-3) reader_kinds by (auto simp: b_inv_def pending_inv_def)
  moreover have "bqueue_inv ?t" using assms by (auto simp: b_inv_def bqueue_inv_def bytes_ok_def)
  ultimately have "b_inv ?t" using assms(1) by (simp add: b_inv_def)
  then show ?thesis using r \<open>r < _\<close> assms(3,4)
    by (auto simp: ReadableStreamFulfillReadRequestB_def fulfill_request_def request_kResolve_def byte_simps num_requests_def)
qed

definition chunk_entry :: "bview \<Rightarrow> queue_entry" where
  "chunk_entry v = \<lparr>ebuffer = vbuffer v, eoffset = voffset v, elength = vlength v\<rparr>"

lemma b_inv_push:
  assumes "b_inv s" and "view_ok v" and "0 < vlength v" and "has_reader DefaultKind s \<longrightarrow> num_requests s = 0"
  shows "b_inv (s\<lparr>bqueue := bqueue s @ [chunk_entry v], btotal := btotal s + vlength v\<rparr>)"
proof -
  have e: "entry_ok (chunk_entry v)" "elength (chunk_entry v) = vlength v"
    using assms(2,3) by (auto simp: chunk_entry_def entry_ok_def view_ok_def)
  then have "length (entry_bytes (chunk_entry v)) = vlength v" by simp
  then show ?thesis using assms(1,4) e(1) by (simp add: b_inv_def bqueue_inv_def bytes_ok_def)
qed

lemma bs_enqueue:
  assumes "b_inv s" and "view_ok v" and "0 < vlength v"
  shows "safe b_inv (byte_enqueue v s)"
proof (cases "bclose_requested s \<or> bstate s \<noteq> IsReadable")
  case False
  let ?q = "ReadableByteStreamControllerEnqueueChunkToQueue (vbuffer v) (voffset v) (vlength v)"
  let ?t = "s\<lparr>bqueue := bqueue s @ [chunk_entry v], btotal := btotal s + vlength v\<rparr>"
  have q: "?q = modify (\<lambda>s. s\<lparr>bqueue := bqueue s @ [chunk_entry v], btotal := btotal s + vlength v\<rparr>)"
    by (simp add: ReadableByteStreamControllerEnqueueChunkToQueue_def chunk_entry_def)
  let ?body = "ifp ReadableStreamHasDefaultReader
         (ifp (\<lambda>s. num_requests s = 0) ?q
           (thenp (assertp (\<lambda>s. bqueue s = [])) (ReadableStreamFulfillReadRequestB (v\<lparr>velement := 1\<rparr>) False)))
       (ifp ReadableStreamHasBYOBReader
         (thenp ?q ReadableByteStreamControllerProcessPullIntoDescriptorsUsingQueue)
         (thenp (assertp (\<lambda>s. breader s = None)) ?q))"
  have "safe b_inv (?body s)"
  proof (cases "has_reader DefaultKind s")
    case True
    note default = this
    show ?thesis
    proof (cases "num_requests s = 0")
      case True
      then show ?thesis using default b_inv_push [OF assms] by (simp add: kind_simps q ifp_def modify_def)
    next
      case waits: False
      then have "bqueue s = []"
        using assms(1) default False queue_bytes_Nil [of "bqueue s"] by (auto simp: b_inv_def bqueue_inv_def bytes_ok_def)
      then show ?thesis using default waits bs_fulfill_default [OF assms(1) _ default] False
        by (simp add: kind_simps ifp_def step_simps)
    qed
  next
    case not_default: False
    then have t: "b_inv ?t" using b_inv_push [OF assms] by simp
    show ?thesis
    proof (cases "has_reader ByobKind s")
      case True
      then show ?thesis using not_default bs_process [OF t] False
        by (simp add: kind_simps q ifp_def step_simps ReadableByteStreamControllerProcessPullIntoDescriptorsUsingQueue_def)
    next
      case no_byob: False
      then have "breader s = None" using reader_kind_cases not_default by blast
      then show ?thesis using not_default no_byob t
        by (simp add: kind_simps q ifp_def step_simps modify_def)
    qed
  qed
  then have "safe b_inv (thenp ?body (thenp ReadableByteStreamControllerCallPullIfNeeded (ret ())) s)"
    by (rule safe_seq [where p = ?body]) (intro safe_ret_after bs_call_pull)
  then show ?thesis using False
    by (simp add: byte_enqueue_def ReadableByteStreamControllerEnqueue_def Let_def step_simps ifp_def [of bclose_requested]
        ifp_def [of "\<lambda>s. bstate s \<noteq> IsReadable"])
qed (use assms in \<open>auto simp: byte_enqueue_def run_simps\<close>)

lemma bs_drain:
  assumes "b_inv s" and "bstate s = IsReadable" and "pending_pull_intos s = []"
  shows "safe b_inv (ReadableByteStreamControllerHandleQueueDrain s)"
proof (cases "btotal s = 0 \<and> bclose_requested s")
  case True
  obtain t where "ReadableStreamCloseB s = (Inr (), t)" "b_inv t" using bs_close_empty [OF assms(1,2)] assms(3) by auto
  then show ?thesis using True assms(2)
    by (simp add: ReadableByteStreamControllerHandleQueueDrain_def step_simps ifp_def)
next
  case False
  then show ?thesis using bs_call_pull [OF assms(1)] assms(2)
    by (auto simp: ReadableByteStreamControllerHandleQueueDrain_def step_simps ifp_def)
qed

lemma bs_promise: "b_inv s \<Longrightarrow> safe b_inv (byte_promise v s)"
  by (simp add: byte_promise_def b_inv_def)

section \<open>Readers\<close>

lemma default_no_pending:
  assumes "b_inv s" and "has_reader DefaultKind s"
  shows "pending_pull_intos s = []"
  using assms reader_kinds [OF assms(2)] by (auto simp: b_inv_def pending_inv_def split: if_splits)

text \<open>A request of the reader, and for a reader into buffers the descriptor that goes with it.\<close>

lemma b_inv_wait:
  assumes "b_inv s" and "breader s = Some r" and "bstate s \<noteq> IsErrored" and "length ds = (if kind (breaders s ! r) = ByobKind then Suc 0 else 0)"
    and "list_all (\<lambda>d. desc_ok d \<and> preader d = ByobKind \<and> (pending_pull_intos s \<noteq> [] \<or> bstate s = IsClosed \<longrightarrow> pfilled d = 0)) ds"
    and "kind (breaders s ! r) = DefaultKind \<longrightarrow> btotal s = 0"
  shows "b_inv (s\<lparr>pending_pull_intos := pending_pull_intos s @ ds, bpromises := ps,
      breaders := (breaders s)[r := (breaders s ! r)\<lparr>requests := requests (breaders s ! r) @ [p]\<rparr>]\<rparr>)" (is "b_inv ?t")
proof -
  have r: "r < length (breaders s)" using assms(1,2) by (simp add: b_inv_def breaders_inv_def)
  have "breaders_inv ?t" using assms(1-3) r by (auto simp: b_inv_def breaders_inv_def nth_list_update)
  moreover have "pending_inv ?t"
  proof (cases "kind (breaders s ! r) = ByobKind")
    case True
    then obtain d where "ds = [d]" using assms(4) by (auto simp: length_Suc_conv)
    then show ?thesis using assms(1-3,5) True r
      by (cases "pending_pull_intos s") (auto simp: b_inv_def pending_inv_def has_reader_def num_requests_def breader_of_def)
  next
    case False
    then show ?thesis using assms(1-4) r
      by (auto simp: b_inv_def pending_inv_def has_reader_def num_requests_def breader_of_def)
  qed
  moreover have "bqueue_inv ?t" using assms(1,2,6) r
    by (auto simp: b_inv_def bqueue_inv_def bytes_ok_def has_reader_def breader_of_def)
  moreover have "bpull_inv ?t" using assms(1) by (simp add: b_inv_def)
  ultimately show ?thesis by (simp add: b_inv_def)
qed

lemma bs_push_request:
  "push_request s = (Inr (length (bpromises s)), s\<lparr>bpromises := bpromises s @ [Pending],
      breaders := (breaders s)[the (breader s) := (breaders s ! the (breader s))
        \<lparr>requests := requests (breaders s ! the (breader s)) @ [length (bpromises s)]\<rparr>]\<rparr>)"
  by (simp add: push_request_def byte_simps)

lemma bs_no_allocation:
  "auto_allocate s = None \<Longrightarrow> thenp (withp auto_allocate (\<lambda>a. case a of None \<Rightarrow> ret () | Some n \<Rightarrow> f n)) p s = p s"
  by (simp add: run_simps)

lemma bs_pull_steps:
  assumes "b_inv s" and "bstate s = IsReadable" and "has_reader DefaultKind s"
  shows "safe b_inv (byte_PullSteps s)"
proof -
  have p: "pending_pull_intos s = []" using default_no_pending [OF assms(1,3)] .
  obtain r where r: "breader s = Some r" "kind (breader_of s r) = DefaultKind" using assms(3) by (auto simp: has_reader_def split: option.splits)
  then have rl: "r < length (breaders s)" using assms(1) by (simp add: b_inv_def breaders_inv_def)
  show ?thesis
  proof (cases "0 < btotal s")
    case True
    then obtain h q where q: "bqueue s = h # q" using assms(1) by (cases "bqueue s") (auto simp: b_inv_def bqueue_inv_def bytes_ok_def)
    have n: "num_requests s = 0" using assms True by (auto simp: b_inv_def bqueue_inv_def)
    let ?t = "s\<lparr>bqueue := q, btotal := btotal s - elength h\<rparr>"
    have t: "b_inv ?t" using assms(1) q n by (simp add: b_inv_def bqueue_inv_def bytes_ok_def)
    have "safe b_inv (thenp ReadableByteStreamControllerHandleQueueDrain
       (byte_promise (Fulfilled (Filled \<lparr>vbuffer = ebuffer h, voffset = eoffset h, vlength = elength h, velement = 1\<rparr>))) ?t)"
      by (rule safe_seq [where p = ReadableByteStreamControllerHandleQueueDrain and I = b_inv])
        (use bs_drain [OF t] bs_promise p assms(2) in simp_all)
    then show ?thesis using True n q assms(3)
      by (simp add: byte_PullSteps_def kind_simps step_simps ifp_def withp_def)
  next
    case False
    let ?t = "s\<lparr>pending_pull_intos := pending_pull_intos s @ [], bpromises := bpromises s @ [Pending],
      breaders := (breaders s)[r := (breaders s ! r)\<lparr>requests := requests (breaders s ! r) @ [length (bpromises s)]\<rparr>]\<rparr>"
    have "b_inv ?t" by (rule b_inv_wait) (use assms r rl False in \<open>auto simp: breader_of_def\<close>)
    then have "b_inv (s\<lparr>bpromises := bpromises s @ [Pending],
      breaders := (breaders s)[r := (breaders s ! r)\<lparr>requests := requests (breaders s ! r) @ [length (bpromises s)]\<rparr>]\<rparr>)" by simp
    then have "safe b_inv (thenp ReadableByteStreamControllerCallPullIfNeeded (ret (length (bpromises s)))
      (s\<lparr>bpromises := bpromises s @ [Pending],
      breaders := (breaders s)[r := (breaders s ! r)\<lparr>requests := requests (breaders s ! r) @ [length (bpromises s)]\<rparr>]\<rparr>))"
      by (intro safe_ret_after bs_call_pull)
    moreover have "auto_allocate s = None" using assms(1) by (simp add: b_inv_def bqueue_inv_def)
    ultimately show ?thesis using False assms(2,3) r(1)
      by (simp add: byte_PullSteps_def ReadableStreamAddReadRequestB_def kind_simps step_simps ifp_def bs_no_allocation bindp_def bs_push_request)
  qed
qed

definition byob_desc :: "bview \<Rightarrow> pull_into" where
  "byob_desc v = \<lparr>pbuffer = vbuffer v, poffset = voffset v, plength = vlength v, pfilled = 0, pelement = velement v, preader = ByobKind\<rparr>"

lemma byob_desc_ok: "view_ok v \<Longrightarrow> 0 < vlength v \<Longrightarrow> desc_ok (byob_desc v) \<and> preader (byob_desc v) = ByobKind \<and> pfilled (byob_desc v) = 0"
  by (simp add: byob_desc_def desc_ok_def view_ok_def)

lemma bs_wait:
  assumes "b_inv s" and "has_reader ByobKind s" and "bstate s \<noteq> IsErrored" and "desc_ok d" and "preader d = ByobKind"
    and "pending_pull_intos s \<noteq> [] \<or> bstate s = IsClosed \<longrightarrow> pfilled d = 0"
  shows "safe b_inv (thenp (push_pull_into d) ReadableStreamAddReadIntoRequest s)"
    and "safe b_inv (thenp (push_pull_into d) (bindp ReadableStreamAddReadIntoRequest (\<lambda>p.
      thenp ReadableByteStreamControllerCallPullIfNeeded (ret p))) s)"
proof -
  obtain r where r: "breader s = Some r" "kind (breader_of s r) = ByobKind" using assms(2) by (auto simp: has_reader_def split: option.splits)
  then have rl: "r < length (breaders s)" using assms(1) by (simp add: b_inv_def breaders_inv_def)
  let ?t = "s\<lparr>pending_pull_intos := pending_pull_intos s @ [d], bpromises := bpromises s @ [Pending],
      breaders := (breaders s)[r := (breaders s ! r)\<lparr>requests := requests (breaders s ! r) @ [length (bpromises s)]\<rparr>]\<rparr>"
  have t: "b_inv ?t" by (rule b_inv_wait) (use assms r rl in \<open>auto simp: breader_of_def\<close>)
  have "bstate s = IsReadable \<or> bstate s = IsClosed" using assms(3) by (cases "bstate s") auto
  then have a: "ReadableStreamAddReadIntoRequest (s\<lparr>pending_pull_intos := pending_pull_intos s @ [d]\<rparr>) = (Inr (length (bpromises s)), ?t)"
    using assms(2) r(1) by (simp add: ReadableStreamAddReadIntoRequest_def kind_simps step_simps bs_push_request)
  show "safe b_inv (thenp (push_pull_into d) ReadableStreamAddReadIntoRequest s)"
    using a t by (simp add: push_pull_into_def step_simps)
  have "safe b_inv (thenp ReadableByteStreamControllerCallPullIfNeeded (ret (length (bpromises s))) ?t)"
    by (intro safe_ret_after bs_call_pull t)
  then show "safe b_inv (thenp (push_pull_into d) (bindp ReadableStreamAddReadIntoRequest (\<lambda>p.
      thenp ReadableByteStreamControllerCallPullIfNeeded (ret p))) s)"
    using a by (simp add: push_pull_into_def step_simps bindp_def)
qed

text \<open>What \<open>PullInto\<close> does with the bytes there are: it fills as many elements of the view as it can.\<close>

lemma pull_into_fill:
  assumes "b_inv s" and "pending_pull_intos s = []" and "0 < btotal s" and "view_ok v" and "0 < vlength v"
  defines "k \<equiv> fill_count (byob_desc v) (btotal s)"
  defines "d \<equiv> filled_with (take k (queue_bytes (bqueue s))) (byob_desc v)"
  obtains q where "ReadableByteStreamControllerFillPullIntoDescriptorFromQueue False (byob_desc v) s =
        (Inr (velement v \<le> btotal s, d), s\<lparr>bqueue := q, btotal := btotal s - k, byob_request := None, pending_pull_intos := []\<rparr>)"
    and "list_all entry_ok q" and "queue_bytes q = drop k (queue_bytes (bqueue s))"
    and "b_inv (s\<lparr>bqueue := q, btotal := btotal s - k, byob_request := None, pending_pull_intos := []\<rparr>)"
    and "preader d = ByobKind" and "velement v \<le> btotal s \<Longrightarrow> pfilled d \<le> plength d \<and> pfilled d mod pelement d = 0"
    and "\<not> velement v \<le> btotal s \<Longrightarrow> desc_ok d \<and> btotal s - k = 0" and "length (take k (queue_bytes (bqueue s))) = k"
proof -
  have ok: "bytes_ok s" "desc_ok (byob_desc v)" using assms(1) byob_desc_ok [OF assms(4,5)] by (auto simp: b_inv_def bqueue_inv_def)
  have r: "fill_ready (byob_desc v) (btotal s) = (velement v \<le> btotal s)" by (simp add: fill_ready_def byob_desc_def)
  have len: "length (take k (queue_bytes (bqueue s))) = k"
    using fill_count(2) [OF ok(2) assms(3)] ok(1) by (simp add: k_def bytes_ok_def)
  note fo = filled_ok [OF ok(2) assms(3) len [unfolded k_def]]
  obtain q where q: "ReadableByteStreamControllerFillPullIntoDescriptorFromQueue False (byob_desc v) s =
        (Inr (velement v \<le> btotal s, d), s\<lparr>bqueue := q, btotal := btotal s - k, byob_request := None, pending_pull_intos := []\<rparr>)"
    "list_all entry_ok q" "queue_bytes q = drop k (queue_bytes (bqueue s))"
    using fill_takes [OF ok(1) assms(3) ok(2), of False "[]"] assms(2) unfolding r d_def k_def by auto
  have "b_inv (s\<lparr>bqueue := q, btotal := btotal s - k, byob_request := None, pending_pull_intos := []\<rparr>)"
    using assms(1,2) q(2,3) ok(1) by (auto simp: b_inv_def pending_inv_def bqueue_inv_def bytes_ok_def)
  moreover have "btotal s - k = 0" if "\<not> velement v \<le> btotal s" using that r by (simp add: k_def fill_count_def)
  moreover have "preader d = ByobKind" "velement v \<le> btotal s \<Longrightarrow> pfilled d \<le> plength d \<and> pfilled d mod pelement d = 0"
    "\<not> velement v \<le> btotal s \<Longrightarrow> desc_ok d"
    using fo byob_desc_ok [OF assms(4,5)] unfolding r d_def k_def by simp_all
  ultimately show thesis using q len by (intro that [of q]) simp_all
qed

lemma bs_pull_into:
  assumes "b_inv s" and "bstate s \<noteq> IsErrored" and "has_reader ByobKind s" and "view_ok v" and "0 < vlength v"
  shows "safe b_inv (ReadableByteStreamControllerPullInto v s)"
proof -
  note d = byob_desc_ok [OF assms(4,5)]
  note wait = bs_wait [OF assms(1,3,2), of "byob_desc v"]
  note pull = ReadableByteStreamControllerPullInto_def [folded byob_desc_def, unfolded Let_def]
  show ?thesis
  proof (cases "pending_pull_intos s = [] \<and> bstate s \<noteq> IsClosed \<and> 0 < btotal s")
    case False
    then show ?thesis using wait d bs_promise [OF assms(1)] by (auto simp: pull ifp_def)
  next
    case True
    then have open_: "bstate s = IsReadable" using assms(2) by (cases "bstate s") auto
    define k where "k = fill_count (byob_desc v) (btotal s)"
    define dn where "dn = filled_with (take k (queue_bytes (bqueue s))) (byob_desc v)"
    obtain q where q: "ReadableByteStreamControllerFillPullIntoDescriptorFromQueue False (byob_desc v) s =
        (Inr (velement v \<le> btotal s, dn), s\<lparr>bqueue := q, btotal := btotal s - k, byob_request := None, pending_pull_intos := []\<rparr>)"
      and t: "b_inv (s\<lparr>bqueue := q, btotal := btotal s - k, byob_request := None, pending_pull_intos := []\<rparr>)" (is "b_inv ?t")
      and f: "preader dn = ByobKind" "velement v \<le> btotal s \<Longrightarrow> pfilled dn \<le> plength dn \<and> pfilled dn mod pelement dn = 0"
        "\<not> velement v \<le> btotal s \<Longrightarrow> desc_ok dn"
      using pull_into_fill [OF assms(1) _ _ assms(4,5)] True unfolding k_def dn_def by metis
    show ?thesis
    proof (cases "velement v \<le> btotal s")
      case ready: True
      have "safe b_inv (thenp ReadableByteStreamControllerHandleQueueDrain (byte_promise x) ?t)" for x
        by (rule safe_seq [where p = ReadableByteStreamControllerHandleQueueDrain and I = b_inv])
          (use bs_drain [OF t] bs_promise open_ in simp_all)
      then show ?thesis using True q ready f(2)
        by (simp add: pull ifp_def bindp_def ReadableByteStreamControllerConvertPullIntoDescriptor_def step_simps ret_def)
    next
      case short: False
      have w: "safe b_inv (thenp (push_pull_into dn) (bindp ReadableStreamAddReadIntoRequest (\<lambda>p.
          thenp ReadableByteStreamControllerCallPullIfNeeded (ret p))) ?t)"
        by (rule bs_wait(2) [OF t]) (use assms(3) open_ f short in simp_all)
      have "safe b_inv (thenp (ReadableByteStreamControllerError (Error TypeError)) (byte_promise x) ?t)" for x
        by (rule safe_seq [where p = "ReadableByteStreamControllerError (Error TypeError)" and I = b_inv])
          (use bs_controller_error [OF t] bs_promise in simp_all)
      then show ?thesis using True q short w by (auto simp: pull ifp_def bindp_def)
    qed
  qed
qed

lemma b_inv_settings: "b_inv u \<Longrightarrow> b_inv (u\<lparr>bsource_calls := c, bpromises := ps, bcancel_pending := x\<rparr>)"
  by (simp add: b_inv_def)

lemma bs_cancel:
  assumes "b_inv s"
  shows "safe b_inv (ReadableStreamCancelB e s)"
proof (cases "bstate s = IsReadable")
  case True
  let ?s = "s\<lparr>bdisturbed := True\<rparr>"
  have "breaders_inv ?s" "bstate ?s = IsReadable" using assms True by (simp_all add: b_inv_def)
  from bs_close [OF this] obtain ps rs where
    c: "ReadableStreamCloseB ?s = (Inr (), ?s\<lparr>bstate := IsClosed, bpromises := ps, breaders := rs\<rparr>)"
      "breaders_inv (?s\<lparr>bstate := IsClosed, bpromises := ps, breaders := rs\<rparr>)"
      "has_reader ByobKind (?s\<lparr>bstate := IsClosed, bpromises := ps, breaders := rs\<rparr>) = has_reader ByobKind ?s"
      "has_reader ByobKind ?s \<Longrightarrow> num_requests (?s\<lparr>bstate := IsClosed, bpromises := ps, breaders := rs\<rparr>) = num_requests ?s"
    by blast
  let ?t = "?s\<lparr>bstate := IsClosed, bpromises := ps, breaders := rs\<rparr>"
  let ?ds = "case pending_pull_intos s of [] \<Rightarrow> [] | d # ds \<Rightarrow> d\<lparr>pfilled := 0\<rparr> # ds"
  let ?u = "?t\<lparr>pending_pull_intos := ?ds, bqueue := [], btotal := 0\<rparr>"
  have "pending_inv ?u" using assms True c(3,4)
    by (auto simp: b_inv_def pending_inv_def desc_ok_def split: list.split)
  moreover have "bpull_inv ?u" "bqueue_inv ?u" using assms by (simp_all add: b_inv_def bpull_inv_def bqueue_inv_def bytes_ok_def)
  ultimately have u: "b_inv ?u" using c(2) by (simp add: b_inv_def)
  have "byte_ResetQueue (case pending_pull_intos ?t of [] \<Rightarrow> ?t | d # ds \<Rightarrow> ?t\<lparr>pending_pull_intos := d\<lparr>pfilled := 0\<rparr> # ds\<rparr>) = ?u"
    by (cases "pending_pull_intos s") (simp_all add: byte_ResetQueue_def)
  then have e: "ReadableStreamCancelB e s = (Inr (length ps), ?u\<lparr>bsource_calls := bsource_calls s @ [SourceCancel e],
      bpromises := ps @ [Pending], bcancel_pending := Some (length ps)\<rparr>)"
    using True c(1) by (simp add: ReadableStreamCancelB_def byte_CancelSteps_def step_simps ifp_def thenp_def [of ReadableStreamCloseB]
      bindp_def byte_promise_def ret_def)
  show ?thesis unfolding e safe_Inr by (rule b_inv_settings [OF u])
next
  case False
  have "b_inv (s\<lparr>bdisturbed := True\<rparr>)" using assms by (simp add: b_inv_def)
  then show ?thesis using False bs_promise
    by (cases "bstate s") (simp_all add: ReadableStreamCancelB_def step_simps ifp_def withp_def)
qed

lemma breader_owner:
  assumes "b_inv s" and "r < length (breaders s)" and "owns_stream (breader_of s r)"
  shows "breader s = Some r"
  using assms by (auto simp: b_inv_def breaders_inv_def breader_of_def)

lemma bs_if_owner:
  assumes "b_inv s" and "r < length (breaders s)" and "breader s = Some r \<Longrightarrow> owns_stream (breader_of s r) \<Longrightarrow> safe b_inv (p s)"
  shows "safe b_inv (if_owner r p s)"
  using assms breader_owner bs_promise by (auto simp: if_owner_def ifp_def)

lemma bs_read:
  assumes "b_inv s" and "r < length (breaders s)" and "kind (breaders s ! r) = DefaultKind"
  shows "safe b_inv (byte_read r s)"
  unfolding byte_read_def
proof (rule bs_if_owner [OF assms(1,2)])
  assume r: "breader s = Some r" "owns_stream (breader_of s r)"
  let ?s = "s\<lparr>bdisturbed := True\<rparr>"
  have i: "b_inv ?s" using assms(1) by (simp add: b_inv_def)
  have k: "has_reader DefaultKind ?s" using r(1) assms(2,3) by (simp add: has_reader_def breader_of_def)
  show "safe b_inv (ReadableStreamDefaultReaderReadB r s)"
    using r(2) bs_promise [OF i] bs_pull_steps [OF i _ k]
    by (cases "bstate s") (simp_all add: ReadableStreamDefaultReaderReadB_def step_simps ifp_def withp_def)
qed

lemma bs_read_into:
  assumes "b_inv s" and "r < length (breaders s)" and "kind (breaders s ! r) = ByobKind" and "view_ok v"
  shows "safe b_inv (byob_read r v s)"
  unfolding byob_read_def
proof (rule bs_if_owner [OF assms(1,2)])
  assume r: "breader s = Some r" "owns_stream (breader_of s r)"
  let ?s = "s\<lparr>bdisturbed := True\<rparr>"
  have i: "b_inv ?s" using assms(1) by (simp add: b_inv_def)
  have k: "has_reader ByobKind ?s" using r(1) assms(2,3) by (simp add: has_reader_def breader_of_def)
  show "safe b_inv ((if vlength v = 0 then byte_promise (Rejected (Error TypeError)) else ReadableStreamBYOBReaderRead r v) s)"
    using r(2) bs_promise [OF i] bs_promise [OF assms(1)] bs_pull_into [OF i _ k assms(4)]
    by (auto simp: ReadableStreamBYOBReaderRead_def step_simps ifp_def withp_def)
qed

lemma bs_cancels:
  assumes "b_inv s"
  shows "r < length (breaders s) \<Longrightarrow> safe b_inv (byte_cancel r e s)" and "safe b_inv (byte_stream_cancel e s)"
proof -
  show "safe b_inv (byte_cancel r e s)" if "r < length (breaders s)"
    unfolding byte_cancel_def by (rule bs_if_owner [OF assms that]) (use bs_cancel [OF assms] in \<open>simp add: step_simps\<close>)
  show "safe b_inv (byte_stream_cancel e s)"
    using bs_cancel [OF assms] bs_promise [OF assms] by (simp add: byte_stream_cancel_def ifp_def)
qed

lemma bs_get_reader:
  assumes "b_inv s"
  shows "safe b_inv (new_byte_reader k s)"
proof (cases "breader s")
  case None
  have p: "pending_pull_intos s = []" "byob_request s = None"
    using assms None by (auto simp: b_inv_def pending_inv_def has_reader_def split: if_splits)
  define x where "x = \<lparr>kind = k, owns_stream = True, bclosed = length (bpromises s), bfns = (bstate s = IsReadable), requests = []\<rparr>"
  define v where "v = (case bstate s of IsReadable \<Rightarrow> Pending | IsClosed \<Rightarrow> Fulfilled NoResult | IsErrored \<Rightarrow> Rejected (bstored s))"
  let ?t = "s\<lparr>breader := Some (length (breaders s)), bpromises := bpromises s @ [v], breaders := breaders s @ [x]\<rparr>"
  have "new_byte_reader k s = (Inr (), ?t)"
    using None by (cases "bstate s") (simp_all add: new_byte_reader_def ReadableStreamReaderGenericInitializeB_def
      byteReaderClosedPromiseInitialize_def blank_breader_def byte_simps x_def v_def list_update_append)
  moreover have "breaders_inv ?t" using assms None by (auto simp: b_inv_def breaders_inv_def nth_append x_def less_Suc_eq)
  moreover have "pending_inv ?t" using p by (simp add: pending_inv_def num_requests_def breader_of_def x_def)
  moreover have "bqueue_inv ?t" using assms by (simp add: b_inv_def bqueue_inv_def num_requests_def breader_of_def x_def bytes_ok_def)
  moreover have "bpull_inv ?t" using assms by (simp add: b_inv_def)
  ultimately show ?thesis by (simp add: b_inv_def)
qed (use assms in \<open>simp add: new_byte_reader_def run_simps\<close>)

lemma bs_release:
  assumes "b_inv s" and "r < length (breaders s)"
  shows "safe b_inv (byte_releaseLock r s)"
proof (cases "owns_stream (breader_of s r) \<and> requests (breaders s ! r) = []")
  case True
  then have r: "breader s = Some r" using breader_owner [OF assms] by simp
  have p: "pending_pull_intos s = []" "byob_request s = None"
    using assms r True by (auto simp: b_inv_def pending_inv_def has_reader_def num_requests_def breader_of_def split: if_splits)
  have f: "bfns (breaders s ! r) = (bstate s = IsReadable)"
    using assms r True by (cases "bstate s") (auto simp: b_inv_def breaders_inv_def)
  obtain x ps where e: "byte_releaseLock r s = (Inr (), s\<lparr>bpromises := ps, breader := None, breaders := (breaders s)[r := x\<lparr>owns_stream := False\<rparr>]\<rparr>)"
  proof (cases "bstate s = IsReadable")
    case readable: True
    show thesis using True r f readable assms(2)
      by (intro that [where ps = "settle (bclosed (breaders s ! r)) (Rejected (Error TypeError)) (bpromises s)" and x = "(breaders s ! r)\<lparr>bfns := False\<rparr>"])
        (simp add: byte_releaseLock_def ReadableStreamReaderGenericReleaseB_def byteReaderClosedPromiseSettle_def byte_simps)
  next
    case False
    show thesis using True r f False assms(2)
      by (intro that [where ps = "bpromises s @ [Rejected (Error TypeError)]" and x = "(breaders s ! r)\<lparr>bclosed := length (bpromises s)\<rparr>"])
        (simp add: byte_releaseLock_def ReadableStreamReaderGenericReleaseB_def byteReaderClosedPromiseReset_def byte_simps)
  qed
  let ?t = "s\<lparr>bpromises := ps, breader := None, breaders := (breaders s)[r := x\<lparr>owns_stream := False\<rparr>]\<rparr>"
  have "breaders_inv ?t" using assms r by (auto simp: b_inv_def breaders_inv_def nth_list_update)
  moreover have "pending_inv ?t" using p by (simp add: pending_inv_def has_reader_def)
  moreover have "bqueue_inv ?t" using assms by (simp add: b_inv_def bqueue_inv_def has_reader_def bytes_ok_def)
  ultimately show ?thesis using e assms(1) by (simp add: b_inv_def)
next
  case False
  then show ?thesis using assms by (auto simp: byte_releaseLock_def run_simps breader_of_def)
qed

section \<open>Steps\<close>

lemma bs_started:
  assumes "b_inv s" and "bstart_pending s"
  shows "safe b_inv (byte_source_started (s\<lparr>bstart_pending := False\<rparr>))"
proof -
  let ?t = "s\<lparr>bstart_pending := False, bstarted := True\<rparr>"
  have "b_inv ?t" "\<not> bpulling s" "\<not> bpull_again s" using assms by (auto simp: b_inv_def bpull_inv_def)
  then show ?thesis using safe_ret_after [where p = ReadableByteStreamControllerCallPullIfNeeded and x = "()", OF bs_call_pull [of ?t]]
    by (simp add: byte_source_started_def step_simps)
qed

lemma bs_pull_fulfilled:
  assumes "b_inv s" and "bpull_pending s"
  shows "safe b_inv (byte_pull_fulfilled (s\<lparr>bpull_pending := False\<rparr>))"
proof (cases "bpull_again s")
  case True
  let ?t = "s\<lparr>bpull_pending := False, bpulling := False, bpull_again := False\<rparr>"
  have "b_inv ?t" using assms by (auto simp: b_inv_def bpull_inv_def)
  from bs_call_pull [OF this] have "safe b_inv (thenp ReadableByteStreamControllerCallPullIfNeeded (thenp (ret ()) (ret ())) ?t)"
    by (rule safe_seq) (simp add: run_simps)
  then show ?thesis using True by (simp add: byte_pull_fulfilled_def step_simps)
next
  case False
  then show ?thesis using assms by (auto simp: byte_pull_fulfilled_def run_simps b_inv_def bpull_inv_def)
qed

lemma b_inv_flags:
  "b_inv s \<Longrightarrow> b_inv (s\<lparr>bstart_pending := False\<rparr>)" "b_inv s \<Longrightarrow> b_inv (s\<lparr>bpull_pending := False\<rparr>)"
  by (simp_all add: b_inv_def bpull_inv_def)

lemma bs_modified: "safe b_inv (p (f s)) \<Longrightarrow> safe b_inv (run_unit (thenp (modify f) p) s)"
  by (rule safe_run_unit) (simp add: step_simps)

lemma bs_source_writes:
  assumes "b_inv s" and "pending_pull_intos s \<noteq> []" and "length b = length (pbuffer (hd (pending_pull_intos s)))"
  shows "safe b_inv (withp (\<lambda>s. hd (pending_pull_intos s)) (\<lambda>d. store_head True (d\<lparr>pbuffer := b\<rparr>)) s)"
proof -
  obtain d ds where d: "pending_pull_intos s = d # ds" using assms(2) by (cases "pending_pull_intos s") auto
  have st: "bstate s = IsReadable \<or> bstate s = IsClosed" using pending_reader [OF assms(1) d] by blast
  have "b_inv (s\<lparr>pending_pull_intos := d\<lparr>pbuffer := b\<rparr> # ds\<rparr>)"
    by (rule b_inv_head(1) [OF assms(1) d]) (use assms d st in \<open>auto simp: b_inv_def pending_inv_def desc_ok_def\<close>)
  then show ?thesis using d by (simp add: withp_def store_head_def run_simps)
qed

lemma bs_settle_cancel: "b_inv s \<Longrightarrow> safe b_inv (settle_cancel v s)"
  by (simp add: settle_cancel_def settle_byte_def run_simps b_inv_def)

text \<open>An event that enqueues nothing.\<close>

fun enqueues_empty :: "b_event \<Rightarrow> bool" where
  "enqueues_empty (EnqueueBytes v) = (vlength v = 0)"
| "enqueues_empty ev = False"

lemma b_step_safe:
  assumes "b_inv s" and "b_enabled ev s" and "\<not> enqueues_empty ev"
  shows "safe b_inv (b_step ev s)"
proof (cases ev)
  case (GetByteReader mode)
  then show ?thesis using bs_get_reader [OF assms(1)] assms(1)
    by (cases mode) (auto simp: byte_getReader_def throw_def intro: safe_run_unit)
next
  case BytesStarted
  then show ?thesis using bs_started assms by (simp add: bs_modified)
next
  case BytesPulled
  then show ?thesis using bs_pull_fulfilled assms by (simp add: bs_modified)
qed (use assms in \<open>auto intro!: safe_run_unit safe_run_promise bs_modified bs_read bs_read_into bs_cancels bs_release bs_enqueue
      bs_source_close bs_controller_error bs_request bs_respond bs_respond_view bs_source_writes bs_settle_cancel b_inv_flags\<close>)

lemma set_up_bytes_inv: "set_up_bytes n None start = Inr s \<Longrightarrow> b_inv s"
  by (auto simp: set_up_bytes_def auto_size_def SetUpReadableByteStreamController_def InitializeReadableStreamB_def byte_ResetQueue_def
      b_inv_def breaders_inv_def bpull_inv_def pending_inv_def bqueue_inv_def bytes_ok_def has_reader_def split: option.splits)

lemma new_byte_stream_inv:
  "new_byte_stream sized hwm callable None start = Inr s \<Longrightarrow> b_inv s" "CreateReadableByteStream n None start = Inr s \<Longrightarrow> b_inv s"
  by (auto simp: new_byte_stream_def CreateReadableByteStream_def set_up_bytes_inv split: if_splits option.splits prod.splits sum.splits)

lemma b_runs_inv:
  assumes "b_runs s h t" and "b_inv s" and "list_all (\<lambda>(ev, res). \<not> enqueues_empty ev) h"
  shows "b_inv t \<and> list_all (\<lambda>(ev, res). res \<noteq> Inl (Error OtherError)) h"
  using assms
proof (induction rule: b_runs.induct)
  case (b_snoc s h t ev res u)
  then have "safe b_inv (b_step ev t)" by (intro b_step_safe) auto
  then show ?case using b_snoc by (auto simp: safe_def)
qed simp

lemma b_history_inv:
  assumes "b_history None h t" and "list_all (\<lambda>(ev, res). \<not> enqueues_empty ev) h"
  shows "b_inv t \<and> list_all (\<lambda>(ev, res). res \<noteq> Inl (Error OtherError)) h"
  using assms(1) new_byte_stream_inv b_runs_inv [OF _ _ assms(2)] unfolding b_history_def by blast

end
