(* ===== verification/Byte_Reads.thy ===== *)
theory Byte_Reads
  imports Byte_Safety
begin

text \<open>What the byte streams of \<open>packages/zero/lib/whatwg/streams/readable.js\<close> promise to those who use them:
  their data stay well formed, no assertion fails, and a read into a buffer takes the first bytes of the
  queue.\<close>

section \<open>Well-formed data\<close>

text \<open>What is stored in a stream: entries that lie in their buffers and are not empty, the sum of their
  lengths, and descriptors that lie in their buffers, have room for whole elements and have not filled one.\<close>

definition byte_data_ok :: "byte_stream \<Rightarrow> bool" where
  "byte_data_ok s \<longleftrightarrow>
     list_all (\<lambda>h. 0 < elength h \<and> eoffset h + elength h \<le> length (ebuffer h)) (bqueue s) \<and>
     btotal s = sum_list (map elength (bqueue s)) \<and>
     list_all (\<lambda>d. poffset d + plength d \<le> length (pbuffer d) \<and> pfilled d < pelement d \<and> pelement d \<le> plength d \<and>
       pelement d dvd plength d) (pending_pull_intos s) \<and>
     list_all (\<lambda>d. pfilled d = 0) (tl (pending_pull_intos s))"

lemma b_inv_data:
  assumes "b_inv s"
  shows "byte_data_ok s"
proof -
  have "length (queue_bytes q) = sum_list (map elength q)" if "list_all entry_ok q" for q
    using that by (induction q) simp_all
  moreover have "bytes_ok s" using assms by (simp add: b_inv_def bqueue_inv_def)
  moreover have "pelement d dvd plength d" if "desc_ok d" for d
    using that by (auto simp: desc_ok_def)
  ultimately show ?thesis using assms desc_ok_room
    by (fastforce simp: byte_data_ok_def b_inv_def pending_inv_def bytes_ok_def entry_ok_def desc_ok_def elim!: list.pred_mono_strong)
qed

text \<open>The events of a list, one after the other, if each is enabled when it comes.\<close>

fun b_trace :: "b_event list \<Rightarrow> byte_stream \<Rightarrow> ((b_event \<times> (reason + nat option)) list \<times> byte_stream) option" where
  "b_trace [] s = Some ([], s)"
| "b_trace (ev # evs) s = (if \<not> b_enabled ev s then None else
     (case b_step ev s of (res, t) \<Rightarrow>
       (case b_trace evs t of None \<Rightarrow> None | Some (h, u) \<Rightarrow> Some ((ev, res) # h, u))))"

lemma b_trace_runs: "b_runs r g s \<Longrightarrow> b_trace evs s = Some (h, t) \<Longrightarrow> b_runs r (g @ h) t"
proof (induction evs arbitrary: g s h)
  case (Cons ev evs)
  obtain res u where e: "b_step ev s = (res, u)" by (cases "b_step ev s")
  with Cons.prems obtain h' where h: "b_enabled ev s" "b_trace evs u = Some (h', t)" "h = (ev, res) # h'"
    by (auto split: if_splits option.splits)
  from Cons.IH [OF b_snoc [OF Cons.prems(1) h(1) e] h(2)] show ?case using h(3) by simp
qed simp

lemma b_trace_history:
  "new_byte_stream sized hwm callable auto start = Inr r \<Longrightarrow> b_trace evs r = Some (h, s) \<Longrightarrow> b_history auto h s"
  unfolding b_history_def using b_trace_runs [OF b_refl, of evs r h s] by (simp only: append_Nil) blast

text \<open>A reader into buffers and five bytes in the queue.\<close>

definition five_bytes :: "b_event list" where
  "five_bytes = [BytesStarted, GetByteReader (Some (js ''byob'')),
     EnqueueBytes \<lparr>vbuffer = [9, 1, 2, 3], voffset = 1, vlength = 3, velement = 1\<rparr>,
     EnqueueBytes \<lparr>vbuffer = [4, 5], voffset = 0, vlength = 2, velement = 1\<rparr>]"

definition four_wide :: bview where
  "four_wide = \<lparr>vbuffer = [0, 0, 0, 0, 0, 0], voffset = 2, vlength = 4, velement = 2\<rparr>"

lemma byte_example:
  obtains h s where "b_history None h s" and "list_all (\<lambda>(ev, res). \<not> enqueues_empty ev) h"
    and "bstate s = IsReadable" and "breader s = Some 0" and "kind (breader_of s 0) = ByobKind" and "pending_pull_intos s = []"
    and "btotal s = 5" and "queue_bytes (bqueue s) = [1, 2, 3, 4, 5]" and "b_enabled (ReadInto 0 four_wide) s"
proof -
  have "case new_byte_stream False None True None None of Inl e \<Rightarrow> False
      | Inr r \<Rightarrow> (case b_trace five_bytes r of None \<Rightarrow> False
         | Some p \<Rightarrow> list_all (\<lambda>(ev, res). \<not> enqueues_empty ev) (fst p) \<and> bstate (snd p) = IsReadable \<and> breader (snd p) = Some 0 \<and>
             kind (breader_of (snd p) 0) = ByobKind \<and> pending_pull_intos (snd p) = [] \<and> btotal (snd p) = 5 \<and>
             queue_bytes (bqueue (snd p)) = [1, 2, 3, 4, 5] \<and> b_enabled (ReadInto 0 four_wide) (snd p))"
    by code_simp
  then show thesis
    by (auto split: sum.splits option.splits simp del: b_trace.simps b_enabled.simps intro: that [OF b_trace_history])
qed



section \<open>No assertion fails\<close>



text \<open>Without these conditions assertions do fail: a read that finds an empty chunk waits although the queue
  is not empty, and a descriptor that was made for a read stays when the read is answered in another way.\<close>

lemma empty_chunk_fails_assertion:
  "case new_byte_stream False None True None None of Inl e \<Rightarrow> False
   | Inr r \<Rightarrow> (case b_trace [BytesStarted, GetByteReader None,
       EnqueueBytes \<lparr>vbuffer = [], voffset = 0, vlength = 0, velement = 1\<rparr>, ReadBytes 0,
       EnqueueBytes \<lparr>vbuffer = [1], voffset = 0, vlength = 1, velement = 1\<rparr>] r of None \<Rightarrow> False
     | Some (h, s) \<Rightarrow> snd (last h) = Inl (Error OtherError))"
  by code_simp

lemma allocated_buffer_fails_assertion:
  "case new_byte_stream False None True (Some (Finite 4)) None of Inl e \<Rightarrow> False
   | Inr r \<Rightarrow> (case b_trace [BytesStarted, GetByteReader None, ReadBytes 0,
       EnqueueBytes \<lparr>vbuffer = [1], voffset = 0, vlength = 1, velement = 1\<rparr>, GetRequest, RespondBytes 0 (Finite 1)] r of None \<Rightarrow> False
     | Some (h, s) \<Rightarrow> snd (last h) = Inl (Error OtherError))"
  by code_simp

section \<open>Reading into a buffer\<close>

lemma bs_call_pull_returns:
  assumes "b_inv s"
  obtains t where "ReadableByteStreamControllerCallPullIfNeeded s = (Inr (), t)" and "bqueue t = bqueue s"
proof -
  obtain b where b: "ReadableByteStreamControllerShouldCallPull s = (Inr b, s)" using bs_should_pull by blast
  have "bpull_again s \<longrightarrow> bpulling s" using assms by (simp add: b_inv_def bpull_inv_def)
  then show thesis using b that
    by (cases b; cases "bpulling s") (simp_all add: ReadableByteStreamControllerCallPullIfNeeded_def run_simps)
qed

lemma close_keeps_queue: "ReadableStreamCloseB s = (x, t) \<Longrightarrow> bqueue t = bqueue s"
proof -
  have "keeps (\<lambda>t. bqueue t = bqueue s) (resolve_requests rs)" for rs
    by (induction rs) (auto intro!: keeps_rules simp: settle_byte_def)
  then have "keeps (\<lambda>t. bqueue t = bqueue s) ReadableStreamCloseB"
    unfolding ReadableStreamCloseB_def seqp.simps clear_requests_def update_breader_def byteReaderClosedPromiseSettle_def settle_byte_def
    by (intro keeps_rules; simp)
  from keepsD [OF this, of s] show "ReadableStreamCloseB s = (x, t) \<Longrightarrow> bqueue t = bqueue s" by simp
qed

lemma drain_keeps_queue:
  assumes "b_inv s" and "bstate s = IsReadable" and "pending_pull_intos s = []"
  obtains t where "ReadableByteStreamControllerHandleQueueDrain s = (Inr (), t)" and "bqueue t = bqueue s"
proof (cases "btotal s = 0 \<and> bclose_requested s")
  case True
  obtain t where "ReadableStreamCloseB s = (Inr (), t)" using bs_close_empty [OF assms(1,2)] assms(3) by auto
  then show thesis using True assms(2) close_keeps_queue that [of t]
    by (simp add: ReadableByteStreamControllerHandleQueueDrain_def step_simps ifp_def)
next
  case False
  obtain t where "ReadableByteStreamControllerCallPullIfNeeded s = (Inr (), t)" "bqueue t = bqueue s"
    using bs_call_pull_returns [OF assms(1)] by blast
  then show thesis using False assms(2) that [of t]
    by (auto simp: ReadableByteStreamControllerHandleQueueDrain_def step_simps ifp_def)
qed

text \<open>The whole elements that fit into a view.\<close>

definition whole_elements :: "nat \<Rightarrow> bview \<Rightarrow> nat" where
  "whole_elements tot v = (let n = min tot (vlength v) in n - n mod velement v)"

lemma read_into_takes:
  assumes "b_inv s" and "bstate s = IsReadable" and "breader s = Some r" and "kind (breader_of s r) = ByobKind"
    and "pending_pull_intos s = []" and "view_ok v" and "0 < vlength v" and "velement v \<le> btotal s"
  obtains p u w where "byob_read r v s = (Inr p, u)" and "bpromises u ! p = Fulfilled (Filled w)"
    and "view_bytes w = take (whole_elements (btotal s) v) (queue_bytes (bqueue s))"
    and "queue_bytes (bqueue u) = drop (whole_elements (btotal s) v) (queue_bytes (bqueue s))"
proof -
  have el: "0 < velement v" using assms(6) by (simp add: view_ok_def)
  have o: "owns_stream (breader_of s r)" using assms(1,3) by (auto simp: b_inv_def breaders_inv_def breader_of_def)
  let ?s = "s\<lparr>bdisturbed := True\<rparr>"
  have i: "b_inv ?s" using assms(1) by (simp add: b_inv_def)
  define k where "k = fill_count (byob_desc v) (btotal ?s)"
  define dn where "dn = filled_with (take k (queue_bytes (bqueue ?s))) (byob_desc v)"
  have tot: "0 < btotal ?s" using assms(8) el by simp
  have k: "k = whole_elements (btotal s) v"
    using assms(8) by (simp add: k_def fill_count_def fill_ready_def whole_elements_def byob_desc_def Let_def)
  obtain q where q: "ReadableByteStreamControllerFillPullIntoDescriptorFromQueue False (byob_desc v) ?s =
        (Inr (velement v \<le> btotal ?s, dn), ?s\<lparr>bqueue := q, btotal := btotal ?s - k, byob_request := None, pending_pull_intos := []\<rparr>)"
    and qb: "queue_bytes q = drop k (queue_bytes (bqueue ?s))"
    and t: "b_inv (?s\<lparr>bqueue := q, btotal := btotal ?s - k, byob_request := None, pending_pull_intos := []\<rparr>)" (is "b_inv ?t")
    and f: "pfilled dn \<le> plength dn \<and> pfilled dn mod pelement dn = 0" and len: "length (take k (queue_bytes (bqueue ?s))) = k"
  proof -
    have p: "pending_pull_intos ?s = []" and e: "velement v \<le> btotal ?s" using assms(5,8) by simp_all
    show thesis
      by (rule pull_into_fill [OF i p tot assms(6,7)]) (rule that; use e in \<open>simp add: k_def dn_def\<close>)
  qed
  have "bstate ?t = IsReadable" "pending_pull_intos ?t = []" using assms(2) by simp_all
  from drain_keeps_queue [OF t this] obtain u where u: "ReadableByteStreamControllerHandleQueueDrain ?t = (Inr (), u)" "bqueue u = q"
    by auto
  define w where "w = \<lparr>vbuffer = pbuffer dn, voffset = poffset dn, vlength = pfilled dn div pelement dn * pelement dn, velement = pelement dn\<rparr>"
  have "byob_read r v s = (Inr (length (bpromises u)), u\<lparr>bpromises := bpromises u @ [Fulfilled (Filled w)]\<rparr>)"
    using o q u(1) f assms(2,5,7,8) tot
    by (simp add: byob_read_def if_owner_def ReadableStreamBYOBReaderRead_def ReadableByteStreamControllerPullInto_def byob_desc_def [symmetric]
        Let_def ifp_def step_simps bindp_def ReadableByteStreamControllerConvertPullIntoDescriptor_def ret_def w_def
        thenp_def [of ReadableByteStreamControllerHandleQueueDrain] byte_promise_def)
  moreover have "view_bytes w = take k (queue_bytes (bqueue s))"
  proof -
    let ?bs = "take k (queue_bytes (bqueue s))"
    have kl: "k \<le> vlength v" unfolding k whole_elements_def Let_def by simp
    have "vlength w = k" using f len by (auto simp: w_def dn_def filled_with_def byob_desc_def minus_mod_eq_div_mult [symmetric])
    moreover have "vbuffer w = put_bytes (voffset v) ?bs (vbuffer v)" "voffset w = voffset v"
      by (simp_all add: w_def dn_def filled_with_def byob_desc_def)
    moreover have "voffset v + length ?bs \<le> length (vbuffer v)" using assms(6) kl len by (simp add: view_ok_def)
    ultimately show ?thesis using take_put_bytes [of "voffset v" ?bs "vbuffer v"] len by (simp add: view_bytes_def)
  qed
  ultimately show thesis using that qb u(2) k by simp
qed

text \<open>C36: when no read waits, a read into a view that asks for no more than an element less than the queue holds
  is fulfilled at once: the view it returns shows the first bytes of the queue, as many whole elements as there are
  and as fit, and exactly these are gone from the queue.\<close>

theorem byte_read_into_takes_prefix:
  assumes "b_history None h s" and "list_all (\<lambda>(ev, res). \<not> enqueues_empty ev) h"
    and "bstate s = IsReadable" and "breader s = Some r" and "kind (breader_of s r) = ByobKind" and "pending_pull_intos s = []"
    and "view_ok v" and "0 < vlength v" and "velement v \<le> btotal s"
  shows "\<exists>p u w. byob_read r v s = (Inr p, u) \<and> bpromises u ! p = Fulfilled (Filled w) \<and>
    view_bytes w = take (whole_elements (btotal s) v) (queue_bytes (bqueue s)) \<and>
    queue_bytes (bqueue u) = drop (whole_elements (btotal s) v) (queue_bytes (bqueue s))"
proof -
  have "b_inv s" using b_history_inv [OF assms(1,2)] by blast
  from read_into_takes [OF this assms(3-9)] show ?thesis by metis
qed

lemma byte_read_into_takes_prefix_witness:
  "\<exists>s p u w. byob_read 0 four_wide s = (Inr p, u) \<and> bpromises u ! p = Fulfilled (Filled w) \<and>
     view_bytes w = [1, 2, 3, 4] \<and> queue_bytes (bqueue u) = [5]"
proof (rule byte_example)
  fix h s assume s: "b_history None h s" "list_all (\<lambda>(ev, res). \<not> enqueues_empty ev) h"
    "bstate s = IsReadable" "breader s = Some 0" "kind (breader_of s 0) = ByobKind" "pending_pull_intos s = []"
    and q: "btotal s = 5" "queue_bytes (bqueue s) = [1, 2, 3, 4, 5]"
  have v: "view_ok four_wide" "0 < vlength four_wide" "velement four_wide \<le> btotal s"
    and n: "whole_elements (btotal s) four_wide = 4"
    using q(1) by (simp_all add: view_ok_def four_wide_def whole_elements_def Let_def)
  show ?thesis using byte_read_into_takes_prefix [OF s v] unfolding n q(2) by auto
qed

end
