(* ===== verification/Timers.thy ===== *)
theory Timers
  imports Prelude "HOL-Library.Product_Lexorder" "HOL-Library.Multiset"
begin

text \<open>
  Timers: \<open>packages/zero/lib/whatwg/timers.js\<close>.  Times are whole milliseconds.  What a handler does is a
  parameter: the calls of the timer functions that it makes, each with the reading of the clock it makes it at;
  an exception of a handler is caught by the code, so a handler that throws has made the calls before it.
  The native timer is the last interval it was armed with, and a wake-up is an event.
\<close>

section \<open>State\<close>

record 'h timer =
  handler :: 'h
  timeout :: int
  repeats :: bool
  timer_nesting :: nat
  timer_id :: nat
  expiry :: "int option"

record 'h timers =
  tqueue :: "'h timer list"
  nestingLevel :: nat
  timerId :: nat
  armed :: "int option"
  fired :: "('h timer \<times> int) list"

definition no_timers :: "'h timers" where
  "no_timers = \<lparr>tqueue = [], nestingLevel = 0, timerId = 0, armed = None, fired = []\<rparr>"

definition TIMEOUT_MAX :: int where
  "TIMEOUT_MAX = 2 ^ 31 - 1"

text \<open>The timeout of a new timer; \<open>own\<close> is \<open>this.timeout\<close>, which is \<open>undefined\<close> when the code reads it,
  and \<open>undefined < 4\<close> is false.\<close>

definition pick_timeout :: "nat \<Rightarrow> int option \<Rightarrow> int option \<Rightarrow> int" where
  "pick_timeout nesting own arg =
     (if 5 < nesting \<and> (case own of None \<Rightarrow> False | Some t \<Rightarrow> t < 4) then 4
      else let t = (case arg of None \<Rightarrow> 1 | Some t \<Rightarrow> if t = 0 then 1 else t)
           in if TIMEOUT_MAX < t \<or> t < 1 then 1 else t)"

definition new_Timer :: "'h \<Rightarrow> int option \<Rightarrow> bool \<Rightarrow> 'h timers \<Rightarrow> 'h timer \<times> 'h timers" where
  "new_Timer h arg rep s =
     (\<lparr>handler = h, timeout = pick_timeout (nestingLevel s + 1) None arg, repeats = rep,
        timer_nesting = nestingLevel s + 1, timer_id = timerId s, expiry = None\<rparr>, s\<lparr>timerId := timerId s + 1\<rparr>)"

definition expires :: "'h timer \<Rightarrow> int" where
  "expires t = (case expiry t of None \<Rightarrow> 0 | Some e \<Rightarrow> e)"

definition timer_key :: "'h timer \<Rightarrow> int \<times> nat" where
  "timer_key t = (expires t, timer_id t)"

definition insert_timer :: "'h timer \<Rightarrow> int \<Rightarrow> 'h timers \<Rightarrow> 'h timers" where
  "insert_timer item now s =
     (let msecs = timeout item in
      if msecs < 0 then s
      else
        let item = item\<lparr>expiry := Some (if expires item \<noteq> 0 then expires item + msecs else now + msecs)\<rparr> in
        case tqueue s of
          [] \<Rightarrow> s\<lparr>tqueue := [item], armed := Some msecs\<rparr>
        | first # rest \<Rightarrow>
            s\<lparr>armed := (if expires item < expires first then Some msecs else armed s),
              tqueue := sort_key timer_key (tqueue s @ [item])\<rparr>)"

definition setTimer :: "'h \<Rightarrow> int option \<Rightarrow> bool \<Rightarrow> int \<Rightarrow> 'h timers \<Rightarrow> nat \<times> 'h timers" where
  "setTimer h arg rep now s = (case new_Timer h arg rep s of (t, s') \<Rightarrow> (timer_id t, insert_timer t now s'))"

definition setTimeout :: "'h \<Rightarrow> int option \<Rightarrow> int \<Rightarrow> 'h timers \<Rightarrow> nat \<times> 'h timers" where
  "setTimeout h arg = setTimer h arg False"

definition setInterval :: "'h \<Rightarrow> int option \<Rightarrow> int \<Rightarrow> 'h timers \<Rightarrow> nat \<times> 'h timers" where
  "setInterval h arg = setTimer h arg True"

fun remove_timer :: "nat \<Rightarrow> 'h timer list \<Rightarrow> 'h timer list option" where
  "remove_timer i [] = None"
| "remove_timer i (t # q) = (if timer_id t = i then Some q else map_option ((#) t) (remove_timer i q))"

definition clearTimeout :: "nat \<Rightarrow> 'h timers \<Rightarrow> bool \<times> 'h timers" where
  "clearTimeout i s = (case remove_timer i (tqueue s) of None \<Rightarrow> (False, s) | Some q \<Rightarrow> (True, s\<lparr>tqueue := q\<rparr>))"

section \<open>Waking up\<close>

datatype 'h timer_call = SetTimeout 'h "int option" int | SetInterval 'h "int option" int | ClearTimeout nat

fun do_call :: "'h timer_call \<Rightarrow> 'h timers \<Rightarrow> 'h timers" where
  "do_call (SetTimeout h arg now) s = snd (setTimeout h arg now s)"
| "do_call (SetInterval h arg now) s = snd (setInterval h arg now s)"
| "do_call (ClearTimeout i) s = snd (clearTimeout i s)"

text \<open>What is done with a timer that is due, when it stands at \<open>i\<close>.\<close>

definition fire :: "('h timer \<Rightarrow> 'h timers \<Rightarrow> 'h timer_call list) \<Rightarrow> int \<Rightarrow> nat \<Rightarrow> 'h timers \<Rightarrow> 'h timers" where
  "fire acts now i s =
     (let item = tqueue s ! i;
          s = s\<lparr>tqueue := take i (tqueue s) @ drop (Suc i) (tqueue s)\<rparr>;
          s = (if repeats item then insert_timer item now s else s);
          lastNestingLevel = nestingLevel s;
          s = s\<lparr>nestingLevel := timer_nesting item, fired := fired s @ [(item, now)]\<rparr>;
          s = fold do_call (acts item s) s
      in s\<lparr>nestingLevel := lastNestingLevel\<rparr>)"

text \<open>\<open>queue.forEach\<close>: as many turns as the queue had elements, each with the element that stands at the
  index when its turn comes, if there is one.\<close>

fun wake_loop :: "('h timer \<Rightarrow> 'h timers \<Rightarrow> 'h timer_call list) \<Rightarrow> int \<Rightarrow> nat \<Rightarrow> nat \<Rightarrow> 'h timers \<Rightarrow> 'h timers" where
  "wake_loop acts now i 0 s = s"
| "wake_loop acts now i (Suc n) s =
     wake_loop acts now (Suc i) n
       (if i < length (tqueue s) \<and> \<not> now < expires (tqueue s ! i) then fire acts now i s else s)"

definition wake :: "('h timer \<Rightarrow> 'h timers \<Rightarrow> 'h timer_call list) \<Rightarrow> int \<Rightarrow> int \<Rightarrow> 'h timers \<Rightarrow> 'h timers" where
  "wake acts now later s =
     (let s = wake_loop acts now 0 (length (tqueue s)) s in
      case tqueue s of [] \<Rightarrow> s | first # rest \<Rightarrow> s\<lparr>armed := Some (max (expires first - later) 1)\<rparr>)"

section \<open>The invariant\<close>

text \<open>The queue is in the order of the times, each number is used once, and no one-shot timer that has
  fired is still there.\<close>

definition timers_ok :: "'h timers \<Rightarrow> bool" where
  "timers_ok s \<longleftrightarrow> sorted (map timer_key (tqueue s)) \<and> distinct (map timer_id (tqueue s)) \<and>
     (\<forall>t \<in> set (tqueue s). timer_id t < timerId s \<and> 1 \<le> timeout t \<and> timeout t \<le> TIMEOUT_MAX) \<and>
     (\<forall>(t, now) \<in> set (fired s). timer_id t < timerId s \<and> expires t \<le> now) \<and>
     distinct (map (timer_id \<circ> fst) (filter (\<lambda>p. \<not> repeats (fst p)) (fired s))) \<and>
     (\<forall>p \<in> set (fired s). \<not> repeats (fst p) \<longrightarrow> timer_id (fst p) \<notin> timer_id ` set (tqueue s))"

lemma timers_ok_new [simp]: "timers_ok no_timers"
  by (simp add: timers_ok_def no_timers_def)

lemma pick_timeout_bounds: "1 \<le> pick_timeout n own arg \<and> pick_timeout n own arg \<le> TIMEOUT_MAX"
  by (auto simp: pick_timeout_def TIMEOUT_MAX_def Let_def split: option.splits)

lemma timers_ok_fields [simp]:
  "timers_ok (s\<lparr>nestingLevel := n\<rparr>) = timers_ok s" "timers_ok (s\<lparr>armed := a\<rparr>) = timers_ok s"
  "timers_ok (s\<lparr>armed := a, tqueue := q\<rparr>) = timers_ok (s\<lparr>tqueue := q\<rparr>)"
  "timers_ok (s\<lparr>tqueue := q, armed := a\<rparr>) = timers_ok (s\<lparr>tqueue := q\<rparr>)"
  by (simp_all add: timers_ok_def)

lemma distinct_sort_map: "distinct (map f (sort_key k xs)) = distinct (map f xs)"
  by (rule mset_eq_imp_distinct_iff) simp

text \<open>A timer whose number is not in the queue can be put in.\<close>

lemma insert_timer_ok:
  assumes "timers_ok s" and "timer_id t < timerId s" and "1 \<le> timeout t" and "timeout t \<le> TIMEOUT_MAX"
    and "timer_id t \<notin> timer_id ` set (tqueue s)"
    and "\<forall>p \<in> set (fired s). \<not> repeats (fst p) \<longrightarrow> timer_id (fst p) \<noteq> timer_id t"
  shows "timers_ok (insert_timer t now s)"
proof -
  let ?u = "t\<lparr>expiry := Some (if expires t \<noteq> 0 then expires t + timeout t else now + timeout t)\<rparr>"
  have d: "distinct (map timer_id (sort_key timer_key (tqueue s @ [?u])))"
    using assms(1,5) distinct_sort_map [of timer_id timer_key "tqueue s @ [?u]"] by (simp add: timers_ok_def)
  then have "timers_ok (s\<lparr>tqueue := sort_key timer_key (tqueue s @ [?u])\<rparr>)"
    using assms by (simp add: timers_ok_def)
  moreover have "timers_ok (s\<lparr>tqueue := [?u]\<rparr>)" if "tqueue s = []"
    using assms that by (auto simp: timers_ok_def)
  ultimately show ?thesis using assms(3)
    by (cases "tqueue s") (simp_all add: insert_timer_def Let_def del: append_Cons sort_key_simps)
qed

lemma new_timer_fields:
  assumes "new_Timer h arg rep s = (t, s')"
  shows "timer_id t = timerId s \<and> s' = s\<lparr>timerId := timerId s + 1\<rparr> \<and> 1 \<le> timeout t \<and> timeout t \<le> TIMEOUT_MAX"
  using assms pick_timeout_bounds by (auto simp: new_Timer_def)

lemma setTimer_ok:
  assumes "timers_ok s"
  shows "timers_ok (snd (setTimer h arg rep now s))"
proof -
  obtain t s' where n: "new_Timer h arg rep s = (t, s')" by (cases "new_Timer h arg rep s")
  note f = new_timer_fields [OF n]
  have "timers_ok s'" using assms f by (auto simp: timers_ok_def)
  moreover have "timer_id t \<notin> timer_id ` set (tqueue s')" "\<forall>p \<in> set (fired s'). timer_id (fst p) \<noteq> timer_id t"
    using assms f by (auto simp: timers_ok_def)
  ultimately show ?thesis using f insert_timer_ok [of s' t now] n by (simp add: setTimer_def)
qed

lemma remove_timer_cases:
  "remove_timer i q = Some r \<Longrightarrow> \<exists>p t u. q = p @ t # u \<and> r = p @ u \<and> timer_id t = i"
proof (induction q arbitrary: r)
  case (Cons t q)
  show ?case
  proof (cases "timer_id t = i")
    case True
    then show ?thesis using Cons.prems by (intro exI [of _ "[]"]) auto
  next
    case False
    then obtain r' where r: "remove_timer i q = Some r'" "r = t # r'" using Cons.prems by auto
    from Cons.IH [OF r(1)] obtain p x u where "q = p @ x # u" "r' = p @ u" "timer_id x = i" by blast
    then show ?thesis using r(2) by (intro exI [of _ "t # p"]) auto
  qed
qed simp

lemma timers_ok_drop:
  assumes "timers_ok s" and "tqueue s = p @ t # u"
  shows "timers_ok (s\<lparr>tqueue := p @ u\<rparr>)"
  using assms by (auto simp: timers_ok_def sorted_append)

lemma clearTimeout_ok: "timers_ok s \<Longrightarrow> timers_ok (snd (clearTimeout i s))"
  by (auto simp: clearTimeout_def split: option.split dest!: remove_timer_cases intro: timers_ok_drop)

lemma call_ok: "timers_ok s \<Longrightarrow> timers_ok (do_call c s)"
  by (cases c) (simp_all add: setTimeout_def setInterval_def setTimer_ok clearTimeout_ok)

lemma calls_ok: "timers_ok s \<Longrightarrow> timers_ok (fold do_call cs s)"
  by (induction cs arbitrary: s) (simp_all add: call_ok)

lemma fired_insert: "fired (insert_timer t now s) = fired s" "timerId (insert_timer t now s) = timerId s"
  by (simp_all add: insert_timer_def Let_def split: list.split)

lemma fire_ok:
  assumes "timers_ok s" and "i < length (tqueue s)" and "\<not> now < expires (tqueue s ! i)"
  shows "timers_ok (fire acts now i s)"
proof -
  let ?item = "tqueue s ! i"
  let ?s = "s\<lparr>tqueue := take i (tqueue s) @ drop (Suc i) (tqueue s)\<rparr>"
  have q: "tqueue s = take i (tqueue s) @ ?item # drop (Suc i) (tqueue s)" using assms(2) by (rule id_take_nth_drop)
  have s: "timers_ok ?s" by (rule timers_ok_drop [OF assms(1) q])
  have item: "timer_id ?item < timerId s" "1 \<le> timeout ?item" "timeout ?item \<le> TIMEOUT_MAX"
    using assms(1,2) by (auto simp: timers_ok_def)
  have n: "timer_id ?item \<notin> timer_id ` set (tqueue ?s)"
  proof -
    have "distinct (map timer_id (take i (tqueue s) @ ?item # drop (Suc i) (tqueue s)))"
      using assms(1) q by (metis timers_ok_def)
    then show ?thesis by auto
  qed
  have o: "\<forall>p \<in> set (fired s). \<not> repeats (fst p) \<longrightarrow> timer_id (fst p) \<noteq> timer_id ?item"
    using assms(1,2) by (metis (no_types, lifting) image_eqI nth_mem timers_ok_def)
  let ?t = "if repeats ?item then insert_timer ?item now ?s else ?s"
  have t: "timers_ok ?t" using s item n o insert_timer_ok [of ?s ?item now] by simp
  have f: "fired ?t = fired s" "timerId ?t = timerId s" by (simp_all add: fired_insert)
  let ?u = "?t\<lparr>nestingLevel := timer_nesting ?item, fired := fired s @ [(?item, now)]\<rparr>"
  have "timers_ok ?u"
    using t f item o n assms(3) by (auto simp: timers_ok_def)
  from calls_ok [OF this, of "acts ?item ?u"] show ?thesis
    by (cases "repeats ?item") (simp_all add: fire_def Let_def fired_insert)
qed

lemma wake_loop_ok: "timers_ok s \<Longrightarrow> timers_ok (wake_loop acts now i n s)"
  by (induction n arbitrary: i s) (simp_all add: fire_ok)

lemma wake_ok: "timers_ok s \<Longrightarrow> timers_ok (wake acts now later s)"
  using wake_loop_ok [of s acts now 0 "length (tqueue s)"] by (simp add: wake_def Let_def split: list.split)

section \<open>Runs\<close>

datatype 'h timer_event = Call "'h timer_call" | Wake int int

primrec do_event :: "('h timer \<Rightarrow> 'h timers \<Rightarrow> 'h timer_call list) \<Rightarrow> 'h timer_event \<Rightarrow> 'h timers \<Rightarrow> 'h timers" where
  "do_event acts (Call c) = do_call c"
| "do_event acts (Wake now later) = wake acts now later"

lemma run_ok: "timers_ok (fold (do_event acts) evs no_timers)"
proof (induction evs rule: rev_induct)
  case (snoc ev evs)
  then show ?case by (cases ev) (simp_all add: call_ok wake_ok)
qed simp

text \<open>What has fired stays so, and a wake-up begins with the first timer if it is due.\<close>

lemma fired_call: "fired (do_call c s) = fired s"
  by (cases c) (simp_all add: setTimeout_def setInterval_def setTimer_def new_Timer_def clearTimeout_def fired_insert split: option.split)

lemma fired_calls: "fired (fold do_call cs s) = fired s"
  by (induction cs arbitrary: s) (simp_all add: fired_call)

lemma fired_fire: "fired (fire acts now i s) = fired s @ [(tqueue s ! i, now)]"
  by (simp add: fire_def Let_def fired_calls fired_insert)

lemma fired_loop: "\<exists>l. fired (wake_loop acts now i n s) = fired s @ l"
proof (induction n arbitrary: i s)
  case (Suc n)
  then show ?case by (simp add: fired_fire) (metis append.assoc fired_fire)
qed simp

lemma wake_first:
  assumes "tqueue s = t # q" and "expires t \<le> now"
  shows "\<exists>l. fired (wake acts now later s) = fired s @ (t, now) # l"
proof -
  obtain l where "fired (wake_loop acts now 1 (length q) (fire acts now 0 s)) = fired (fire acts now 0 s) @ l"
    using fired_loop by blast
  then have "fired (wake_loop acts now 0 (length (tqueue s)) s) = fired s @ (t, now) # l"
    using assms by (simp add: fired_fire)
  then show ?thesis by (auto simp: wake_def Let_def split: list.split)
qed


text \<open>A wake-up always makes progress: when the first timer of the queue is due, it is the first to fire, whatever
  its handler and the later ones do.\<close>

theorem wake_fires_first:
  assumes "tqueue s = t # q" and "expires t \<le> now"
  shows "\<exists>l. fired (wake acts now later s) = fired s @ (t, now) # l"
  by (rule wake_first [OF assms])

definition two_timers :: "nat timers" where
  "two_timers = fold do_call [SetTimeout 7 (Some 10) 100, SetTimeout 8 (Some 10) 100] no_timers"

lemma two_timers_queue: "map (\<lambda>t. (handler t, expires t)) (tqueue two_timers) = [(7, 110), (8, 110)]"
  by code_simp

lemma wake_fires_first_witness:
  "\<exists>l. fired (wake (\<lambda>t s. []) 120 120 two_timers) = fired two_timers @ (hd (tqueue two_timers), 120) # l"
proof (cases "tqueue two_timers")
  case (Cons t q)
  then have "expires t \<le> 120" using two_timers_queue by simp
  from wake_fires_first [OF Cons this] show ?thesis using Cons by simp
qed (use two_timers_queue in simp)

text \<open>Taking a timer out of the queue moves the next one to its index, so the next one is passed over: of two
  timers that are due, one fires.\<close>

lemma wake_skips_next: "map (handler \<circ> fst) (fired (wake (\<lambda>t s. []) 120 120 two_timers)) = [7]"
  by code_simp

text \<open>The lower bound for nested timers is never applied.\<close>

lemma nested_timers_not_slowed: "pick_timeout nesting None (Some 2) = 2"
  by (simp add: pick_timeout_def TIMEOUT_MAX_def)

end
