(* ===== verification/Loop.thy ===== *)
theory Loop
  imports Prelude
begin

text \<open>
  The event loop: \<open>src/lib/loop.js\<close>.  The kernel's \<open>epoll\<close> is a parameter: \<open>control\<close> is \<open>epoll_ctl\<close> on the
  state of the kernel, and what \<open>wait\<close> reports comes with the call of \<open>poll\<close>.  What a callback does
  is a parameter too: the calls it makes on its own loop and whether it stops the factory.
\<close>

section \<open>Loops\<close>

datatype ctl_op = EPOLL_CTL_ADD | EPOLL_CTL_DEL | EPOLL_CTL_MOD

type_synonym 'k control = "ctl_op \<Rightarrow> nat \<Rightarrow> nat \<Rightarrow> 'k \<Rightarrow> int \<times> 'k"

record ('cb, 'k) loop =
  handles :: "nat \<rightharpoonup> 'cb"
  handle_count :: int
  kernel :: 'k

definition createLoop :: "'k \<Rightarrow> ('cb, 'k) loop" where
  "createLoop k = \<lparr>handles = Map.empty, handle_count = 0, kernel = k\<rparr>"

definition loop_add :: "'k control \<Rightarrow> nat \<Rightarrow> 'cb \<Rightarrow> nat \<Rightarrow> ('cb, 'k) loop \<Rightarrow> int \<times> ('cb, 'k) loop" where
  "loop_add control fd callback events s =
     (case control EPOLL_CTL_ADD fd events (kernel s) of (r, k) \<Rightarrow>
       (r, if r = 0 then s\<lparr>kernel := k, handles := (handles s)(fd \<mapsto> callback), handle_count := handle_count s + 1\<rparr>
           else s\<lparr>kernel := k\<rparr>))"

definition loop_remove :: "'k control \<Rightarrow> nat \<Rightarrow> ('cb, 'k) loop \<Rightarrow> int \<times> ('cb, 'k) loop" where
  "loop_remove control fd s =
     (case control EPOLL_CTL_DEL fd 0 (kernel s) of (r, k) \<Rightarrow>
       (r, if r = 0 then s\<lparr>kernel := k, handles := (handles s)(fd := None), handle_count := handle_count s - 1\<rparr>
           else s\<lparr>kernel := k\<rparr>))"

definition loop_update :: "'k control \<Rightarrow> nat \<Rightarrow> nat \<Rightarrow> ('cb, 'k) loop \<Rightarrow> int \<times> ('cb, 'k) loop" where
  "loop_update control fd events s =
     (case control EPOLL_CTL_MOD fd events (kernel s) of (r, k) \<Rightarrow> (r, s\<lparr>kernel := k\<rparr>))"

datatype 'cb loop_call = AddHandle nat 'cb nat | RemoveHandle nat | UpdateHandle nat nat

fun loop_do :: "'k control \<Rightarrow> 'cb loop_call \<Rightarrow> ('cb, 'k) loop \<Rightarrow> ('cb, 'k) loop" where
  "loop_do control (AddHandle fd cb ev) s = snd (loop_add control fd cb ev s)"
| "loop_do control (RemoveHandle fd) s = snd (loop_remove control fd s)"
| "loop_do control (UpdateHandle fd ev) s = snd (loop_update control fd ev s)"

text \<open>What callbacks do: calls on the loop and whether they call \<open>factory.stop\<close>.\<close>

type_synonym ('cb, 'k) acts = "'cb \<Rightarrow> nat \<Rightarrow> nat \<Rightarrow> ('cb, 'k) loop \<Rightarrow> 'cb loop_call list \<times> bool"

text \<open>The loop over the events: a descriptor without a callback is a \<open>TypeError\<close>.\<close>

fun dispatch_events :: "'k control \<Rightarrow> ('cb, 'k) acts \<Rightarrow> (nat \<times> nat) list \<Rightarrow> bool \<Rightarrow> ('cb, 'k) loop \<Rightarrow>
    bool js_result \<times> ('cb, 'k) loop" where
  "dispatch_events control acts [] stopped s = (Inr stopped, s)"
| "dispatch_events control acts ((fd, ev) # evs) stopped s =
     (case handles s fd of
        None \<Rightarrow> (Inl TypeError, s)
      | Some cb \<Rightarrow> (case acts cb fd ev s of (calls, stop) \<Rightarrow>
          dispatch_events control acts evs (stopped \<or> stop) (fold (loop_do control) calls s)))"

text \<open>\<open>wait\<close> returns a negative number for an error, and then nothing is dispatched; otherwise it is the number of
  the events.\<close>

definition poll :: "'k control \<Rightarrow> ('cb, 'k) acts \<Rightarrow> (int + (nat \<times> nat) list) \<Rightarrow> ('cb, 'k) loop \<Rightarrow>
    (int \<times> bool) js_result \<times> ('cb, 'k) loop" where
  "poll control acts waited s =
     (case waited of
        Inl r \<Rightarrow> (Inr (r, False), s)
      | Inr evs \<Rightarrow> (case dispatch_events control acts evs False s of
          (Inl e, s') \<Rightarrow> (Inl e, s')
        | (Inr stopped, s') \<Rightarrow> (Inr (int (length evs), stopped), s')))"

section \<open>The factory\<close>

record ('cb, 'k) factory =
  loops :: "('cb, 'k) loop list"
  paused :: bool

definition factory_create :: "'k \<Rightarrow> ('cb, 'k) factory \<Rightarrow> ('cb, 'k) factory" where
  "factory_create k f = f\<lparr>loops := loops f @ [createLoop k]\<rparr>"

text \<open>One turn over the loops: the error of a poll, or the total count and whether the factory was stopped;
  \<open>waits i\<close> is what \<open>wait\<close> reports for the loop at \<open>i\<close>.\<close>

fun poll_loops :: "'k control \<Rightarrow> ('cb, 'k) acts \<Rightarrow> (nat \<Rightarrow> int + (nat \<times> nat) list) \<Rightarrow> nat \<Rightarrow> ('cb, 'k) loop list \<Rightarrow>
    (int \<times> bool) js_result \<times> ('cb, 'k) loop list" where
  "poll_loops control acts waits i [] = (Inr (0, False), [])"
| "poll_loops control acts waits i (l # ls) =
     (case (if 0 < handle_count l then poll control acts (waits i) l else (Inr (0, False), l)) of
        (Inl e, l') \<Rightarrow> (Inl e, l' # ls)
      | (Inr (r, stop), l') \<Rightarrow>
          (case poll_loops control acts waits (Suc i) ls of
             (Inl e, ls') \<Rightarrow> (Inl e, l' # ls')
           | (Inr (n, stop'), ls') \<Rightarrow> (Inr (handle_count l' + n, stop \<or> stop'), l' # ls')))"

text \<open>\<open>run\<close>, for as many turns as the fuel allows: \<open>None\<close> when it goes on after them.  A turn with no handles is
  counted, and the third ends the run; micro tasks touch nothing of the loops here.\<close>

fun run_turns :: "'k control \<Rightarrow> ('cb, 'k) acts \<Rightarrow> (nat \<Rightarrow> nat \<Rightarrow> int + (nat \<times> nat) list) \<Rightarrow> nat \<Rightarrow> nat \<Rightarrow> nat \<Rightarrow> ('cb, 'k) factory \<Rightarrow>
    (unit js_result \<times> ('cb, 'k) factory) option" where
  "run_turns control acts waits turn idle 0 f = (if paused f then Some (Inr (), f) else None)"
| "run_turns control acts waits turn idle (Suc fuel) f =
     (if paused f then Some (Inr (), f)
      else case poll_loops control acts (waits turn) 0 (loops f) of
          (Inl e, ls) \<Rightarrow> Some (Inl e, f\<lparr>loops := ls\<rparr>)
        | (Inr (n, stop), ls) \<Rightarrow>
            (let f = f\<lparr>loops := ls, paused := stop\<rparr> in
             if n = 0 then
               if idle + 1 = 3 then Some (Inr (), f\<lparr>paused := True\<rparr>)
               else run_turns control acts waits (Suc turn) (idle + 1) fuel f
             else run_turns control acts waits (Suc turn) idle fuel f))"

definition run_factory :: "'k control \<Rightarrow> ('cb, 'k) acts \<Rightarrow> (nat \<Rightarrow> nat \<Rightarrow> int + (nat \<times> nat) list) \<Rightarrow> nat \<Rightarrow> ('cb, 'k) factory \<Rightarrow>
    (unit js_result \<times> ('cb, 'k) factory) option" where
  "run_factory control acts waits fuel f = run_turns control acts waits 0 0 fuel (f\<lparr>paused := False\<rparr>)"

section \<open>The count\<close>

text \<open>What the manual of \<open>epoll_ctl\<close> promises: adding succeeds only for a descriptor that is not there, deleting only for
  one that is, and a failure changes nothing.\<close>

definition epoll_laws :: "'k control \<Rightarrow> ('k \<Rightarrow> nat set) \<Rightarrow> bool" where
  "epoll_laws control registered \<longleftrightarrow> (\<forall>fd ev k.
     (let (r, k') = control EPOLL_CTL_ADD fd ev k in
        if r = 0 then fd \<notin> registered k \<and> registered k' = insert fd (registered k) else registered k' = registered k) \<and>
     (let (r, k') = control EPOLL_CTL_DEL fd ev k in
        if r = 0 then fd \<in> registered k \<and> registered k' = registered k - {fd} else registered k' = registered k) \<and>
     registered (snd (control EPOLL_CTL_MOD fd ev k)) = registered k)"

definition loop_ok :: "('k \<Rightarrow> nat set) \<Rightarrow> ('cb, 'k) loop \<Rightarrow> bool" where
  "loop_ok registered s \<longleftrightarrow> finite (dom (handles s)) \<and> dom (handles s) = registered (kernel s) \<and>
     handle_count s = int (card (dom (handles s)))"

lemma loop_do_ok:
  assumes "epoll_laws control registered" and "loop_ok registered s"
  shows "loop_ok registered (loop_do control c s)"
proof (cases c)
  case (AddHandle fd cb ev)
  obtain r k where c: "control EPOLL_CTL_ADD fd ev (kernel s) = (r, k)" by fastforce
  have "if r = 0 then fd \<notin> registered (kernel s) \<and> registered k = insert fd (registered (kernel s)) else registered k = registered (kernel s)"
    using assms(1) c unfolding epoll_laws_def by (metis (mono_tags, lifting) case_prod_conv)
  then show ?thesis using assms(2) AddHandle c by (auto simp: loop_add_def loop_ok_def)
next
  case (RemoveHandle fd)
  obtain r k where c: "control EPOLL_CTL_DEL fd 0 (kernel s) = (r, k)" by fastforce
  have "if r = 0 then fd \<in> registered (kernel s) \<and> registered k = registered (kernel s) - {fd} else registered k = registered (kernel s)"
    using assms(1) c unfolding epoll_laws_def by (metis (mono_tags, lifting) case_prod_conv)
  moreover have "int (card (A - {fd})) = int (card A) - 1" if "finite A" "fd \<in> A" for A :: "nat set"
    using card_Suc_Diff1 [OF that] by linarith
  ultimately show ?thesis using assms(2) RemoveHandle c
    by (auto simp: loop_remove_def loop_ok_def simp del: card_Diff_insert card_Diff_singleton)
next
  case (UpdateHandle fd ev)
  have "registered (snd (control EPOLL_CTL_MOD fd ev (kernel s))) = registered (kernel s)"
    using assms(1) unfolding epoll_laws_def by blast
  then show ?thesis using assms(2) UpdateHandle by (auto simp: loop_update_def loop_ok_def split: prod.splits)
qed

lemma loop_calls_ok: "epoll_laws control registered \<Longrightarrow> loop_ok registered s \<Longrightarrow> loop_ok registered (fold (loop_do control) cs s)"
  by (induction cs arbitrary: s) (simp_all add: loop_do_ok)

lemma dispatch_no_error:
  "epoll_laws control registered \<Longrightarrow> loop_ok registered s \<Longrightarrow> loop_ok registered (snd (dispatch_events control acts evs stopped s))"
  by (induction control acts evs stopped s rule: dispatch_events.induct)
    (auto simp: loop_calls_ok split: option.split prod.split)

lemma poll_ok:
  assumes "epoll_laws control registered" and "loop_ok registered s"
  shows "loop_ok registered (snd (poll control acts w s))"
proof (cases w)
  case (Inr evs)
  have "snd (poll control acts w s) = snd (dispatch_events control acts evs False s)"
    using Inr by (auto simp: poll_def split: sum.split prod.split)
  then show ?thesis using dispatch_no_error [OF assms] by simp
qed (use assms in \<open>simp add: poll_def\<close>)

lemma poll_loops_ok:
  "epoll_laws control registered \<Longrightarrow> \<forall>l \<in> set ls. loop_ok registered l \<Longrightarrow>
     \<forall>l \<in> set (snd (poll_loops control acts waits i ls)). loop_ok registered l"
proof (induction ls arbitrary: i)
  case (Cons l ls)
  have "loop_ok registered (snd (if 0 < handle_count l then poll control acts (waits i) l else (Inr (0, False), l)))"
    using Cons.prems poll_ok by auto
  then show ?case using Cons.IH [OF Cons.prems(1), of "Suc i"] Cons.prems(2)
    by (auto split: prod.splits sum.splits)
qed simp

text \<open>When a turn ends without an error and its total is zero, no loop has a callback left.\<close>

lemma poll_loops_total:
  assumes "epoll_laws control registered" and "\<forall>l \<in> set ls. loop_ok registered l"
    and "poll_loops control acts waits i ls = (Inr (n, stop), ls')"
  shows "n = sum_list (map handle_count ls') \<and> (n = 0 \<longrightarrow> (\<forall>l \<in> set ls'. handles l = Map.empty)) \<and> 0 \<le> n"
  using assms(2,3)
proof (induction ls arbitrary: i n stop ls')
  case (Cons l ls)
  let ?p = "if 0 < handle_count l then poll control acts (waits i) l else (Inr (0, False), l)"
  have ok: "loop_ok registered (snd ?p)" using Cons.prems(1) poll_ok [OF assms(1)] by auto
  then have l: "0 \<le> handle_count (snd ?p) \<and> (handle_count (snd ?p) = 0 \<longrightarrow> handles (snd ?p) = Map.empty)"
    by (auto simp: loop_ok_def)
  obtain l' m stop' ls'' where r: "snd ?p = l'" "poll_loops control acts waits (Suc i) ls = (Inr (m, stop'), ls'')"
    "n = handle_count l' + m" "ls' = l' # ls''"
    using Cons.prems(2) by (auto split: prod.splits sum.splits if_splits)
  show ?case using Cons.IH [OF _ r(2)] Cons.prems(1) l r by auto
qed simp

section \<open>Runs\<close>

lemma dispatch_not_stopped:
  "\<forall>cb fd ev s. \<not> snd (acts cb fd ev s) \<Longrightarrow> dispatch_events control acts evs False s = (Inr b, s') \<Longrightarrow> \<not> b"
proof (induction evs arbitrary: s)
  case (Cons e evs)
  obtain fd ev where e: "e = (fd, ev)" by (cases e)
  obtain cb where cb: "handles s fd = Some cb" using Cons.prems(2) e by (auto split: option.splits)
  obtain calls stop where a: "acts cb fd ev s = (calls, stop)" by (cases "acts cb fd ev s")
  have "\<not> stop" using Cons.prems(1) a by (metis snd_conv)
  then show ?case using Cons.IH [OF Cons.prems(1)] Cons.prems(2) e cb a by simp
qed simp

lemma poll_not_stopped:
  assumes "\<forall>cb fd ev s. \<not> snd (acts cb fd ev s)" and "poll control acts w s = (Inr (r, b), s')"
  shows "\<not> b"
  using assms(2) dispatch_not_stopped [OF assms(1), where b = True] by (auto simp: poll_def split: sum.splits prod.splits)

lemma loops_not_stopped:
  assumes "\<forall>cb fd ev s. \<not> snd (acts cb fd ev s)"
  shows "poll_loops control acts waits i ls = (Inr (n, b), ls') \<Longrightarrow> \<not> b"
proof (induction ls arbitrary: i n b ls')
  case (Cons l ls)
  then show ?case
    using poll_not_stopped [OF assms, where b = True] Cons.IH [where b = True] by (auto split: prod.splits sum.splits if_splits)
qed simp

lemma turns_idle:
  assumes "epoll_laws control registered" and "\<forall>cb fd ev s. \<not> snd (acts cb fd ev s)"
  shows "run_turns control acts waits turn n fuel f = Some (Inr (), f') \<Longrightarrow> \<not> paused f \<Longrightarrow> n < 3 \<Longrightarrow>
    \<forall>l \<in> set (loops f). loop_ok registered l \<Longrightarrow> paused f' \<and> (\<forall>l \<in> set (loops f'). handles l = Map.empty)"
proof (induction fuel arbitrary: turn n f)
  case (Suc fuel)
  obtain m stop ls where p: "poll_loops control acts (waits turn) 0 (loops f) = (Inr (m, stop), ls)"
    using Suc.prems(1,2) by (auto split: prod.splits sum.splits)
  have stop: "\<not> stop" by (rule loops_not_stopped [OF assms(2) p])
  have ok: "\<forall>l \<in> set ls. loop_ok registered l"
    using poll_loops_ok [OF assms(1) Suc.prems(4), of acts "waits turn" 0] p by simp
  note tot = poll_loops_total [OF assms(1) Suc.prems(4) p]
  show ?case
  proof (cases "m = 0 \<and> n + 1 = 3")
    case True
    then show ?thesis using Suc.prems(1,2) p tot by auto
  next
    case False
    then show ?thesis
      using Suc.prems(1,2,3) p stop ok Suc.IH [of "Suc turn" "n + 1" "f\<lparr>loops := ls, paused := stop\<rparr>"]
        Suc.IH [of "Suc turn" n "f\<lparr>loops := ls, paused := stop\<rparr>"]
      by (auto simp: Let_def split: if_splits)
  qed
qed simp


text \<open>A kernel that keeps the list of the descriptors.\<close>

definition list_kernel :: "nat list control" where
  "list_kernel c fd ev k = (case c of
       EPOLL_CTL_ADD \<Rightarrow> if fd \<in> set k then (- 1, k) else (0, fd # k)
     | EPOLL_CTL_DEL \<Rightarrow> if fd \<in> set k then (0, filter ((\<noteq>) fd) k) else (- 1, k)
     | EPOLL_CTL_MOD \<Rightarrow> (if fd \<in> set k then 0 else - 1, k))"

lemma list_kernel_laws: "epoll_laws list_kernel set"
  by (auto simp: epoll_laws_def list_kernel_def Let_def)

definition one_loop :: "(nat, nat list) factory" where
  "one_loop = \<lparr>loops = [snd (loop_add list_kernel 5 9 1 (createLoop []))], paused = True\<rparr>"


text \<open>A run with nothing to watch ends in its third turn.\<close>

lemma run_nothing:
  assumes "\<forall>l \<in> set (loops f). handle_count l = 0" and "3 \<le> fuel"
  shows "run_factory control acts waits fuel f = Some (Inr (), f\<lparr>paused := True\<rparr>)"
proof -
  have p: "poll_loops control acts w i ls = (Inr (0, False), ls)" if "\<forall>l \<in> set ls. handle_count l = 0"
    for w i and ls :: "('a, 'b) loop list"
    using that by (induction ls arbitrary: i) simp_all
  obtain m where "fuel = Suc (Suc (Suc m))" using assms(2) by (metis Suc_le_D numeral_3_eq_3 Suc_le_mono)
  then show ?thesis using p [OF assms(1)] by (simp add: run_factory_def)
qed

text \<open>A callback that removes another descriptor of the same report makes \<open>poll\<close> throw.\<close>

lemma removed_descriptor_throws:
  "fst (poll list_kernel (\<lambda>cb fd ev s. ([RemoveHandle 6], False)) (Inr [(5, 1), (6, 1)])
     (fold (loop_do list_kernel) [AddHandle 5 9 1, AddHandle 6 9 1] (createLoop []))) = Inl TypeError"
  by code_simp

end
