(* ===== verification/Md5.thy ===== *)
theory Md5
  imports Prelude "HOL-Library.Word"
begin

unbundle bit_operations_syntax

text \<open>
  The hash of \<open>lib/pg/md5.js\<close>: the object \<open>Md5\<close> with \<open>update\<close>, \<open>finalize\<close>, \<open>hash\<close> and the outputs.
  The numbers \<open>a\<close>, \<open>b\<close>, \<open>c\<close>, \<open>d\<close> of \<open>hash\<close> are doubles that are brought back to 32 bits by the next shift; their
  sums stay far below 2 to the 53, so they are words of 32 bits here.  \<open>buffer8\<close> and \<open>blocks\<close> are two views of one
  buffer of 68 bytes, on a machine that stores words with the low byte first.  What the module does at load time,
  and the wrapper for node, which calls another library, are left out.
\<close>

section \<open>Words in a buffer\<close>

type_synonym md5_words = "nat \<Rightarrow> 32 word"

definition le_bytes :: "32 word \<Rightarrow> 8 word list" where
  "le_bytes w = [ucast w, ucast (drop_bit 8 w), ucast (drop_bit 16 w), ucast (drop_bit 24 w)]"

definition le_word :: "8 word list \<Rightarrow> 32 word" where
  "le_word bs = ucast (bs ! 0) OR push_bit 8 (ucast (bs ! 1)) OR push_bit 16 (ucast (bs ! 2)) OR push_bit 24 (ucast (bs ! 3))"

text \<open>\<open>blocks[k]\<close>, read and written.\<close>

definition block_at :: "8 word list \<Rightarrow> md5_words" where
  "block_at b k = le_word (take 4 (drop (4 * k) b))"

definition set_block :: "nat \<Rightarrow> 32 word \<Rightarrow> 8 word list \<Rightarrow> 8 word list" where
  "set_block k w b = take (4 * k) b @ le_bytes w @ drop (4 * k + 4) b"

section \<open>The rounds\<close>

type_synonym md5_regs = "32 word \<times> 32 word \<times> 32 word \<times> 32 word"

text \<open>\<open>x << n | x >>> (32 - n)\<close>\<close>

definition rotl :: "32 word \<Rightarrow> nat \<Rightarrow> 32 word" where
  "rotl x n = push_bit n x OR drop_bit (32 - n) x"

text \<open>Each pair of lines of the first round changes one register; a quarter of the round changes all four.  The
  blocks and the constants are the arguments.\<close>

definition ff :: "32 word \<Rightarrow> 32 word \<Rightarrow> 32 word \<Rightarrow> 32 word \<Rightarrow> 32 word \<Rightarrow> nat \<Rightarrow> 32 word \<Rightarrow> 32 word" where
  "ff a b c d x s t = (let a = a + (d XOR (b AND (c XOR d))) + x + t in rotl a s + b)"

definition quarter1 :: "32 word \<times> 32 word \<Rightarrow> 32 word \<times> 32 word \<Rightarrow> 32 word \<times> 32 word \<Rightarrow> 32 word \<times> 32 word \<Rightarrow> md5_regs \<Rightarrow> md5_regs" where
  "quarter1 = (\<lambda>(x0, t0) (x1, t1) (x2, t2) (x3, t3) (a, b, c, d).
     let a = ff a b c d x0 7 t0;
         d = ff d a b c x1 12 t1;
         c = ff c d a b x2 17 t2;
         b = ff b c d a x3 22 t3 in (a, b, c, d))"

definition gg :: "32 word \<Rightarrow> 32 word \<Rightarrow> 32 word \<Rightarrow> 32 word \<Rightarrow> 32 word \<Rightarrow> nat \<Rightarrow> 32 word \<Rightarrow> 32 word" where
  "gg a b c d x s t = (let a = a + (c XOR (d AND (b XOR c))) + x + t in rotl a s + b)"

definition quarter2 :: "32 word \<times> 32 word \<Rightarrow> 32 word \<times> 32 word \<Rightarrow> 32 word \<times> 32 word \<Rightarrow> 32 word \<times> 32 word \<Rightarrow> md5_regs \<Rightarrow> md5_regs" where
  "quarter2 = (\<lambda>(x0, t0) (x1, t1) (x2, t2) (x3, t3) (a, b, c, d).
     let a = gg a b c d x0 5 t0;
         d = gg d a b c x1 9 t1;
         c = gg c d a b x2 14 t2;
         b = gg b c d a x3 20 t3 in (a, b, c, d))"

definition quarter3 :: "32 word \<times> 32 word \<Rightarrow> 32 word \<times> 32 word \<Rightarrow> 32 word \<times> 32 word \<Rightarrow> 32 word \<times> 32 word \<Rightarrow> md5_regs \<Rightarrow> md5_regs" where
  "quarter3 = (\<lambda>(x0, t0) (x1, t1) (x2, t2) (x3, t3) (a, b, c, d).
     let bc = b XOR c;
         a = a + (bc XOR d) + x0 + t0; a = rotl a 4 + b;
         d = d + (bc XOR a) + x1 + t1; d = rotl d 11 + a;
         da = d XOR a;
         c = c + (da XOR b) + x2 + t2; c = rotl c 16 + d;
         b = b + (da XOR c) + x3 + t3; b = rotl b 23 + c in (a, b, c, d))"

definition ii :: "32 word \<Rightarrow> 32 word \<Rightarrow> 32 word \<Rightarrow> 32 word \<Rightarrow> 32 word \<Rightarrow> nat \<Rightarrow> 32 word \<Rightarrow> 32 word" where
  "ii a b c d x s t = (let a = a + (c XOR (b OR NOT d)) + x + t in rotl a s + b)"

definition quarter4 :: "32 word \<times> 32 word \<Rightarrow> 32 word \<times> 32 word \<Rightarrow> 32 word \<times> 32 word \<Rightarrow> 32 word \<times> 32 word \<Rightarrow> md5_regs \<Rightarrow> md5_regs" where
  "quarter4 = (\<lambda>(x0, t0) (x1, t1) (x2, t2) (x3, t3) (a, b, c, d).
     let a = ii a b c d x0 6 t0;
         d = ii d a b c x1 10 t1;
         c = ii c d a b x2 15 t2;
         b = ii b c d a x3 21 t3 in (a, b, c, d))"

text \<open>The first quarter of the first block, with the initial registers worked into the constants.\<close>

definition first_quarter :: "md5_words \<Rightarrow> md5_regs" where
  "first_quarter x =
     (let a = x 0 - 680876937;
          a = rotl a 7 - 271733879;
          d = ((- 1732584194) XOR (a AND 2004318071)) + x 1 - 117830708;
          d = rotl d 12 + a;
          c = ((- 271733879) XOR (d AND (a XOR (- 271733879)))) + x 2 - 1126478375;
          c = rotl c 17 + d;
          b = (a XOR (c AND (d XOR a))) + x 3 - 1316259209;
          b = rotl b 22 + c in (a, b, c, d))"

definition start_round1 :: "md5_words \<Rightarrow> md5_regs \<Rightarrow> md5_regs" where
  "start_round1 x = quarter1 (x 0, - 680876936) (x 1, - 389564586) (x 2, 606105819) (x 3, - 1044525330)"

definition rest_round1 :: "md5_words \<Rightarrow> md5_regs \<Rightarrow> md5_regs" where
  "rest_round1 x r =
     quarter1 (x 12, 1804603682) (x 13, - 40341101) (x 14, - 1502002290) (x 15, 1236535329)
     (quarter1 (x 8, 1770035416) (x 9, - 1958414417) (x 10, - 42063) (x 11, - 1990404162)
     (quarter1 (x 4, - 176418897) (x 5, 1200080426) (x 6, - 1473231341) (x 7, - 45705983) r))"

definition round2 :: "md5_words \<Rightarrow> md5_regs \<Rightarrow> md5_regs" where
  "round2 x r =
     quarter2 (x 13, - 1444681467) (x 2, - 51403784) (x 7, 1735328473) (x 12, - 1926607734)
     (quarter2 (x 9, 568446438) (x 14, - 1019803690) (x 3, - 187363961) (x 8, 1163531501)
     (quarter2 (x 5, - 701558691) (x 10, 38016083) (x 15, - 660478335) (x 4, - 405537848)
     (quarter2 (x 1, - 165796510) (x 6, - 1069501632) (x 11, 643717713) (x 0, - 373897302) r)))"

definition round3 :: "md5_words \<Rightarrow> md5_regs \<Rightarrow> md5_regs" where
  "round3 x r =
     quarter3 (x 9, - 640364487) (x 12, - 421815835) (x 15, 530742520) (x 2, - 995338651)
     (quarter3 (x 13, 681279174) (x 0, - 358537222) (x 3, - 722521979) (x 6, 76029189)
     (quarter3 (x 1, - 1530992060) (x 4, 1272893353) (x 7, - 155497632) (x 10, - 1094730640)
     (quarter3 (x 5, - 378558) (x 8, - 2022574463) (x 11, 1839030562) (x 14, - 35309556) r)))"

definition round4 :: "md5_words \<Rightarrow> md5_regs \<Rightarrow> md5_regs" where
  "round4 x r =
     quarter4 (x 4, - 145523070) (x 11, - 1120210379) (x 2, 718787259) (x 9, - 343485551)
     (quarter4 (x 8, 1873313359) (x 15, - 30611744) (x 6, - 1560198380) (x 13, 1309151649)
     (quarter4 (x 12, 1700485571) (x 3, - 1894986606) (x 10, - 1051523) (x 1, - 2054922799)
     (quarter4 (x 0, - 198630844) (x 7, 1126891415) (x 14, - 1416354905) (x 5, - 57434055) r)))"

section \<open>The object\<close>

text \<open>\<open>lastByteIndex\<close> is undefined until the first byte comes, which the shifts and tests that use it read as 0.\<close>

record md5_object =
  mbuffer :: "8 word list"
  regs :: md5_regs
  mstart :: nat
  mbytes :: nat
  hBytes :: "32 word"
  finalized :: bool
  hashed :: bool
  mfirst :: bool
  lastByteIndex :: nat

definition new_Md5 :: md5_object where
  "new_Md5 = \<lparr>mbuffer = replicate 68 0, regs = (0, 0, 0, 0), mstart = 0, mbytes = 0, hBytes = 0, finalized = False,
     hashed = False, mfirst = True, lastByteIndex = 0\<rparr>"

text \<open>\<open>hash\<close>\<close>

definition hash_block :: "md5_object \<Rightarrow> md5_object" where
  "hash_block m =
     (let x = block_at (mbuffer m);
          r = (if mfirst m then first_quarter x else start_round1 x (regs m)) in
      case round4 x (round3 x (round2 x (rest_round1 x r))) of (a, b, c, d) \<Rightarrow>
        if mfirst m
        then m\<lparr>regs := (a + 1732584193, b - 271733879, c - 1732584194, d + 271733878), mfirst := False\<rparr>
        else case regs m of (h0, h1, h2, h3) \<Rightarrow> m\<lparr>regs := (h0 + a, h1 + b, h2 + c, h3 + d)\<rparr>)"

text \<open>The word after the block becomes the first one, and all others are cleared.\<close>

definition shift_block :: "8 word list \<Rightarrow> 8 word list" where
  "shift_block b = set_block 0 (block_at b 16) (replicate 68 0)"

text \<open>The bytes of the next character, and what is left of the string.  A code unit of a surrogate takes the
  next unit along with it, whatever that is; past the end it reads \<open>NaN\<close>, which the mask turns into 0.\<close>

fun next_char :: "nat \<Rightarrow> jsstr \<Rightarrow> 8 word list \<times> jsstr" where
  "next_char c s =
     (if c < 0x80 then ([of_nat c], s)
      else if c < 0x800 then ([of_nat (0xC0 OR drop_bit 6 c), of_nat (0x80 OR (c AND 0x3F))], s)
      else if c < 0xD800 \<or> 0xE000 \<le> c
      then ([of_nat (0xE0 OR drop_bit 12 c), of_nat (0x80 OR (drop_bit 6 c AND 0x3F)), of_nat (0x80 OR (c AND 0x3F))], s)
      else let e = (case s of [] \<Rightarrow> 0 | d # ds \<Rightarrow> d);
               c = 0x10000 + (push_bit 10 (c AND 0x3FF) OR (e AND 0x3FF)) in
        ([of_nat (0xF0 OR drop_bit 18 c), of_nat (0x80 OR (drop_bit 12 c AND 0x3F)),
          of_nat (0x80 OR (drop_bit 6 c AND 0x3F)), of_nat (0x80 OR (c AND 0x3F))], drop 1 s))"

text \<open>What is hashed: a string, or the bytes of an array, a view or a buffer.  Anything else is invalid.\<close>

datatype md5_input = Text jsstr | Octets "8 word list" | Invalid

text \<open>The next bytes of a message and what is left of it.\<close>

fun next_bytes :: "md5_input \<Rightarrow> 8 word list \<times> md5_input" where
  "next_bytes (Text (c # s)) = (case next_char c s of (bs, r) \<Rightarrow> (bs, Text r))"
| "next_bytes (Octets (b # bs)) = ([b], Octets bs)"
| "next_bytes m = ([], m)"

fun input_length :: "md5_input \<Rightarrow> nat" where
  "input_length (Text s) = length s"
| "input_length (Octets bs) = length bs"
| "input_length Invalid = 0"

lemma input_length_next: "0 < input_length m \<Longrightarrow> input_length (snd (next_bytes m)) < input_length m"
  by (induction m rule: next_bytes.induct) (auto simp: Let_def)

text \<open>\<open>buffer8[i++] = \<dots>\<close> for each byte: a write past the end of the buffer does nothing.\<close>

fun put_at :: "nat \<Rightarrow> 8 word list \<Rightarrow> 8 word list \<Rightarrow> nat \<times> 8 word list" where
  "put_at i [] b = (i, b)"
| "put_at i (x # xs) b = put_at (Suc i) xs (b[i := x])"

text \<open>The inner loop of \<open>update\<close>: bytes are stored until the block is full or the message is at its end.\<close>

function fill_block :: "nat \<Rightarrow> md5_input \<Rightarrow> 8 word list \<Rightarrow> nat \<times> md5_input \<times> 8 word list" where
  "fill_block i m b =
     (if 0 < input_length m \<and> i < 64
      then case next_bytes m of (xs, m') \<Rightarrow> (case put_at i xs b of (j, b') \<Rightarrow> fill_block j m' b')
      else (i, m, b))"
  by pat_completeness auto
termination
  by (relation "measure (\<lambda>(i, m, b). input_length m)") (use input_length_next in \<open>auto simp: prod_eq_iff\<close>)

declare fill_block.simps [simp del]

lemma fill_block_shrinks:
  "input_length (fst (snd (fill_block i m b))) \<le> input_length m"
  "0 < input_length m \<Longrightarrow> i < 64 \<Longrightarrow> input_length (fst (snd (fill_block i m b))) < input_length m"
proof -
  show le: "input_length (fst (snd (fill_block i m b))) \<le> input_length m" for i m b
  proof (induction i m b rule: fill_block.induct)
    case (1 i m b)
    obtain xs m' where n: "next_bytes m = (xs, m')" by (cases "next_bytes m")
    obtain j b' where p: "put_at i xs b = (j, b')" by (cases "put_at i xs b")
    show ?case
    proof (cases "0 < input_length m \<and> i < 64")
      case True
      have "input_length m' < input_length m" using input_length_next [of m] True n by simp
      moreover have "input_length (fst (snd (fill_block j m' b'))) \<le> input_length m'" using 1 True n p by simp
      ultimately show ?thesis using True n p by (simp add: fill_block.simps [of i m b])
    qed (auto simp: fill_block.simps [of i m b])
  qed
  assume a: "0 < input_length m" "i < 64"
  obtain xs m' where n: "next_bytes m = (xs, m')" by (cases "next_bytes m")
  obtain j b' where p: "put_at i xs b = (j, b')" by (cases "put_at i xs b")
  have "input_length m' < input_length m" using input_length_next [OF a(1)] n by simp
  then show "input_length (fst (snd (fill_block i m b))) < input_length m"
    using le [of j m' b'] a n p by (simp add: fill_block.simps [of i m b])
qed

text \<open>The outer loop of \<open>update\<close>: one pass.\<close>

definition update_pass :: "md5_object \<Rightarrow> md5_input \<Rightarrow> md5_object \<times> md5_input" where
  "update_pass m msg =
     (let m = (if hashed m then m\<lparr>hashed := False, mbuffer := shift_block (mbuffer m)\<rparr> else m) in
      case fill_block (mstart m) msg (mbuffer m) of (i, msg', b) \<Rightarrow>
        let m = m\<lparr>mbuffer := b, lastByteIndex := i, mbytes := mbytes m + (i - mstart m)\<rparr> in
        if 64 \<le> i then ((hash_block (m\<lparr>mstart := i - 64\<rparr>))\<lparr>hashed := True\<rparr>, msg')
        else (m\<lparr>mstart := i\<rparr>, msg'))"

lemma hash_block_fields [simp]:
  "mstart (hash_block m) = mstart m" "mbuffer (hash_block m) = mbuffer m" "mbytes (hash_block m) = mbytes m"
  "hBytes (hash_block m) = hBytes m" "finalized (hash_block m) = finalized m" "hashed (hash_block m) = hashed m"
  "lastByteIndex (hash_block m) = lastByteIndex m" "\<not> mfirst (hash_block m)"
  by (auto simp: hash_block_def Let_def split: prod.split)

lemma update_pass_shrinks:
  assumes "0 < input_length msg"
  shows "input_length (snd (update_pass m msg)) < input_length msg \<or>
    input_length (snd (update_pass m msg)) = input_length msg \<and> mstart (fst (update_pass m msg)) < mstart m"
proof (cases "mstart m < 64")
  case True
  then show ?thesis using fill_block_shrinks(2) [OF assms True]
    by (auto simp: update_pass_def Let_def split: prod.split) (metis fst_conv snd_conv)+
next
  case False
  then have "fill_block (mstart m) msg b = (mstart m, msg, b)" for b by (simp add: fill_block.simps)
  then show ?thesis using False by (simp add: update_pass_def Let_def)
qed

function update_loop :: "md5_object \<Rightarrow> md5_input \<Rightarrow> md5_object" where
  "update_loop m msg = (if input_length msg = 0 then m else update_loop (fst (update_pass m msg)) (snd (update_pass m msg)))"
  by pat_completeness auto
termination
  by (relation "inv_image (less_than <*lex*> less_than) (\<lambda>(m, msg). (input_length msg, mstart m))")
    (auto simp: case_prod_beta dest!: update_pass_shrinks)

declare update_loop.simps [simp del]

text \<open>\<open>update\<close> throws the text \<open>ERROR\<close>, returns \<open>undefined\<close> when the hash is finished, or else the object.\<close>

datatype update_result = Throws | NoObject | Updated md5_object

definition update :: "md5_object \<Rightarrow> md5_input \<Rightarrow> update_result" where
  "update m msg =
     (if finalized m then NoObject
      else if msg = Invalid then Throws
      else let m = update_loop m msg in
        Updated (if 4294967295 < mbytes m
          then m\<lparr>hBytes := hBytes m + of_nat (mbytes m div 4294967296), mbytes := mbytes m mod 4294967296\<rparr>
          else m))"

definition EXTRA :: "32 word list" where
  "EXTRA = [128, 32768, 8388608, - 2147483648]"

definition finish_blocks :: "md5_object \<Rightarrow> md5_object" where
  "finish_blocks m =
     (let i = lastByteIndex m;
          m = m\<lparr>mbuffer := set_block (i div 4) (block_at (mbuffer m) (i div 4) OR EXTRA ! (i mod 4)) (mbuffer m)\<rparr> in
      if 56 \<le> i
      then let m = (if \<not> hashed m then hash_block m else m) in m\<lparr>mbuffer := shift_block (mbuffer m)\<rparr>
      else m)"

definition finalize :: "md5_object \<Rightarrow> md5_object" where
  "finalize m =
     (if finalized m then m
      else let m = finish_blocks (m\<lparr>finalized := True\<rparr>) in
        hash_block (m\<lparr>mbuffer := set_block 15 (push_bit 3 (hBytes m) OR of_nat (drop_bit 29 (mbytes m)))
          (set_block 14 (push_bit 3 (of_nat (mbytes m))) (mbuffer m))\<rparr>))"

section \<open>Outputs\<close>

text \<open>\<open>digest\<close>, \<open>array\<close> and the bytes of \<open>arrayBuffer\<close> return the finished object along with their result.\<close>

definition digest :: "md5_object \<Rightarrow> 8 word list \<times> md5_object" where
  "digest m = (let m = finalize m in
     case regs m of (h0, h1, h2, h3) \<Rightarrow>
       ([ucast (h0 AND 0xFF), ucast (drop_bit 8 h0 AND 0xFF), ucast (drop_bit 16 h0 AND 0xFF), ucast (drop_bit 24 h0 AND 0xFF),
         ucast (h1 AND 0xFF), ucast (drop_bit 8 h1 AND 0xFF), ucast (drop_bit 16 h1 AND 0xFF), ucast (drop_bit 24 h1 AND 0xFF),
         ucast (h2 AND 0xFF), ucast (drop_bit 8 h2 AND 0xFF), ucast (drop_bit 16 h2 AND 0xFF), ucast (drop_bit 24 h2 AND 0xFF),
         ucast (h3 AND 0xFF), ucast (drop_bit 8 h3 AND 0xFF), ucast (drop_bit 16 h3 AND 0xFF), ucast (drop_bit 24 h3 AND 0xFF)], m))"

definition arrayBuffer :: "md5_object \<Rightarrow> 8 word list \<times> md5_object" where
  "arrayBuffer m = (let m = finalize m in
     case regs m of (h0, h1, h2, h3) \<Rightarrow> (le_bytes h0 @ le_bytes h1 @ le_bytes h2 @ le_bytes h3, m))"

definition HEX_CHARS :: jsstr where
  "HEX_CHARS = js ''0123456789abcdef''"

definition nibble :: "32 word \<Rightarrow> nat \<Rightarrow> nat" where
  "nibble h k = HEX_CHARS ! unat (drop_bit k h AND 0x0F)"

definition hex_word :: "32 word \<Rightarrow> jsstr" where
  "hex_word h = [nibble h 4, nibble h 0, nibble h 12, nibble h 8, nibble h 20, nibble h 16, nibble h 28, nibble h 24]"

definition hex :: "md5_object \<Rightarrow> jsstr \<times> md5_object" where
  "hex m = (let m = finalize m in
     case regs m of (h0, h1, h2, h3) \<Rightarrow> (hex_word h0 @ hex_word h1 @ hex_word h2 @ hex_word h3, m))"

definition BASE64_ENCODE_CHAR :: jsstr where
  "BASE64_ENCODE_CHAR = js ''ABCDEFGHIJKLMNOPQRSTUVWXYZabcdefghijklmnopqrstuvwxyz0123456789+/''"

fun base64_groups :: "nat list \<Rightarrow> jsstr" where
  "base64_groups (v1 # v2 # v3 # r) =
     [BASE64_ENCODE_CHAR ! drop_bit 2 v1, BASE64_ENCODE_CHAR ! ((push_bit 4 v1 OR drop_bit 4 v2) AND 63),
      BASE64_ENCODE_CHAR ! ((push_bit 2 v2 OR drop_bit 6 v3) AND 63), BASE64_ENCODE_CHAR ! (v3 AND 63)] @ base64_groups r"
| "base64_groups (v1 # r) =
     [BASE64_ENCODE_CHAR ! drop_bit 2 v1, BASE64_ENCODE_CHAR ! (push_bit 4 v1 AND 63)] @ js ''==''"
| "base64_groups [] = []"

definition base64 :: "md5_object \<Rightarrow> jsstr \<times> md5_object" where
  "base64 m = (case digest m of (bs, m') \<Rightarrow> (base64_groups (map unat bs), m'))"

text \<open>\<open>md5(message)\<close> and its other forms make an object and ask it for one output; the call of a method of
  \<open>undefined\<close> cannot happen, since the object is new.\<close>

definition md5_output :: "(md5_object \<Rightarrow> 'a \<times> md5_object) \<Rightarrow> md5_input \<Rightarrow> 'a option" where
  "md5_output f msg = (case update new_Md5 msg of Updated m \<Rightarrow> Some (fst (f m)) | _ \<Rightarrow> None)"

definition md5 :: "md5_input \<Rightarrow> jsstr option" where
  "md5 = md5_output hex"

end
