(* ===== verification/Md5_Correct.thy ===== *)
theory Md5_Correct
  imports Md5
begin

text \<open>The hash of \<open>lib/pg/md5.js\<close> against RFC 1321: the unrolled rounds are those of the standard, and a message that
  comes in pieces, as strings or bytes, has the digest of the whole.\<close>

section \<open>The standard\<close>

definition rfc_F :: "32 word \<Rightarrow> 32 word \<Rightarrow> 32 word \<Rightarrow> 32 word" where
  "rfc_F x y z = (x AND y) OR (NOT x AND z)"

definition rfc_G :: "32 word \<Rightarrow> 32 word \<Rightarrow> 32 word \<Rightarrow> 32 word" where
  "rfc_G x y z = (x AND z) OR (y AND NOT z)"

definition rfc_H :: "32 word \<Rightarrow> 32 word \<Rightarrow> 32 word \<Rightarrow> 32 word" where
  "rfc_H x y z = x XOR y XOR z"

definition rfc_I :: "32 word \<Rightarrow> 32 word \<Rightarrow> 32 word \<Rightarrow> 32 word" where
  "rfc_I x y z = y XOR (x OR NOT z)"

text \<open>The operation \<open>a = b + ((a + f(b, c, d) + X[k] + T[i]) <<< s)\<close>, after which the registers change their roles.\<close>

definition rfc_step :: "(32 word \<Rightarrow> 32 word \<Rightarrow> 32 word \<Rightarrow> 32 word) \<Rightarrow> md5_words \<Rightarrow> nat \<times> nat \<times> 32 word \<Rightarrow> md5_regs \<Rightarrow> md5_regs" where
  "rfc_step f X = (\<lambda>(k, s, t) (a, b, c, d). (d, b + word_rotl s (a + f b c d + X k + t), b, c))"

text \<open>The table \<open>T[1 \<dots> 64]\<close> of the standard, the integer part of 4294967296 times \<open>abs(sin(i))\<close>.\<close>

definition rfc_T :: "32 word list" where
  "rfc_T =
    [0xd76aa478, 0xe8c7b756, 0x242070db, 0xc1bdceee, 0xf57c0faf, 0x4787c62a, 0xa8304613, 0xfd469501,
     0x698098d8, 0x8b44f7af, 0xffff5bb1, 0x895cd7be, 0x6b901122, 0xfd987193, 0xa679438e, 0x49b40821,
     0xf61e2562, 0xc040b340, 0x265e5a51, 0xe9b6c7aa, 0xd62f105d, 0x02441453, 0xd8a1e681, 0xe7d3fbc8,
     0x21e1cde6, 0xc33707d6, 0xf4d50d87, 0x455a14ed, 0xa9e3e905, 0xfcefa3f8, 0x676f02d9, 0x8d2a4c8a,
     0xfffa3942, 0x8771f681, 0x6d9d6122, 0xfde5380c, 0xa4beea44, 0x4bdecfa9, 0xf6bb4b60, 0xbebfbc70,
     0x289b7ec6, 0xeaa127fa, 0xd4ef3085, 0x04881d05, 0xd9d4d039, 0xe6db99e5, 0x1fa27cf8, 0xc4ac5665,
     0xf4292244, 0x432aff97, 0xab9423a7, 0xfc93a039, 0x655b59c3, 0x8f0ccc92, 0xffeff47d, 0x85845dd1,
     0x6fa87e4f, 0xfe2ce6e0, 0xa3014314, 0x4e0811a1, 0xf7537e82, 0xbd3af235, 0x2ad7d2bb, 0xeb86d391]"

text \<open>Block, shift and constant of the sixteen operations of a round that takes its blocks in steps of \<open>m\<close> from \<open>n\<close>.\<close>

definition rfc_ops :: "nat \<Rightarrow> nat \<Rightarrow> nat list \<Rightarrow> nat \<Rightarrow> (nat \<times> nat \<times> 32 word) list" where
  "rfc_ops n m shifts r = map (\<lambda>i. ((n + m * i) mod 16, shifts ! (i mod 4), rfc_T ! (16 * r + i))) [0..<16]"

definition rfc_rounds :: "md5_words \<Rightarrow> md5_regs \<Rightarrow> md5_regs" where
  "rfc_rounds X r =
     fold (rfc_step rfc_I X) (rfc_ops 0 7 [6, 10, 15, 21] 3)
     (fold (rfc_step rfc_H X) (rfc_ops 5 3 [4, 11, 16, 23] 2)
     (fold (rfc_step rfc_G X) (rfc_ops 1 5 [5, 9, 14, 20] 1)
     (fold (rfc_step rfc_F X) (rfc_ops 0 1 [7, 12, 17, 22] 0) r)))"

definition add_regs :: "md5_regs \<Rightarrow> md5_regs \<Rightarrow> md5_regs" where
  "add_regs = (\<lambda>(a, b, c, d) (a', b', c', d'). (a + a', b + b', c + c', d + d'))"

definition rfc_init :: md5_regs where
  "rfc_init = (0x67452301, 0xefcdab89, 0x98badcfe, 0x10325476)"

definition rfc_block :: "md5_regs \<Rightarrow> 8 word list \<Rightarrow> md5_regs" where
  "rfc_block r b = add_regs r (rfc_rounds (block_at b) r)"

text \<open>The registers after the full blocks of a message.\<close>

fun rfc_blocks :: "md5_regs \<Rightarrow> 8 word list \<Rightarrow> md5_regs" where
  "rfc_blocks r m = (if length m < 64 then r else rfc_blocks (rfc_block r (take 64 m)) (drop 64 m))"

declare rfc_blocks.simps [simp del]

text \<open>A bit 1, zeros up to 56 modulo 64 bytes, and the number of bits in two words with the low one first.\<close>

definition rfc_pad :: "8 word list \<Rightarrow> 8 word list" where
  "rfc_pad m = m @ [0x80] @ replicate ((119 - length m mod 64) mod 64) 0 @
     le_bytes (of_nat (8 * length m)) @ le_bytes (of_nat (8 * length m div 2 ^ 32))"

definition rfc_md5 :: "8 word list \<Rightarrow> 8 word list" where
  "rfc_md5 m = (case rfc_blocks rfc_init (rfc_pad m) of (a, b, c, d) \<Rightarrow> le_bytes a @ le_bytes b @ le_bytes c @ le_bytes d)"

section \<open>The rounds\<close>

lemma rotl_word: "0 < n \<Longrightarrow> n < 32 \<Longrightarrow> rotl x n = word_rotl n x"
proof (rule bit_word_eqI)
  fix k assume a: "0 < n" "n < 32" "k < LENGTH(32)"
  have "(k + 32 - n) mod 32 = (if n \<le> k then k - n else 32 + k - n)"
  proof (cases "n \<le> k")
    case True
    then have e: "k + 32 - n = k - n + 32" by simp
    show ?thesis unfolding e mod_add_self2 using True a by simp
  qed (use a in simp)
  then show "bit (rotl x n) k = bit (word_rotl n x) k"
    using a bit_imp_le_length [of x "32 + k - n"] by (auto simp: rotl_def bit_simps bit_word_rotl_iff)
qed

lemma ff_step: "0 < s \<Longrightarrow> s < 32 \<Longrightarrow> ff a b c d x s t = b + word_rotl s (a + rfc_F b c d + x + t)"
proof -
  have "d XOR (b AND (c XOR d)) = rfc_F b c d" by (rule bit_word_eqI) (auto simp: rfc_F_def bit_simps)
  then show "0 < s \<Longrightarrow> s < 32 \<Longrightarrow> ?thesis" by (simp add: ff_def rotl_word add.commute [of b])
qed

lemma gg_step: "0 < s \<Longrightarrow> s < 32 \<Longrightarrow> gg a b c d x s t = b + word_rotl s (a + rfc_G b c d + x + t)"
proof -
  have "c XOR (d AND (b XOR c)) = rfc_G b c d" by (rule bit_word_eqI) (auto simp: rfc_G_def bit_simps)
  then show "0 < s \<Longrightarrow> s < 32 \<Longrightarrow> ?thesis" by (simp add: gg_def rotl_word add.commute [of b])
qed

lemma ii_step: "0 < s \<Longrightarrow> s < 32 \<Longrightarrow> ii a b c d x s t = b + word_rotl s (a + rfc_I b c d + x + t)"
  by (simp add: ii_def rfc_I_def rotl_word add.commute [of b])

lemma quarter1: "quarter1 (X k0, t0) (X k1, t1) (X k2, t2) (X k3, t3) r =
    fold (rfc_step rfc_F X) [(k0, 7, t0), (k1, 12, t1), (k2, 17, t2), (k3, 22, t3)] r"
  by (cases r) (simp add: quarter1_def rfc_step_def ff_step Let_def)

lemma quarter2: "quarter2 (X k0, t0) (X k1, t1) (X k2, t2) (X k3, t3) r =
    fold (rfc_step rfc_G X) [(k0, 5, t0), (k1, 9, t1), (k2, 14, t2), (k3, 20, t3)] r"
  by (cases r) (simp add: quarter2_def rfc_step_def gg_step Let_def)

lemma quarter3: "quarter3 (X k0, t0) (X k1, t1) (X k2, t2) (X k3, t3) r =
    fold (rfc_step rfc_H X) [(k0, 4, t0), (k1, 11, t1), (k2, 16, t2), (k3, 23, t3)] r"
  by (cases r) (simp add: quarter3_def rfc_step_def rfc_H_def rotl_word Let_def ac_simps)

lemma quarter4: "quarter4 (X k0, t0) (X k1, t1) (X k2, t2) (X k3, t3) r =
    fold (rfc_step rfc_I X) [(k0, 6, t0), (k1, 10, t1), (k2, 15, t2), (k3, 21, t3)] r"
  by (cases r) (simp add: quarter4_def rfc_step_def ii_step Let_def)

lemma rfc_ops_rounds:
  "rfc_ops 0 1 [7, 12, 17, 22] 0 =
    [(0, 7, - 680876936), (1, 12, - 389564586), (2, 17, 606105819), (3, 22, - 1044525330)] @
    [(4, 7, - 176418897), (5, 12, 1200080426), (6, 17, - 1473231341), (7, 22, - 45705983)] @
    [(8, 7, 1770035416), (9, 12, - 1958414417), (10, 17, - 42063), (11, 22, - 1990404162)] @
    [(12, 7, 1804603682), (13, 12, - 40341101), (14, 17, - 1502002290), (15, 22, 1236535329)]"
  "rfc_ops 1 5 [5, 9, 14, 20] 1 =
    [(1, 5, - 165796510), (6, 9, - 1069501632), (11, 14, 643717713), (0, 20, - 373897302)] @
    [(5, 5, - 701558691), (10, 9, 38016083), (15, 14, - 660478335), (4, 20, - 405537848)] @
    [(9, 5, 568446438), (14, 9, - 1019803690), (3, 14, - 187363961), (8, 20, 1163531501)] @
    [(13, 5, - 1444681467), (2, 9, - 51403784), (7, 14, 1735328473), (12, 20, - 1926607734)]"
  "rfc_ops 5 3 [4, 11, 16, 23] 2 =
    [(5, 4, - 378558), (8, 11, - 2022574463), (11, 16, 1839030562), (14, 23, - 35309556)] @
    [(1, 4, - 1530992060), (4, 11, 1272893353), (7, 16, - 155497632), (10, 23, - 1094730640)] @
    [(13, 4, 681279174), (0, 11, - 358537222), (3, 16, - 722521979), (6, 23, 76029189)] @
    [(9, 4, - 640364487), (12, 11, - 421815835), (15, 16, 530742520), (2, 23, - 995338651)]"
  "rfc_ops 0 7 [6, 10, 15, 21] 3 =
    [(0, 6, - 198630844), (7, 10, 1126891415), (14, 15, - 1416354905), (5, 21, - 57434055)] @
    [(12, 6, 1700485571), (3, 10, - 1894986606), (10, 15, - 1051523), (1, 21, - 2054922799)] @
    [(8, 6, 1873313359), (15, 10, - 30611744), (6, 15, - 1560198380), (13, 21, 1309151649)] @
    [(4, 6, - 145523070), (11, 10, - 1120210379), (2, 15, 718787259), (9, 21, - 343485551)]"
  by code_simp+

lemma rounds_rfc: "round4 X (round3 X (round2 X (rest_round1 X (start_round1 X r)))) = rfc_rounds X r"
  unfolding rfc_rounds_def rfc_ops_rounds fold_append comp_def round4_def round3_def round2_def rest_round1_def start_round1_def
    quarter1 quarter2 quarter3 quarter4 ..

lemma first_quarter_rfc: "first_quarter X = start_round1 X rfc_init"
proof -
  have "first_quarter X = quarter1 (X 0, - 680876936) (X 1, - 389564586) (X 2, 606105819) (X 3, - 1044525330)
      (1732584193, - 271733879, - 1732584194, 271733878)"
    by (simp add: first_quarter_def quarter1_def ff_def Let_def algebra_simps)
  moreover have "rfc_init = (1732584193, - 271733879, - 1732584194, 271733878)" by code_simp
  ultimately show ?thesis by (simp only: start_round1_def)
qed

section \<open>Blocks\<close>

text \<open>The registers of the standard: until the first block the object has its initial ones in its constants.\<close>

definition md5_regs_of :: "md5_object \<Rightarrow> md5_regs" where
  "md5_regs_of m = (if mfirst m then rfc_init else regs m)"

lemma hash_block_rfc: "md5_regs_of (hash_block m) = rfc_block (md5_regs_of m) (mbuffer m)"
proof -
  have i: "rfc_init = (1732584193, - 271733879, - 1732584194, 271733878)" by code_simp
  obtain a b c d where r: "rfc_rounds (block_at (mbuffer m)) (md5_regs_of m) = (a, b, c, d)" by (cases "rfc_rounds (block_at (mbuffer m)) (md5_regs_of m)")
  show ?thesis
  proof (cases "mfirst m")
    case True
    then have f: "round4 (block_at (mbuffer m)) (round3 (block_at (mbuffer m)) (round2 (block_at (mbuffer m))
        (rest_round1 (block_at (mbuffer m)) (first_quarter (block_at (mbuffer m)))))) = (a, b, c, d)"
      using r by (simp add: first_quarter_rfc rounds_rfc md5_regs_of_def)
    then show ?thesis using True r unfolding rfc_block_def by (simp add: hash_block_def Let_def f md5_regs_of_def i add_regs_def)
  next
    case False
    obtain h0 h1 h2 h3 where h: "regs m = (h0, h1, h2, h3)" by (cases "regs m")
    then show ?thesis using False r by (simp add: hash_block_def Let_def rounds_rfc md5_regs_of_def rfc_block_def add_regs_def)
  qed
qed

lemma block_at_take: "k < 16 \<Longrightarrow> block_at (take 64 b) k = block_at b k"
  by (simp add: block_at_def drop_take)

lemma block_take: "rfc_block r (take 64 b) = rfc_block r b"
proof -
  have q: "quarter1 (X k0, t0) (X k1, t1) (X k2, t2) (X k3, t3) x = quarter1 (Y k0, t0) (Y k1, t1) (Y k2, t2) (Y k3, t3) x"
    if "X k0 = Y k0" "X k1 = Y k1" "X k2 = Y k2" "X k3 = Y k3" for X Y :: md5_words and k0 k1 k2 k3 t0 t1 t2 t3 x
    using that by simp
  show ?thesis unfolding rfc_block_def rounds_rfc [symmetric] round4_def round3_def round2_def rest_round1_def start_round1_def
    by (simp add: block_at_take)
qed

lemma block_prefix: "length b = 64 \<Longrightarrow> rfc_block r (b @ c) = rfc_block r b"
  using block_take [of r "b @ c"] by simp

lemma rfc_blocks_short [simp]: "length m < 64 \<Longrightarrow> rfc_blocks r m = r"
  by (simp add: rfc_blocks.simps)

lemma rfc_blocks_step: "length b = 64 \<Longrightarrow> rfc_blocks r (b @ m) = rfc_blocks (rfc_block r b) m"
  by (simp add: rfc_blocks.simps [of r "b @ m"])

text \<open>Adding to a message that has been cut into blocks.\<close>

definition tail_of :: "8 word list \<Rightarrow> 8 word list" where
  "tail_of m = drop (64 * (length m div 64)) m"

lemma length_tail [simp]: "length (tail_of m) = length m mod 64"
  by (simp add: tail_of_def minus_mult_div_eq_mod)

lemma tail_step: "length b = 64 \<Longrightarrow> tail_of (b @ m) = tail_of m"
  by (simp add: tail_of_def div_add_self1)

lemma tail_short [simp]: "length m < 64 \<Longrightarrow> tail_of m = m"
  by (simp add: tail_of_def)

lemma blocks_append:
  "rfc_blocks r (m @ x) = rfc_blocks (rfc_blocks r m) (tail_of m @ x)" "tail_of (m @ x) = tail_of (tail_of m @ x)"
proof (induction r m rule: rfc_blocks.induct)
  case (1 r m)
  have "rfc_blocks r (m @ x) = rfc_blocks (rfc_blocks r m) (tail_of m @ x) \<and> tail_of (m @ x) = tail_of (tail_of m @ x)"
  proof (cases "length m < 64")
    case False
    then obtain b m' where m: "m = b @ m'" "length b = 64" by (intro that [of "take 64 m" "drop 64 m"]) simp_all
    have "rfc_blocks (rfc_block r b) (m' @ x) = rfc_blocks (rfc_blocks (rfc_block r b) m') (tail_of m' @ x)"
      "tail_of (m' @ x) = tail_of (tail_of m' @ x)"
      using "1.IH" m by simp_all
    then show ?thesis using m(2) by (simp add: m(1) rfc_blocks_step tail_step)
  qed simp
  then show "rfc_blocks r (m @ x) = rfc_blocks (rfc_blocks r m) (tail_of m @ x)" "tail_of (m @ x) = tail_of (tail_of m @ x)" by simp_all
qed

section \<open>Words in the buffer\<close>

lemma length_le_bytes [simp]: "length (le_bytes w) = 4"
  by (simp add: le_bytes_def)

lemma le_word_bytes: "le_word (le_bytes w) = w"
proof (rule bit_word_eqI)
  fix n assume n: "n < LENGTH(32)"
  consider "n < 8" | "8 \<le> n" "n < 16" | "16 \<le> n" "n < 24" | "24 \<le> n" by linarith
  then show "bit (le_word (le_bytes w)) n = bit w n"
    using n by cases (auto simp: le_word_def le_bytes_def bit_simps)
qed

lemma le_bytes_word:
  assumes "length bs = 4"
  shows "le_bytes (le_word bs) = bs"
proof -
  obtain a b c d where bs: "bs = [a, b, c, d]" using assms by (auto simp: length_Suc_conv numeral_eq_Suc)
  have "ucast (le_word bs) = a" "ucast (drop_bit 8 (le_word bs)) = b" "ucast (drop_bit 16 (le_word bs)) = c"
      "ucast (drop_bit 24 (le_word bs)) = d"
    unfolding bs le_word_def by (rule bit_word_eqI; auto simp: bit_simps dest: bit_imp_le_length)+
  then show ?thesis by (simp add: le_bytes_def bs)
qed

lemma le_word_or:
  assumes "j < 4" and "length bs = 4"
  shows "le_word bs OR EXTRA ! j = le_word (bs[j := bs ! j OR 0x80])"
proof -
  consider "j = 0" | "j = 1" | "j = 2" | "j = 3" using assms(1) by linarith
  note j = this
  have x: "EXTRA = map (\<lambda>j. push_bit (8 * j) (ucast (0x80 :: 8 word))) [0..<4]" by code_simp
  have e: "EXTRA ! j = push_bit (8 * j) (ucast (0x80 :: 8 word))" unfolding x using assms(1) by (subst nth_map) simp_all
  have o: "ucast (x OR y) = (ucast x OR ucast y :: 32 word)" for x y :: "8 word"
    by (rule bit_word_eqI) (auto simp: bit_simps)
  obtain a b c d where bs: "bs = [a, b, c, d]" using assms(2) by (auto simp: length_Suc_conv numeral_eq_Suc)
  have r: "w OR x OR y OR z OR t = (w OR t) OR x OR y OR z" "w OR x OR y OR z OR t = w OR (x OR t) OR y OR z"
    "w OR x OR y OR z OR t = w OR x OR (y OR t) OR z" for w x y z t :: "32 word"
    by (rule bit_word_eqI; auto simp: bit_simps)+
  show ?thesis unfolding e bs using j
    by cases (auto simp: le_word_def o push_bit_or or.assoc intro: r(1) [unfolded or.assoc] r(2) [unfolded or.assoc] r(3) [unfolded or.assoc])
qed

lemma set_byte:
  assumes "length b = 68" and "i < 68"
  shows "set_block (i div 4) (block_at b (i div 4) OR EXTRA ! (i mod 4)) b = b[i := b ! i OR 0x80]"
proof -
  obtain k j where i: "i = 4 * k + j" "j < 4" "i div 4 = k" "i mod 4 = j" "4 * k + 4 \<le> 68"
    using assms(2) by (intro that [of "i div 4" "i mod 4"]) presburger+
  obtain p q r where b: "b = p @ q @ r" "length p = 4 * k" "length q = 4"
    using assms(1) i(5) by (intro that [of "take (4 * k) b" "take 4 (drop (4 * k) b)" "drop (4 * k + 4) b"])
      (simp_all, metis append_take_drop_id drop_drop add.commute)
  have q: "take 4 (drop (4 * k) b) = q" "drop (4 * k + 4) b = r" "take (4 * k) b = p" "b ! i = q ! j"
    using b i(1,2) by (simp_all add: nth_append)
  have "set_block k (block_at b k OR EXTRA ! j) b = p @ q[j := q ! j OR 0x80] @ r"
    using b(3) le_word_or [OF i(2) b(3)] by (simp add: set_block_def block_at_def q le_bytes_word)
  also have "\<dots> = b[i := b ! i OR 0x80]"
    using i(1,2) b by (simp add: list_update_append nth_append)
  finally show ?thesis by (simp add: i(3,4))
qed

lemma shift_block_eq: "length b = 68 \<Longrightarrow> shift_block b = drop 64 b @ replicate 64 0"
  by (simp add: shift_block_def set_block_def block_at_def le_bytes_word)

lemma shift_block_append: "length q = 64 \<Longrightarrow> length r = 4 \<Longrightarrow> shift_block (q @ r) = r @ replicate 64 0"
  by (simp add: shift_block_eq)

section \<open>Messages in pieces\<close>

text \<open>The bytes that are hashed for a string: two code units for a surrogate, one for any other character.\<close>

declare next_char.simps [simp del]

lemma next_char_rest: "next_char c s = (bs, r) \<Longrightarrow> length r \<le> length s" and next_char_bytes: "next_char c s = (bs, r) \<Longrightarrow> length bs \<le> 4"
  by (auto simp: next_char.simps Let_def split: if_splits)

function md5_utf8 :: "jsstr \<Rightarrow> 8 word list" where
  "md5_utf8 [] = []"
| "md5_utf8 (c # s) = (case next_char c s of (bs, r) \<Rightarrow> bs @ md5_utf8 r)"
  by pat_completeness auto
termination
  by (relation "measure length") (auto dest!: next_char_rest [OF sym])

fun input_bytes :: "md5_input \<Rightarrow> 8 word list" where
  "input_bytes (Text s) = md5_utf8 s"
| "input_bytes (Octets bs) = bs"
| "input_bytes Invalid = []"

lemma input_bytes_next:
  "0 < input_length m \<Longrightarrow> input_bytes m = fst (next_bytes m) @ input_bytes (snd (next_bytes m)) \<and> length (fst (next_bytes m)) \<le> 4"
  by (induction m rule: next_bytes.induct) (auto split: prod.split dest: next_char_bytes)

lemma input_bytes_empty: "input_length m = 0 \<Longrightarrow> input_bytes m = []"
  by (cases m) auto

lemma put_at_append:
  assumes "length a = i" and "i + length xs \<le> n"
  shows "put_at i xs (a @ replicate (n - i) 0) = (i + length xs, a @ xs @ replicate (n - (i + length xs)) 0)"
  using assms
proof (induction xs arbitrary: a i)
  case (Cons x xs)
  have "n - i = Suc (n - Suc i)" using Cons.prems by simp
  then have "(a @ replicate (n - i) 0)[i := x] = (a @ [x]) @ replicate (n - Suc i) 0" using Cons.prems by (simp add: list_update_append)
  then show ?case using Cons.IH [of "a @ [x]" "Suc i"] Cons.prems by simp
qed simp

lemma fill_block_append:
  assumes "length a = i" and "i < 68"
  obtains j msg' w where "fill_block i msg (a @ replicate (68 - i) 0) = (j, msg', a @ w @ replicate (68 - j) 0)"
    and "j = i + length w" and "j < 68" and "input_bytes msg = w @ input_bytes msg'" and "j < 64 \<Longrightarrow> input_length msg' = 0"
  using assms
proof (induction "input_length msg" arbitrary: a i msg thesis rule: less_induct)
  case less
  show ?case
  proof (cases "0 < input_length msg \<and> i < 64")
    case False
    then show ?thesis using less.prems by (intro less.prems(1) [of i msg "[]"]) (auto simp: fill_block.simps [of i])
  next
    case True
    obtain xs m' where n: "next_bytes msg = (xs, m')" by (cases "next_bytes msg")
    have x: "input_bytes msg = xs @ input_bytes m'" "length xs \<le> 4" "input_length m' < input_length msg"
      using input_bytes_next [of msg] input_length_next [of msg] True n by auto
    have p: "put_at i xs (a @ replicate (68 - i) 0) = (i + length xs, (a @ xs) @ replicate (68 - (i + length xs)) 0)"
      using put_at_append [OF less.prems(2), of xs 68] x(2) True by simp
    have l: "length (a @ xs) = i + length xs" "i + length xs < 68" using less.prems(2) x(2) True by simp_all
    obtain j msg' w where f: "fill_block (i + length xs) m' ((a @ xs) @ replicate (68 - (i + length xs)) 0) = (j, msg', (a @ xs) @ w @ replicate (68 - j) 0)"
      "j = i + length xs + length w" "j < 68" "input_bytes m' = w @ input_bytes msg'" "j < 64 \<Longrightarrow> input_length msg' = 0"
      using less.hyps [OF x(3) _ l] by metis
    show ?thesis using f x(1) True n p
      by (intro less.prems(1) [of j msg' "xs @ w"]) (auto simp: fill_block.simps [of i])
  qed
qed

section \<open>The state between updates\<close>

text \<open>The object after the bytes \<open>M\<close>: the registers have taken the full blocks, and the bytes after them stand in
  the buffer, behind the block that was hashed last until the next update clears it.\<close>

definition md5_inv :: "8 word list \<Rightarrow> md5_object \<Rightarrow> bool" where
  "md5_inv M m \<longleftrightarrow> \<not> finalized m \<and> md5_regs_of m = rfc_blocks rfc_init M \<and> mstart m = length (tail_of M) \<and>
     (if hashed m
      then length (mbuffer m) = 68 \<and> length (tail_of M) < 4 \<and> lastByteIndex m = 64 + length (tail_of M) \<and>
        drop 64 (mbuffer m) = tail_of M @ replicate (4 - length (tail_of M)) 0
      else lastByteIndex m = length (tail_of M) \<and> mbuffer m = tail_of M @ replicate (68 - length (tail_of M)) 0) \<and>
     (mbytes m + 2 ^ 32 * unat (hBytes m)) mod 2 ^ 64 = length M mod 2 ^ 64"

lemma md5_inv_new: "md5_inv [] new_Md5"
  by (simp add: md5_inv_def new_Md5_def md5_regs_of_def)

lemma not_hashed: "\<not> hashed m \<Longrightarrow> m\<lparr>hashed := False\<rparr> = m"
  by (cases m) simp

lemma md5_regs_of_frame [simp]:
  "md5_regs_of (m\<lparr>hashed := x1\<rparr>) = md5_regs_of m" "md5_regs_of (m\<lparr>mbuffer := x2\<rparr>) = md5_regs_of m"
  "md5_regs_of (m\<lparr>lastByteIndex := x3\<rparr>) = md5_regs_of m" "md5_regs_of (m\<lparr>mbytes := x4\<rparr>) = md5_regs_of m"
  "md5_regs_of (m\<lparr>mstart := x5\<rparr>) = md5_regs_of m" "md5_regs_of (m\<lparr>finalized := x6\<rparr>) = md5_regs_of m"
  "md5_regs_of (m\<lparr>hBytes := x7\<rparr>) = md5_regs_of m"
  by (simp_all add: md5_regs_of_def)

lemma shifted_buffer:
  assumes "md5_inv M m"
  shows "(if hashed m then shift_block (mbuffer m) else mbuffer m) = tail_of M @ replicate (68 - length (tail_of M)) 0"
  using assms by (auto simp: md5_inv_def shift_block_eq replicate_add [symmetric])

lemma count_mod: "x mod n = y mod n \<Longrightarrow> (z + x) mod n = (z + y) mod (n :: nat)"
  by (metis mod_add_right_eq)

lemma update_pass_inv:
  assumes "md5_inv M m" and "update_pass m msg = (m', msg')"
  obtains w where "input_bytes msg = w @ input_bytes msg'" and "md5_inv (M @ w) m'"
proof -
  let ?t = "tail_of M"
  have t: "length ?t < 64" by simp
  obtain j msg1 w where f: "fill_block (length ?t) msg (?t @ replicate (68 - length ?t) 0) = (j, msg1, ?t @ w @ replicate (68 - j) 0)"
    "j = length ?t + length w" "j < 68" "input_bytes msg = w @ input_bytes msg1" "j < 64 \<Longrightarrow> input_length msg1 = 0"
    using t by (rule_tac fill_block_append [of ?t "length ?t" msg]) simp_all
  have n: "\<not> finalized m" "md5_regs_of m = rfc_blocks rfc_init M" "mstart m = length ?t"
    and count: "(mbytes m + 2 ^ 32 * unat (hBytes m)) mod 2 ^ 64 = length M mod 2 ^ 64"
    using assms(1) by (simp_all add: md5_inv_def)
  have count': "(mbytes m + length w + 2 ^ 32 * unat (hBytes m)) mod 2 ^ 64 = length (M @ w) mod 2 ^ 64"
    using count_mod [OF count, of "length w"] by (simp add: ac_simps)
  have r: "rfc_blocks rfc_init (M @ w) = rfc_blocks (rfc_blocks rfc_init M) (?t @ w)" "tail_of (M @ w) = tail_of (?t @ w)"
    by (rule blocks_append)+
  define m1 where "m1 = m\<lparr>hashed := False, mbuffer := ?t @ w @ replicate (68 - j) 0, lastByteIndex := j, mbytes := mbytes m + length w\<rparr>"
  have p: "update_pass m msg = (if 64 \<le> j then ((hash_block (m1\<lparr>mstart := j - 64\<rparr>))\<lparr>hashed := True\<rparr>, msg1) else (m1\<lparr>mstart := j\<rparr>, msg1))"
    using shifted_buffer [OF assms(1)] n(3) f(1,2) by (auto simp: update_pass_def m1_def not_hashed split: if_splits)
  have m1: "md5_regs_of m1 = rfc_blocks rfc_init M" using n(2) by (simp add: m1_def)
  show ?thesis
  proof (cases "64 \<le> j")
    case False
    then have "md5_inv (M @ w) (m1\<lparr>mstart := j\<rparr>)"
      using n(1) f(2) m1 count' by (simp add: md5_inv_def r m1_def)
    then show ?thesis using that [of w] assms(2) p f(4) False by simp
  next
    case True
    define q u where "q = take 64 (?t @ w)" and "u = drop 64 (?t @ w)"
    have qu: "?t @ w = q @ u" "length q = 64" "length u = j - 64" "length u < 4" using True f(2,3) by (simp_all add: q_def u_def)
    have b: "mbuffer m1 = q @ u @ replicate (68 - j) 0" using qu(1) by (simp add: m1_def)
    have "rfc_block x (mbuffer m1) = rfc_block x q" for x
      unfolding b by (rule block_prefix [OF qu(2)])
    then have h: "md5_regs_of (hash_block (m1\<lparr>mstart := j - 64\<rparr>)) = rfc_blocks rfc_init (M @ w)"
      using qu by (simp add: hash_block_rfc m1 r(1) rfc_blocks_step)
    have tail: "tail_of (M @ w) = u" using qu by (simp add: r(2) tail_step)
    have "md5_inv (M @ w) ((hash_block (m1\<lparr>mstart := j - 64\<rparr>))\<lparr>hashed := True\<rparr>)"
      using n(1) h qu(2,3,4) True f(3) count' b by (simp add: md5_inv_def tail) (simp add: m1_def)
    then show ?thesis using that [of w] assms(2) p f(4) True by simp
  qed
qed

lemma update_loop_inv: "md5_inv M m \<Longrightarrow> md5_inv (M @ input_bytes msg) (update_loop m msg)"
proof (induction m msg arbitrary: M rule: update_loop.induct)
  case (1 m msg)
  show ?case
  proof (cases "input_length msg = 0")
    case True
    then show ?thesis using 1 by (simp add: update_loop.simps [of m msg] input_bytes_empty)
  next
    case False
    obtain m' msg' where p: "update_pass m msg = (m', msg')" by (cases "update_pass m msg")
    obtain w where "input_bytes msg = w @ input_bytes msg'" "md5_inv (M @ w) m'"
      using update_pass_inv [OF "1.prems" p] by blast
    then show ?thesis using 1(1) [OF False, of "M @ w"] p False by (simp add: update_loop.simps [of m msg])
  qed
qed

lemma update_inv:
  assumes "md5_inv M m" and "msg \<noteq> Invalid"
  obtains m' where "update m msg = Updated m'" and "md5_inv (M @ input_bytes msg) m'" and "mbytes m' < 2 ^ 32"
proof -
  define m1 where "m1 = update_loop m msg"
  have i: "md5_inv (M @ input_bytes msg) m1" using update_loop_inv [OF assms(1)] by (simp add: m1_def)
  have u: "update m msg = Updated (if 4294967295 < mbytes m1
      then m1\<lparr>hBytes := hBytes m1 + of_nat (mbytes m1 div 4294967296), mbytes := mbytes m1 mod 4294967296\<rparr> else m1)"
    using assms by (simp add: update_def m1_def md5_inv_def Let_def)
  show ?thesis
  proof (cases "4294967295 < mbytes m1")
    case True
    let ?x = "mbytes m1" and ?h = "hBytes m1"
    have "unat (?h + of_nat (?x div 2 ^ 32)) = (unat ?h + ?x div 2 ^ 32) mod 2 ^ 32"
      by (simp add: unat_word_ariths unat_of_nat mod_simps)
    then have "2 ^ 32 * unat (?h + of_nat (?x div 2 ^ 32)) = 2 ^ 32 * (unat ?h + ?x div 2 ^ 32) mod 2 ^ 64"
      by (simp add: mult_mod_right)
    then have "(?x mod 2 ^ 32 + 2 ^ 32 * unat (?h + of_nat (?x div 2 ^ 32))) mod 2 ^ 64 =
        (?x mod 2 ^ 32 + 2 ^ 32 * (unat ?h + ?x div 2 ^ 32)) mod 2 ^ 64"
      by (simp only: mod_add_right_eq)
    also have "?x mod 2 ^ 32 + 2 ^ 32 * (unat ?h + ?x div 2 ^ 32) = ?x + 2 ^ 32 * unat ?h"
      using mod_mult_div_eq [of ?x "2 ^ 32"] by (simp only: add_mult_distrib2)
    finally have "md5_inv (M @ input_bytes msg) (m1\<lparr>hBytes := ?h + of_nat (?x div 4294967296), mbytes := ?x mod 4294967296\<rparr>)"
      using i by (cases "hashed m1") (simp_all add: md5_inv_def)
    then show ?thesis using u True that by simp
  qed (use u i that in simp)
qed

section \<open>The last blocks\<close>

text \<open>The two words of the length.\<close>

lemma count_words:
  assumes "(x + 2 ^ 32 * unat (h :: 32 word)) mod 2 ^ 64 = n mod 2 ^ 64" and "x < 2 ^ 32"
  shows "push_bit 3 (of_nat x) = (of_nat (8 * n) :: 32 word)"
    and "push_bit 3 h OR of_nat (drop_bit 29 x) = (of_nat (8 * n div 2 ^ 32) :: 32 word)"
proof -
  have h: "unat h < 2 ^ 32" using unsigned_less [of h] by simp
  then have "x + 2 ^ 32 * unat h < 2 ^ 64" using assms(2) by simp
  then obtain k where n: "n = x + 2 ^ 32 * unat h + 2 ^ 64 * k"
    using assms(1) mod_mult_div_eq [of n "2 ^ 64"] by (metis mod_less)
  have w: "(of_nat (y + 2 ^ 32 * z) :: 32 word) = of_nat y" for y z
    by (simp only: word_of_nat_eq_iff take_bit_eq_mod len_bit0 len_num1 mult_2) simp
  have "8 * n = 8 * x + 2 ^ 32 * (8 * unat h + 2 ^ 35 * k)" unfolding n by simp
  then have "(of_nat (8 * n) :: 32 word) = of_nat (8 * x)" by (simp only: w)
  then show "push_bit 3 (of_nat x) = (of_nat (8 * n) :: 32 word)" by (simp add: push_bit_eq_mult)
  have "8 * n div 2 ^ 32 = x div 2 ^ 29 + 8 * unat h + 2 ^ 35 * k"
  proof -
    have "8 * n = 8 * x + 2 ^ 32 * (8 * unat h + 2 ^ 35 * k)" unfolding n by simp
    moreover have "8 * x div 2 ^ 32 = x div 2 ^ 29" using div_mult_mult1 [of 8 x "2 ^ 29"] by simp
    ultimately show ?thesis by (simp only: div_mult_self2) simp
  qed
  then have "8 * n div 2 ^ 32 = (x div 2 ^ 29 + 8 * unat h) + 2 ^ 32 * (8 * k)" by simp
  then have "(of_nat (8 * n div 2 ^ 32) :: 32 word) = of_nat (x div 2 ^ 29 + 8 * unat h)" by (simp only: w)
  then have r: "(of_nat (8 * n div 2 ^ 32) :: 32 word) = of_nat (drop_bit 29 x) + push_bit 3 h"
    by (simp add: drop_bit_eq_div push_bit_eq_mult)
  have "x div 2 ^ 29 < 2 ^ 3" using assms(2) by simp
  then have "take_bit 3 (drop_bit 29 x) = drop_bit 29 x" by (simp only: drop_bit_eq_div take_bit_nat_eq_self)
  then have "\<not> bit (drop_bit 29 x) i" if "3 \<le> i" for i using that by (metis bit_take_bit_iff linorder_not_less)
  then have "push_bit 3 h AND of_nat (drop_bit 29 x) = 0"
    by (intro bit_word_eqI) (auto simp: bit_simps simp del: bit_drop_bit_eq)
  then show "push_bit 3 h OR of_nat (drop_bit 29 x) = (of_nat (8 * n div 2 ^ 32) :: 32 word)"
    unfolding r by (simp add: disjunctive_add_eq_or add.commute)
qed

lemma set_length:
  assumes "length a = 56"
  shows "set_block 15 y (set_block 14 x (a @ replicate 12 0)) = a @ le_bytes x @ le_bytes y @ replicate 4 0"
  using assms by (simp add: set_block_def)

text \<open>The bytes in front of the length: the tail, the bit 1 and the zeros.\<close>

definition last_zeros :: "8 word list \<Rightarrow> nat" where
  "last_zeros M = (119 - length (tail_of M)) mod 64"

lemma rfc_pad_tail:
  "rfc_pad M = M @ [0x80] @ replicate (last_zeros M) 0 @
     le_bytes (of_nat (8 * length M)) @ le_bytes (of_nat (8 * length M div 2 ^ 32))"
  by (simp add: rfc_pad_def last_zeros_def)

lemma mark_end:
  "i = length a \<Longrightarrow> (a @ (0 :: 8 word) # r)[i := (a @ 0 # r) ! i OR 0x80] = a @ 0x80 # r"
  by (simp add: list_update_append)

lemma zeros_Suc: "0 < n \<Longrightarrow> replicate n x = x # replicate (n - 1) x"
  by (cases n) simp_all

lemma finish_blocks_fields [simp]:
  "mbytes (finish_blocks m) = mbytes m" "hBytes (finish_blocks m) = hBytes m" "finalized (finish_blocks m) = finalized m"
  by (simp_all add: finish_blocks_def Let_def)

text \<open>The blocks before the last one are done, and the last one lacks its length only.\<close>

lemma finish_blocks_rfc:
  assumes "md5_inv M m"
  obtains a where "length a = 56" and "mbuffer (finish_blocks (m\<lparr>finalized := True\<rparr>)) = a @ replicate 12 0"
    and "md5_regs_of (finish_blocks (m\<lparr>finalized := True\<rparr>)) = rfc_blocks rfc_init (M @ 0x80 # replicate (last_zeros M) 0)"
    and "tail_of (M @ 0x80 # replicate (last_zeros M) 0) = a"
proof -
  let ?t = "tail_of M" and ?P = "0x80 # replicate (last_zeros M) (0 :: 8 word)"
  define n where "n = length ?t"
  have n: "n < 64" "n < 56 \<Longrightarrow> last_zeros M = 55 - n" "56 \<le> n \<Longrightarrow> last_zeros M = 119 - n"
    using le_mod_geq [of 64 "119 - n"] by (simp_all add: n_def last_zeros_def)
  have g: "md5_regs_of m = rfc_blocks rfc_init M" using assms by (simp add: md5_inv_def)
  have r: "rfc_blocks rfc_init (M @ ?P) = rfc_blocks (md5_regs_of m) (?t @ ?P)" "tail_of (M @ ?P) = tail_of (?t @ ?P)"
    unfolding g by (rule blocks_append)+
  have z: "replicate (68 - n) (0 :: 8 word) = 0 # replicate (67 - n) 0" using n(1) zeros_Suc [of "68 - n" "0 :: 8 word"] by simp
  show ?thesis
  proof (cases "hashed m")
    case True
    then have b: "length (mbuffer m) = 68" "n < 4" "lastByteIndex m = 64 + n" "drop 64 (mbuffer m) = ?t @ replicate (4 - n) 0"
      using assms by (simp_all add: md5_inv_def n_def)
    have "mbuffer m = (take 64 (mbuffer m) @ ?t) @ 0 # replicate (3 - n) 0"
      using append_take_drop_id [of 64 "mbuffer m"] b(2,4) zeros_Suc [of "4 - n" "0 :: 8 word"] by simp
    then have "(mbuffer m)[64 + n := mbuffer m ! (64 + n) OR 0x80] = (take 64 (mbuffer m) @ ?t) @ 0x80 # replicate (3 - n) 0"
      using mark_end [of "64 + n" "take 64 (mbuffer m) @ ?t" "replicate (3 - n) 0"] b(1) by (simp add: n_def)
    then have "finish_blocks (m\<lparr>finalized := True\<rparr>) = m\<lparr>finalized := True, mbuffer := (?t @ 0x80 # replicate (3 - n) 0) @ replicate 64 0\<rparr>"
      using True b(1,2,3) set_byte [of "mbuffer m" "64 + n"] by (simp add: finish_blocks_def shift_block_eq n_def)
    moreover have "replicate 64 (0 :: 8 word) = replicate 52 0 @ replicate 12 0" by (simp flip: replicate_add)
    moreover have "(?t @ 0x80 # replicate (3 - n) 0) @ replicate 52 0 = ?t @ ?P"
      using b(2) n(2) by (simp flip: replicate_add)
    moreover have "length (?t @ ?P) = 56" using b(2) n(2) by (simp add: n_def)
    ultimately show ?thesis using r by (intro that [of "?t @ ?P"]) simp_all
  next
    case False
    then have b: "lastByteIndex m = n" "mbuffer m = ?t @ 0 # replicate (67 - n) 0"
      using assms z by (simp_all add: md5_inv_def n_def)
    have l: "length (mbuffer m) = 68" using n(1) by (simp add: b(2)) (simp add: n_def)
    define m1 where "m1 = m\<lparr>finalized := True, mbuffer := ?t @ 0x80 # replicate (67 - n) 0\<rparr>"
    have "(mbuffer m)[n := mbuffer m ! n OR 0x80] = ?t @ 0x80 # replicate (67 - n) 0"
      unfolding b(2) by (rule mark_end) (simp add: n_def)
    then have f: "finish_blocks (m\<lparr>finalized := True\<rparr>) =
        (if 56 \<le> n then (hash_block m1)\<lparr>mbuffer := shift_block (mbuffer m1)\<rparr> else m1)"
      using False b(1) l n(1) set_byte [of "mbuffer m" n] by (simp add: finish_blocks_def m1_def Let_def)
    show ?thesis
    proof (cases "56 \<le> n")
      case True
      have P: "?t @ ?P = (?t @ 0x80 # replicate (63 - n) 0) @ replicate 56 0" "length (?t @ 0x80 # replicate (63 - n) 0) = 64"
        using True n by (simp_all flip: replicate_add) (simp add: n_def)
      have B: "mbuffer m1 = (?t @ 0x80 # replicate (63 - n) 0) @ replicate 4 0"
        using True n(1) by (simp add: m1_def flip: replicate_add)
      have "rfc_block x (mbuffer m1) = rfc_block x (?t @ 0x80 # replicate (63 - n) 0)" for x
        unfolding B by (rule block_prefix [OF P(2)])
      then have "md5_regs_of (hash_block m1) = rfc_blocks (md5_regs_of m) (?t @ ?P)"
        using P(2) unfolding P(1) by (simp add: hash_block_rfc rfc_blocks_step del: append_assoc) (simp add: m1_def)
      moreover have "shift_block (mbuffer m1) = replicate 56 0 @ replicate 12 0"
        unfolding B by (subst shift_block_append [OF P(2)]) (simp_all flip: replicate_add)
      moreover have "tail_of (?t @ ?P) = replicate 56 0" using P by (simp add: tail_step del: append_assoc)
      ultimately show ?thesis using f True r by (intro that [of "replicate 56 0"]) simp_all
    next
      case False
      have "mbuffer m1 = (?t @ ?P) @ replicate 12 0" "length (?t @ ?P) = 56"
        using False n by (simp_all add: m1_def flip: replicate_add) (simp add: n_def)
      moreover have "md5_regs_of m1 = md5_regs_of m" by (simp add: m1_def)
      ultimately show ?thesis using f False r by (intro that [of "?t @ ?P"]) simp_all
    qed
  qed
qed

lemma finalize_rfc:
  assumes "md5_inv M m" and "mbytes m < 2 ^ 32"
  shows "regs (finalize m) = rfc_blocks rfc_init (rfc_pad M)"
proof -
  let ?L = "of_nat (8 * length M) :: 32 word" and ?H = "of_nat (8 * length M div 2 ^ 32) :: 32 word"
  let ?m = "finish_blocks (m\<lparr>finalized := True\<rparr>)"
  obtain a where a: "length a = 56" "mbuffer ?m = a @ replicate 12 0" "md5_regs_of ?m = rfc_blocks rfc_init (M @ 0x80 # replicate (last_zeros M) 0)"
    "tail_of (M @ 0x80 # replicate (last_zeros M) 0) = a"
    using finish_blocks_rfc [OF assms(1)] by blast
  have c: "push_bit 3 (of_nat (mbytes m)) = ?L" "push_bit 3 (hBytes m) OR of_nat (drop_bit 29 (mbytes m)) = ?H"
    using count_words [of "mbytes m" "hBytes m" "length M"] assms by (simp_all add: md5_inv_def)
  have nf: "\<not> finalized m" using assms(1) by (simp add: md5_inv_def)
  have e: "mbytes (m\<lparr>finalized := True\<rparr>) = mbytes m" "hBytes (m\<lparr>finalized := True\<rparr>) = hBytes m" by simp_all
  have f: "finalize m = hash_block (?m\<lparr>mbuffer := a @ le_bytes ?L @ le_bytes ?H @ replicate 4 0\<rparr>)"
    unfolding finalize_def Let_def using nf
    by (simp only: if_False finish_blocks_fields e c set_length [OF a(1)] a(2))
  have "regs (finalize m) = md5_regs_of (finalize m)" by (simp add: f md5_regs_of_def)
  also have "\<dots> = rfc_block (md5_regs_of ?m) (a @ le_bytes ?L @ le_bytes ?H)"
    using block_prefix [of "a @ le_bytes ?L @ le_bytes ?H" "md5_regs_of ?m" "replicate 4 0"] a(1) by (simp add: f hash_block_rfc)
  also have "\<dots> = rfc_blocks rfc_init ((M @ 0x80 # replicate (last_zeros M) 0) @ le_bytes ?L @ le_bytes ?H)"
    using rfc_blocks_step [of "a @ le_bytes ?L @ le_bytes ?H" "md5_regs_of ?m" "[]"] a(1)
      blocks_append(1) [of rfc_init "M @ 0x80 # replicate (last_zeros M) 0" "le_bytes ?L @ le_bytes ?H"] unfolding a(4) a(3) [symmetric] by simp
  finally show ?thesis by (simp add: rfc_pad_tail)
qed

section \<open>Outputs\<close>

lemma masks: "(w :: 32 word) AND 0xFF = take_bit 8 w" "(w :: 32 word) AND 0x0F = take_bit 4 w"
  by (simp_all add: take_bit_eq_mask mask_eq_exp_minus_1)

lemma ucast_low_byte: "(ucast (w AND 0xFF :: 32 word) :: 8 word) = ucast w"
  unfolding masks by (rule bit_word_eqI) (auto simp: bit_simps)

lemma digest_array: "digest m = arrayBuffer m"
  by (simp add: digest_def arrayBuffer_def Let_def le_bytes_def ucast_low_byte split: prod.split)

lemma digest_rfc:
  assumes "md5_inv M m" and "mbytes m < 2 ^ 32"
  shows "fst (digest m) = rfc_md5 M"
  using finalize_rfc [OF assms] by (simp add: digest_array arrayBuffer_def rfc_md5_def Let_def split: prod.split)

definition hex_digit :: "nat \<Rightarrow> nat" where
  "hex_digit v = (if v < 10 then 48 + v else 87 + v)"

definition hex_text :: "8 word list \<Rightarrow> jsstr" where
  "hex_text bs = concat (map (\<lambda>b. [hex_digit (unat b div 16), hex_digit (unat b mod 16)]) bs)"

lemma length_hex_text [simp]: "length (hex_text bs) = 2 * length bs"
  by (induction bs) (simp_all add: hex_text_def)

lemma hex_text_ascii: "\<forall>c \<in> set (hex_text bs). c < 128"
proof -
  have "hex_digit (unat b div 16) < 128 \<and> hex_digit (unat b mod 16) < 128" for b :: "8 word"
  proof -
    have "unat b < 2 ^ LENGTH(8)" by (rule unsigned_less)
    then show ?thesis by (auto simp: hex_digit_def)
  qed
  then show ?thesis by (auto simp: hex_text_def)
qed

lemma unat_drop: "unat (drop_bit k h) = unat (h :: 32 word) div 2 ^ k"
proof -
  have "unat h < 2 ^ LENGTH(32)" by (rule unsigned_less)
  then have "unat (drop_bit k h) = drop_bit k (unat h)" by (simp only: unsigned_drop_bit_eq take_bit_nat_eq_self)
  then show ?thesis by (simp only: drop_bit_eq_div)
qed

lemma nibble_digit: "nibble h k = hex_digit (unat h div 2 ^ k mod 16)"
proof -
  have t: "HEX_CHARS = map hex_digit [0..<16]" by code_simp
  have "unat (drop_bit k h AND 0x0F) = unat h div 2 ^ k mod 16"
    unfolding masks unsigned_take_bit_eq unat_drop by (simp add: take_bit_eq_mod)
  moreover have "unat h div 2 ^ k mod 16 < 16" by simp
  ultimately show ?thesis unfolding nibble_def t by (subst nth_map) simp_all
qed

lemma hex_word_text: "hex_word h = hex_text (le_bytes h)"
proof -
  have u: "unat (ucast (drop_bit k h) :: 8 word) = unat h div 2 ^ k mod 256" for k
    unfolding unsigned_ucast_eq unat_drop by (simp add: take_bit_eq_mod)
  have u0: "unat (ucast h :: 8 word) = unat h mod 256" using u [of 0] by simp
  have d: "x mod 256 div 16 = x div 16 mod 16" "x mod 256 mod 16 = x mod 16" for x :: nat
    using mod_mult2_eq [of x 16 16] mod_mod_cancel [of 16 256 x] by simp_all
  have m: "x div 2 ^ k div 16 = x div 2 ^ (k + 4)" for x k :: nat by (simp add: div_mult2_eq power_add)
  show ?thesis by (simp add: hex_word_def hex_text_def le_bytes_def nibble_digit u u0 d) (simp flip: div_mult2_eq)
qed

lemma hex_digest: "fst (hex m) = hex_text (fst (digest m))"
  by (simp add: digest_array hex_def arrayBuffer_def Let_def hex_word_text split: prod.split) (simp add: hex_text_def)

section \<open>The properties\<close>

text \<open>A chain of calls of \<open>update\<close>; \<open>None\<close> when one of them throws or returns no object.\<close>

fun updates :: "md5_object \<Rightarrow> md5_input list \<Rightarrow> md5_object option" where
  "updates m [] = Some m"
| "updates m (msg # msgs) = (case update m msg of Updated m' \<Rightarrow> updates m' msgs | _ \<Rightarrow> None)"

lemma updates_inv:
  "md5_inv M m \<Longrightarrow> mbytes m < 2 ^ 32 \<Longrightarrow> list_all (\<lambda>msg. msg \<noteq> Invalid) msgs \<Longrightarrow>
    \<exists>m'. updates m msgs = Some m' \<and> md5_inv (M @ concat (map input_bytes msgs)) m' \<and> mbytes m' < 2 ^ 32"
proof (induction msgs arbitrary: M m)
  case (Cons msg msgs)
  obtain m' where m': "update m msg = Updated m'" "md5_inv (M @ input_bytes msg) m'" "mbytes m' < 2 ^ 32"
    using update_inv [OF Cons.prems(1)] Cons.prems(3) by auto
  then show ?case using Cons.IH [OF m'(2,3)] Cons.prems(3) by simp
qed simp

lemma finalize_idem [simp]: "finalize (finalize m) = finalize m"
  by (simp add: finalize_def Let_def)

lemma snd_outputs [simp]: "snd (digest m) = finalize m" "snd (arrayBuffer m) = finalize m" "snd (hex m) = finalize m"
  by (simp_all add: digest_def arrayBuffer_def hex_def Let_def split: prod.split)

lemma finalized_outputs: "digest (finalize m) = digest m" "arrayBuffer (finalize m) = arrayBuffer m" "hex (finalize m) = hex m"
  by (simp_all add: digest_def arrayBuffer_def hex_def Let_def)

text \<open>C13: The hash is MD5: however a message is cut into strings and byte arrays, and whatever lengths they have, the
  digest after the updates is the one RFC 1321 gives for all their bytes, and every output shows it.  Asking for one
  output does not disturb the next.\<close>

theorem md5_standard:
  assumes "list_all (\<lambda>msg. msg \<noteq> Invalid) msgs"
  shows "\<exists>m. updates new_Md5 msgs = Some m \<and>
    fst (digest m) = rfc_md5 (concat (map input_bytes msgs)) \<and>
    fst (arrayBuffer (snd (digest m))) = rfc_md5 (concat (map input_bytes msgs)) \<and>
    fst (hex (snd (digest m))) = hex_text (rfc_md5 (concat (map input_bytes msgs)))"
proof -
  obtain m where m: "updates new_Md5 msgs = Some m" "md5_inv (concat (map input_bytes msgs)) m" "mbytes m < 2 ^ 32"
    using updates_inv [OF md5_inv_new _ assms] by (auto simp: new_Md5_def)
  then show ?thesis using digest_rfc [OF m(2,3)] by (simp add: finalized_outputs hex_digest flip: digest_array)
qed

theorem md5_standard_witness:
  "\<exists>m. updates new_Md5 [Text (js ''ab''), Octets [1, 2]] = Some m \<and>
    fst (digest m) = rfc_md5 (concat (map input_bytes [Text (js ''ab''), Octets [1, 2]])) \<and>
    fst (arrayBuffer (snd (digest m))) = rfc_md5 (concat (map input_bytes [Text (js ''ab''), Octets [1, 2]])) \<and>
    fst (hex (snd (digest m))) = hex_text (rfc_md5 (concat (map input_bytes [Text (js ''ab''), Octets [1, 2]])))"
  by (rule md5_standard) simp

lemma length_rfc_md5 [simp]: "length (rfc_md5 M) = 16"
  by (simp add: rfc_md5_def split: prod.split)

lemma md5_hex: "msg \<noteq> Invalid \<Longrightarrow> md5 msg = Some (hex_text (rfc_md5 (input_bytes msg)))"
proof -
  assume "msg \<noteq> Invalid"
  then obtain m where "update new_Md5 msg = Updated m" "md5_inv (input_bytes msg) m" "mbytes m < 2 ^ 32"
    using update_inv [OF md5_inv_new, of msg] by auto
  then show ?thesis using digest_rfc by (simp add: md5_def md5_output_def hex_digest)
qed

end
