(* ===== verification/Pg_Auth.thy ===== *)
theory Pg_Auth
  imports Pg Md5_Correct Url_Params
begin

text \<open>The password message of \<open>lib/pg/protocol.js\<close>, which asks \<open>lib/pg/md5.js\<close> for two hashes, and the
  encoding of the strings it hashes.\<close>

section \<open>Text as UTF-8\<close>

text \<open>The scalar values of well-formed UTF-16, and their bytes in the table of RFC 3629.\<close>

fun code_points :: "jsstr \<Rightarrow> nat list" where
  "code_points [] = []"
| "code_points (c # s) =
     (if c < 0xD800 \<or> 0xE000 \<le> c then c # code_points s
      else case s of [] \<Rightarrow> [] | d # ds \<Rightarrow> (0x10000 + (c - 0xD800) * 0x400 + (d - 0xDC00)) # code_points ds)"

definition utf8_of :: "nat \<Rightarrow> nat list" where
  "utf8_of v =
     (if v < 0x80 then [v]
      else if v < 0x800 then [0xC0 + v div 64, 0x80 + v mod 64]
      else if v < 0x10000 then [0xE0 + v div 4096, 0x80 + v div 64 mod 64, 0x80 + v mod 64]
      else [0xF0 + v div 262144, 0x80 + v div 4096 mod 64, 0x80 + v div 64 mod 64, 0x80 + v mod 64])"

lemma next_char_unit:
  assumes "c < 0xD800 \<or> 0xE000 \<le> c" and "c < 0x10000"
  shows "next_char c s = (map of_nat (utf8_of c), s)"
proof -
  note e = escape2_bytes [of c "\<lambda>b. [b]"] escape3_bytes [of c "\<lambda>b. [b]"]
  consider "c < 0x80" | "0x80 \<le> c" "c < 0x800" | "0x800 \<le> c" by linarith
  then show ?thesis
    using assms e by cases (auto simp: next_char.simps utf8_of_def escape2_def escape3_def)
qed

lemma next_char_pair:
  assumes "0xD800 \<le> c" "c < 0xDC00" "0xDC00 \<le> d" "d < 0xE000"
  shows "next_char c (d # s) = (map of_nat (utf8_of (0x10000 + (c - 0xD800) * 0x400 + (d - 0xDC00))), s)"
proof -
  let ?v = "surrogate_pair c (d AND 0x3FF)"
  obtain x where x: "c = 54 * 1024 + x" "x < 1024"
    using assms(1,2) nat_le_iff_add [of "0xD800" c] by auto
  obtain y where y: "d = 55 * 1024 + y" "y < 1024"
    using assms(3,4) nat_le_iff_add [of "0xDC00" d] by auto
  have "c mod 1024 = x" "d mod 1024 = y"
    unfolding x(1) y(1) mod_mult_self3 using x(2) y(2) by simp_all
  then have v: "?v = 0x10000 + (c - 0xD800) * 0x400 + (d - 0xDC00)" using x y by (simp add: surrogate_pair_value)
  have r: "0x10000 \<le> ?v" "?v < 0x110000" using surrogate_pair_range [of c d] by simp_all
  have "next_char c (d # s) = (map of_nat (escape4 (\<lambda>b. [b]) ?v), s)"
    using assms by (simp add: next_char.simps escape4_def surrogate_pair_def Let_def)
  then show ?thesis using escape4_bytes [OF r(2), of "\<lambda>b. [b]"] r(1) unfolding v by (simp add: utf8_of_def)
qed

text \<open>A string whose surrogates come in pairs is hashed as its UTF-8 bytes: every character as the one, two, three
  or four bytes of its scalar value.\<close>

theorem md5_utf8_standard:
  "well_formed16 s \<Longrightarrow> md5_utf8 s = map of_nat (concat (map utf8_of (code_points s)))"
proof (induction s rule: code_points.induct)
  case (2 c s)
  show ?case
  proof (cases "c < 0xD800 \<or> 0xE000 \<le> c")
    case True
    then show ?thesis using 2 by (simp add: next_char_unit)
  next
    case False
    then show ?thesis using 2 by (auto simp: next_char_pair split: list.splits)
  qed
qed simp

theorem md5_utf8_standard_witness:
  "md5_utf8 [0x61, 0xE9, 0x20AC, 0xD83D, 0xDE00] =
     map of_nat (concat (map utf8_of (code_points [0x61, 0xE9, 0x20AC, 0xD83D, 0xDE00])))"
  by (rule md5_utf8_standard) simp

section \<open>The message\<close>

text \<open>\<open>md5AuthMessage\<close>: \<open>md5\<close> always answers a string or a buffer, so the errors are those of the buffers.\<close>

definition md5_of :: "md5_input \<Rightarrow> jsstr js_result" where
  "md5_of msg = (case md5 msg of Some h \<Rightarrow> Inr h | None \<Rightarrow> Inl OtherError)"

definition md5AuthMessage :: "(jsstr \<Rightarrow> bytes) \<Rightarrow> jsstr \<Rightarrow> jsstr \<Rightarrow> bytes \<Rightarrow> bytes js_result" where
  "md5AuthMessage utf8 user pass slt =
     js_bind (md5_of (Text (pass @ user))) (\<lambda>hash.
     js_bind (writeString utf8 (js ''md5'' @ hash) 0 (replicate 36 0)) (\<lambda>plain.
     js_bind (copyFrom plain 0 32 3 (replicate 36 0)) (\<lambda>plain2.
     js_bind (copyFrom slt 32 4 0 plain2) (\<lambda>plain2.
     js_bind (md5_of (Octets (map of_nat plain2))) (\<lambda>h.
       let hash = js ''md5'' @ h;
           len = length hash + 5;
           b = replicate (len + 1) 0 in
       js_bind (setUint 1 0 112 b) (\<lambda>b.
       js_bind (setUint 4 1 len b) (\<lambda>b.
       js_bind (writeString utf8 hash 5 b) (\<lambda>b.
         setUint 1 (5 + length (utf8 hash)) 0 b))))))))"

text \<open>C14: The answer to the server's request for a hashed password: \<open>p\<close>, the length 40, and the text \<open>md5\<close> with the MD5,
  in hex, of the four bytes of the salt behind the hex MD5 of password and user name, ended by a zero.\<close>

theorem password_message:
  assumes "ascii_transparent utf8" and "4 \<le> length slt"
  shows "md5AuthMessage utf8 user pass slt =
    Inr ([112] @ be_bytes 4 40 @ js ''md5'' @
      hex_text (rfc_md5 (map of_nat (hex_text (rfc_md5 (md5_utf8 (pass @ user))) @ take 4 slt))) @ [0])"
proof -
  define h where "h = hex_text (rfc_md5 (md5_utf8 (pass @ user)))"
  define k where "k = hex_text (rfc_md5 (map of_nat (h @ take 4 slt)))"
  have m: "js ''md5'' = [109, 100, 53]" by code_simp
  have l: "length h = 32" "length k = 32" by (simp_all add: h_def k_def)
  have u: "utf8 (js ''md5'' @ h) = js ''md5'' @ h" "utf8 (js ''md5'' @ k) = js ''md5'' @ k"
    using hex_text_ascii by (auto simp: m h_def k_def intro!: ascii_transparentD [OF assms(1)])
  have h: "md5_of (Text (pass @ user)) = Inr h" by (simp add: md5_of_def md5_hex h_def)
  have k: "md5_of (Octets (map of_nat (h @ take 4 slt))) = Inr k" by (simp add: md5_of_def md5_hex k_def)
  have w: "writeString utf8 (js ''md5'' @ h) 0 (replicate 36 0) = Inr (js ''md5'' @ h @ [0])"
    unfolding writeString_def u using l by (simp add: m write_at_def numeral_eq_Suc)
  have c1: "copyFrom (js ''md5'' @ h @ [0]) 0 32 3 (replicate 36 0) = Inr (h @ replicate 4 0)"
    using l by (simp add: copyFrom_def m write_at_def Prelude.slice_def)
  have c2: "copyFrom slt 32 4 0 (h @ replicate 4 0) = Inr (h @ take 4 slt)"
    using l assms(2) by (simp add: copyFrom_def write_at_def Prelude.slice_def)
  have r: "(let hash = js ''md5'' @ k; len = length hash + 5; b = replicate (len + 1) 0 in
       js_bind (setUint 1 0 112 b) (\<lambda>b.
       js_bind (setUint 4 1 len b) (\<lambda>b.
       js_bind (writeString utf8 hash 5 b) (\<lambda>b.
         setUint 1 (5 + length (utf8 hash)) 0 b)))) =
     Inr ([112] @ be_bytes 4 40 @ js ''md5'' @ k @ [0])"
    using l u(2) by (simp add: Let_def writeString_def setUint_def m write_at_def replicate_append_same be_bytes_numeral)
  show ?thesis unfolding md5AuthMessage_def h w c1 c2 js_bind_simps k r by (simp only: k_def h_def)
qed

theorem password_message_witness:
  "md5AuthMessage (\<lambda>s. s) (js ''bob'') (js ''pw'') [1, 2, 3, 4] =
    Inr ([112] @ be_bytes 4 40 @ js ''md5'' @
      hex_text (rfc_md5 (map of_nat (hex_text (rfc_md5 (md5_utf8 (js ''pw'' @ js ''bob''))) @ take 4 [1, 2, 3, 4]))) @ [0])"
  by (rule password_message [OF ascii_transparent_id]) simp

text \<open>A high surrogate takes the next unit for its partner, whatever it is: the string has the hash of another one.\<close>

lemma lone_surrogate_swallows:
  "md5 (Text [0xD83D, 0x61]) = md5 (Text [0xD83D, 0xDC61])"
  by (simp add: md5_hex next_char.simps)

end
