(* ===== verification/Fetch.thy ===== *)
theory Fetch
  imports Prelude "HOL-Library.List_Lexorder"
begin

text \<open>
  The headers, form data and responses of \<open>whatwg/fetch.js\<close>.  An object without prototype is the list of its
  properties; integer-like names come first in the engine's order, which nothing here can see, since at most one name
  matches a search and lists of names are sorted.  Names have passed validation when they are put in lower case, so they
  are ASCII.  Arguments are strings already.  The guard of a header list is stored and never read; requests, and the bodies whose readers are
  stubs in the code, are left out.
\<close>

section \<open>Names and values\<close>

definition header_name_char :: "nat \<Rightarrow> bool" where
  "header_name_char c \<longleftrightarrow> c \<in> set (js ''^_`'') \<or> (97 \<le> c \<and> c \<le> 122) \<or> (65 \<le> c \<and> c \<le> 90) \<or> c = 45 \<or> (48 \<le> c \<and> c \<le> 57) \<or>
     c \<in> set (js ''!#$%&'') \<or> c = 39 \<or> c \<in> set (js ''*+.|~'')"

definition header_value_char :: "nat \<Rightarrow> bool" where
  "header_value_char c \<longleftrightarrow> c = 9 \<or> (0x20 \<le> c \<and> c \<le> 0x7E) \<or> (0x80 \<le> c \<and> c \<le> 0xFF)"

definition validateHeaderName :: "jsstr \<Rightarrow> unit js_result" where
  "validateHeaderName name = (if \<not> list_all header_name_char name then Inl TypeError else Inr ())"

definition validateHeaderValue :: "jsstr \<Rightarrow> unit js_result" where
  "validateHeaderValue val = (if \<not> list_all header_value_char val then Inl TypeError else Inr ())"

section \<open>Headers\<close>

type_synonym headers = "(jsstr, jsstr list) js_map"

fun find_header :: "headers \<Rightarrow> jsstr \<Rightarrow> jsstr option" where
  "find_header [] name = None"
| "find_header ((key, vs) # h) name = (if ascii_lower key = ascii_lower name then Some key else find_header h name)"

definition header_values :: "headers \<Rightarrow> jsstr \<Rightarrow> jsstr list" where
  "header_values h key = (case jsmap_get h key of None \<Rightarrow> [] | Some vs \<Rightarrow> vs)"

definition headers_get :: "headers \<Rightarrow> jsstr \<Rightarrow> jsstr option js_result" where
  "headers_get h name =
     js_bind (validateHeaderName name) (\<lambda>_.
       Inr (case find_header h name of None \<Rightarrow> None | Some key \<Rightarrow> Some (js_join (js '', '') (header_values h key))))"

definition headers_set :: "jsstr \<Rightarrow> jsstr \<Rightarrow> headers \<Rightarrow> headers js_result" where
  "headers_set name val h =
     js_bind (validateHeaderName name) (\<lambda>_. js_bind (validateHeaderValue val) (\<lambda>_.
       Inr (jsmap_set (case find_header h name of Some key \<Rightarrow> key | None \<Rightarrow> name) [val] h)))"

definition headers_append :: "jsstr \<Rightarrow> jsstr \<Rightarrow> headers \<Rightarrow> headers js_result" where
  "headers_append name val h =
     js_bind (validateHeaderName name) (\<lambda>_. js_bind (validateHeaderValue val) (\<lambda>_.
       Inr (case find_header h name of
              Some key \<Rightarrow> jsmap_set key (header_values h key @ [val]) h
            | None \<Rightarrow> jsmap_set name [val] h)))"

definition headers_has :: "headers \<Rightarrow> jsstr \<Rightarrow> bool js_result" where
  "headers_has h name = js_bind (validateHeaderName name) (\<lambda>_. Inr (find_header h name \<noteq> None))"

definition headers_delete :: "jsstr \<Rightarrow> headers \<Rightarrow> headers js_result" where
  "headers_delete name h =
     js_bind (validateHeaderName name) (\<lambda>_.
       Inr (case find_header h name of Some key \<Rightarrow> jsmap_delete key h | None \<Rightarrow> h))"

text \<open>What a header list can be made of: nothing, another one, an iterable of pairs (\<open>None\<close> for a pair that is not
  iterable), the properties of an object, or something else.\<close>

datatype headers_init =
  NoInit | OfHeaders headers | OfPairs "jsstr list option list" | OfObject "(jsstr \<times> jsstr) list" | NotAnInit

fun append_header_pairs :: "jsstr list list \<Rightarrow> headers \<Rightarrow> headers js_result" where
  "append_header_pairs [] h = Inr h"
| "append_header_pairs ([name, val] # ps) h = js_bind (headers_append name val h) (append_header_pairs ps)"
| "append_header_pairs (p # ps) h = Inl TypeError"

fun new_Headers :: "headers_init \<Rightarrow> headers js_result" where
  "new_Headers NoInit = Inr []"
| "new_Headers (OfHeaders h) = Inr h"
| "new_Headers (OfPairs ps) = (if None \<in> set ps then Inl TypeError else append_header_pairs (map the ps) [])"
| "new_Headers (OfObject kvs) = append_header_pairs (map (\<lambda>(k, v). [k, v]) kvs) []"
| "new_Headers NotAnInit = Inl TypeError"

section \<open>Iteration\<close>

definition getHeaderList :: "headers \<Rightarrow> (jsstr \<times> jsstr) list" where
  "getHeaderList h = map (\<lambda>k. (ascii_lower k, js_join (js '', '') (header_values h k))) (sort (map fst h))"

datatype iteration_kind = Keys | Values | Entries

datatype iteration_result = Key jsstr | ValueList "jsstr list" | Entry jsstr jsstr

text \<open>\<open>next\<close>: the result (\<open>None\<close> when done) and the next index.\<close>

definition headers_next :: "headers \<Rightarrow> iteration_kind \<Rightarrow> nat \<Rightarrow> iteration_result option \<times> nat" where
  "headers_next h kind i =
     (let pairs = getHeaderList h in
      if length pairs \<le> i then (None, i)
      else (Some (case kind of
                    Keys \<Rightarrow> Key (fst (pairs ! i))
                  | Values \<Rightarrow> ValueList [snd (pairs ! i)]
                  | Entries \<Rightarrow> Entry (fst (pairs ! i)) (snd (pairs ! i))), i + 1))"

text \<open>\<open>forEach\<close> with a callback that may change the headers; it goes on for ever if the callback always adds one.\<close>

partial_function (option) headers_forEach ::
    "(jsstr \<Rightarrow> jsstr \<Rightarrow> 's \<times> headers \<Rightarrow> 's \<times> headers) \<Rightarrow> nat \<Rightarrow> 's \<times> headers \<Rightarrow> ('s \<times> headers) option" where
  "headers_forEach callback i s =
     (case headers_next (snd s) Entries i of
        (Some (Entry key val), j) \<Rightarrow> headers_forEach callback j (callback (js_join (js '', '') [val]) key s)
      | _ \<Rightarrow> Some s)"

section \<open>Form data\<close>

text \<open>A value is text, a blob or a file; a blob is wrapped in a file, and so is any value with a file name.\<close>

datatype form_value = FormText jsstr | FormBlob | FormFile

record form_entry =
  entry_name :: jsstr
  entry_value :: form_value

definition new_Entry :: "jsstr \<Rightarrow> form_value \<Rightarrow> jsstr option \<Rightarrow> form_entry" where
  "new_Entry name val filename =
     (let val = (if val = FormBlob then FormFile else val);
          val = (case filename of None \<Rightarrow> val | Some f \<Rightarrow> if f = [] then val else FormFile) in
      \<lparr>entry_name = name, entry_value = val\<rparr>)"

type_synonym form_data = "(jsstr, form_entry list) js_map"

definition form_append :: "jsstr \<Rightarrow> form_value \<Rightarrow> jsstr option \<Rightarrow> form_data \<Rightarrow> form_data" where
  "form_append name val filename f =
     (let entry = new_Entry name val filename in
      case jsmap_get f name of Some es \<Rightarrow> jsmap_set name (es @ [entry]) f | None \<Rightarrow> jsmap_set name [entry] f)"

definition form_delete :: "jsstr \<Rightarrow> form_data \<Rightarrow> form_data" where
  "form_delete name f = jsmap_delete name f"

definition form_get :: "form_data \<Rightarrow> jsstr \<Rightarrow> form_entry option" where
  "form_get f name = (case jsmap_get f name of Some es \<Rightarrow> Some (es ! 0) | None \<Rightarrow> None)"

definition form_getAll :: "form_data \<Rightarrow> jsstr \<Rightarrow> form_entry list" where
  "form_getAll f name = (case jsmap_get f name of Some es \<Rightarrow> es | None \<Rightarrow> [])"

definition form_has :: "form_data \<Rightarrow> jsstr \<Rightarrow> bool" where
  "form_has f name \<longleftrightarrow> jsmap_has f name"

definition form_set :: "jsstr \<Rightarrow> form_value \<Rightarrow> jsstr option \<Rightarrow> form_data \<Rightarrow> form_data" where
  "form_set name val filename f = jsmap_set name [new_Entry name val filename] f"

section \<open>Responses\<close>

record response =
  response_status :: int
  statusText :: jsstr
  response_headers :: headers

definition new_Response :: "int \<Rightarrow> jsstr \<Rightarrow> headers_init \<Rightarrow> response js_result" where
  "new_Response status message init =
     (if status < 200 \<or> 599 < status then Inl RangeError
      else js_bind (new_Headers init) (\<lambda>h. Inr \<lparr>response_status = status, statusText = message, response_headers = h\<rparr>))"

definition response_error :: "response js_result" where
  "response_error =
     js_bind (new_Response 200 (js ''OK'') NoInit) (\<lambda>r.
     js_bind (new_Headers NoInit) (\<lambda>h. Inr (r\<lparr>response_headers := h\<rparr>)))"

text \<open>The text of the parsed URL is the argument \<open>href\<close>.\<close>

definition response_redirect :: "jsstr \<Rightarrow> int \<Rightarrow> response js_result" where
  "response_redirect href status =
     js_bind (new_Response 200 (js ''OK'') NoInit) (\<lambda>r.
     js_bind (new_Headers NoInit) (\<lambda>h.
     js_bind (headers_set (js ''Location'') href h) (\<lambda>h.
       Inr (r\<lparr>response_headers := h, response_status := status\<rparr>))))"

definition response_ok :: "response \<Rightarrow> bool" where
  "response_ok r \<longleftrightarrow> 200 \<le> response_status r \<and> response_status r < 300"

section \<open>Headers as a multimap\<close>

text \<open>The contract: a map from names in lower case to lists of values.\<close>

type_synonym header_map = "jsstr \<Rightarrow> jsstr list"

datatype headers_op = SetHeader jsstr jsstr | AppendHeader jsstr jsstr | DeleteHeader jsstr

fun headers_do :: "headers_op \<Rightarrow> headers \<Rightarrow> headers js_result" where
  "headers_do (SetHeader n v) h = headers_set n v h"
| "headers_do (AppendHeader n v) h = headers_append n v h"
| "headers_do (DeleteHeader n) h = headers_delete n h"

text \<open>A call that throws leaves the headers as they were.\<close>

definition headers_step :: "headers_op \<Rightarrow> headers \<Rightarrow> headers" where
  "headers_step op h = (case headers_do op h of Inl e \<Rightarrow> h | Inr h' \<Rightarrow> h')"

definition header_name_ok :: "jsstr \<Rightarrow> bool" where
  "header_name_ok n \<longleftrightarrow> list_all header_name_char n"

definition header_ok :: "jsstr \<Rightarrow> jsstr \<Rightarrow> bool" where
  "header_ok n v \<longleftrightarrow> header_name_ok n \<and> list_all header_value_char v"

fun map_step :: "headers_op \<Rightarrow> header_map \<Rightarrow> header_map" where
  "map_step (SetHeader n v) M = (if header_ok n v then M(ascii_lower n := [v]) else M)"
| "map_step (AppendHeader n v) M = (if header_ok n v then M(ascii_lower n := M (ascii_lower n) @ [v]) else M)"
| "map_step (DeleteHeader n) M = (if header_name_ok n then M(ascii_lower n := []) else M)"

definition headers_abs :: "headers \<Rightarrow> header_map" where
  "headers_abs h n = concat (map snd (filter (\<lambda>(k, vs). ascii_lower k = n) h))"

definition headers_ok :: "headers \<Rightarrow> bool" where
  "headers_ok h \<longleftrightarrow> distinct (map (ascii_lower \<circ> fst) h) \<and> (\<forall>(k, vs) \<in> set h. vs \<noteq> [])"

text \<open>The key under which \<open>set\<close> and \<open>append\<close> store.\<close>

definition header_key :: "headers \<Rightarrow> jsstr \<Rightarrow> jsstr" where
  "header_key h name = (case find_header h name of Some key \<Rightarrow> key | None \<Rightarrow> name)"

lemma find_header_None: "find_header h n = None \<longleftrightarrow> ascii_lower n \<notin> (ascii_lower \<circ> fst) ` set h"
  by (induction h n rule: find_header.induct) auto

lemma find_header_Some: "find_header h n = Some k \<Longrightarrow> ascii_lower k = ascii_lower n \<and> k \<in> fst ` set h"
  by (induction h n rule: find_header.induct) (auto split: if_splits)

lemma headers_abs_simps [simp]:
  "headers_abs [] n = []"
  "headers_abs ((k, vs) # h) n = (if ascii_lower k = n then vs else []) @ headers_abs h n"
  by (simp_all add: headers_abs_def)

lemma headers_abs_none: "n \<notin> (ascii_lower \<circ> fst) ` set h \<Longrightarrow> headers_abs h n = []"
  by (induction h) auto

lemma headers_ok_Cons [simp]:
  "headers_ok ((k, vs) # h) \<longleftrightarrow> ascii_lower k \<notin> (ascii_lower \<circ> fst) ` set h \<and> vs \<noteq> [] \<and> headers_ok h"
  by (auto simp: headers_ok_def)

lemma headers_abs_find:
  "headers_ok h \<Longrightarrow> headers_abs h (ascii_lower n) = (case find_header h n of None \<Rightarrow> [] | Some k \<Rightarrow> header_values h k)"
proof (induction h n rule: find_header.induct)
  case (2 key vs h n)
  have "jsmap_get ((key, vs) # h) k = jsmap_get h k" if "find_header h n = Some k" "ascii_lower key \<noteq> ascii_lower n" for k
    using find_header_Some [OF that(1)] that(2) by (auto simp: jsmap_get_def)
  then show ?case using 2 by (auto simp: headers_abs_none header_values_def jsmap_get_def [of "_ # _"] split: option.split)
qed simp

lemma find_header_abs: "headers_ok h \<Longrightarrow> find_header h n = None \<longleftrightarrow> headers_abs h (ascii_lower n) = []"
proof (induction h n rule: find_header.induct)
  case (2 key vs h n)
  then show ?case by (auto simp: headers_abs_none)
qed simp

lemma headers_lower_inj:
  assumes "headers_ok h" and "j \<in> fst ` set h" and "k \<in> fst ` set h" and "ascii_lower j = ascii_lower k"
  shows "j = k"
proof -
  obtain v w where "(j, v) \<in> set h" "(k, w) \<in> set h" using assms(2,3) by auto
  moreover have "inj_on (ascii_lower \<circ> fst) (set h)" using assms(1) by (simp add: headers_ok_def distinct_map)
  ultimately show ?thesis using assms(4) inj_onD [of "ascii_lower \<circ> fst" "set h" "(j, v)" "(k, w)"] by simp
qed

lemma header_key_unique:
  assumes "headers_ok h" and "j \<in> fst ` set h" and "ascii_lower j = ascii_lower (header_key h n)"
  shows "j = header_key h n"
proof (cases "find_header h n")
  case None
  then have "header_key h n = n" "ascii_lower n \<notin> (ascii_lower \<circ> fst) ` set h"
    using find_header_None [of h n] by (simp_all add: header_key_def)
  then show ?thesis using assms(2,3) by force
next
  case (Some k)
  then show ?thesis using headers_lower_inj [OF assms(1,2)] find_header_Some [OF Some] assms(3) by (simp add: header_key_def)
qed

lemma header_key_lower: "ascii_lower (header_key h n) = ascii_lower n"
  using find_header_Some [of h n] by (auto simp: header_key_def split: option.split)

lemma headers_abs_set:
  "headers_ok h \<Longrightarrow> (\<And>j. j \<in> fst ` set h \<Longrightarrow> ascii_lower j = ascii_lower k \<Longrightarrow> j = k) \<Longrightarrow> vs \<noteq> [] \<Longrightarrow>
    headers_abs (jsmap_set k vs h) = (headers_abs h)(ascii_lower k := vs) \<and> headers_ok (jsmap_set k vs h)"
proof (induction k vs h rule: jsmap_set.induct)
  case (1 k v)
  then show ?case by (auto simp: headers_ok_def)
next
  case (2 k v j w m)
  show ?case
  proof (cases "j = k")
    case True
    then show ?thesis using 2 by (auto simp: headers_abs_none)
  next
    case False
    then have "ascii_lower j \<noteq> ascii_lower k" using "2.prems"(2) by force
    moreover have "(ascii_lower \<circ> fst) ` set (jsmap_set k v m) = insert (ascii_lower k) ((ascii_lower \<circ> fst) ` set m)"
      by (simp only: image_comp [symmetric] jsmap_set_keys) simp
    ultimately show ?thesis using 2 False by (auto simp: fun_eq_iff)
  qed
qed

lemma headers_abs_delete:
  "headers_ok h \<Longrightarrow> headers_abs (jsmap_delete k h) n =
    (if n = ascii_lower k \<and> k \<in> fst ` set h then [] else headers_abs h n) \<and> headers_ok (jsmap_delete k h)"
proof (induction h)
  case (Cons kv h)
  obtain j vs where kv: "kv = (j, vs)" by (cases kv)
  have sub: "(ascii_lower \<circ> fst) ` set (jsmap_delete k h) \<subseteq> (ascii_lower \<circ> fst) ` set h" by (auto simp: jsmap_delete_def)
  have d: "jsmap_delete k ((j, vs) # h) = (if j = k then jsmap_delete k h else (j, vs) # jsmap_delete k h)"
    by (simp add: jsmap_delete_def)
  have "ascii_lower j \<notin> (ascii_lower \<circ> fst) ` set (jsmap_delete k h)" if "ascii_lower j \<notin> (ascii_lower \<circ> fst) ` set h"
    using sub that by blast
  moreover have "ascii_lower k \<in> (ascii_lower \<circ> fst) ` set h" if "k \<in> fst ` set h" using that by auto
  moreover have "headers_abs h (ascii_lower j) = []" if "ascii_lower j \<notin> (ascii_lower \<circ> fst) ` set h" using that by (rule headers_abs_none)
  ultimately show ?case using Cons unfolding kv d 
    by (cases "k \<in> fst ` set h"; cases "ascii_lower j = ascii_lower k"; cases "j = k") (simp_all del: image_comp comp_apply)
qed (simp add: jsmap_delete_def headers_ok_def)

lemma headers_step_abs:
  assumes "headers_ok h"
  shows "headers_abs (headers_step op h) = map_step op (headers_abs h) \<and> headers_ok (headers_step op h)"
proof -
  have store: "headers_abs (jsmap_set (header_key h n) vs h) = (headers_abs h)(ascii_lower n := vs) \<and> headers_ok (jsmap_set (header_key h n) vs h)"
    if "vs \<noteq> []" for n vs
    using headers_abs_set [OF assms header_key_unique [OF assms] that] by (simp add: header_key_lower)
  show ?thesis
  proof (cases op)
    case (SetHeader n v)
    then show ?thesis using store [of "[v]" n] assms
      by (simp add: headers_step_def headers_set_def validateHeaderName_def validateHeaderValue_def header_ok_def header_name_ok_def header_key_def [symmetric])
  next
    case (AppendHeader n v)
    have "(case find_header h n of Some key \<Rightarrow> jsmap_set key (header_values h key @ [v]) h | None \<Rightarrow> jsmap_set n [v] h) =
        jsmap_set (header_key h n) (headers_abs h (ascii_lower n) @ [v]) h"
      using headers_abs_find [OF assms, of n] by (simp add: header_key_def split: option.split)
    then show ?thesis using store [of "headers_abs h (ascii_lower n) @ [v]" n] assms AppendHeader
      by (simp add: headers_step_def headers_append_def validateHeaderName_def validateHeaderValue_def header_ok_def header_name_ok_def)
  next
    case (DeleteHeader n)
    show ?thesis
    proof (cases "find_header h n")
      case None
      then show ?thesis using DeleteHeader assms find_header_abs [OF assms, of n]
        by (auto simp: headers_step_def headers_delete_def validateHeaderName_def header_name_ok_def)
    next
      case (Some k)
      then show ?thesis using DeleteHeader headers_abs_delete [OF assms, of k] find_header_Some [OF Some]
        by (auto simp: headers_step_def headers_delete_def validateHeaderName_def header_name_ok_def fun_eq_iff assms)
    qed
  qed
qed

lemma headers_run:
  "headers_abs (fold headers_step ops []) = fold map_step ops (\<lambda>_. []) \<and> headers_ok (fold headers_step ops [])"
proof (induction ops rule: rev_induct)
  case (snoc op ops)
  then show ?case using headers_step_abs [of "fold headers_step ops []" op] by simp
qed (simp add: headers_ok_def fun_eq_iff)

lemma headers_list_abs:
  assumes "headers_ok h"
  shows "set (getHeaderList h) = {(n, js_join (js '', '') (headers_abs h n)) |n. headers_abs h n \<noteq> []}"
    and "distinct (map fst (getHeaderList h))"
proof -
  have v: "header_values h k = headers_abs h (ascii_lower k) \<and> headers_abs h (ascii_lower k) \<noteq> []" if "k \<in> fst ` set h" for k
  proof -
    have "find_header h k \<noteq> None" using that find_header_None [of h k] by auto
    then obtain j where j: "find_header h k = Some j" by blast
    then have "j = k" using headers_lower_inj [OF assms _ that] find_header_Some [OF j] by simp
    then show ?thesis using headers_abs_find [OF assms, of k] find_header_abs [OF assms, of k] j by simp
  qed
  have n: "n \<in> ascii_lower ` fst ` set h" if "headers_abs h n \<noteq> []" for n
    using that headers_abs_none [of n h] unfolding image_comp by blast
  have "set (getHeaderList h) = (\<lambda>k. (ascii_lower k, js_join (js '', '') (header_values h k))) ` fst ` set h"
    by (simp add: getHeaderList_def)
  also have "\<dots> = (\<lambda>k. (ascii_lower k, js_join (js '', '') (headers_abs h (ascii_lower k)))) ` fst ` set h"
    by (rule image_cong [OF refl]) (simp add: v)
  also have "\<dots> = (\<lambda>n. (n, js_join (js '', '') (headers_abs h n))) ` ascii_lower ` fst ` set h"
    by (simp only: image_image)
  also have "ascii_lower ` fst ` set h = {n. headers_abs h n \<noteq> []}" using v n by blast
  finally show "set (getHeaderList h) = {(n, js_join (js '', '') (headers_abs h n)) |n. headers_abs h n \<noteq> []}"
    by (simp only: setcompr_eq_image)
  have "inj_on ascii_lower (fst ` set h)" using headers_lower_inj [OF assms] by (intro inj_onI) blast
  moreover have "distinct (map fst h)" using assms by (simp add: headers_ok_def distinct_map inj_on_def)
  ultimately show "distinct (map fst (getHeaderList h))" by (simp add: getHeaderList_def comp_def distinct_map)
qed

text \<open>C18: Headers are a multimap over names in any case: after any sequence of calls, those that throw included, a name
  has the values that were set or appended for it, in order; \<open>get\<close> joins them, \<open>has\<close> tells whether there is one,
  and the iteration gives each name in lower case once, with its joined values.  Names that are no tokens are
  refused.\<close>

theorem headers_multimap:
  "let h = fold headers_step ops []; M = fold map_step ops (\<lambda>_. []) in
    headers_get h name = (if header_name_ok name
      then Inr (if M (ascii_lower name) = [] then None else Some (js_join (js '', '') (M (ascii_lower name))))
      else Inl TypeError) \<and>
    headers_has h name = (if header_name_ok name then Inr (M (ascii_lower name) \<noteq> []) else Inl TypeError) \<and>
    set (getHeaderList h) = {(n, js_join (js '', '') (M n)) |n. M n \<noteq> []} \<and> distinct (map fst (getHeaderList h))"
proof -
  define h where "h = fold headers_step ops []"
  have h: "headers_abs h = fold map_step ops (\<lambda>_. [])" "headers_ok h" unfolding h_def using headers_run [of ops] by blast+
  have "headers_get h name = (if header_name_ok name
      then Inr (if headers_abs h (ascii_lower name) = [] then None else Some (js_join (js '', '') (headers_abs h (ascii_lower name))))
      else Inl TypeError)"
    using headers_abs_find [OF h(2), of name] find_header_abs [OF h(2), of name]
    by (cases "find_header h name") (simp_all add: headers_get_def validateHeaderName_def header_name_ok_def)
  moreover have "headers_has h name = (if header_name_ok name then Inr (headers_abs h (ascii_lower name) \<noteq> []) else Inl TypeError)"
    using find_header_abs [OF h(2), of name] by (simp add: headers_has_def validateHeaderName_def header_name_ok_def)
  ultimately show ?thesis unfolding Let_def h_def [symmetric] h(1) [symmetric] using headers_list_abs [OF h(2)] by (intro conjI)
qed

text \<open>With a callback that leaves the headers alone, \<open>forEach\<close> visits the list in order.\<close>

lemma forEach_list:
  "headers_forEach (\<lambda>val key s. (f val key (fst s), snd s)) i (s, h) =
    Some (fold (\<lambda>(key, val) s. f val key s) (drop i (getHeaderList h)) s, h)"
proof (induction "length (getHeaderList h) - i" arbitrary: i s)
  case 0
  then have "headers_next h Entries i = (None, i)" by (simp add: headers_next_def Let_def)
  then show ?case using 0 by (subst headers_forEach.simps) simp
next
  case (Suc n)
  obtain k v where kv: "getHeaderList h ! i = (k, v)" by (cases "getHeaderList h ! i")
  have i: "i < length (getHeaderList h)" using Suc(2) by simp
  then have "headers_next h Entries i = (Some (Entry k v), Suc i)" by (simp add: headers_next_def Let_def kv)
  then have "headers_forEach (\<lambda>val key s. (f val key (fst s), snd s)) i (s, h) =
      headers_forEach (\<lambda>val key s. (f val key (fst s), snd s)) (Suc i) (f v k s, h)"
    by (subst headers_forEach.simps) simp
  moreover have "drop i (getHeaderList h) = (k, v) # drop (Suc i) (getHeaderList h)" using Cons_nth_drop_Suc [OF i] kv by simp
  ultimately show ?case using Suc(1) [of "Suc i"] Suc(2) by simp
qed

text \<open>The list is sorted by the names as they were given, in upper case first, and only then put in lower case.\<close>

lemma headers_upper_first: "map fst (getHeaderList [(js ''B'', [js ''1'']), (js ''a'', [js ''2''])]) = [js ''b'', js ''a'']"
  by code_simp

text \<open>The empty name passes: the pattern looks for a bad character only.\<close>

lemma empty_header_name: "headers_set [] (js ''x'') [] = Inr [([], [js ''x''])]"
  by code_simp

text \<open>An error response has the status 200 and counts as a success, and a redirect takes any status.\<close>

lemma error_response_ok: "(case response_error of Inr r \<Rightarrow> response_ok r | Inl e \<Rightarrow> False)"
  by code_simp

lemma redirect_any_status: "(case response_redirect (js ''http://a/'') 7 of Inr r \<Rightarrow> response_status r = 7 | Inl e \<Rightarrow> False)"
  by code_simp

text \<open>The list of the entries of a form.\<close>

lemma form_getAll_ops:
  "form_getAll (form_append n v f d) m = (if m = n then form_getAll d n @ [new_Entry n v f] else form_getAll d m)"
  "form_getAll (form_set n v f d) m = (if m = n then [new_Entry n v f] else form_getAll d m)"
  "form_getAll (form_delete n d) m = (if m = n then [] else form_getAll d m)"
  by (auto simp: form_getAll_def form_append_def form_set_def form_delete_def Let_def jsmap_get_set jsmap_get_delete split: option.split)

end
