(* ===== verification/Blob.thy ===== *)
theory Blob
  imports Bytes Mime
begin

text \<open>
  The blobs of \<open>w3/blob.js\<close>.  A part is a blob, a string, an array with integer elements of some width, or a buffer or
  \<open>DataView\<close>, which has no elements; \<open>set\<close> copies elements, not bytes.  A line end is one code unit, so working on
  code points or on units makes no difference.  The native UTF-8 encoder and \<open>toLowerCase\<close> are parameters.
\<close>

section \<open>Line endings\<close>

text \<open>The loop steps over the character after an ending without a look at it.\<close>

fun convertLineEndingsToNative :: "jsstr \<Rightarrow> jsstr" where
  "convertLineEndingsToNative [] = []"
| "convertLineEndingsToNative [c] = (if c = 13 then [10] else [c])"
| "convertLineEndingsToNative (c # d # s) =
     (if c = 13
      then if d = 10 then 10 # (case s of [] \<Rightarrow> [] | e # t \<Rightarrow> e # convertLineEndingsToNative t)
           else 10 # d # convertLineEndingsToNative s
      else c # convertLineEndingsToNative (d # s))"

section \<open>Parts\<close>

datatype blob_part = BlobPart bytes | StringPart jsstr | ArrayPart nat "int list" | BufferPart bytes | OtherPart

datatype endings = Native | Transparent | OtherEndings

definition part_bytes :: "(jsstr \<Rightarrow> bytes) \<Rightarrow> endings \<Rightarrow> blob_part \<Rightarrow> bytes js_result" where
  "part_bytes utf8 e part =
     (case part of
        BlobPart b \<Rightarrow> Inr b
      | StringPart s \<Rightarrow> Inr (utf8 (case e of Native \<Rightarrow> convertLineEndingsToNative s | Transparent \<Rightarrow> s | OtherEndings \<Rightarrow> []))
      | ArrayPart width xs \<Rightarrow> Inr (map (\<lambda>x. nat (x mod 256)) xs @ replicate (width * length xs - length xs) 0)
      | BufferPart b \<Rightarrow> Inr (replicate (length b) 0)
      | OtherPart \<Rightarrow> Inl TypeError)"

fun collect_parts :: "(jsstr \<Rightarrow> bytes) \<Rightarrow> endings \<Rightarrow> blob_part list \<Rightarrow> bytes list js_result" where
  "collect_parts utf8 e [] = Inr []"
| "collect_parts utf8 e (part # parts) =
     js_bind (part_bytes utf8 e part) (\<lambda>b. js_bind (collect_parts utf8 e parts) (\<lambda>bs. Inr (b # bs)))"

fun place_parts :: "nat \<Rightarrow> bytes list \<Rightarrow> bytes \<Rightarrow> bytes" where
  "place_parts i [] ret = ret"
| "place_parts i (part # parts) ret = place_parts (i + length part) parts (write_at ret i part)"

definition processBlobParts :: "(jsstr \<Rightarrow> bytes) \<Rightarrow> blob_part list \<Rightarrow> endings \<Rightarrow> bytes js_result" where
  "processBlobParts utf8 parts e =
     js_bind (collect_parts utf8 e parts) (\<lambda>bs.
       Inr (place_parts 0 bs (replicate (sum_list (map length bs)) 0)))"

section \<open>Blobs\<close>

record blob =
  blob_type :: jsstr
  blob_buffer :: bytes

text \<open>\<open>None\<close> for the call without arguments.\<close>

definition new_Blob :: "(jsstr \<Rightarrow> jsstr) \<Rightarrow> (jsstr \<Rightarrow> bytes) \<Rightarrow> blob_part list option \<Rightarrow> endings \<Rightarrow> jsstr \<Rightarrow> blob js_result" where
  "new_Blob lower utf8 parts e type =
     (let type = (if type \<noteq> [] then (case parse_mime lower type of Inr m \<Rightarrow> MIMEStringify m | Inl _ \<Rightarrow> []) else []) in
      js_bind (case parts of None \<Rightarrow> Inr [] | Some ps \<Rightarrow> processBlobParts utf8 ps e) (\<lambda>b.
        Inr \<lparr>blob_type = type, blob_buffer = b\<rparr>))"

definition blob_size :: "blob \<Rightarrow> nat" where
  "blob_size b = length (blob_buffer b)"

definition clamp_index :: "int \<Rightarrow> int \<Rightarrow> nat" where
  "clamp_index len i = nat (if i < 0 then max (len + i) 0 else min i len)"

definition blob_slice :: "(jsstr \<Rightarrow> jsstr) \<Rightarrow> (jsstr \<Rightarrow> bytes) \<Rightarrow> blob \<Rightarrow> int option \<Rightarrow> int option \<Rightarrow> jsstr option \<Rightarrow> blob js_result" where
  "blob_slice lower utf8 b start stop contentType =
     (let len = int (length (blob_buffer b));
          i = clamp_index len (case start of None \<Rightarrow> 0 | Some i \<Rightarrow> i);
          j = clamp_index len (case stop of None \<Rightarrow> len | Some j \<Rightarrow> j) in
      new_Blob lower utf8 (Some [ArrayPart 1 (map int (slice (blob_buffer b) i j))]) Transparent
        (case contentType of None \<Rightarrow> [] | Some t \<Rightarrow> t))"

section \<open>Contents\<close>

lemma place_parts_concat:
  "length p = i \<Longrightarrow> place_parts i bs (p @ replicate (sum_list (map length bs)) 0) = p @ concat bs"
proof (induction bs arbitrary: p i)
  case (Cons b bs)
  then show ?case using Cons.IH [of "p @ b" "i + length b"] by (simp add: write_at_def)
qed simp

text \<open>The parts stand one after the other.\<close>

lemma processBlobParts_concat: "processBlobParts utf8 parts e = js_bind (collect_parts utf8 e parts) (\<lambda>bs. Inr (concat bs))"
  using place_parts_concat [of "[]" 0] by (cases "collect_parts utf8 e parts") (simp_all add: processBlobParts_def)

lemma byte_elements: "bytes_ok b \<Longrightarrow> map (\<lambda>x. nat (x mod 256)) (map int b) = b"
  by (induction b) (auto simp: nat_mod_distrib)

lemma blob_slice_bytes:
  assumes "bytes_ok (blob_buffer b)"
  shows "blob_slice lower utf8 b start stop None = Inr \<lparr>blob_type = [], blob_buffer =
    slice (blob_buffer b) (clamp_index (int (blob_size b)) (case start of None \<Rightarrow> 0 | Some i \<Rightarrow> i))
      (clamp_index (int (blob_size b)) (case stop of None \<Rightarrow> int (blob_size b) | Some j \<Rightarrow> j))\<rparr>"
proof -
  have "bytes_ok (slice (blob_buffer b) i j)" for i j
    using assms set_take_subset set_drop_subset unfolding slice_def by (metis in_set_dropD in_set_takeD)
  then show ?thesis using byte_elements unfolding blob_size_def
    by (simp add: blob_slice_def Let_def new_Blob_def processBlobParts_concat part_bytes_def)
qed

text \<open>A blob that is cut at any position, also one given from the end or out of range, can be put together again:
  the blob of the two slices has the bytes of the first.\<close>

theorem blob_cut_join:
  assumes "bytes_ok (blob_buffer b)"
  shows "js_bind (blob_slice lower utf8 b None (Some k) None) (\<lambda>x.
      js_bind (blob_slice lower utf8 b (Some k) None None) (\<lambda>y.
        new_Blob lower utf8 (Some [BlobPart (blob_buffer x), BlobPart (blob_buffer y)]) Transparent [])) =
    Inr \<lparr>blob_type = [], blob_buffer = blob_buffer b\<rparr>"
proof -
  let ?k = "clamp_index (int (blob_size b)) k"
  have "clamp_index (int (blob_size b)) 0 = 0" "clamp_index (int (blob_size b)) (int (blob_size b)) = blob_size b" "?k \<le> blob_size b"
    by (simp_all add: clamp_index_def nat_le_iff)
  then show ?thesis unfolding blob_slice_bytes [OF assms]
    by (simp add: new_Blob_def processBlobParts_concat part_bytes_def slice_def blob_size_def)
qed

theorem blob_cut_join_witness:
  "js_bind (blob_slice ascii_lower (\<lambda>s. s) \<lparr>blob_type = [], blob_buffer = [1, 2, 3]\<rparr> None (Some (- 1)) None) (\<lambda>x.
      js_bind (blob_slice ascii_lower (\<lambda>s. s) \<lparr>blob_type = [], blob_buffer = [1, 2, 3]\<rparr> (Some (- 1)) None None) (\<lambda>y.
        new_Blob ascii_lower (\<lambda>s. s) (Some [BlobPart (blob_buffer x), BlobPart (blob_buffer y)]) Transparent [])) =
    Inr \<lparr>blob_type = [], blob_buffer = [1, 2, 3]\<rparr>"
  using blob_cut_join [of "\<lparr>blob_type = [], blob_buffer = [1, 2, 3]\<rparr>" ascii_lower "\<lambda>s. s" "- 1"] by simp

section \<open>Line endings, as meant\<close>

fun unix_endings :: "jsstr \<Rightarrow> jsstr" where
  "unix_endings [] = []"
| "unix_endings [c] = (if c = 13 then [10] else [c])"
| "unix_endings (c # d # s) =
     (if c = 13 then if d = 10 then 10 # unix_endings s else 10 # unix_endings (d # s) else c # unix_endings (d # s))"

text \<open>No carriage return follows another line ending that has one.\<close>

fun endings_apart :: "jsstr \<Rightarrow> bool" where
  "endings_apart [] = True"
| "endings_apart [c] = True"
| "endings_apart (c # d # s) =
     (if c = 13 then if d = 10 then (case s of [] \<Rightarrow> True | e # t \<Rightarrow> e \<noteq> 13) \<and> endings_apart s else d \<noteq> 13 \<and> endings_apart (d # s)
      else endings_apart (d # s))"

lemma unix_endings_other: "c \<noteq> 13 \<Longrightarrow> unix_endings (c # s) = c # unix_endings s"
  by (cases s) auto

lemma endings_apart_other: "c \<noteq> 13 \<Longrightarrow> endings_apart (c # s) = endings_apart s"
  by (cases s) auto

lemma native_endings: "endings_apart s \<Longrightarrow> convertLineEndingsToNative s = unix_endings s"
  by (induction s rule: convertLineEndingsToNative.induct)
    (auto simp: unix_endings_other endings_apart_other split: list.splits if_splits)

text \<open>Without that, an ending is missed; and a buffer gives zeros.\<close>

lemma second_ending_missed: "convertLineEndingsToNative [13, 10, 13, 10] = [10, 13, 10]"
  by simp

lemma buffer_part_zeros: "processBlobParts utf8 [BufferPart [1, 2]] Transparent = Inr [0, 0]"
  by (simp add: processBlobParts_concat part_bytes_def)

end
