(* ===== verification/Spec2Isabelle.thy ===== *)
theory Spec2Isabelle
  imports Path Url_Sets_Standard Url_Roundtrip Util Async_Queue Websocket Http Dns Binary Pg Events Mime Encoding Html Writable_Live Readable_Live Byte_Reads Timers Loop Pg_Auth Fetch Blob
begin

text \<open>
  Stealify: a verification development of the JavaScript libraries of the runtime.

  \<^bold>\<open>The program.\<close>  Stealify is a JavaScript runtime on V8.  Its C++ side binds the engine to the kernel; what
  programs see is written in JavaScript, in two families of libraries.  The files under \<open>src/src/lib\<close> are the
  small system libraries: the event loop, paths, byte-level parsers and writers for HTTP, web sockets, DNS,
  PostgreSQL and network packets, and a template compiler.  The files under \<open>src/packages/zero/lib\<close> implement the
  web platform: URLs, events, timers, streams, text encodings, MIME types.  The parsers are called by the event
  loop's callbacks with the bytes that were read into a buffer they share; the classes of the web
  platform are called by programs, and call back into them.  This development models the code that has logic of its
  own; its paths below are those of the source comments of each theory.

  \<^bold>\<open>The model.\<close>  Strings are lists of UTF-16 code units (\<open>jsstr\<close>), buffers are lists of bytes with an explicit
  length, numbers are \<open>nat\<close> or \<open>int\<close> where the code stays exact and words or written-out 32-bit
  wrap-around where it shifts.  An exception is the \<open>Inl\<close> of a result (\<open>js_result\<close>, or \<open>reason + 'a\<close> where
  programs can throw any value); a state that is changed before an exception is returned along with it.  Objects
  with identity (listeners, promises, readers, writers, timers) are numbers into a list of the state.  What the engine, the
  kernel or a program supplies is a parameter: native text codecs, upper and lower case, \<open>localeCompare\<close>,
  \<open>epoll_ctl\<close>, \<open>Math.random\<close>, callbacks, size functions, handlers.  What is relied on of a parameter is a hypothesis
  with a name (for example \<open>epoll_laws\<close>, \<open>ascii_transparent\<close>), shown to hold for a concrete one by a witness.

  \<^bold>\<open>The theories\<close>, with the groups of definitions and lemmas in each:

  \<^item> \<open>Prelude\<close>: strings, results, numerals and their round trips, generic facts on lists, collections of
    rewrite rules.  \<open>Bytes\<close>: \<open>ArrayBuffer\<close>, \<open>DataView\<close> and the operations that \<open>stealify.js\<close> installs over
    those of \<open>sys.cc\<close>; the locale of byte-wise parsers, whose two clients are HTTP and web sockets.
  \<^item> \<open>Path\<close> (\<open>lib/path.js\<close>): the one-pass loop of \<open>normalizeString\<close> equals a fold over segments; \<open>normalize\<close> is
    idempotent and never leaves an absolute root.
  \<^item> \<open>Url_Sets\<close>, \<open>Url_Host\<close>, \<open>Url_Parser\<close>, \<open>Url_Invariant\<close>, \<open>Url_Params\<close>, \<open>Url\<close>, \<open>Url_Runs\<close>, \<open>Url_Roundtrip\<close>,
    \<open>Url_Sets_Standard\<close> (\<open>whatwg/url.js\<close>, \<open>url/parser.js\<close>, \<open>url/encode_sets.js\<close>): hosts with IPv4 and IPv6, the state
    machine with one definition per state, its invariant, search parameters, the URL class.  The lemmas show that
    the parser never throws and gives well-formed records, that the serialisers and parsers are inverse, and that the
    class keeps a URL and its parameters in step.  The loop of the parser is a function on the
    remaining input with a lexicographic measure on states, so it is total.
  \<^item> \<open>Util\<close> and \<open>Async_Queue\<close> (\<open>util.js\<close>): base64 against RFC 4648; the job queue never exceeds its concurrency.
  \<^item> \<open>Websocket\<close>, \<open>Http\<close>, \<open>Dns\<close>, \<open>Packet\<close>, \<open>Binary\<close>, \<open>Pg\<close> (\<open>lib/websocket.js\<close>, \<open>http/http.js\<close>, \<open>dns/protocol.js\<close>,
    \<open>packet/packet.js\<close>, \<open>binary/binary.js\<close>, \<open>pg/protocol.js\<close>): the parsers as they run over buffers, chunk by chunk,
    with their cursors; round trips with the writers, and what they do with messages split over reads.
    Loops that need not end return \<open>None\<close> when they do not (\<open>Websocket\<close>).
  \<^item> \<open>Md5\<close>, \<open>Md5_Correct\<close> (\<open>pg/md5.js\<close>): the hash as the code has it, with its buffer of one block and a word and the
    first block folded into constants, and the proof that it is the MD5 of RFC 1321 for messages of any length in any pieces.
    \<open>Pg_Auth\<close> (\<open>md5AuthMessage\<close> of \<open>pg/protocol.js\<close>): the password message that rests on it, and the UTF-8 of the strings.
  \<^item> \<open>Events\<close> (\<open>whatwg/events.js\<close>): events, listeners and dispatch, with callbacks that may change the listeners.
  \<^item> \<open>Mime\<close>, \<open>Encoding\<close>, \<open>Html\<close> (\<open>mime.js\<close>, \<open>whatwg/encoding.js\<close>, \<open>lib/html/html.js\<close>): MIME types, encoding labels,
    the template tokenizer, parser and escaping.
  \<^item> \<open>Fetch\<close>, \<open>Blob\<close> (\<open>whatwg/fetch.js\<close>, \<open>w3/blob.js\<close>): headers with their iteration, form data and responses; the parts,
    line endings and slices of blobs.  Headers refine a multimap over names in lower case; a blob that is cut can be joined.
  \<^item> \<open>Stream_Base\<close>, \<open>Writable\<close>, \<open>Writable_Safety\<close>, \<open>Writable_Live\<close>, \<open>Readable\<close>, \<open>Readable_Safety\<close>, \<open>Readable_Fifo\<close>,
    \<open>Readable_Live\<close> (\<open>whatwg/streams/helpers.js\<close>, \<open>writable.js\<close>, \<open>readable.js\<close>): the streams as step relations over
    calls of the program and reactions to the promises of the sink or source.  The base has the procedures with
    exceptions and the two judgements of the proofs: \<open>safe I\<close> (no assertion fails and \<open>I\<close> holds at the end)
    and \<open>keeps I\<close> (a property of the state is kept, however the procedure ends).  The lemmas show that no assertion of
    the code can fail, that backpressure is what the sizes say, that a readable stream refines a queue, and that
    requests which the code means to settle are never settled, because it looks for their functions under the wrong keys.
  \<^item> \<open>Byte_Stream\<close>, \<open>Byte_Safety\<close>, \<open>Byte_Reads\<close> (\<open>readable.js\<close>): the byte controllers with their pull-into descriptors,
    requests and readers into buffers.  The invariant of the data (entries and descriptors lie in their buffers) holds in
    every run, no assertion fails under the condition on the source that the counterexamples there show to be needed, and a
    read takes a prefix of the queued bytes.  Buffers are values: a transfer hands the bytes on, and
    only the view of a request remembers that its buffer went away.
  \<^item> \<open>Timers\<close> (\<open>whatwg/timers.js\<close>): the queue of timers and its wake-up, with handlers that set and clear timers.
  \<^item> \<open>Loop\<close> (\<open>lib/loop.js\<close>): the event loop over a parameter for the kernel; \<open>run\<close> has fuel, one unit for each turn, and
    is \<open>None\<close> while it goes on.  Three units are enough when nothing is watched (\<open>run_nothing\<close>).

  \<^bold>\<open>Bugs.\<close>  Where the code does not do what it means to, the model does what the code does, a lemma named in the
  theory shows it, and the properties are stated so that they hold of the code.

  \<^bold>\<open>Not modelled\<close>: \<open>pipeTo\<close>, \<open>tee\<close> and transform streams; requests and bodies of \<open>fetch\<close>, whose
  readers are stubs, the console, value
  inspection and the read-eval-print loops, which format arbitrary values; the module loaders, which drive the
  engine; the wrappers of system calls (sockets, files, processes, \<open>ffi\<close>); the connection layers of PostgreSQL
  and DNS; the build tools, which write C++ and make files; the vendored libraries and examples under \<open>modules\<close>
  and \<open>examples\<close>; and the C++ sources, apart from the byte operations that the libraries rest on.
\<close>

end
